(* ===== verification/Sepol_Prelude.thy ===== *)
theory Sepol_Prelude
  imports Main "HOL-Library.Word"
begin

section \<open>Shared vocabulary of the development\<close>

text \<open>
  This theory holds what the component theories share: the fixed-width integer types of
  the C sources, the error codes the functions return, the model of \<open>malloc\<close>, the
  little-endian byte encoding of the binary policy format, and the generic lemmas on words
  and lists that carry the component proofs.
\<close>

unbundle bit_operations_syntax

type_synonym u8 = "8 word"
type_synonym u16 = "16 word"
type_synonym u32 = "32 word"
type_synonym u64 = "64 word"

text \<open>Collections of facts: the laws of the machine-word layer, and the introduction
  rules that establish a component's invariant.\<close>

named_theorems word_laws
named_theorems invar_intros

subsection \<open>Error codes\<close>

text \<open>The error returns of the modelled functions. \<open>EFAIL\<close> is the plain \<open>-1\<close>
  that many functions return without an \<open>errno\<close> value; \<open>EFAULT\<close> stands for the access to a
  null pointer, which ends the program.\<close>

datatype errno = EFAIL | ENOMEM | EINVAL | EOVERFLOW | EEXIST | ENOENT | EPERM | EACCES | EFAULT

subsection \<open>Dynamic memory\<close>

text \<open>
  Every allocation may fail, and the code checks for it. A heap state is the list of the
  outcomes of the allocations to come (\<open>True\<close>: the allocation succeeds); once the list is
  used up every further allocation succeeds. A function that allocates takes the heap
  state and returns the remaining one, so that every schedule with finitely many failures
  is covered, and \<open>[]\<close> is the schedule in which memory never runs out.
\<close>

type_synonym heap = "bool list"

definition malloc :: "heap \<Rightarrow> bool \<times> heap" where
  "malloc h = (case h of [] \<Rightarrow> (True, []) | b # bs \<Rightarrow> (b, bs))"

text \<open>A loop that allocates one cell per element of a result list and gives up at the
  first failure, releasing what it built.\<close>

fun malloc_list :: "heap \<Rightarrow> 'a list \<Rightarrow> (errno + 'a list) \<times> heap" where
  "malloc_list h [] = (Inr [], h)"
| "malloc_list h (x # xs) =
     (case malloc h of
        (False, h') \<Rightarrow> (Inl ENOMEM, h')
      | (True, h') \<Rightarrow>
          (case malloc_list h' xs of
             (Inl e, h'') \<Rightarrow> (Inl e, h'')
           | (Inr ys, h'') \<Rightarrow> (Inr (x # ys), h'')))"

text \<open>No allocation of the schedule fails.\<close>

abbreviation mem_ok :: "heap \<Rightarrow> bool" where
  "mem_ok h \<equiv> False \<notin> set h"

lemma malloc_Nil [simp]: "malloc [] = (True, [])"
  by (simp add: malloc_def)

lemma malloc_mem_ok: "mem_ok h \<Longrightarrow> \<exists>h'. malloc h = (True, h') \<and> mem_ok h'"
  by (cases h) (auto simp: malloc_def)

lemma malloc_fail_not_ok: "malloc h = (False, h') \<Longrightarrow> \<not> mem_ok h"
  by (cases h) (auto simp: malloc_def)

lemma malloc_list_Nil [simp]: "malloc_list [] xs = (Inr xs, [])"
  by (induction xs) auto

lemma malloc_list_Inr: "malloc_list h xs = (Inr ys, h') \<Longrightarrow> ys = xs"
  by (induction xs arbitrary: h ys h')
    (auto split: prod.splits sum.splits bool.splits)

lemma malloc_list_Inl:
  "malloc_list h xs = (Inl e, h') \<Longrightarrow> e = ENOMEM \<and> \<not> mem_ok h"
proof (induction xs arbitrary: h)
  case (Cons x xs)
  then show ?case
    by (cases h) (auto simp: malloc_def split: prod.splits sum.splits bool.splits)
qed simp

lemma malloc_list_mem_ok: "mem_ok h \<Longrightarrow> \<exists>h'. malloc_list h xs = (Inr xs, h') \<and> mem_ok h'"
proof (induction xs arbitrary: h)
  case (Cons x xs)
  obtain h' where m: "malloc h = (True, h')" "mem_ok h'"
    using malloc_mem_ok [OF Cons.prems] by blast
  obtain h'' where "malloc_list h' xs = (Inr xs, h'')" "mem_ok h''"
    using Cons.IH [OF m(2)] by blast
  with m show ?case by simp
qed simp

subsection \<open>Little-endian byte encoding\<close>

text \<open>\<open>le_nat\<close> reads a byte string as a little-endian number, as the
  \<open>le16_to_cpu\<close>, \<open>le32_to_cpu\<close> and \<open>le64_to_cpu\<close> macros read the buffers
  of the binary policy; \<open>le_bytes k\<close> is the \<open>k\<close>-byte encoding the
  \<open>cpu_to_le\<close> macros write.\<close>

fun le_nat :: "u8 list \<Rightarrow> nat" where
  "le_nat [] = 0"
| "le_nat (b # bs) = unat b + 256 * le_nat bs"

fun le_bytes :: "nat \<Rightarrow> nat \<Rightarrow> u8 list" where
  "le_bytes 0 n = []"
| "le_bytes (Suc k) n = word_of_nat (n mod 256) # le_bytes k (n div 256)"

lemma length_le_bytes [simp]: "length (le_bytes k n) = k"
  by (induction k arbitrary: n) auto

lemma le_nat_le_bytes: "n < 256 ^ k \<Longrightarrow> le_nat (le_bytes k n) = n"
proof (induction k arbitrary: n)
  case (Suc k)
  have "n div 256 < 256 ^ k"
    using Suc.prems by (simp add: less_mult_imp_div_less mult.commute)
  then have "le_nat (le_bytes k (n div 256)) = n div 256"
    by (rule Suc.IH)
  moreover have "unat (word_of_nat (n mod 256) :: u8) = n mod 256"
    by (simp add: unat_of_nat)
  ultimately show ?case by simp
qed simp

definition le16 :: "u8 list \<Rightarrow> u16" where
  "le16 bs = word_of_nat (le_nat bs)"

definition put16 :: "u16 \<Rightarrow> u8 list" where
  "put16 w = le_bytes 2 (unat w)"

definition le32 :: "u8 list \<Rightarrow> u32" where
  "le32 bs = word_of_nat (le_nat bs)"

definition le64 :: "u8 list \<Rightarrow> u64" where
  "le64 bs = word_of_nat (le_nat bs)"

definition put32 :: "u32 \<Rightarrow> u8 list" where
  "put32 w = le_bytes 4 (unat w)"

definition put64 :: "u64 \<Rightarrow> u8 list" where
  "put64 w = le_bytes 8 (unat w)"

lemma length_put32 [simp]: "length (put32 w) = 4"
  by (simp add: put32_def)

lemma length_put64 [simp]: "length (put64 w) = 8"
  by (simp add: put64_def)

lemma length_put16 [simp]: "length (put16 w) = 2"
  by (simp add: put16_def)

lemma le16_put16 [simp]: "le16 (put16 w) = w"
proof -
  have "unat w < 256 ^ 2" by (rule less_le_trans [OF unsigned_less]) simp
  then show ?thesis by (simp add: le16_def put16_def le_nat_le_bytes)
qed

text \<open>An array of little-endian words.\<close>

fun le32s :: "nat \<Rightarrow> u8 list \<Rightarrow> u32 list" where
  "le32s 0 bs = []"
| "le32s (Suc n) bs = le32 (take 4 bs) # le32s n (drop 4 bs)"

lemma length_le32s [simp]: "length (le32s n bs) = n"
  by (induction n arbitrary: bs) auto

lemma le32_put32 [simp]: "le32 (put32 w) = w"
proof -
  have "unat w < 256 ^ 4" by (rule less_le_trans [OF unsigned_less]) simp
  then show ?thesis by (simp add: le32_def put32_def le_nat_le_bytes)
qed

lemma le32s_put32 [simp]: "le32s (length ws) (concat (map put32 ws)) = ws"
  by (induction ws) auto

lemma le64_put64 [simp]: "le64 (put64 w) = w"
proof -
  have "unat w < 256 ^ 8" by (rule less_le_trans [OF unsigned_less]) simp
  then show ?thesis by (simp add: le64_def put64_def le_nat_le_bytes)
qed

subsection \<open>Words\<close>

lemma bit_u64_bound: "bit (w :: u64) i \<Longrightarrow> i < 64"
  using bit_imp_le_length [of w i] by simp

lemma u64_eq_0_iff: "(w :: u64) = 0 \<longleftrightarrow> (\<forall>i. \<not> bit w i)"
  by (auto simp: bit_eq_iff dest: bit_u64_bound)

lemma u64_neq_0_bit: "(w :: u64) \<noteq> 0 \<Longrightarrow> \<exists>i<64. bit w i"
  by (meson bit_u64_bound u64_eq_0_iff)

lemma bit_single_u64 [word_laws]: "bit (push_bit k 1 :: u64) i \<longleftrightarrow> i = k \<and> k < 64"
  by (auto simp: bit_exp_iff)

lemma unat_u32_less: "unat (w :: u32) < 4294967296"
  by (rule less_le_trans [OF unsigned_less]) simp

lemma unat_u64_less: "unat (w :: u64) < 18446744073709551616"
  by (rule less_le_trans [OF unsigned_less]) simp

lemma unat_add_no_wrap:
  "unat (a :: u32) + unat b < 2 ^ 32 \<Longrightarrow> unat (a + b) = unat a + unat b"
  by (simp add: unat_word_ariths)

subsection \<open>Lists\<close>

text \<open>Strictly increasing lists, the order the code keeps its chains in.\<close>

lemma sorted_wrt_ConsD:
  "sorted_wrt R (x # xs) \<Longrightarrow> sorted_wrt R xs \<and> (\<forall>y\<in>set xs. R x y)"
  by simp

lemma sorted_wrt_list_update_ConsI [intro]:
  "\<lbrakk>\<forall>y\<in>set xs. R x y; sorted_wrt R xs\<rbrakk> \<Longrightarrow> sorted_wrt R (x # xs)"
  by simp

lemma set_concat_nth: "x \<in> set (concat xss) \<longleftrightarrow> (\<exists>i<length xss. x \<in> set (xss ! i))"
  unfolding set_concat by (metis (no_types, lifting) UN_iff in_set_conv_nth)

end
