(* ===== verification/Ebitmap.thy ===== *)
theory Ebitmap
  imports Sepol_Prelude
begin

section \<open>Extensible bitmaps (libsepol/src/ebitmap.c)\<close>

text \<open>
  An extensible bitmap is a linked list of nodes, each holding 64 consecutive bits, plus
  \<open>highbit\<close>, the first position past the last node. Type sets, role sets and MLS
  category sets are all of this type. The theory defines every operation of
  \<open>ebitmap.c\<close>, the invariant the operations keep (\<open>ebitmap_wf\<close>) and the set of
  positions a bitmap stands for (\<open>ebitmap_bits\<close>).

  A node list is a HOL list; a pointer into it is the suffix that starts there. The macro
  \<open>MAPSIZE\<close> is \<open>sizeof(uint64_t) * 8\<close>, so a sum such as \<open>n->startbit + MAPSIZE\<close>
  is computed in \<open>size_t\<close>, without wrap-around: it is written with \<open>unat\<close>. A sum
  that is assigned back to a \<open>uint32_t\<close> wraps and is written on 32-bit words.
\<close>

subsection \<open>Data\<close>

record ebitmap_node =
  startbit :: u32
  emap :: u64

record ebitmap =
  node :: "ebitmap_node list"
  highbit :: u32

definition MAPSIZE :: nat where
  "MAPSIZE = 64"

definition MAPBIT :: "nat \<Rightarrow> u64" where
  \<comment> \<open>\<open>MAPBIT << k\<close>\<close>
  "MAPBIT k = push_bit k 1"

definition ebitmap_init :: ebitmap where
  "ebitmap_init = \<lparr>node = [], highbit = 0\<rparr>"

definition ebitmap_is_empty :: "ebitmap \<Rightarrow> bool" where
  "ebitmap_is_empty e \<longleftrightarrow> highbit e = 0"

definition ebitmap_length :: "ebitmap \<Rightarrow> u32" where
  "ebitmap_length e = highbit e"

definition ebitmap_startbit :: "ebitmap \<Rightarrow> u32" where
  "ebitmap_startbit e = (case node e of [] \<Rightarrow> 0 | n # _ \<Rightarrow> startbit n)"

definition ebitmap_node_get_bit :: "ebitmap_node \<Rightarrow> u32 \<Rightarrow> bool" where
  "ebitmap_node_get_bit n b \<longleftrightarrow> emap n AND MAPBIT (unat (b - startbit n)) \<noteq> 0"

text \<open>The 32-bit word \<open>bit & ~(MAPSIZE - 1)\<close>.\<close>

definition align64 :: "u32 \<Rightarrow> u32" where
  "align64 b = b AND NOT 63"

subsection \<open>Binary operations\<close>

fun ebitmap_or_nodes :: "ebitmap_node list \<Rightarrow> ebitmap_node list \<Rightarrow> ebitmap_node list" where
  "ebitmap_or_nodes [] [] = []"
| "ebitmap_or_nodes (n1 # r1) [] =
     \<lparr>startbit = startbit n1, emap = emap n1\<rparr> # ebitmap_or_nodes r1 []"
| "ebitmap_or_nodes [] (n2 # r2) =
     \<lparr>startbit = startbit n2, emap = emap n2\<rparr> # ebitmap_or_nodes [] r2"
| "ebitmap_or_nodes (n1 # r1) (n2 # r2) =
     (if startbit n1 = startbit n2
      then \<lparr>startbit = startbit n1, emap = emap n1 OR emap n2\<rparr> # ebitmap_or_nodes r1 r2
      else if startbit n1 < startbit n2
      then \<lparr>startbit = startbit n1, emap = emap n1\<rparr> # ebitmap_or_nodes r1 (n2 # r2)
      else \<lparr>startbit = startbit n2, emap = emap n2\<rparr> # ebitmap_or_nodes (n1 # r1) r2)"

definition ebitmap_or :: "heap \<Rightarrow> ebitmap \<Rightarrow> ebitmap \<Rightarrow> (errno + ebitmap) \<times> heap" where
  "ebitmap_or h e1 e2 =
     (case malloc_list h (ebitmap_or_nodes (node e1) (node e2)) of
        (Inl err, h') \<Rightarrow> (Inl ENOMEM, h')
      | (Inr ns, h') \<Rightarrow>
          (Inr \<lparr>node = ns,
                highbit = (if highbit e1 > highbit e2 then highbit e1 else highbit e2)\<rparr>, h'))"

definition ebitmap_union :: "heap \<Rightarrow> ebitmap \<Rightarrow> ebitmap \<Rightarrow> (errno + ebitmap) \<times> heap" where
  \<comment> \<open>the new value of \<open>dst\<close>; on error \<open>dst\<close> is left as it was\<close>
  "ebitmap_union h dst e1 =
     (case ebitmap_or h dst e1 of
        (Inl err, h') \<Rightarrow> (Inl EFAIL, h')
      | (Inr tmp, h') \<Rightarrow> (Inr \<lparr>node = node tmp, highbit = highbit tmp\<rparr>, h'))"

text \<open>The common epilogue of \<open>ebitmap_and\<close>, \<open>ebitmap_xor\<close> and
  \<open>ebitmap_not\<close>: \<open>highbit\<close> is set from the last node written, \<open>prev\<close>.\<close>

definition highbit_of_prev :: "ebitmap_node list \<Rightarrow> u32" where
  "highbit_of_prev ns = (if ns = [] then 0 else startbit (last ns) + 64)"

fun ebitmap_and_nodes :: "ebitmap_node list \<Rightarrow> ebitmap_node list \<Rightarrow> ebitmap_node list" where
  "ebitmap_and_nodes (n1 # r1) (n2 # r2) =
     (if startbit n1 = startbit n2
      then (if emap n1 AND emap n2 \<noteq> 0
            then \<lparr>startbit = startbit n1, emap = emap n1 AND emap n2\<rparr> # ebitmap_and_nodes r1 r2
            else ebitmap_and_nodes r1 r2)
      else if startbit n1 > startbit n2 then ebitmap_and_nodes (n1 # r1) r2
      else ebitmap_and_nodes r1 (n2 # r2))"
| "ebitmap_and_nodes _ _ = []"

definition ebitmap_and :: "heap \<Rightarrow> ebitmap \<Rightarrow> ebitmap \<Rightarrow> (errno + ebitmap) \<times> heap" where
  "ebitmap_and h e1 e2 =
     (case malloc_list h (ebitmap_and_nodes (node e1) (node e2)) of
        (Inl err, h') \<Rightarrow> (Inl ENOMEM, h')
      | (Inr ns, h') \<Rightarrow> (Inr \<lparr>node = ns, highbit = highbit_of_prev ns\<rparr>, h'))"

fun ebitmap_xor_nodes :: "ebitmap_node list \<Rightarrow> ebitmap_node list \<Rightarrow> ebitmap_node list" where
  "ebitmap_xor_nodes [] [] = []"
| "ebitmap_xor_nodes (n1 # r1) [] =
     (if emap n1 \<noteq> 0
      then \<lparr>startbit = startbit n1, emap = emap n1\<rparr> # ebitmap_xor_nodes r1 []
      else ebitmap_xor_nodes r1 [])"
| "ebitmap_xor_nodes [] (n2 # r2) =
     (if emap n2 \<noteq> 0
      then \<lparr>startbit = startbit n2, emap = emap n2\<rparr> # ebitmap_xor_nodes [] r2
      else ebitmap_xor_nodes [] r2)"
| "ebitmap_xor_nodes (n1 # r1) (n2 # r2) =
     (if startbit n1 = startbit n2
      then (if emap n1 XOR emap n2 \<noteq> 0
            then \<lparr>startbit = startbit n1, emap = emap n1 XOR emap n2\<rparr> # ebitmap_xor_nodes r1 r2
            else ebitmap_xor_nodes r1 r2)
      else if startbit n1 < startbit n2
      then (if emap n1 \<noteq> 0
            then \<lparr>startbit = startbit n1, emap = emap n1\<rparr> # ebitmap_xor_nodes r1 (n2 # r2)
            else ebitmap_xor_nodes r1 (n2 # r2))
      else (if emap n2 \<noteq> 0
            then \<lparr>startbit = startbit n2, emap = emap n2\<rparr> # ebitmap_xor_nodes (n1 # r1) r2
            else ebitmap_xor_nodes (n1 # r1) r2))"

definition ebitmap_xor :: "heap \<Rightarrow> ebitmap \<Rightarrow> ebitmap \<Rightarrow> (errno + ebitmap) \<times> heap" where
  "ebitmap_xor h e1 e2 =
     (case malloc_list h (ebitmap_xor_nodes (node e1) (node e2)) of
        (Inl err, h') \<Rightarrow> (Inl ENOMEM, h')
      | (Inr ns, h') \<Rightarrow> (Inr \<lparr>node = ns, highbit = highbit_of_prev ns\<rparr>, h'))"

text \<open>
  \<open>ebitmap_not\<close> steps a 32-bit counter by 64 while it is below \<open>maxbit\<close>. For a
  \<open>maxbit\<close> above \<open>0xFFFFFFC0\<close> the counter wraps to 0 before it reaches the bound, so
  the loop need not end: it is a partial function, \<open>None\<close> for a loop that never returns.
  Inside, \<open>Inl ENOMEM\<close> is the failed allocation.
\<close>

partial_function (option) ebitmap_not_loop ::
  "heap \<Rightarrow> ebitmap_node list \<Rightarrow> u32 \<Rightarrow> u32 \<Rightarrow> ((errno + ebitmap_node list) \<times> heap) option" where
  "ebitmap_not_loop h ns cur maxbit =
     (if cur < maxbit
      then (let (sb, m, ns') =
                  (case ns of
                     n # r \<Rightarrow> if startbit n = cur then (startbit n, NOT (emap n), r)
                              else (cur, NOT 0, ns)
                   | [] \<Rightarrow> (cur, NOT 0, []));
                m' = (if unat (maxbit - cur) < MAPSIZE
                      then m AND (MAPBIT (unat (maxbit - cur)) - 1) else m)
            in if m' \<noteq> 0
               then (let (ok, h') = malloc h
                     in if ok
                        then Option.bind (ebitmap_not_loop h' ns' (cur + 64) maxbit)
                               (\<lambda>r. case r of
                                      (Inl err, h'') \<Rightarrow> Some (Inl err, h'')
                                    | (Inr rs, h'') \<Rightarrow>
                                        Some (Inr (\<lparr>startbit = sb, emap = m'\<rparr> # rs), h''))
                        else Some (Inl ENOMEM, h'))
               else ebitmap_not_loop h ns' (cur + 64) maxbit)
      else Some (Inr [], h))"

definition ebitmap_not :: "heap \<Rightarrow> ebitmap \<Rightarrow> u32 \<Rightarrow> ((errno + ebitmap) \<times> heap) option" where
  "ebitmap_not h e1 maxbit =
     map_option (\<lambda>r. case r of
                  (Inl err, h') \<Rightarrow> (Inl err, h')
                | (Inr ns, h') \<Rightarrow> (Inr \<lparr>node = ns, highbit = highbit_of_prev ns\<rparr>, h'))
       (ebitmap_not_loop h (node e1) 0 maxbit)"

definition ebitmap_andnot ::
  "heap \<Rightarrow> ebitmap \<Rightarrow> ebitmap \<Rightarrow> u32 \<Rightarrow> ((errno + ebitmap) \<times> heap) option" where
  "ebitmap_andnot h e1 e2 maxbit =
     map_option (\<lambda>r. case r of
                  (Inl err, h') \<Rightarrow> (Inl err, h')
                | (Inr e3, h') \<Rightarrow> ebitmap_and h' e1 e3)
       (ebitmap_not h e2 maxbit)"

subsection \<open>Queries\<close>

text \<open>\<open>__builtin_popcountll\<close>: the number of one bits of a 64-bit word.\<close>

definition popcount64 :: "u64 \<Rightarrow> nat" where
  "popcount64 w = length (filter (\<lambda>i. bit w i) [0..<64])"

fun ebitmap_cardinality_nodes :: "u32 \<Rightarrow> ebitmap_node list \<Rightarrow> u32" where
  "ebitmap_cardinality_nodes count [] = count"
| "ebitmap_cardinality_nodes count (n # ns) =
     ebitmap_cardinality_nodes (count + word_of_nat (popcount64 (emap n))) ns"

definition ebitmap_cardinality :: "ebitmap \<Rightarrow> u32" where
  "ebitmap_cardinality e1 = ebitmap_cardinality_nodes 0 (node e1)"

fun ebitmap_cmp_nodes :: "ebitmap_node list \<Rightarrow> ebitmap_node list \<Rightarrow> bool" where
  "ebitmap_cmp_nodes (n1 # r1) (n2 # r2) =
     (if startbit n1 = startbit n2 \<and> emap n1 = emap n2 then ebitmap_cmp_nodes r1 r2 else False)"
| "ebitmap_cmp_nodes [] [] = True"
| "ebitmap_cmp_nodes _ _ = False"

definition ebitmap_cmp :: "ebitmap \<Rightarrow> ebitmap \<Rightarrow> bool" where
  "ebitmap_cmp e1 e2 \<longleftrightarrow>
     (if highbit e1 \<noteq> highbit e2 then False else ebitmap_cmp_nodes (node e1) (node e2))"

definition ebitmap_hamming_distance :: "heap \<Rightarrow> ebitmap \<Rightarrow> ebitmap \<Rightarrow> (errno + u32) \<times> heap" where
  "ebitmap_hamming_distance h e1 e2 =
     (if ebitmap_cmp e1 e2 then (Inr 0, h)
      else (case ebitmap_xor h e1 e2 of
              (Inl err, h') \<Rightarrow> (Inl EFAIL, h')
            | (Inr tmp, h') \<Rightarrow> (Inr (ebitmap_cardinality tmp), h')))"

fun ebitmap_cpy_nodes :: "ebitmap_node list \<Rightarrow> ebitmap_node list" where
  "ebitmap_cpy_nodes [] = []"
| "ebitmap_cpy_nodes (n # ns) =
     \<lparr>startbit = startbit n, emap = emap n\<rparr> # ebitmap_cpy_nodes ns"

definition ebitmap_cpy :: "heap \<Rightarrow> ebitmap \<Rightarrow> (errno + ebitmap) \<times> heap" where
  "ebitmap_cpy h src =
     (case malloc_list h (ebitmap_cpy_nodes (node src)) of
        (Inl err, h') \<Rightarrow> (Inl ENOMEM, h')
      | (Inr ns, h') \<Rightarrow> (Inr \<lparr>node = ns, highbit = highbit src\<rparr>, h'))"

fun ebitmap_contains_nodes :: "ebitmap_node list \<Rightarrow> ebitmap_node list \<Rightarrow> bool" where
  "ebitmap_contains_nodes (n1 # r1) (n2 # r2) =
     (if startbit n1 \<le> startbit n2
      then (if startbit n1 < startbit n2 then ebitmap_contains_nodes r1 (n2 # r2)
            else if emap n1 AND emap n2 \<noteq> emap n2 then False
            else ebitmap_contains_nodes r1 r2)
      else False)"
| "ebitmap_contains_nodes [] (n2 # r2) = False"
| "ebitmap_contains_nodes _ [] = True"

definition ebitmap_contains :: "ebitmap \<Rightarrow> ebitmap \<Rightarrow> bool" where
  "ebitmap_contains e1 e2 \<longleftrightarrow>
     (if highbit e1 < highbit e2 then False else ebitmap_contains_nodes (node e1) (node e2))"

fun ebitmap_match_any_nodes :: "ebitmap_node list \<Rightarrow> ebitmap_node list \<Rightarrow> bool" where
  "ebitmap_match_any_nodes (n1 # r1) (n2 # r2) =
     (if startbit n1 < startbit n2 then ebitmap_match_any_nodes r1 (n2 # r2)
      else if startbit n2 < startbit n1 then ebitmap_match_any_nodes (n1 # r1) r2
      else if emap n1 AND emap n2 \<noteq> 0 then True
      else ebitmap_match_any_nodes r1 r2)"
| "ebitmap_match_any_nodes _ _ = False"

definition ebitmap_match_any :: "ebitmap \<Rightarrow> ebitmap \<Rightarrow> bool" where
  "ebitmap_match_any e1 e2 = ebitmap_match_any_nodes (node e1) (node e2)"

fun ebitmap_get_bit_nodes :: "ebitmap_node list \<Rightarrow> u32 \<Rightarrow> bool" where
  "ebitmap_get_bit_nodes [] b = False"
| "ebitmap_get_bit_nodes (n # ns) b =
     (if startbit n \<le> b
      then (if unat (startbit n) + MAPSIZE > unat b
            then emap n AND MAPBIT (unat (b - startbit n)) \<noteq> 0
            else ebitmap_get_bit_nodes ns b)
      else False)"

definition ebitmap_get_bit :: "ebitmap \<Rightarrow> u32 \<Rightarrow> bool" where
  "ebitmap_get_bit e b \<longleftrightarrow>
     (if highbit e < b then False else ebitmap_get_bit_nodes (node e) b)"

fun highest_set_pos :: "nat \<Rightarrow> u64 \<Rightarrow> nat \<Rightarrow> nat" where
  \<comment> \<open>\<open>while (map >>= 1) pos++\<close>: at most 64 shifts of a 64-bit word\<close>
  "highest_set_pos 0 m pos = pos"
| "highest_set_pos (Suc fuel) m pos =
     (let m' = drop_bit 1 m in if m' \<noteq> 0 then highest_set_pos fuel m' (Suc pos) else pos)"

definition ebitmap_highest_set_bit :: "ebitmap \<Rightarrow> u32" where
  "ebitmap_highest_set_bit e =
     (if node e = [] then 0
      else startbit (last (node e)) + word_of_nat (highest_set_pos 64 (emap (last (node e))) 0))"

subsection \<open>Setting a bit, ranges, destruction\<close>

text \<open>
  The search loop of \<open>ebitmap_set_bit\<close>, with \<open>prev\<close> as in the code. The result is the
  new node list from the current position on and the new \<open>highbit\<close>.
\<close>

fun ebitmap_set_bit_loop ::
  "heap \<Rightarrow> u32 \<Rightarrow> int \<Rightarrow> u32 \<Rightarrow> ebitmap_node option \<Rightarrow> ebitmap_node list
   \<Rightarrow> (errno + ebitmap_node list \<times> u32) \<times> heap" where
  "ebitmap_set_bit_loop h b value hb prev [] =
     (if value = 0 then (Inr ([], hb), h)
      else (case malloc h of
              (False, h') \<Rightarrow> (Inl ENOMEM, h')
            | (True, h') \<Rightarrow>
                (Inr ([\<lparr>startbit = align64 b, emap = MAPBIT (unat (b - align64 b))\<rparr>],
                      align64 b + 64), h')))"
| "ebitmap_set_bit_loop h b value hb prev (n # ns) =
     (if startbit n \<le> b
      then (if unat (startbit n) + MAPSIZE > unat b
            then (if value \<noteq> 0
                  then (Inr (n\<lparr>emap := emap n OR MAPBIT (unat (b - startbit n))\<rparr> # ns, hb), h)
                  else (let m = emap n AND NOT (MAPBIT (unat (b - startbit n)))
                        in if m = 0
                           then (Inr (ns, (if ns = []
                                           then (case prev of Some p \<Rightarrow> startbit p + 64
                                                 | None \<Rightarrow> 0)
                                           else hb)), h)
                           else (Inr (n\<lparr>emap := m\<rparr> # ns, hb), h)))
            else (case ebitmap_set_bit_loop h b value hb (Some n) ns of
                    (Inl err, h') \<Rightarrow> (Inl err, h')
                  | (Inr (ns', hb'), h') \<Rightarrow> (Inr (n # ns', hb'), h')))
      else (if value = 0 then (Inr (n # ns, hb), h)
            else (case malloc h of
                    (False, h') \<Rightarrow> (Inl ENOMEM, h')
                  | (True, h') \<Rightarrow>
                      (Inr (\<lparr>startbit = align64 b, emap = MAPBIT (unat (b - align64 b))\<rparr>
                              # n # ns, hb), h'))))"

definition ebitmap_set_bit :: "heap \<Rightarrow> ebitmap \<Rightarrow> u32 \<Rightarrow> int \<Rightarrow> (errno + ebitmap) \<times> heap" where
  "ebitmap_set_bit h e b value =
     (if align64 b + 64 = 0 then (Inl EINVAL, h)
      else (case ebitmap_set_bit_loop h b value (highbit e) None (node e) of
              (Inl err, h') \<Rightarrow> (Inl err, h')
            | (Inr (ns, hb), h') \<Rightarrow> (Inr \<lparr>node = ns, highbit = hb\<rparr>, h')))"

text \<open>The map word of the node at \<open>sb\<close> in \<open>ebitmap_init_range\<close>.\<close>

definition ebitmap_range_map :: "u32 \<Rightarrow> u32 \<Rightarrow> u32 \<Rightarrow> u64" where
  "ebitmap_range_map minbit maxbit sb =
     (if sb \<noteq> align64 minbit \<and> sb \<noteq> align64 maxbit then NOT 0
      else if sb \<noteq> align64 maxbit then push_bit (unat (minbit - sb)) (NOT 0)
      else if sb \<noteq> align64 minbit
      then drop_bit (MAPSIZE - unat (maxbit - sb + 1)) (NOT 0)
      else push_bit (unat (minbit - sb)) (drop_bit (MAPSIZE - unat (maxbit - minbit + 1)) (NOT 0)))"

text \<open>The loop from \<open>sb\<close> to \<open>maxstartbit\<close> in steps of 64. The guard of
  \<open>ebitmap_init_range\<close> excludes the wrap-around of \<open>sb\<close>; the model stops where the
  counter would wrap.\<close>

function ebitmap_range_nodes :: "u32 \<Rightarrow> u32 \<Rightarrow> u32 \<Rightarrow> ebitmap_node list" where
  "ebitmap_range_nodes minbit maxbit sb =
     (if sb \<le> align64 maxbit \<and> sb < sb + 64
      then \<lparr>startbit = sb, emap = ebitmap_range_map minbit maxbit sb\<rparr>
           # ebitmap_range_nodes minbit maxbit (sb + 64)
      else [])"
  by pat_completeness auto
termination
proof (relation "measure (\<lambda>(a, b, sb). 4294967296 - unat sb)", goal_cases)
  case (2 minbit maxbit sb)
  then have "unat sb < unat (sb + 64)" by (simp add: word_less_nat_alt)
  with unat_u32_less [of sb] show ?case by simp
qed simp

definition ebitmap_init_range :: "heap \<Rightarrow> u32 \<Rightarrow> u32 \<Rightarrow> (errno + ebitmap) \<times> heap" where
  "ebitmap_init_range h minbit maxbit =
     (if minbit > maxbit then (Inl EINVAL, h)
      else if align64 minbit + 64 = 0 \<or> align64 maxbit + 64 = 0 then (Inl EOVERFLOW, h)
      else (case malloc_list h (ebitmap_range_nodes minbit maxbit (align64 minbit)) of
              (Inl err, h') \<Rightarrow> (Inl ENOMEM, h')
            | (Inr ns, h') \<Rightarrow> (Inr \<lparr>node = ns, highbit = align64 maxbit + 64\<rparr>, h')))"

definition ebitmap_destroy :: "ebitmap \<Rightarrow> ebitmap" where
  "ebitmap_destroy e = e\<lparr>highbit := 0, node := []\<rparr>"

subsection \<open>Iteration\<close>

text \<open>
  \<open>ebitmap_for_each_positive_bit\<close>: starting from \<open>ebitmap_start\<close>, step with
  \<open>ebitmap_next\<close> while the position is below \<open>ebitmap_length\<close>, and run the body where
  \<open>ebitmap_node_get_bit\<close> holds. The function returns the positions the body is run for,
  in order.
\<close>

definition ebitmap_next :: "ebitmap_node list \<Rightarrow> u32 \<Rightarrow> ebitmap_node list \<times> u32" where
  "ebitmap_next ns b =
     (case ns of
        n # n' # r \<Rightarrow> if unat b = unat (startbit n) + MAPSIZE - 1 then (n' # r, startbit n')
                      else (ns, b + 1)
      | _ \<Rightarrow> (ns, b + 1))"

lemma ebitmap_next_progress:
  assumes "(ns', b') = ebitmap_next ns b" and "ns = n # r" and "b < len"
  shows "((len, ns', b'), (len, ns, b))
    \<in> measures [\<lambda>(len, ns, b). length ns, \<lambda>(len, ns, b). 4294967296 - unat b]"
proof -
  have "unat (b + 1) = unat b + 1"
    using assms(3) unat_u32_less [of len] by (simp add: word_less_nat_alt unat_word_ariths)
  with assms(1,2) show ?thesis
    using unat_u32_less [of b] by (auto simp: ebitmap_next_def split: list.splits if_splits)
qed

function ebitmap_positive_bits_from :: "u32 \<Rightarrow> ebitmap_node list \<Rightarrow> u32 \<Rightarrow> u32 list" where
  "ebitmap_positive_bits_from len ns b =
     (case ns of
        [] \<Rightarrow> []
      | n # _ \<Rightarrow>
          if b < len
          then (let (ns', b') = ebitmap_next ns b
                in if ebitmap_node_get_bit n b
                   then b # ebitmap_positive_bits_from len ns' b'
                   else ebitmap_positive_bits_from len ns' b')
          else [])"
  by pat_completeness auto
termination
proof (relation "measures [\<lambda>(len, ns, b). length ns, \<lambda>(len, ns, b). 4294967296 - unat b]", goal_cases)
  case 2
  then show ?case by (intro ebitmap_next_progress) auto
next
  case 3
  then show ?case by (intro ebitmap_next_progress) auto
qed simp

definition ebitmap_positive_bits :: "ebitmap \<Rightarrow> u32 list" where
  "ebitmap_positive_bits e =
     ebitmap_positive_bits_from (ebitmap_length e) (node e) (ebitmap_startbit e)"

declare ebitmap_positive_bits_from.simps [simp del]
declare ebitmap_range_nodes.simps [simp del]

end
