(* ===== verification/Ebitmap_Laws.thy ===== *)
theory Ebitmap_Laws
  imports Ebitmap
begin

section \<open>Extensible bitmaps as sets of positions\<close>

text \<open>
  The invariant of the bitmap representation, the set of positions a bitmap stands for, and
  the laws of the operations of \<open>ebitmap.c\<close>. The lemmas are proved on the 64-bit blocks
  of a node list (\<open>blk\<close>), on which each loop acts pointwise.
\<close>

subsection \<open>Invariant and abstraction\<close>

definition node_ok :: "ebitmap_node \<Rightarrow> bool" where
  "node_ok n \<longleftrightarrow> 64 dvd unat (startbit n) \<and> emap n \<noteq> 0 \<and> unat (startbit n) + 64 < 2 ^ 32"

definition nodes_ok :: "ebitmap_node list \<Rightarrow> bool" where
  "nodes_ok ns \<longleftrightarrow> sorted_wrt (\<lambda>m n. startbit m < startbit n) ns \<and> (\<forall>n\<in>set ns. node_ok n)"

definition starts_above :: "u32 \<Rightarrow> ebitmap_node list \<Rightarrow> bool" where
  "starts_above s ns \<longleftrightarrow> (\<forall>m\<in>set ns. s < startbit m)"

definition ebitmap_wf :: "ebitmap \<Rightarrow> bool" where
  "ebitmap_wf e \<longleftrightarrow> nodes_ok (node e) \<and> highbit e = highbit_of_prev (node e)"

definition nodes_bits :: "ebitmap_node list \<Rightarrow> nat set" where
  "nodes_bits ns = {unat (startbit n) + i | n i. n \<in> set ns \<and> bit (emap n) i}"

definition ebitmap_bits :: "ebitmap \<Rightarrow> nat set" where
  "ebitmap_bits e = nodes_bits (node e)"

lemma nodes_bitsI: "\<lbrakk>n \<in> set ns; bit (emap n) i\<rbrakk> \<Longrightarrow> unat (startbit n) + i \<in> nodes_bits ns"
  by (auto simp: nodes_bits_def)

fun blk :: "ebitmap_node list \<Rightarrow> nat \<Rightarrow> u64" where
  "blk [] k = 0"
| "blk (n # ns) k = (if unat (startbit n) = 64 * k then emap n else blk ns k)"

lemma nodes_ok_Nil [simp]: "nodes_ok []"
  by (simp add: nodes_ok_def)

lemma nodes_ok_Cons:
  "nodes_ok (n # ns) \<longleftrightarrow>
     node_ok n \<and> nodes_ok ns \<and> (\<forall>m\<in>set ns. unat (startbit n) < unat (startbit m))"
  by (auto simp: nodes_ok_def word_less_nat_alt)

lemma node_okD:
  "node_ok n \<Longrightarrow> 64 dvd unat (startbit n)"
  "node_ok n \<Longrightarrow> emap n \<noteq> 0"
  "node_ok n \<Longrightarrow> unat (startbit n) + 64 < 4294967296"
  by (simp_all add: node_ok_def)

lemma blk_before: "\<forall>n\<in>set ns. 64 * k < unat (startbit n) \<Longrightarrow> blk ns k = 0"
  by (induction ns) auto

lemma aligned_block:
  assumes "64 dvd unat (startbit n)" and "i < 64"
  shows "b = unat (startbit n) + i \<longleftrightarrow> unat (startbit n) = 64 * (b div 64) \<and> b mod 64 = i"
proof -
  from assms(1) obtain k where k: "unat (startbit n) = 64 * k" by (auto elim: dvdE)
  show ?thesis using assms(2) unfolding k by (auto simp: mult_div_mod_eq)
qed

lemma nodes_bits_Cons:
  assumes "node_ok n"
  shows "b \<in> nodes_bits (n # ns) \<longleftrightarrow>
     unat (startbit n) = 64 * (b div 64) \<and> bit (emap n) (b mod 64) \<or> b \<in> nodes_bits ns"
proof -
  have "(\<exists>i. bit (emap n) i \<and> b = unat (startbit n) + i) \<longleftrightarrow>
          unat (startbit n) = 64 * (b div 64) \<and> bit (emap n) (b mod 64)"
    using aligned_block [OF node_okD(1) [OF assms]] bit_u64_bound
    by (metis mod_less_divisor zero_less_numeral)
  then show ?thesis by (auto simp: nodes_bits_def)
qed

lemma nodes_bits_blk:
  "nodes_ok ns \<Longrightarrow> b \<in> nodes_bits ns \<longleftrightarrow> bit (blk ns (b div 64)) (b mod 64)"
proof (induction ns)
  case Nil
  then show ?case by (simp add: nodes_bits_def)
next
  case (Cons n ns)
  have ok: "node_ok n" "nodes_ok ns" using Cons.prems by (auto simp: nodes_ok_Cons)
  have "unat (startbit n) = 64 * (b div 64) \<Longrightarrow> blk ns (b div 64) = 0"
    using Cons.prems by (intro blk_before) (auto simp: nodes_ok_Cons)
  then show ?case
    using Cons.IH [OF ok(2)] by (auto simp: nodes_bits_Cons [OF ok(1)])
qed

lemma nodes_bits_eq_blk:
  "nodes_ok ns \<Longrightarrow> nodes_bits ns = {b. bit (blk ns (b div 64)) (b mod 64)}"
  by (auto simp: nodes_bits_blk)

lemma blk_eq_0_iff: "nodes_ok ns \<Longrightarrow> blk ns k = 0 \<longleftrightarrow> (\<forall>n\<in>set ns. unat (startbit n) \<noteq> 64 * k)"
  by (induction ns) (auto simp: nodes_ok_Cons node_ok_def)

lemma blk_bits:
  assumes "nodes_ok ns" and "i < 64"
  shows "bit (blk ns k) i \<longleftrightarrow> 64 * k + i \<in> nodes_bits ns"
  using assms by (simp add: nodes_bits_blk)

lemma nodes_bits_inject_blk:
  assumes "nodes_ok a" "nodes_ok b" "nodes_bits a = nodes_bits b"
  shows "blk a k = blk b k"
proof (rule bit_eqI)
  fix i
  show "bit (blk a k) i = bit (blk b k) i"
  proof (cases "i < 64")
    case True
    then show ?thesis using assms by (simp add: blk_bits)
  next
    case False
    then show ?thesis using bit_u64_bound by blast
  qed
qed

lemma nodes_blk_ext:
  "\<lbrakk>nodes_ok a; nodes_ok b; \<And>k. blk a k = blk b k\<rbrakk> \<Longrightarrow> a = b"
proof (induction a arbitrary: b)
  case Nil
  show ?case
  proof (cases b)
    case (Cons n ns)
    with Nil have "node_ok n" by (simp add: nodes_ok_Cons)
    then obtain k where "unat (startbit n) = 64 * k" "emap n \<noteq> 0"
      by (auto simp: node_ok_def elim: dvdE)
    with Nil.prems(3) [of k] Cons show ?thesis by simp
  qed simp
next
  case (Cons n ns)
  from Cons.prems(1) have okn: "node_ok n" "nodes_ok ns" by (auto simp: nodes_ok_Cons)
  obtain k where k: "unat (startbit n) = 64 * k" using okn(1) by (auto simp: node_ok_def elim: dvdE)
  have nz: "emap n \<noteq> 0" using okn(1) by (simp add: node_ok_def)
  show ?case
  proof (cases b)
    case Nil
    with Cons.prems(3) [of k] k nz show ?thesis by simp
  next
    case (Cons m ms)
    have okm: "node_ok m" "nodes_ok ms" using Cons.prems(2) Cons by (auto simp: nodes_ok_Cons)
    obtain j where j: "unat (startbit m) = 64 * j" using okm(1) by (auto simp: node_ok_def elim: dvdE)
    have nlt: "\<not> unat (startbit n) < unat (startbit m)"
    proof
      assume "unat (startbit n) < unat (startbit m)"
      then have "blk b k = 0"
        using k Cons.prems(2) Cons by (intro blk_before) (auto simp: nodes_ok_Cons)
      with Cons.prems(3) [of k] k nz show False by simp
    qed
    have ngt: "\<not> unat (startbit m) < unat (startbit n)"
    proof
      assume "unat (startbit m) < unat (startbit n)"
      then have "blk (n # ns) j = 0"
        using j Cons.prems(1) by (intro blk_before) (auto simp: nodes_ok_Cons)
      with Cons.prems(3) [of j] j okm(1) Cons show False by (simp add: node_ok_def)
    qed
    from nlt ngt have eq: "startbit n = startbit m" "k = j" using k j by (auto simp: word_unat_eq_iff)
    have rest: "blk ns i = blk ms i" for i
    proof (cases "i = k")
      case True
      have "blk ns i = 0" "blk ms i = 0"
        using True k j eq Cons.prems(1,2) Cons by (auto intro!: blk_before simp: nodes_ok_Cons)
      then show ?thesis by simp
    next
      case False
      with Cons.prems(3) [of i] k j eq Cons show ?thesis by simp
    qed
    have "emap n = emap m" using Cons.prems(3) [of k] k j eq Cons by simp
    moreover have "ns = ms" using Cons.IH [OF okn(2) okm(2) rest] .
    ultimately show ?thesis using eq Cons by simp
  qed
qed

subsection \<open>Correctness of the merge loops\<close>

lemma above_simps [simp]: "starts_above s []" "starts_above s (n # ns) \<longleftrightarrow> s < startbit n \<and> starts_above s ns"
  by (auto simp: starts_above_def)

lemma above_trans: "s < t \<Longrightarrow> starts_above t ns \<Longrightarrow> starts_above s ns"
  by (auto simp: starts_above_def)

lemma nodes_ok_Cons_word: "nodes_ok (n # ns) \<longleftrightarrow> node_ok n \<and> nodes_ok ns \<and> starts_above (startbit n) ns"
  by (auto simp: nodes_ok_def starts_above_def)

lemma above_or: "\<lbrakk>starts_above s a; starts_above s b\<rbrakk> \<Longrightarrow> starts_above s (ebitmap_or_nodes a b)"
  by (induction a b rule: ebitmap_or_nodes.induct) auto

lemma above_and: "starts_above s a \<Longrightarrow> starts_above s (ebitmap_and_nodes a b)"
  by (induction a b rule: ebitmap_and_nodes.induct) auto

lemma above_xor: "\<lbrakk>starts_above s a; starts_above s b\<rbrakk> \<Longrightarrow> starts_above s (ebitmap_xor_nodes a b)"
  by (induction a b rule: ebitmap_xor_nodes.induct) auto

lemma blk_or: "\<lbrakk>nodes_ok a; nodes_ok b\<rbrakk> \<Longrightarrow> blk (ebitmap_or_nodes a b) k = blk a k OR blk b k"
proof (induction a b rule: ebitmap_or_nodes.induct)
  case (4 n1 r1 n2 r2)
  have "startbit n1 < startbit n2 \<Longrightarrow> unat (startbit n1) = 64 * k \<Longrightarrow> blk (n2 # r2) k = 0"
    using "4.prems" by (intro blk_before) (auto simp: nodes_ok_Cons word_less_nat_alt)
  moreover have "startbit n2 < startbit n1 \<Longrightarrow> unat (startbit n2) = 64 * k \<Longrightarrow> blk (n1 # r1) k = 0"
    using "4.prems" by (intro blk_before) (auto simp: nodes_ok_Cons word_less_nat_alt)
  ultimately show ?case using 4 by (auto simp: nodes_ok_Cons)
qed (auto simp: nodes_ok_Cons)

lemma blk_and: "\<lbrakk>nodes_ok a; nodes_ok b\<rbrakk> \<Longrightarrow> blk (ebitmap_and_nodes a b) k = blk a k AND blk b k"
proof (induction a b rule: ebitmap_and_nodes.induct)
  case (1 n1 r1 n2 r2)
  have "startbit n1 < startbit n2 \<Longrightarrow> unat (startbit n1) = 64 * k \<Longrightarrow> blk (n2 # r2) k = 0"
    using "1.prems" by (intro blk_before) (auto simp: nodes_ok_Cons word_less_nat_alt)
  moreover have "startbit n2 < startbit n1 \<Longrightarrow> unat (startbit n2) = 64 * k \<Longrightarrow> blk (n1 # r1) k = 0"
    using "1.prems" by (intro blk_before) (auto simp: nodes_ok_Cons word_less_nat_alt)
  moreover have "unat (startbit n1) = 64 * k \<Longrightarrow> blk r1 k = 0" "unat (startbit n2) = 64 * k \<Longrightarrow> blk r2 k = 0"
    using "1.prems" by (auto simp: nodes_ok_Cons intro: blk_before)
  ultimately show ?case using 1 by (auto simp: nodes_ok_Cons)
qed auto


lemma blk_xor: "\<lbrakk>nodes_ok a; nodes_ok b\<rbrakk> \<Longrightarrow> blk (ebitmap_xor_nodes a b) k = blk a k XOR blk b k"
proof (induction a b rule: ebitmap_xor_nodes.induct)
  case (4 n1 r1 n2 r2)
  have z: "startbit n1 < startbit n2 \<Longrightarrow> unat (startbit n1) = 64 * k \<Longrightarrow> blk (n2 # r2) k = 0"
    "startbit n2 < startbit n1 \<Longrightarrow> unat (startbit n2) = 64 * k \<Longrightarrow> blk (n1 # r1) k = 0"
    "unat (startbit n1) = 64 * k \<Longrightarrow> blk r1 k = 0" "unat (startbit n2) = 64 * k \<Longrightarrow> blk r2 k = 0"
    using "4.prems" by (auto simp: nodes_ok_Cons word_less_nat_alt intro!: blk_before)
  have ok: "emap n1 \<noteq> 0" "emap n2 \<noteq> 0" "nodes_ok r1" "nodes_ok r2"
    using "4.prems" by (auto simp: nodes_ok_Cons node_ok_def)
  consider (eq) "startbit n1 = startbit n2" | (lt) "startbit n1 \<noteq> startbit n2" "startbit n1 < startbit n2"
    | (gt) "startbit n1 \<noteq> startbit n2" "\<not> startbit n1 < startbit n2" "startbit n2 < startbit n1"
    by fastforce
  then show ?case
  proof cases
    case eq
    then show ?thesis using "4.IH"(1,2) ok z(3,4) by auto
  next
    case lt
    then show ?thesis using "4.IH"(3) ok z(1,3) "4.prems" by auto
  next
    case gt
    then show ?thesis using "4.IH"(5) ok z(2,4) "4.prems" by auto
  qed
qed (auto simp: nodes_ok_Cons node_ok_def)

lemma node_ok_iff:
  "node_ok \<lparr>startbit = s, emap = m\<rparr> \<longleftrightarrow> m \<noteq> 0 \<and> 64 dvd unat s \<and> unat s + 64 < 2 ^ 32"
  "node_ok n \<longleftrightarrow> emap n \<noteq> 0 \<and> 64 dvd unat (startbit n) \<and> unat (startbit n) + 64 < 2 ^ 32"
  by (auto simp: node_ok_def)

lemma nodes_ok_or: "\<lbrakk>nodes_ok a; nodes_ok b\<rbrakk> \<Longrightarrow> nodes_ok (ebitmap_or_nodes a b)"
proof (induction a b rule: ebitmap_or_nodes.induct)
  case (4 n1 r1 n2 r2)
  consider (eq) "startbit n1 = startbit n2" | (lt) "startbit n1 \<noteq> startbit n2" "startbit n1 < startbit n2"
    | (gt) "startbit n1 \<noteq> startbit n2" "\<not> startbit n1 < startbit n2" "startbit n2 < startbit n1"
    by fastforce
  then show ?case
  proof cases
    case eq
    then show ?thesis using 4 by (auto simp: nodes_ok_Cons_word node_ok_iff above_or or_eq_0_iff)
  next
    case lt
    then have "starts_above (startbit n1) (ebitmap_or_nodes r1 (n2 # r2))"
      using "4.prems"
      by (intro above_or) (auto simp: nodes_ok_Cons_word intro: above_trans)
    then show ?thesis using lt 4 by (auto simp: nodes_ok_Cons_word node_ok_iff)
  next
    case gt
    then have "starts_above (startbit n2) (ebitmap_or_nodes (n1 # r1) r2)"
      using "4.prems"
      by (intro above_or) (auto simp: nodes_ok_Cons_word intro: above_trans)
    then show ?thesis using gt 4 by (auto simp: nodes_ok_Cons_word node_ok_iff)
  qed
qed (auto simp: nodes_ok_Cons_word node_ok_iff above_or)

lemma nodes_ok_and: "\<lbrakk>nodes_ok a; nodes_ok b\<rbrakk> \<Longrightarrow> nodes_ok (ebitmap_and_nodes a b)"
  by (induction a b rule: ebitmap_and_nodes.induct)
    (auto simp: nodes_ok_Cons_word node_ok_iff above_and)

lemma nodes_ok_xor: "\<lbrakk>nodes_ok a; nodes_ok b\<rbrakk> \<Longrightarrow> nodes_ok (ebitmap_xor_nodes a b)"
proof (induction a b rule: ebitmap_xor_nodes.induct)
  case (4 n1 r1 n2 r2)
  consider (eq) "startbit n1 = startbit n2" | (lt) "startbit n1 \<noteq> startbit n2" "startbit n1 < startbit n2"
    | (gt) "startbit n1 \<noteq> startbit n2" "\<not> startbit n1 < startbit n2" "startbit n2 < startbit n1"
    by fastforce
  then show ?case
  proof cases
    case eq
    then show ?thesis using 4 by (auto simp: nodes_ok_Cons_word node_ok_iff above_xor)
  next
    case lt
    then have "starts_above (startbit n1) (ebitmap_xor_nodes r1 (n2 # r2))"
      using "4.prems"
      by (intro above_xor) (auto simp: nodes_ok_Cons_word intro: above_trans)
    then show ?thesis using lt 4 by (auto simp: nodes_ok_Cons_word node_ok_iff)
  next
    case gt
    then have "starts_above (startbit n2) (ebitmap_xor_nodes (n1 # r1) r2)"
      using "4.prems"
      by (intro above_xor) (auto simp: nodes_ok_Cons_word intro: above_trans)
    then show ?thesis using gt 4 by (auto simp: nodes_ok_Cons_word node_ok_iff)
  qed
qed (auto simp: nodes_ok_Cons_word node_ok_iff above_xor)


subsection \<open>The high bit\<close>

lemma nodes_ok_last:
  "\<lbrakk>nodes_ok ns; n \<in> set ns\<rbrakk> \<Longrightarrow> unat (startbit n) \<le> unat (startbit (last ns))"
proof (induction ns)
  case (Cons m ns)
  then show ?case
    using last_in_set [of ns] by (auto simp: nodes_ok_Cons intro: less_imp_le)
qed simp

lemma unat_highbit_of_prev:
  assumes "nodes_ok ns"
  shows "unat (highbit_of_prev ns) = (if ns = [] then 0 else unat (startbit (last ns)) + 64)"
proof (cases "ns = []")
  case False
  with assms have "node_ok (last ns)" by (simp add: nodes_ok_def)
  then have "unat (startbit (last ns) + 64) = unat (startbit (last ns)) + 64"
    by (simp add: node_ok_def unat_add_no_wrap)
  with False show ?thesis by (simp add: highbit_of_prev_def)
qed (simp add: highbit_of_prev_def)

lemma nodes_bits_less:
  assumes "nodes_ok ns" "b \<in> nodes_bits ns"
  shows "b < unat (highbit_of_prev ns)"
proof -
  from assms(2) obtain n i where n: "n \<in> set ns" "bit (emap n) i" "b = unat (startbit n) + i"
    by (auto simp: nodes_bits_def)
  have "i < 64" using n(2) by (rule bit_u64_bound)
  moreover have "unat (startbit n) \<le> unat (startbit (last ns))" using assms(1) n(1) by (rule nodes_ok_last)
  moreover have "ns \<noteq> []" using n(1) by auto
  ultimately show ?thesis using n(3) by (simp add: unat_highbit_of_prev [OF assms(1)])
qed

lemma last_block:
  assumes "nodes_ok ns" "ns \<noteq> []"
  shows "\<exists>b\<in>nodes_bits ns. unat (startbit (last ns)) \<le> b"
proof -
  have "node_ok (last ns)" using assms by (simp add: nodes_ok_def)
  then obtain i where "bit (emap (last ns)) i" using u64_neq_0_bit by (auto simp: node_ok_def)
  with assms(2) have "unat (startbit (last ns)) + i \<in> nodes_bits ns"
    by (intro nodes_bitsI) simp_all
  then show ?thesis by (rule bexI [rotated]) simp
qed

text \<open>\<open>highbit\<close> is the least multiple of 64 above every member.\<close>

lemma highbit_of_prev_le:
  assumes a: "nodes_ok a" and b: "nodes_ok b" and sub: "nodes_bits a \<subseteq> nodes_bits b"
  shows "highbit_of_prev a \<le> highbit_of_prev b"
proof (cases "a = []")
  case True
  then show ?thesis by (simp add: highbit_of_prev_def)
next
  case False
  then obtain x where x: "x \<in> nodes_bits a" "unat (startbit (last a)) \<le> x" using last_block [OF a] by auto
  have xb: "x < unat (highbit_of_prev b)" using sub x(1) nodes_bits_less [OF b] by blast
  have ne: "b \<noteq> []" using x(1) sub by (auto simp: nodes_bits_def)
  have dvd: "64 dvd unat (startbit (last a))" "64 dvd unat (startbit (last b))"
    using a b False ne by (auto simp: nodes_ok_def node_ok_def)
  have "unat (startbit (last a)) < unat (startbit (last b)) + 64"
    using x(2) xb ne by (simp add: unat_highbit_of_prev [OF b])
  with dvd have "unat (startbit (last a)) \<le> unat (startbit (last b))"
    by (auto elim!: dvdE)
  then show ?thesis
    using False ne by (simp add: word_le_nat_alt unat_highbit_of_prev a b)
qed


subsection \<open>Set-level meaning of the node loops\<close>

lemma nodes_bits_or:
  "\<lbrakk>nodes_ok a; nodes_ok b\<rbrakk> \<Longrightarrow> nodes_bits (ebitmap_or_nodes a b) = nodes_bits a \<union> nodes_bits b"
  by (auto simp: nodes_bits_eq_blk nodes_ok_or blk_or bit_or_iff)

lemma nodes_bits_and:
  "\<lbrakk>nodes_ok a; nodes_ok b\<rbrakk> \<Longrightarrow> nodes_bits (ebitmap_and_nodes a b) = nodes_bits a \<inter> nodes_bits b"
  by (auto simp: nodes_bits_eq_blk nodes_ok_and blk_and bit_and_iff)

lemma nodes_bits_xor:
  "\<lbrakk>nodes_ok a; nodes_ok b\<rbrakk> \<Longrightarrow>
     nodes_bits (ebitmap_xor_nodes a b) = (nodes_bits a - nodes_bits b) \<union> (nodes_bits b - nodes_bits a)"
  by (auto simp: nodes_bits_eq_blk nodes_ok_xor blk_xor bit_xor_iff)

lemma ebitmap_cmp_nodes_eq [simp]: "ebitmap_cmp_nodes a b \<longleftrightarrow> a = b"
  by (induction a b rule: ebitmap_cmp_nodes.induct) auto

lemma ebitmap_cpy_nodes_eq [simp]: "ebitmap_cpy_nodes ns = ns"
  by (induction ns) auto

lemma nodes_bits_ext: "\<lbrakk>nodes_ok a; nodes_ok b\<rbrakk> \<Longrightarrow> nodes_bits a = nodes_bits b \<longleftrightarrow> a = b"
  using nodes_blk_ext nodes_bits_inject_blk by metis

lemma blk_subset_iff:
  assumes "nodes_ok a" "nodes_ok b"
  shows "nodes_bits b \<subseteq> nodes_bits a \<longleftrightarrow> (\<forall>k. blk a k AND blk b k = blk b k)"
proof -
  have "nodes_bits b \<subseteq> nodes_bits a \<longleftrightarrow> nodes_bits (ebitmap_and_nodes a b) = nodes_bits b"
    using assms by (auto simp: nodes_bits_and)
  also have "\<dots> \<longleftrightarrow> ebitmap_and_nodes a b = b"
    using assms by (simp add: nodes_bits_ext nodes_ok_and)
  also have "\<dots> \<longleftrightarrow> (\<forall>k. blk a k AND blk b k = blk b k)"
    using assms nodes_blk_ext [OF nodes_ok_and [OF assms] assms(2)] by (metis blk_and)
  finally show ?thesis .
qed

lemma contains_nodes_blk:
  "\<lbrakk>nodes_ok a; nodes_ok b\<rbrakk> \<Longrightarrow>
     ebitmap_contains_nodes a b \<longleftrightarrow> (\<forall>k. blk a k AND blk b k = blk b k)"
proof (induction a b rule: ebitmap_contains_nodes.induct)
  case (1 n1 r1 n2 r2)
  obtain k1 k2 where k: "unat (startbit n1) = 64 * k1" "unat (startbit n2) = 64 * k2"
    using "1.prems" by (auto simp: nodes_ok_Cons node_ok_def elim!: dvdE)
  have nz: "emap n2 \<noteq> 0" and ok: "nodes_ok r1" "nodes_ok r2"
    using "1.prems" by (auto simp: nodes_ok_Cons node_ok_def)
  have z: "blk r1 k1 = 0" "blk r2 k2 = 0" 
    using "1.prems" k by (auto simp: nodes_ok_Cons intro!: blk_before)
  consider (eq) "startbit n1 = startbit n2" | (lt) "startbit n1 < startbit n2" | (gt) "startbit n2 < startbit n1"
    by fastforce
  then show ?case
  proof cases
    case eq
    then have kk: "k1 = k2" using k by simp
    have step: "blk (n1 # r1) k AND blk (n2 # r2) k = blk (n2 # r2) k \<longleftrightarrow>
      (if k = k1 then emap n1 AND emap n2 = emap n2 else blk r1 k AND blk r2 k = blk r2 k)" for k
      using k kk by simp
    have "(\<forall>k. blk (n1 # r1) k AND blk (n2 # r2) k = blk (n2 # r2) k) \<longleftrightarrow>
      emap n1 AND emap n2 = emap n2 \<and> (\<forall>k. blk r1 k AND blk r2 k = blk r2 k)"
      unfolding step using z kk by (metis and_zero_eq)
    then show ?thesis using eq "1.IH"(2) ok by (simp del: blk.simps)
  next
    case lt
    then have zero: "blk (n2 # r2) k1 = 0"
      using "1.prems" k by (intro blk_before) (auto simp: nodes_ok_Cons word_less_nat_alt)
    have "blk (n1 # r1) k AND blk (n2 # r2) k = blk (n2 # r2) k \<longleftrightarrow>
      blk r1 k AND blk (n2 # r2) k = blk (n2 # r2) k" for k
    proof (cases "k = k1")
      case True
      then show ?thesis by (simp add: zero del: blk.simps)
    next
      case False
      then have "blk (n1 # r1) k = blk r1 k" using k by simp
      then show ?thesis by (simp del: blk.simps)
    qed
    then show ?thesis using lt less_imp_le [OF lt] "1.IH"(1) "1.prems"(2) ok by (simp del: blk.simps)
  next
    case gt
    then have zero: "blk (n1 # r1) k2 = 0"
      using "1.prems" k by (intro blk_before) (auto simp: nodes_ok_Cons word_less_nat_alt)
    have "blk (n2 # r2) k2 \<noteq> 0" using k nz by simp
    then have "blk (n1 # r1) k2 AND blk (n2 # r2) k2 \<noteq> blk (n2 # r2) k2"
      by (simp add: zero del: blk.simps)
    then show ?thesis using gt by (auto simp del: blk.simps)
  qed
next
  case (2 n2 r2)
  then obtain k2 where "unat (startbit n2) = 64 * k2" "emap n2 \<noteq> 0"
    by (auto simp: nodes_ok_Cons node_ok_def elim!: dvdE)
  then show ?case by auto
qed auto

lemma contains_nodes_iff:
  "\<lbrakk>nodes_ok a; nodes_ok b\<rbrakk> \<Longrightarrow> ebitmap_contains_nodes a b \<longleftrightarrow> nodes_bits b \<subseteq> nodes_bits a"
  by (simp add: contains_nodes_blk blk_subset_iff)

lemma match_any_nodes_and: "ebitmap_match_any_nodes a b \<longleftrightarrow> ebitmap_and_nodes a b \<noteq> []"
  by (induction a b rule: ebitmap_match_any_nodes.induct) auto

lemma nodes_bits_empty_iff: "nodes_ok ns \<Longrightarrow> nodes_bits ns = {} \<longleftrightarrow> ns = []"
  using nodes_bits_ext [of ns "[]"] by (simp add: nodes_bits_def)

lemma and_MAPBIT: "w AND MAPBIT k \<noteq> 0 \<longleftrightarrow> bit w k"
  by (simp add: MAPBIT_def and_exp_eq_0_iff_not_bit)

lemma bit_MAPBIT: "bit (MAPBIT k) i \<longleftrightarrow> i = k \<and> k < 64"
  unfolding MAPBIT_def by (rule bit_single_u64)

lemma get_bit_nodes_iff:
  "nodes_ok ns \<Longrightarrow> ebitmap_get_bit_nodes ns b \<longleftrightarrow> unat b \<in> nodes_bits ns"
proof (induction ns)
  case (Cons n ns)
  have ok: "node_ok n" "nodes_ok ns" and gt: "\<forall>m\<in>set ns. unat (startbit n) < unat (startbit m)"
    using Cons.prems by (auto simp: nodes_ok_Cons)
  have mem: "unat b \<in> nodes_bits (n # ns) \<longleftrightarrow>
      (\<exists>i. bit (emap n) i \<and> unat b = unat (startbit n) + i) \<or> unat b \<in> nodes_bits ns"
    by (auto simp: nodes_bits_def)
  consider (after) "startbit n \<le> b" "\<not> unat b < unat (startbit n) + 64"
    | (inside) "startbit n \<le> b" "unat b < unat (startbit n) + 64" | (before) "\<not> startbit n \<le> b"
    by blast
  then show ?case
  proof cases
    case after
    then have "\<not> (\<exists>i. bit (emap n) i \<and> unat b = unat (startbit n) + i)"
      using bit_u64_bound by fastforce
    with after mem Cons.IH [OF ok(2)] show ?thesis by (simp add: MAPSIZE_def)
  next
    case inside
    then have sub: "unat (b - startbit n) = unat b - unat (startbit n)"
      by (simp add: unat_sub)
    have "unat b \<notin> nodes_bits ns"
    proof
      assume "unat b \<in> nodes_bits ns"
      then obtain m i where m: "m \<in> set ns" "unat b = unat (startbit m) + i" by (auto simp: nodes_bits_def)
      have "64 dvd unat (startbit m)" "64 dvd unat (startbit n)"
        using m(1) ok by (auto simp: nodes_ok_def node_ok_def)
      with gt m(1) have "unat (startbit n) + 64 \<le> unat (startbit m)" by (auto elim!: dvdE)
      with m(2) inside(2) show False by simp
    qed
    with inside mem sub show ?thesis
      by (auto simp: MAPSIZE_def and_MAPBIT word_le_nat_alt)
  next
    case before
    have "unat b \<notin> nodes_bits (n # ns)"
      using before gt by (auto simp: nodes_bits_def word_le_nat_alt not_le)
    with before show ?thesis by simp
  qed
qed (simp add: nodes_bits_def)

subsection \<open>Alignment\<close>

lemma unat_align64: "unat (align64 b) = unat b div 64 * 64"
proof (rule bit_eqI)
  fix i
  have "(63 :: u32) = mask 6" by (simp add: mask_eq_exp_minus_1)
  then have "align64 b = b AND NOT (mask 6)" by (simp only: align64_def)
  then have "bit (unat (align64 b)) i \<longleftrightarrow> bit b i \<and> 6 \<le> i"
    by (auto simp: bit_unsigned_iff bit_and_iff bit_not_iff bit_mask_iff dest: bit_imp_le_length)
  moreover have "unat b div 64 * 64 = push_bit 6 (drop_bit 6 (unat b))"
    by (simp add: push_bit_eq_mult drop_bit_eq_div)
  moreover have "bit (push_bit 6 (drop_bit 6 (unat b))) i \<longleftrightarrow> 6 \<le> i \<and> bit b i"
    by (auto simp: bit_push_bit_iff bit_drop_bit_eq bit_unsigned_iff)
  ultimately show "bit (unat (align64 b)) i \<longleftrightarrow> bit (unat b div 64 * 64) i"
    by (simp only:) blast
qed

lemma align64_dvd [simp]: "64 dvd unat (align64 b)"
  by (simp add: unat_align64)

lemma align64_bounds: "unat (align64 b) \<le> unat b" "unat b < unat (align64 b) + 64"
  by (simp_all add: unat_align64)

lemma align64_room:
  assumes "align64 b + 64 \<noteq> 0"
  shows "unat (align64 b) + 64 < 4294967296"
proof (rule ccontr)
  assume no: "\<not> ?thesis"
  obtain k where k: "unat (align64 b) = 64 * k" using align64_dvd [of b] by (rule dvdE)
  have "unat (align64 b) < 4294967296" by (rule unat_u32_less)
  with no k have "unat (align64 b) = 4294967232" by simp
  then have "align64 b = 4294967232" by (simp add: word_unat_eq_iff)
  with assms show False by simp
qed

lemma align64_in_block: "unat (b - align64 b) = unat b - unat (align64 b)" "unat (b - align64 b) < 64"
proof -
  show "unat (b - align64 b) = unat b - unat (align64 b)"
    using align64_bounds(1) by (simp add: unat_sub word_le_nat_alt)
  then show "unat (b - align64 b) < 64" using align64_bounds [of b] by simp
qed

subsection \<open>Setting and clearing a bit\<close>

lemma nodes_ok_append:
  "nodes_ok (a @ b) \<longleftrightarrow>
     nodes_ok a \<and> nodes_ok b \<and> (\<forall>m\<in>set a. \<forall>n\<in>set b. unat (startbit m) < unat (startbit n))"
  by (auto simp: nodes_ok_def sorted_wrt_append word_less_nat_alt)

lemma nodes_ok_memD: "\<lbrakk>nodes_ok ns; n \<in> set ns\<rbrakk> \<Longrightarrow> node_ok n"
  by (simp add: nodes_ok_def)

lemma nodes_bits_append [simp]: "nodes_bits (a @ b) = nodes_bits a \<union> nodes_bits b"
  by (auto simp: nodes_bits_def)

lemma nodes_bits_Nil [simp]: "nodes_bits [] = {}"
  by (simp add: nodes_bits_def)

lemma aligned_gap:
  "\<lbrakk>64 dvd x; 64 dvd y; (x :: nat) < y\<rbrakk> \<Longrightarrow> x + 64 \<le> y"
  by (auto elim!: dvdE)

lemma aligned_block_eq:
  "\<lbrakk>64 dvd x; (x :: nat) \<le> b; b < x + 64\<rbrakk> \<Longrightarrow> x = b div 64 * 64"
  by (auto elim!: dvdE)

lemma single_node_bits:
  "nodes_bits [n] = {unat (startbit n) + i | i. bit (emap n) i}"
  by (auto simp: nodes_bits_def)

lemma new_node_ok:
  assumes "align64 b + 64 \<noteq> 0"
  shows "node_ok \<lparr>startbit = align64 b, emap = MAPBIT (unat (b - align64 b))\<rparr>"
proof -
  have "bit (MAPBIT (unat (b - align64 b))) (unat (b - align64 b))"
    using align64_in_block(2) by (simp add: bit_MAPBIT)
  then have "MAPBIT (unat (b - align64 b)) \<noteq> 0" by (auto simp: u64_eq_0_iff)
  then show ?thesis using align64_room [OF assms] by (simp add: node_ok_iff)
qed

lemma new_node_bits:
  "nodes_bits (\<lparr>startbit = align64 b, emap = MAPBIT (unat (b - align64 b))\<rparr> # ns) =
     insert (unat b) (nodes_bits ns)"
proof -
  have "nodes_bits [\<lparr>startbit = align64 b, emap = MAPBIT (unat (b - align64 b))\<rparr>] = {unat b}"
    using align64_in_block [of b] align64_bounds [of b]
    by (auto simp: single_node_bits bit_MAPBIT)
  then show ?thesis
    using nodes_bits_append [of "[\<lparr>startbit = align64 b, emap = MAPBIT (unat (b - align64 b))\<rparr>]" ns]
    by simp
qed

definition bit_update :: "int \<Rightarrow> nat \<Rightarrow> nat set \<Rightarrow> nat set" where
  "bit_update v b B = (if v = 0 then B - {b} else insert b B)"

lemma set_bit_node:
  assumes "node_ok n" "startbit n \<le> b" "unat b < unat (startbit n) + 64"
  shows "nodes_bits [n\<lparr>emap := emap n OR MAPBIT (unat (b - startbit n))\<rparr>] = insert (unat b) (nodes_bits [n])"
    and "nodes_bits [n\<lparr>emap := emap n AND NOT (MAPBIT (unat (b - startbit n)))\<rparr>] = nodes_bits [n] - {unat b}"
    and "emap n AND NOT (MAPBIT (unat (b - startbit n))) = 0 \<Longrightarrow> nodes_bits [n] - {unat b} = {}"
proof -
  have sub: "unat (b - startbit n) = unat b - unat (startbit n)"
    using assms(2) by (simp add: unat_sub)
  have le: "unat (startbit n) \<le> unat b" using assms(2) by (simp add: word_le_nat_alt)
  show "nodes_bits [n\<lparr>emap := emap n OR MAPBIT (unat (b - startbit n))\<rparr>] = insert (unat b) (nodes_bits [n])"
    using le assms(3) le_add_diff_inverse [OF le, symmetric]
    by (fastforce simp: single_node_bits bit_or_iff bit_MAPBIT sub)
  show two: "nodes_bits [n\<lparr>emap := emap n AND NOT (MAPBIT (unat (b - startbit n)))\<rparr>] = nodes_bits [n] - {unat b}"
    using le assms(3) by (auto simp: single_node_bits bit_and_iff bit_not_iff bit_MAPBIT sub dest: bit_u64_bound)
  assume "emap n AND NOT (MAPBIT (unat (b - startbit n))) = 0"
  with two show "nodes_bits [n] - {unat b} = {}"
    by (simp add: single_node_bits)
qed


lemma bits_above: "\<forall>m\<in>set ns. b < unat (startbit m) \<Longrightarrow> b \<notin> nodes_bits ns"
  by (auto simp: nodes_bits_def)

lemma nodes_bits_Cons_Un: "nodes_bits (n # ns) = nodes_bits [n] \<union> nodes_bits ns"
  by (auto simp: nodes_bits_def)

lemma nodes_ok_replace:
  assumes "nodes_ok (pre @ n # ns)" "startbit n' = startbit n" "emap n' \<noteq> 0"
  shows "nodes_ok (pre @ n' # ns)" "highbit_of_prev (pre @ n' # ns) = highbit_of_prev (pre @ n # ns)"
proof -
  show "nodes_ok (pre @ n' # ns)"
    using assms by (auto simp: nodes_ok_append nodes_ok_Cons node_ok_iff)
  show "highbit_of_prev (pre @ n' # ns) = highbit_of_prev (pre @ n # ns)"
    using assms(2) by (simp add: highbit_of_prev_def)
qed

lemma set_bit_inside:
  assumes ok: "nodes_ok (pre @ n # ns)"
    and ins: "startbit n \<le> b" "unat b < unat (startbit n) + MAPSIZE"
    and prev: "prev = (if pre = [] then None else Some (last pre))"
    and run: "ebitmap_set_bit_loop h b v (highbit_of_prev (pre @ n # ns)) prev (n # ns) = (Inr (ns', hb'), h')"
  shows "nodes_ok (pre @ ns') \<and> nodes_bits ns' = bit_update v (unat b) (nodes_bits (n # ns))
    \<and> hb' = highbit_of_prev (pre @ ns')"
proof -
  let ?or = "emap n OR MAPBIT (unat (b - startbit n))"
  let ?m = "emap n AND NOT (MAPBIT (unat (b - startbit n)))"
  have nok: "node_ok n" and rest: "nodes_ok (pre @ ns)" using ok by (auto simp: nodes_ok_append nodes_ok_Cons)
  have "unat b < unat (startbit m)" if m: "m \<in> set ns" for m
  proof -
    have "64 dvd unat (startbit n)" "64 dvd unat (startbit m)" "unat (startbit n) < unat (startbit m)"
      using ok m nodes_ok_memD [of ns m] by (auto simp: nodes_ok_append nodes_ok_Cons node_okD(1))
    then have "unat (startbit n) + 64 \<le> unat (startbit m)" by (rule aligned_gap)
    with ins(2) show ?thesis by (simp add: MAPSIZE_def)
  qed
  then have nb: "unat b \<notin> nodes_bits ns" by (intro bits_above) blast
  note bits = set_bit_node [OF nok ins(1) ins(2) [unfolded MAPSIZE_def]]
  have orz: "?or \<noteq> 0" using nok by (simp add: node_ok_iff or_eq_0_iff)
  consider (set) "v \<noteq> 0" | (keep) "v = 0" "?m \<noteq> 0" | (drop) "v = 0" "?m = 0" by blast
  then show ?thesis
  proof cases
    case set
    with run ins have "ns' = n\<lparr>emap := ?or\<rparr> # ns" "hb' = highbit_of_prev (pre @ n # ns)" by auto
    then show ?thesis
      using nodes_ok_replace [OF ok, of "n\<lparr>emap := ?or\<rparr>"] orz set bits(1)
      by (simp add: bit_update_def nodes_bits_Cons_Un [of _ ns])
  next
    case keep
    with run ins have "ns' = n\<lparr>emap := ?m\<rparr> # ns" "hb' = highbit_of_prev (pre @ n # ns)"
      by (auto simp: Let_def)
    then show ?thesis
      using nodes_ok_replace [OF ok, of "n\<lparr>emap := ?m\<rparr>"] keep bits(2) nb
      by (auto simp: bit_update_def nodes_bits_Cons_Un [of _ ns])
  next
    case drop
    with run ins have r: "ns' = ns"
      "hb' = (if ns = [] then (case prev of Some p \<Rightarrow> startbit p + 64 | None \<Rightarrow> 0)
              else highbit_of_prev (pre @ n # ns))"
      by (auto simp: Let_def)
    then have "hb' = highbit_of_prev (pre @ ns)"
      using prev by (auto simp: highbit_of_prev_def)
    then show ?thesis
      using r(1) rest drop bits(3) nb by (auto simp: bit_update_def nodes_bits_Cons_Un [of _ ns])
  qed
qed

lemma aligned_below:
  assumes "64 dvd unat (startbit m)" "unat (startbit m) + 64 \<le> unat b"
  shows "unat (startbit m) < unat (align64 b)"
  using assms align64_bounds [of b] by simp

lemma set_bit_loop_correct:
  assumes "nodes_ok (pre @ ns)" "\<forall>m\<in>set pre. unat (startbit m) + 64 \<le> unat b"
    and "align64 b + 64 \<noteq> 0" "prev = (if pre = [] then None else Some (last pre))"
    and "ebitmap_set_bit_loop h b v (highbit_of_prev (pre @ ns)) prev ns = (Inr (ns', hb'), h')"
  shows "nodes_ok (pre @ ns') \<and> nodes_bits ns' = bit_update v (unat b) (nodes_bits ns)
    \<and> hb' = highbit_of_prev (pre @ ns')"
  using assms
proof (induction ns arbitrary: pre prev ns' hb')
  case Nil
  have "\<forall>m\<in>set pre. unat (startbit m) < unat (align64 b)"
    using Nil.prems(1,2) by (auto simp: nodes_ok_def node_ok_def intro: aligned_below)
  then show ?case
    using Nil.prems new_node_ok [OF Nil.prems(3)]
    by (auto simp: bit_update_def highbit_of_prev_def nodes_ok_append nodes_ok_Cons new_node_bits
        split: if_splits prod.splits bool.splits)
next
  case (Cons n ns)
  consider (inside) "startbit n \<le> b" "unat b < unat (startbit n) + MAPSIZE"
    | (after) "startbit n \<le> b" "\<not> unat b < unat (startbit n) + MAPSIZE"
    | (before) "\<not> startbit n \<le> b" by blast
  then show ?case
  proof cases
    case inside
    then show ?thesis using set_bit_inside [OF Cons.prems(1) inside Cons.prems(4,5)] by simp
  next
    case after
    then obtain ns1 where r: "ns' = n # ns1"
      "ebitmap_set_bit_loop h b v (highbit_of_prev ((pre @ [n]) @ ns)) (Some n) ns = (Inr (ns1, hb'), h')"
      using Cons.prems(5) by (auto split: prod.splits sum.splits)
    have "\<forall>m\<in>set (pre @ [n]). unat (startbit m) + 64 \<le> unat b"
      using Cons.prems(2) after by (auto simp: MAPSIZE_def)
    then have ih: "nodes_ok ((pre @ [n]) @ ns1) \<and> nodes_bits ns1 = bit_update v (unat b) (nodes_bits ns)
      \<and> hb' = highbit_of_prev ((pre @ [n]) @ ns1)"
      using Cons.IH [OF _ _ Cons.prems(3) _ r(2)] Cons.prems(1) by simp
    have "unat b \<notin> nodes_bits [n]"
      using after(2) by (auto simp: single_node_bits MAPSIZE_def dest: bit_u64_bound)
    then show ?thesis
      using ih r(1) by (auto simp: bit_update_def nodes_bits_Cons_Un [of n ns] nodes_bits_Cons_Un [of n ns1])
  next
    case before
    have nb: "unat b \<notin> nodes_bits (n # ns)"
      using before Cons.prems(1)
      by (intro bits_above) (auto simp: nodes_ok_append nodes_ok_Cons word_le_nat_alt)
    have "\<forall>m\<in>set pre. unat (startbit m) < unat (align64 b)"
      using Cons.prems(1,2) by (auto simp: nodes_ok_append nodes_ok_def node_ok_def intro: aligned_below)
    moreover have "unat (align64 b) < unat (startbit n)"
      using before align64_bounds(1) [of b] by (simp add: word_le_nat_alt)
    ultimately have "nodes_ok (pre @ \<lparr>startbit = align64 b, emap = MAPBIT (unat (b - align64 b))\<rparr> # n # ns)"
      using Cons.prems(1) new_node_ok [OF Cons.prems(3)]
      by (auto simp: nodes_ok_append nodes_ok_Cons)
    moreover have "ns' = (if v = 0 then n # ns
        else \<lparr>startbit = align64 b, emap = MAPBIT (unat (b - align64 b))\<rparr> # n # ns)"
      "hb' = highbit_of_prev (pre @ n # ns)"
      using before Cons.prems(5) by (auto split: if_splits prod.splits bool.splits)
    ultimately show ?thesis
      using Cons.prems(1) nb by (simp add: bit_update_def highbit_of_prev_def new_node_bits)
  qed
qed

lemma set_bit_loop_error:
  "ebitmap_set_bit_loop h b v hb prev ns = (Inl err, h') \<Longrightarrow> err = ENOMEM \<and> \<not> mem_ok h"
  by (induction ns arbitrary: prev)
    (auto simp: Let_def split: if_splits prod.splits bool.splits sum.splits
      dest: malloc_fail_not_ok)

subsection \<open>Ranges\<close>

lemma bit_ones: "bit (NOT 0 :: u64) i \<longleftrightarrow> i < 64"
  by (simp add: bit_not_iff)

lemma bit_ones_shl: "bit (push_bit k (NOT 0 :: u64)) i \<longleftrightarrow> k \<le> i \<and> i < 64"
  unfolding bit_push_bit_iff bit_ones by auto

lemma bit_ones_shr: "bit (drop_bit k (NOT 0 :: u64)) i \<longleftrightarrow> i + k < 64"
  unfolding bit_drop_bit_eq comp_def bit_ones by (simp add: add.commute)

lemma unat_sub_le: "b \<le> a \<Longrightarrow> unat (a - b :: u32) = unat a - unat b"
  by (simp add: unat_sub)

lemma range_map_bit:
  assumes sb: "64 dvd unat sb" "align64 lo \<le> sb" "sb \<le> align64 hi" and "lo \<le> hi" and i: "i < 64"
  shows "bit (ebitmap_range_map lo hi sb) i \<longleftrightarrow> unat lo \<le> unat sb + i \<and> unat sb + i \<le> unat hi"
proof -
  note lo = align64_bounds [of lo] and hi = align64_bounds [of hi]
  have le: "unat (align64 lo) \<le> unat sb" "unat sb \<le> unat (align64 hi)" "unat lo \<le> unat hi"
    using assms by (simp_all add: word_le_nat_alt)
  have gap_lo: "sb \<noteq> align64 lo \<Longrightarrow> unat (align64 lo) + 64 \<le> unat sb"
    using le(1) sb(1) by (intro aligned_gap) (auto simp: word_unat_eq_iff)
  have gap_hi: "sb \<noteq> align64 hi \<Longrightarrow> unat sb + 64 \<le> unat (align64 hi)"
    using le(2) sb(1) by (intro aligned_gap) (auto simp: word_unat_eq_iff)
  have sublo: "sb = align64 lo \<Longrightarrow> unat (lo - sb) = unat lo - unat sb"
    using align64_in_block(1) by simp
  have plus1: "unat w < 64 \<Longrightarrow> unat (w + 1) = unat w + 1" for w :: u32
    by (simp add: unat_word_ariths)
  have subhi: "sb = align64 hi \<Longrightarrow> unat (hi - sb + 1) = unat hi - unat sb + 1"
    using plus1 [of "hi - sb"] align64_in_block [of hi] by simp
  have subboth: "sb = align64 lo \<Longrightarrow> sb = align64 hi \<Longrightarrow> unat (hi - lo + 1) = unat hi - unat lo + 1"
    using plus1 [of "hi - lo"] le(3) lo hi unat_sub_le [OF assms(4)] by simp
  consider (mid) "sb \<noteq> align64 lo" "sb \<noteq> align64 hi" | (first) "sb = align64 lo" "sb \<noteq> align64 hi"
    | (last) "sb \<noteq> align64 lo" "sb = align64 hi" | (only) "sb = align64 lo" "sb = align64 hi" by blast
  then show ?thesis
  proof cases
    case mid
    then have "ebitmap_range_map lo hi sb = NOT 0" by (simp add: ebitmap_range_map_def)
    with mid gap_lo gap_hi lo hi le i show ?thesis by (simp only: bit_ones) auto
  next
    case first
    then have "ebitmap_range_map lo hi sb = push_bit (unat lo - unat sb) (NOT 0)"
      using sublo by (simp add: ebitmap_range_map_def)
    with first gap_hi lo hi le i show ?thesis by (simp only: bit_ones_shl) auto
  next
    case last
    then have "ebitmap_range_map lo hi sb = drop_bit (64 - (unat hi - unat sb + 1)) (NOT 0)"
      using subhi by (simp add: ebitmap_range_map_def MAPSIZE_def)
    with last gap_lo lo hi le i show ?thesis by (simp only: bit_ones_shr) auto
  next
    case only
    then have "ebitmap_range_map lo hi sb =
        push_bit (unat lo - unat sb) (drop_bit (64 - (unat hi - unat lo + 1)) (NOT 0))"
      using sublo subboth by (simp add: ebitmap_range_map_def MAPSIZE_def)
    with only lo hi le i show ?thesis by (simp only: bit_push_bit_iff bit_ones_shr) auto
  qed
qed

lemma range_nodes_correct:
  assumes "64 dvd unat sb" "align64 lo \<le> sb" "lo \<le> hi" "align64 hi + 64 \<noteq> 0"
  shows "nodes_ok (ebitmap_range_nodes lo hi sb)
    \<and> (\<forall>n\<in>set (ebitmap_range_nodes lo hi sb). unat sb \<le> unat (startbit n))
    \<and> nodes_bits (ebitmap_range_nodes lo hi sb) = {x. unat sb \<le> x \<and> unat lo \<le> x \<and> x \<le> unat hi}
    \<and> (sb \<le> align64 hi \<longrightarrow> ebitmap_range_nodes lo hi sb \<noteq> []
        \<and> startbit (List.last (ebitmap_range_nodes lo hi sb)) = align64 hi)"
  using assms
proof (induction lo hi sb rule: ebitmap_range_nodes.induct)
  case (1 lo hi sb)
  let ?n = "\<lparr>startbit = sb, emap = ebitmap_range_map lo hi sb\<rparr>"
  note lo = align64_bounds [of lo] and hi = align64_bounds [of hi]
  have room: "unat (align64 hi) + 64 < 4294967296" using "1.prems"(4) by (rule align64_room)
  have le: "unat (align64 lo) \<le> unat sb" "unat lo \<le> unat hi"
    using "1.prems" by (simp_all add: word_le_nat_alt)
  show ?case
  proof (cases "sb \<le> align64 hi")
    case True
    then have sbhi: "unat sb \<le> unat (align64 hi)" by (simp add: word_le_nat_alt)
    then have next64: "unat (sb + 64) = unat sb + 64" using room by (simp add: unat_add_no_wrap)
    then have lt: "sb < sb + 64" by (simp add: word_less_nat_alt)
    have eq: "ebitmap_range_nodes lo hi sb = ?n # ebitmap_range_nodes lo hi (sb + 64)"
      using True lt by (subst ebitmap_range_nodes.simps) simp
    have mapbit: "i < 64 \<Longrightarrow> bit (emap ?n) i \<longleftrightarrow> unat lo \<le> unat sb + i \<and> unat sb + i \<le> unat hi" for i
      using range_map_bit [OF "1.prems"(1,2) True "1.prems"(3)] by simp
    have "max (unat lo) (unat sb) - unat sb < 64" using lo le by auto
    then have "bit (emap ?n) (max (unat lo) (unat sb) - unat sb)"
      using mapbit sbhi le hi by auto
    then have nz: "emap ?n \<noteq> 0" unfolding u64_eq_0_iff by blast
    have "64 dvd unat (sb + 64)" "align64 lo \<le> sb + 64"
      using "1.prems"(1,2) lt next64 by (auto simp: word_le_nat_alt)
    note ih = "1.IH" [OF conjI [OF True lt] this "1.prems"(3,4)]
    have nok: "node_ok ?n" using nz "1.prems"(1) sbhi room by (simp add: node_ok_iff)
    have nb: "nodes_bits [?n] = {x. unat sb \<le> x \<and> x < unat sb + 64 \<and> unat lo \<le> x \<and> x \<le> unat hi}"
      (is "_ = ?S")
    proof (intro set_eqI iffI)
      fix x assume "x \<in> nodes_bits [?n]"
      then obtain i where "x = unat sb + i" "bit (emap ?n) i" by (auto simp: single_node_bits)
      with mapbit [of i] bit_u64_bound [of "emap ?n" i] show "x \<in> ?S" by auto
    next
      fix x assume x: "x \<in> ?S"
      then have "bit (emap ?n) (x - unat sb)" using mapbit [of "x - unat sb"] by auto
      then have "unat (startbit ?n) + (x - unat sb) \<in> nodes_bits [?n]" by (intro nodes_bitsI) auto
      with x show "x \<in> nodes_bits [?n]" by simp
    qed
    have "nodes_bits (?n # ebitmap_range_nodes lo hi (sb + 64)) = {x. unat sb \<le> x \<and> unat lo \<le> x \<and> x \<le> unat hi}"
      using ih nb next64 by (subst nodes_bits_Cons_Un) auto
    moreover have "nodes_ok (?n # ebitmap_range_nodes lo hi (sb + 64))"
      using ih nok next64 by (auto simp: nodes_ok_Cons)
    moreover have "startbit (List.last (?n # ebitmap_range_nodes lo hi (sb + 64))) = align64 hi"
    proof (cases "sb + 64 \<le> align64 hi")
      case True
      with ih show ?thesis by simp
    next
      case False
      then have "ebitmap_range_nodes lo hi (sb + 64) = []" by (subst ebitmap_range_nodes.simps) simp
      moreover have "\<not> unat sb < unat (align64 hi)"
        using False next64 aligned_gap [OF "1.prems"(1) align64_dvd [of hi]]
        by (auto simp: word_le_nat_alt)
      with sbhi have "sb = align64 hi" by (simp add: word_unat_eq_iff)
      ultimately show ?thesis by simp
    qed
    ultimately show ?thesis using ih next64 unfolding eq by auto
  next
    case False
    then have "ebitmap_range_nodes lo hi sb = []" by (subst ebitmap_range_nodes.simps) simp
    moreover have "unat (align64 hi) + 64 \<le> unat sb"
      using False by (intro aligned_gap) (auto simp: word_le_nat_alt "1.prems"(1))
    then have "{x. unat sb \<le> x \<and> unat lo \<le> x \<and> x \<le> unat hi} = {}" using hi by auto
    ultimately show ?thesis using False by simp
  qed
qed


subsection \<open>Complement\<close>

lemma not_block:
  assumes ok: "nodes_ok ns" and al: "64 dvd unat cur" and ge: "\<forall>m\<in>set ns. unat cur \<le> unat (startbit m)"
    and m: "(sb, m, ns') =
      (case ns of
         n # r \<Rightarrow> if startbit n = cur then (startbit n, NOT (emap n), r) else (cur, NOT 0, ns)
       | [] \<Rightarrow> (cur, NOT 0, []))"
  shows "sb = cur" and "nodes_ok ns'" and "\<forall>m\<in>set ns'. unat cur + 64 \<le> unat (startbit m)"
    and "i < 64 \<Longrightarrow> bit m i \<longleftrightarrow> unat cur + i \<notin> nodes_bits ns"
    and "unat cur + 64 \<le> x \<Longrightarrow> x \<in> nodes_bits ns' \<longleftrightarrow> x \<in> nodes_bits ns"
proof -
  have gap: "unat cur + 64 \<le> unat (startbit n)" if "n \<in> set ns" "startbit n \<noteq> cur" for n
  proof (rule aligned_gap)
    show "64 dvd unat (startbit n)" using ok that(1) by (meson node_okD(1) nodes_ok_memD)
    show "unat cur < unat (startbit n)" using ge that by (auto simp: word_unat_eq_iff le_less)
  qed (rule al)
  have in_block: "i < 64 \<Longrightarrow> unat cur + i \<in> nodes_bits ns \<longleftrightarrow> (\<exists>n\<in>set ns. startbit n = cur \<and> bit (emap n) i)" for i
  proof
    assume i: "i < 64" "unat cur + i \<in> nodes_bits ns"
    then obtain n j where n: "n \<in> set ns" "unat cur + i = unat (startbit n) + j" "bit (emap n) j"
      by (auto simp: nodes_bits_def)
    with gap [OF n(1)] i(1) have "startbit n = cur" by force
    with n show "\<exists>n\<in>set ns. startbit n = cur \<and> bit (emap n) i" by auto
  qed (auto intro: nodes_bitsI)
  consider (hit) n r where "ns = n # r" "startbit n = cur" "sb = cur" "m = NOT (emap n)" "ns' = r"
    | (miss) "\<forall>m\<in>set ns. startbit m \<noteq> cur" "sb = cur" "m = NOT 0" "ns' = ns"
  proof (cases ns)
    case Nil
    then show ?thesis using m miss by simp
  next
    case (Cons n r)
    show ?thesis
    proof (cases "startbit n = cur")
      case True
      then show ?thesis using m Cons hit by simp
    next
      case False
      moreover have "unat cur < unat (startbit n)" using gap [of n] Cons False by simp
      ultimately have "\<forall>m\<in>set ns. startbit m \<noteq> cur"
        using ok Cons nodes_ok_Cons [of n r] by fastforce
      then show ?thesis using m Cons False miss by simp
    qed
  qed
  then have *: "sb = cur \<and> nodes_ok ns' \<and> (\<forall>m\<in>set ns'. unat cur + 64 \<le> unat (startbit m))
    \<and> (i < 64 \<longrightarrow> bit m i = (unat cur + i \<notin> nodes_bits ns))
    \<and> (unat cur + 64 \<le> x \<longrightarrow> (x \<in> nodes_bits ns') = (x \<in> nodes_bits ns))"
  proof cases
    case hit
    have ok': "nodes_ok r" "\<forall>m\<in>set r. unat cur < unat (startbit m)"
      using ok hit by (simp_all add: nodes_ok_Cons)
    have far: "\<forall>m\<in>set r. startbit m \<noteq> cur" using ok'(2) by force
    have "\<forall>m\<in>set r. unat cur + 64 \<le> unat (startbit m)"
      using gap far hit(1) by simp
    moreover have "i < 64 \<longrightarrow> bit m i = (unat cur + i \<notin> nodes_bits ns)"
      using in_block [of i] far hit by (simp add: bit_not_iff)
    moreover have "unat cur + 64 \<le> x \<longrightarrow> x \<notin> nodes_bits [n]"
      using hit(2) by (auto simp: single_node_bits dest: bit_u64_bound)
    ultimately show ?thesis
      using hit ok'(1) nodes_bits_Cons_Un [of n r] by simp
  next
    case miss
    have "i < 64 \<longrightarrow> bit m i = (unat cur + i \<notin> nodes_bits ns)"
      using in_block [of i] miss by (simp add: bit_not_iff)
    with miss gap ok show ?thesis by simp
  qed
  from * show "sb = cur" "nodes_ok ns'" "\<forall>m\<in>set ns'. unat cur + 64 \<le> unat (startbit m)"
    and "i < 64 \<Longrightarrow> bit m i \<longleftrightarrow> unat cur + i \<notin> nodes_bits ns"
    and "unat cur + 64 \<le> x \<Longrightarrow> x \<in> nodes_bits ns' \<longleftrightarrow> x \<in> nodes_bits ns" by simp_all
qed

lemma not_mask_bit:
  fixes cur maxbit :: u32 and m :: u64
  assumes "cur < maxbit" "i < 64"
  shows "bit (if unat (maxbit - cur) < MAPSIZE then m AND (MAPBIT (unat (maxbit - cur)) - 1) else m) i
     \<longleftrightarrow> bit m i \<and> unat cur + i < unat maxbit"
proof -
  have sub: "unat (maxbit - cur) = unat maxbit - unat cur" "unat cur < unat maxbit"
    using assms(1) unat_sub_le [of cur maxbit] by (simp_all add: less_imp_le word_less_nat_alt word_le_nat_alt)
  have "MAPBIT k - 1 = mask k" for k
    by (simp add: MAPBIT_def mask_eq_exp_minus_1)
  then show ?thesis
    using sub assms(2) by (auto simp: MAPSIZE_def bit_and_iff bit_mask_iff)
qed

lemma not_split:
  assumes bits: "\<And>i. i < 64 \<Longrightarrow> bit m i \<longleftrightarrow> c + i < b \<and> c + i \<notin> S" and "unat sb = c"
  shows "{x. c \<le> x \<and> x < b \<and> x \<notin> S} =
    nodes_bits [\<lparr>startbit = sb, emap = m\<rparr>] \<union> {x. c + 64 \<le> x \<and> x < b \<and> x \<notin> S}"
proof (intro set_eqI)
  fix x
  show "x \<in> {x. c \<le> x \<and> x < b \<and> x \<notin> S} \<longleftrightarrow>
    x \<in> nodes_bits [\<lparr>startbit = sb, emap = m\<rparr>] \<union> {x. c + 64 \<le> x \<and> x < b \<and> x \<notin> S}"
    using bits [of "x - c"] assms(2) bit_u64_bound [of m]
    by (cases "c \<le> x \<and> x < c + 64") (auto simp: single_node_bits intro: exI [of _ "x - c"])
qed

lemma not_cons_ok:
  assumes "64 dvd unat cur" "unat cur + 64 < 2 ^ 32" "m \<noteq> 0"
    and "nodes_ok rs" "\<forall>n\<in>set rs. unat cur + 64 \<le> unat (startbit n)"
  shows "nodes_ok (\<lparr>startbit = cur, emap = m\<rparr> # rs)"
proof -
  have "\<forall>n\<in>set rs. unat cur < unat (startbit n)" using assms(5) by fastforce
  with assms(1-4) show ?thesis by (simp add: nodes_ok_Cons node_ok_iff)
qed

lemma not_loop_correct:
  assumes "nodes_ok ns" "64 dvd unat cur" "\<forall>n\<in>set ns. unat cur \<le> unat (startbit n)"
    "maxbit \<le> 0xFFFFFFC0"
  shows "case ebitmap_not_loop h ns cur maxbit of
      None \<Rightarrow> False
    | Some (Inl e, h') \<Rightarrow> e = ENOMEM \<and> \<not> mem_ok h
    | Some (Inr rs, h') \<Rightarrow> nodes_ok rs \<and> (\<forall>n\<in>set rs. unat cur \<le> unat (startbit n)) \<and>
        nodes_bits rs = {x. unat cur \<le> x \<and> x < unat maxbit \<and> x \<notin> nodes_bits ns}"
  using assms
proof (induction "unat maxbit - unat cur" arbitrary: ns cur h rule: less_induct)
  case less
  show ?case
  proof (cases "cur < maxbit")
    case False
    then have "ebitmap_not_loop h ns cur maxbit = Some (Inr [], h)"
      by (subst ebitmap_not_loop.simps) simp
    with False show ?thesis by (simp add: word_less_nat_alt)
  next
    case True
    obtain sb m ns' where m: "(case ns of n # r \<Rightarrow> if startbit n = cur then (startbit n, NOT (emap n), r)
         else (cur, NOT 0, ns) | [] \<Rightarrow> (cur, NOT 0, [])) = (sb, m, ns')"
      by (rule prod_cases3)
    define m' where "m' = (if unat (maxbit - cur) < MAPSIZE then m AND (MAPBIT (unat (maxbit - cur)) - 1) else m)"
    note blk = not_block [OF less.prems(1,2,3) m [symmetric]]
    have cur: "unat cur < unat maxbit" "unat cur + 64 < 2 ^ 32"
      using True less.prems(2,4) by (auto simp: word_less_nat_alt word_le_nat_alt elim!: dvdE)
    have cur64: "unat (cur + 64) = unat cur + 64"
      using unat_add_no_wrap [of cur 64] cur(2) by simp
    have bits: "bit m' i \<longleftrightarrow> unat cur + i < unat maxbit \<and> unat cur + i \<notin> nodes_bits ns" if "i < 64" for i
      using not_mask_bit [OF True that, of m] blk(4) [OF that] by (simp add: m'_def conj_commute)
    have al64: "64 dvd unat (cur + 64)" using less.prems(2) by (simp add: cur64)
    have "unat maxbit - unat (cur + 64) < unat maxbit - unat cur" using cur by (simp add: cur64)
    note IH = less.hyps [OF this blk(2) al64 _ less.prems(4), unfolded cur64, OF blk(3)]
    have IH': "case ebitmap_not_loop h2 ns' (cur + 64) maxbit of None \<Rightarrow> False
       | Some (Inl e, h') \<Rightarrow> e = ENOMEM \<and> \<not> mem_ok h2
       | Some (Inr rs, h') \<Rightarrow> nodes_ok rs \<and> (\<forall>n\<in>set rs. unat cur + 64 \<le> unat (startbit n)) \<and>
          nodes_bits rs = {x. unat cur + 64 \<le> x \<and> x < unat maxbit \<and> x \<notin> nodes_bits ns}" for h2
    proof -
      have "{x. unat cur + 64 \<le> x \<and> x < unat maxbit \<and> x \<notin> nodes_bits ns'}
        = {x. unat cur + 64 \<le> x \<and> x < unat maxbit \<and> x \<notin> nodes_bits ns}"
        using blk(5) by blast
      then show ?thesis
        using IH [of h2] by (simp only:)
    qed
    have split: "{x. unat cur \<le> x \<and> x < unat maxbit \<and> x \<notin> nodes_bits ns}
       = nodes_bits [\<lparr>startbit = sb, emap = m'\<rparr>] \<union>
         {x. unat cur + 64 \<le> x \<and> x < unat maxbit \<and> x \<notin> nodes_bits ns}"
      using not_split [OF bits] blk(1) by simp
    have step: "ebitmap_not_loop h ns cur maxbit =
       (if m' \<noteq> 0
        then (let (ok, h') = malloc h
              in if ok
                 then Option.bind (ebitmap_not_loop h' ns' (cur + 64) maxbit)
                        (\<lambda>r. case r of (Inl err, h'') \<Rightarrow> Some (Inl err, h'')
                            | (Inr rs, h'') \<Rightarrow> Some (Inr (\<lparr>startbit = sb, emap = m'\<rparr> # rs), h''))
                 else Some (Inl ENOMEM, h'))
        else ebitmap_not_loop h ns' (cur + 64) maxbit)"
      by (subst ebitmap_not_loop.simps) (simp only: True if_True m Let_def prod.case m'_def)
    show ?thesis
    proof (cases "m' = 0")
      case True
      then have "nodes_bits [\<lparr>startbit = sb, emap = m'\<rparr>] = {}" by (simp add: single_node_bits)
      with split step True IH' [of h] show ?thesis
        by (auto split: option.splits prod.splits sum.splits)
    next
      case False
      obtain ok h1 where h1: "malloc h = (ok, h1)" by (cases "malloc h")
      show ?thesis
      proof (cases ok)
        case fails: False
        with h1 step False show ?thesis by (simp add: malloc_fail_not_ok)
      next
        case True
        have mem: "\<not> mem_ok h1 \<Longrightarrow> \<not> mem_ok h" using malloc_mem_ok [of h] h1 by auto
        obtain r h2 where r: "ebitmap_not_loop h1 ns' (cur + 64) maxbit = Some (r, h2)"
          using IH' [of h1] by (auto split: option.splits)
        show ?thesis
        proof (cases r)
          case (Inl e)
          with IH' [of h1] r mem show ?thesis by (simp add: step h1 True False)
        next
          case (Inr rs)
          with IH' [of h1] r have rs: "nodes_ok rs" "\<forall>n\<in>set rs. unat cur + 64 \<le> unat (startbit n)"
            "nodes_bits rs = {x. unat cur + 64 \<le> x \<and> x < unat maxbit \<and> x \<notin> nodes_bits ns}"
            by simp_all
          have "ebitmap_not_loop h ns cur maxbit = Some (Inr (\<lparr>startbit = sb, emap = m'\<rparr> # rs), h2)"
            using r Inr by (simp add: step h1 True False)
          moreover have "\<forall>n\<in>set rs. unat cur \<le> unat (startbit n)" using rs(2) by fastforce
          ultimately show ?thesis
            using not_cons_ok [OF less.prems(2) cur(2) False rs(1,2)] blk(1)
              nodes_bits_Cons_Un [of "\<lparr>startbit = sb, emap = m'\<rparr>" rs] rs(3) split by simp
        qed
      qed
    qed
  qed
qed

lemma aligned_below_top:
  assumes "64 dvd unat (cur :: u32)" "0xFFFFFFC0 < (maxbit :: u32)"
  shows "cur < maxbit"
  using assms unat_u32_less [of cur] by (auto simp: word_less_nat_alt elim!: dvdE)

lemma aligned_step: "64 dvd unat (cur :: u32) \<Longrightarrow> 64 dvd unat (cur + 64)"
  by (simp add: unat_word_ariths dvd_mod)

lemma not_loop_diverges:
  assumes "ebitmap_not_loop h ns cur maxbit = Some y"
  shows "64 dvd unat cur \<longrightarrow> 0xFFFFFFC0 < maxbit \<longrightarrow> \<not> mem_ok h"
proof (rule ebitmap_not_loop.raw_induct [OF _ assms, of "\<lambda>h ns cur maxbit y. 64 dvd unat cur \<longrightarrow> 0xFFFFFFC0 < maxbit \<longrightarrow> \<not> mem_ok h"], intro impI)
  fix f h ns and cur maxbit :: u32 and y
  assume IH: "\<And>h ns cur maxbit y. f h ns cur maxbit = Some y \<Longrightarrow>
      64 dvd unat cur \<longrightarrow> 0xFFFFFFC0 < maxbit \<longrightarrow> \<not> mem_ok h"
    and step: "(if cur < maxbit then let (sb, m, ns') =
                  (case ns of [] \<Rightarrow> (cur, NOT 0, [])
                   | n # r \<Rightarrow> if startbit n = cur then (startbit n, NOT (emap n), r)
                              else (cur, NOT 0, ns));
                m' = (if unat (maxbit - cur) < MAPSIZE
                      then m AND (MAPBIT (unat (maxbit - cur)) - 1) else m)
            in if m' \<noteq> 0
               then (let (ok, h') = malloc h
                     in if ok
                        then Option.bind (f h' ns' (cur + 64) maxbit)
                               (\<lambda>r. case r of
                                      (Inl err, h'') \<Rightarrow> Some (Inl err, h'')
                                    | (Inr rs, h'') \<Rightarrow>
                                        Some (Inr (\<lparr>startbit = sb, emap = m'\<rparr> # rs), h''))
                        else Some (Inl ENOMEM, h'))
               else f h ns' (cur + 64) maxbit
      else Some (Inr [], h)) = Some y"
    and al: "64 dvd unat cur" and top: "0xFFFFFFC0 < maxbit"
  have fails: "f h' ns' (cur + 64) maxbit = Some z \<Longrightarrow> \<not> mem_ok h'" for h' ns' z
    using IH aligned_step [OF al] top by blast
  have mono: "malloc h = (ok, h') \<Longrightarrow> \<not> mem_ok h' \<Longrightarrow> \<not> mem_ok h" for ok h'
    using malloc_mem_ok [of h] by auto
  show "\<not> mem_ok h"
    using step aligned_below_top [OF al top] fails mono malloc_fail_not_ok
    by (auto simp: Let_def bind_eq_Some_conv split: prod.splits if_splits)
qed

subsection \<open>Counting\<close>

lemma popcount64_card: "popcount64 w = card {i. bit w i}"
proof -
  have "popcount64 w = card (set (filter (\<lambda>i. bit w i) [0..<64]))"
    unfolding popcount64_def by (rule distinct_card [symmetric]) simp
  also have "set (filter (\<lambda>i. bit w i) [0..<64]) = {i. bit w i}"
    using bit_u64_bound by auto
  finally show ?thesis .
qed

lemma finite_bits_u64 [simp]: "finite {i. bit (w :: u64) i}"
  by (rule finite_subset [of _ "{..<64}"]) (auto dest: bit_u64_bound)

lemma finite_nodes_bits [simp]: "finite (nodes_bits ns)"
proof (induction ns)
  case (Cons n ns)
  have "nodes_bits [n] = (\<lambda>i. unat (startbit n) + i) ` {i. bit (emap n) i}"
    by (auto simp: single_node_bits)
  with Cons show ?case by (simp add: nodes_bits_Cons_Un [of n ns])
qed (simp add: nodes_bits_Nil)

lemma single_disjoint:
  assumes "nodes_ok (n # ns)"
  shows "nodes_bits [n] \<inter> nodes_bits ns = {}"
proof -
  have "unat (startbit n) + 64 \<le> unat (startbit m)" if "m \<in> set ns" for m
    using assms that by (intro aligned_gap) (auto simp: nodes_ok_Cons dest: nodes_ok_memD node_okD)
  then show ?thesis
    by (fastforce simp: single_node_bits nodes_bits_def dest: bit_u64_bound)
qed

lemma card_single: "card (nodes_bits [n]) = popcount64 (emap n)"
proof -
  have "nodes_bits [n] = (\<lambda>i. unat (startbit n) + i) ` {i. bit (emap n) i}"
    by (auto simp: single_node_bits)
  then show ?thesis by (simp add: card_image popcount64_card)
qed

lemma card_nodes_bits: "nodes_ok ns \<Longrightarrow> card (nodes_bits ns) = sum_list (map (\<lambda>n. popcount64 (emap n)) ns)"
proof (induction ns)
  case (Cons n ns)
  then show ?case
    using single_disjoint [OF Cons.prems]
    by (simp add: nodes_bits_Cons_Un [of n ns] card_Un_disjoint card_single nodes_ok_Cons)
qed (simp add: nodes_bits_Nil)

lemma cardinality_nodes_sum:
  "ebitmap_cardinality_nodes c ns = c + word_of_nat (sum_list (map (\<lambda>n. popcount64 (emap n)) ns))"
  by (induction ns arbitrary: c) (simp_all add: add.assoc)

lemma card_nodes_bound: "nodes_ok ns \<Longrightarrow> card (nodes_bits ns) < 2 ^ 32"
proof -
  assume "nodes_ok ns"
  then have "nodes_bits ns \<subseteq> {..<unat (highbit_of_prev ns)}"
    using nodes_bits_less by blast
  then have "card (nodes_bits ns) \<le> unat (highbit_of_prev ns)"
    using card_mono [of "{..<unat (highbit_of_prev ns)}"] by fastforce
  then show ?thesis using unat_u32_less [of "highbit_of_prev ns"] by simp
qed

lemma cardinality_nodes_card:
  assumes "nodes_ok ns"
  shows "unat (ebitmap_cardinality_nodes 0 ns) = card (nodes_bits ns)"
proof -
  have "unat (word_of_nat (card (nodes_bits ns)) :: u32) = card (nodes_bits ns)"
    using card_nodes_bound [OF assms] by (simp add: unsigned_of_nat take_bit_nat_eq_self)
  then show ?thesis using assms by (simp add: cardinality_nodes_sum card_nodes_bits)
qed

lemma highest_set_pos_max:
  assumes "m \<noteq> 0" "\<And>i. bit m i \<Longrightarrow> i \<le> fuel"
  shows "\<exists>j. highest_set_pos fuel m pos = pos + j \<and> bit m j \<and> (\<forall>i. bit m i \<longrightarrow> i \<le> j)"
  using assms
proof (induction fuel arbitrary: m pos)
  case 0
  then show ?case by (auto simp: u64_eq_0_iff)
next
  case (Suc fuel)
  have shift: "bit (drop_bit 1 m) i \<longleftrightarrow> bit m (Suc i)" for i
    by (simp add: bit_drop_bit_eq)
  show ?case
  proof (cases "drop_bit 1 m = 0")
    case True
    then have none: "\<not> bit m (Suc i)" for i using shift [of i] by simp
    then have "i = 0" if "bit m i" for i using that by (cases i) auto
    moreover from this have "bit m 0" using Suc.prems(1) by (auto simp: u64_eq_0_iff)
    ultimately show ?thesis using True by auto
  next
    case False
    obtain j where j: "highest_set_pos fuel (drop_bit 1 m) (Suc pos) = Suc pos + j"
        "bit (drop_bit 1 m) j" "\<forall>i. bit (drop_bit 1 m) i \<longrightarrow> i \<le> j"
      using Suc.IH [OF False, of "Suc pos"] Suc.prems(2) shift by blast
    have "i \<le> Suc j" if "bit m i" for i using j(3) that shift by (cases i) auto
    with False j shift show ?thesis by (intro exI [of _ "Suc j"]) (simp add: Let_def)
  qed
qed

subsection \<open>Iteration\<close>

lemma node_get_bit_mem:
  assumes "unat (startbit n) \<le> unat b" "unat b < unat (startbit n) + 64"
  shows "ebitmap_node_get_bit n b \<longleftrightarrow> unat b \<in> nodes_bits [n]"
proof -
  have "unat (b - startbit n) = unat b - unat (startbit n)"
    using assms(1) by (simp add: unat_sub_le word_le_nat_alt)
  then show ?thesis
    using assms by (auto simp: ebitmap_node_get_bit_def and_MAPBIT single_node_bits intro: exI [of _ "unat b - unat (startbit n)"])
qed

lemma next_spec:
  assumes ok: "nodes_ok (n # r)" and inb: "unat (startbit n) \<le> unat b" "unat b < unat (startbit n) + 64"
    and nb: "ebitmap_next (n # r) b = (ns', b')"
  shows "nodes_ok ns'" "highbit_of_prev ns' = highbit_of_prev (n # r)"
    and "unat (startbit (hd ns')) \<le> unat b'" "tl ns' \<noteq> [] \<Longrightarrow> unat b' < unat (startbit (hd ns')) + 64"
    and "{x \<in> nodes_bits (n # r). unat b < x} = {x \<in> nodes_bits ns'. unat b' \<le> x}"
proof -
  have n: "unat (startbit n) + 64 < 2 ^ 32" and okr: "nodes_ok r"
    using ok by (simp_all add: nodes_ok_Cons node_ok_def)
  have suc: "unat (b + 1) = unat b + 1" using n inb unat_add_no_wrap [of b 1] by simp
  show "nodes_ok ns'" "highbit_of_prev ns' = highbit_of_prev (n # r)"
    using nb ok okr by (auto simp: ebitmap_next_def highbit_of_prev_def split: list.splits if_splits)
  show "unat (startbit (hd ns')) \<le> unat b'" "tl ns' \<noteq> [] \<Longrightarrow> unat b' < unat (startbit (hd ns')) + 64"
    using nb inb suc by (auto simp: ebitmap_next_def MAPSIZE_def split: list.splits if_splits)
  consider (jump) n' r' where "r = n' # r'" "unat b = unat (startbit n) + 63" "ns' = r" "b' = startbit n'"
    | (inc) "ns' = n # r" "b' = b + 1"
    using nb by (auto simp: ebitmap_next_def MAPSIZE_def split: list.splits if_splits)
  then show "{x \<in> nodes_bits (n # r). unat b < x} = {x \<in> nodes_bits ns'. unat b' \<le> x}"
  proof cases
    case jump
    have "\<forall>x\<in>nodes_bits [n]. x \<le> unat b"
      using jump(2) by (auto simp: single_node_bits dest!: bit_u64_bound)
    moreover have "unat b < x \<and> unat (startbit n') \<le> x" if x: "x \<in> nodes_bits r" for x
    proof -
      obtain m i where m: "m \<in> set r" "x = unat (startbit m) + i"
        using x by (auto simp: nodes_bits_def)
      have "unat (startbit n') \<le> unat (startbit m)"
        using okr jump(1) m(1) by (auto simp: nodes_ok_Cons less_imp_le)
      moreover have "unat (startbit n) + 64 \<le> unat (startbit m)"
        using ok m(1) by (intro aligned_gap) (auto simp: nodes_ok_Cons dest: nodes_ok_memD node_okD)
      ultimately show ?thesis using m(2) jump(2) by simp
    qed
    ultimately show ?thesis using jump nodes_bits_Cons_Un [of n r] by fastforce
  next
    case inc
    then show ?thesis by (auto simp: suc)
  qed
qed

lemma block_mem:
  assumes "nodes_ok (n # r)" "unat (startbit n) \<le> b" "b < unat (startbit n) + 64"
  shows "b \<in> nodes_bits (n # r) \<longleftrightarrow> b \<in> nodes_bits [n]"
proof -
  have "unat (startbit n) + 64 \<le> unat (startbit m)" if "m \<in> set r" for m
    using assms(1) that by (intro aligned_gap) (auto simp: nodes_ok_Cons dest: nodes_ok_memD node_okD)
  then have "b \<notin> nodes_bits r" using assms(3) by (intro bits_above) fastforce
  then show ?thesis by (simp add: nodes_bits_Cons_Un [of n r])
qed

lemma positive_bits_from_spec:
  assumes "nodes_ok ns" "len = highbit_of_prev ns"
    and "ns \<noteq> [] \<Longrightarrow> unat (startbit (hd ns)) \<le> unat b"
    and "tl ns \<noteq> [] \<Longrightarrow> unat b < unat (startbit (hd ns)) + 64"
  shows "sorted_wrt (<) (map unat (ebitmap_positive_bits_from len ns b))
    \<and> set (map unat (ebitmap_positive_bits_from len ns b)) = {x \<in> nodes_bits ns. unat b \<le> x}"
  using assms
proof (induction len ns b rule: ebitmap_positive_bits_from.induct)
  case (1 len ns b)
  show ?case
  proof (cases ns)
    case Nil
    then show ?thesis by (simp add: ebitmap_positive_bits_from.simps)
  next
    case (Cons n r)
    show ?thesis
    proof (cases "b < len")
      case False
      have "x < unat len" if "x \<in> nodes_bits ns" for x
        using nodes_bits_less [OF "1.prems"(1) that] "1.prems"(2) by simp
      with False have "{x \<in> nodes_bits ns. unat b \<le> x} = {}"
        by (fastforce simp: word_less_nat_alt)
      with False Cons show ?thesis by (simp add: ebitmap_positive_bits_from.simps)
    next
      case True
      obtain ns' b' where nb: "ebitmap_next ns b = (ns', b')" by fastforce
      have inb: "unat (startbit n) \<le> unat b" "unat b < unat (startbit n) + 64"
        using "1.prems" Cons True unat_highbit_of_prev [OF "1.prems"(1)]
        by (auto simp: word_less_nat_alt split: if_splits)
      note nx = next_spec [OF "1.prems"(1) [unfolded Cons] inb nb [unfolded Cons]]
      have len': "len = highbit_of_prev ns'" using nx(2) "1.prems"(2) Cons by simp
      have IH: "sorted_wrt (<) (map unat (ebitmap_positive_bits_from len ns' b'))
        \<and> set (map unat (ebitmap_positive_bits_from len ns' b')) = {x \<in> nodes_bits ns'. unat b' \<le> x}"
        by (cases "ebitmap_node_get_bit n b")
          (use "1.IH" [OF Cons True nb [symmetric] refl] nx(1,3,4) len' in blast)+
      have "sorted_wrt (<) (map unat (ebitmap_positive_bits_from len ns' b'))
        \<and> set (map unat (ebitmap_positive_bits_from len ns' b')) = {x \<in> nodes_bits ns. unat b < x}"
        using IH nx(5) Cons by simp
      moreover have "ebitmap_node_get_bit n b \<longleftrightarrow> unat b \<in> nodes_bits ns"
        using node_get_bit_mem [OF inb] block_mem [OF "1.prems"(1) [unfolded Cons] inb] Cons by simp
      ultimately show ?thesis using Cons nb True
        by (subst (1 2) ebitmap_positive_bits_from.simps) auto
    qed
  qed
qed

subsection \<open>The operations on whole bitmaps\<close>

lemma align64_top: "align64 b + 64 = 0 \<longleftrightarrow> 0xFFFFFFC0 \<le> b"
proof -
  have "unat (align64 b + 64) = (unat b div 64 * 64 + 64) mod 2 ^ 32"
    by (simp add: unat_word_ariths unat_align64)
  moreover have "unat b < 2 ^ 32" using unat_u32_less [of b] by simp
  moreover from this have "unat b div 64 < 67108863 \<or> unat b div 64 = 67108863" by auto
  ultimately have "unat (align64 b + 64) = 0 \<longleftrightarrow> 0xFFFFFFC0 \<le> unat b"
    by (elim disjE) auto
  then show ?thesis by (simp add: word_le_nat_alt unat_eq_0)
qed

lemma highbit_of_prev_bound:
  assumes c: "nodes_ok c" and H: "64 dvd unat H" "\<forall>x\<in>nodes_bits c. x < unat H"
  shows "highbit_of_prev c \<le> H"
proof (cases "c = []")
  case False
  then obtain x where x: "x \<in> nodes_bits c" "unat (startbit (last c)) \<le> x"
    using last_block [OF c] by blast
  have "64 dvd unat (startbit (last c))" using c False by (simp add: nodes_ok_def node_ok_def)
  then have "unat (startbit (last c)) + 64 \<le> unat H"
    using x H by (intro aligned_gap) auto
  then show ?thesis using False by (simp add: word_le_nat_alt unat_highbit_of_prev [OF c])
qed (simp add: highbit_of_prev_def)

lemma highbit_of_prev_dvd: "nodes_ok ns \<Longrightarrow> 64 dvd unat (highbit_of_prev ns)"
  by (auto simp: unat_highbit_of_prev nodes_ok_def node_ok_def)

lemma highbit_of_prev_Un:
  assumes a: "nodes_ok a" and b: "nodes_ok b" and c: "nodes_ok c"
    and un: "nodes_bits c = nodes_bits a \<union> nodes_bits b"
  shows "highbit_of_prev c = max (highbit_of_prev a) (highbit_of_prev b)"
proof (rule antisym)
  have "64 dvd unat (max (highbit_of_prev a) (highbit_of_prev b))"
    using highbit_of_prev_dvd [OF a] highbit_of_prev_dvd [OF b] by (simp add: max_def)
  moreover have "\<forall>x\<in>nodes_bits c. x < unat (max (highbit_of_prev a) (highbit_of_prev b))"
    using nodes_bits_less [OF a] nodes_bits_less [OF b]
    by (fastforce simp: un max_def word_le_nat_alt)
  ultimately show "highbit_of_prev c \<le> max (highbit_of_prev a) (highbit_of_prev b)"
    by (rule highbit_of_prev_bound [OF c])
  show "max (highbit_of_prev a) (highbit_of_prev b) \<le> highbit_of_prev c"
    using highbit_of_prev_le [OF a c] highbit_of_prev_le [OF b c] un by simp
qed

lemma last_node_max:
  assumes ok: "nodes_ok ns" and x: "x \<in> nodes_bits ns" and j: "\<forall>i. bit (emap (last ns)) i \<longrightarrow> i \<le> j"
  shows "x \<le> unat (startbit (last ns)) + j"
proof -
  from x obtain n i where n: "n \<in> set ns" "bit (emap n) i" "x = unat (startbit n) + i"
    by (auto simp: nodes_bits_def)
  then have ne: "ns \<noteq> []" by auto
  show ?thesis
  proof (cases "n = last ns")
    case True
    then show ?thesis using j n by simp
  next
    case False
    from ne n(1) obtain pre where ns: "ns = pre @ [last ns]" by (metis append_butlast_last_id)
    with n(1) False have "n \<in> set pre" by (metis rotate1.simps(2) set_ConsD set_rotate1)
    with ok ns have "unat (startbit n) < unat (startbit (last ns))"
      by (metis (mono_tags, lifting) list.set_intros(1) nodes_ok_def sorted_wrt_append word_less_nat_alt)
    then have "unat (startbit n) + 64 \<le> unat (startbit (last ns))"
      using ok n(1) ne by (intro aligned_gap) (auto simp: nodes_ok_def node_ok_def)
    then show ?thesis using n(3) bit_u64_bound [OF n(2)] by simp
  qed
qed

lemma first_node_min: "\<lbrakk>nodes_ok (n # r); x \<in> nodes_bits (n # r)\<rbrakk> \<Longrightarrow> unat (startbit n) \<le> x"
  by (fastforce simp: nodes_bits_def nodes_ok_Cons)

lemma ebitmap_wfI: "nodes_ok ns \<Longrightarrow> ebitmap_wf \<lparr>node = ns, highbit = highbit_of_prev ns\<rparr>"
  by (simp add: ebitmap_wf_def)

lemma ebitmap_init_spec [simp]: "ebitmap_wf ebitmap_init" "ebitmap_bits ebitmap_init = {}"
  by (simp_all add: ebitmap_wf_def ebitmap_bits_def ebitmap_init_def nodes_ok_def highbit_of_prev_def)

lemma ebitmap_bits_finite [simp]: "finite (ebitmap_bits e)"
  by (simp add: ebitmap_bits_def)

lemma ebitmap_bits_bound: "\<lbrakk>ebitmap_wf e; b \<in> ebitmap_bits e\<rbrakk> \<Longrightarrow> b < unat (highbit e)"
  using nodes_bits_less by (simp add: ebitmap_wf_def ebitmap_bits_def)

lemma ebitmap_or_spec:
  assumes "ebitmap_wf e1" "ebitmap_wf e2"
  shows "case ebitmap_or h e1 e2 of
     (Inl err, h') \<Rightarrow> err = ENOMEM \<and> \<not> mem_ok h
   | (Inr e, h') \<Rightarrow> ebitmap_wf e \<and> ebitmap_bits e = ebitmap_bits e1 \<union> ebitmap_bits e2"
proof -
  have ok: "nodes_ok (node e1)" "nodes_ok (node e2)" using assms by (simp_all add: ebitmap_wf_def)
  have "highbit_of_prev (ebitmap_or_nodes (node e1) (node e2))
      = (if highbit e1 > highbit e2 then highbit e1 else highbit e2)"
    using highbit_of_prev_Un [OF ok nodes_ok_or [OF ok] nodes_bits_or [OF ok]] assms
    by (auto simp: ebitmap_wf_def max_def)
  then show ?thesis
    using ok by (auto simp: ebitmap_or_def ebitmap_wf_def ebitmap_bits_def nodes_ok_or nodes_bits_or
        split: prod.splits sum.splits dest: malloc_list_Inr malloc_list_Inl)
qed

lemma ebitmap_and_spec:
  assumes "ebitmap_wf e1" "ebitmap_wf e2"
  shows "case ebitmap_and h e1 e2 of
     (Inl err, h') \<Rightarrow> err = ENOMEM \<and> \<not> mem_ok h
   | (Inr e, h') \<Rightarrow> ebitmap_wf e \<and> ebitmap_bits e = ebitmap_bits e1 \<inter> ebitmap_bits e2"
  using assms
  by (auto simp: ebitmap_and_def ebitmap_wf_def ebitmap_bits_def nodes_ok_and nodes_bits_and
      split: prod.splits sum.splits dest: malloc_list_Inr malloc_list_Inl)

lemma ebitmap_xor_spec:
  assumes "ebitmap_wf e1" "ebitmap_wf e2"
  shows "case ebitmap_xor h e1 e2 of
     (Inl err, h') \<Rightarrow> err = ENOMEM \<and> \<not> mem_ok h
   | (Inr e, h') \<Rightarrow> ebitmap_wf e \<and>
        ebitmap_bits e = (ebitmap_bits e1 - ebitmap_bits e2) \<union> (ebitmap_bits e2 - ebitmap_bits e1)"
  using assms
  by (auto simp: ebitmap_xor_def ebitmap_wf_def ebitmap_bits_def nodes_ok_xor nodes_bits_xor
      split: prod.splits sum.splits dest: malloc_list_Inr malloc_list_Inl)

lemma ebitmap_cpy_spec:
  "case ebitmap_cpy h e of (Inl err, h') \<Rightarrow> err = ENOMEM \<and> \<not> mem_ok h | (Inr e', h') \<Rightarrow> e' = e"
  by (auto simp: ebitmap_cpy_def split: prod.splits sum.splits dest: malloc_list_Inr malloc_list_Inl)

lemma ebitmap_cmp_spec:
  "\<lbrakk>ebitmap_wf e1; ebitmap_wf e2\<rbrakk> \<Longrightarrow> ebitmap_cmp e1 e2 \<longleftrightarrow> ebitmap_bits e1 = ebitmap_bits e2"
  by (auto simp: ebitmap_cmp_def ebitmap_wf_def ebitmap_bits_def nodes_bits_ext)

lemma ebitmap_contains_spec:
  "\<lbrakk>ebitmap_wf e1; ebitmap_wf e2\<rbrakk> \<Longrightarrow> ebitmap_contains e1 e2 \<longleftrightarrow> ebitmap_bits e2 \<subseteq> ebitmap_bits e1"
  using highbit_of_prev_le [of "node e2" "node e1"]
  by (auto simp: ebitmap_contains_def ebitmap_wf_def ebitmap_bits_def contains_nodes_iff)

lemma ebitmap_match_any_spec:
  "\<lbrakk>ebitmap_wf e1; ebitmap_wf e2\<rbrakk> \<Longrightarrow> ebitmap_match_any e1 e2 \<longleftrightarrow> ebitmap_bits e1 \<inter> ebitmap_bits e2 \<noteq> {}"
  using nodes_bits_empty_iff [OF nodes_ok_and, of "node e1" "node e2"]
  by (simp add: ebitmap_match_any_def ebitmap_wf_def ebitmap_bits_def match_any_nodes_and nodes_bits_and)

lemma ebitmap_get_bit_spec:
  "ebitmap_wf e \<Longrightarrow> ebitmap_get_bit e b \<longleftrightarrow> unat b \<in> ebitmap_bits e"
  using ebitmap_bits_bound [of e "unat b"]
  by (auto simp: ebitmap_get_bit_def ebitmap_wf_def ebitmap_bits_def get_bit_nodes_iff word_less_nat_alt)

lemma ebitmap_set_bit_spec:
  assumes "ebitmap_wf e"
  shows "case ebitmap_set_bit h e b v of
     (Inl err, h') \<Rightarrow> err = EINVAL \<and> 0xFFFFFFC0 \<le> b \<or> err = ENOMEM \<and> \<not> mem_ok h
   | (Inr e', h') \<Rightarrow> b < 0xFFFFFFC0 \<and> ebitmap_wf e' \<and>
        ebitmap_bits e' = bit_update v (unat b) (ebitmap_bits e)"
proof (cases "align64 b + 64 = 0")
  case True
  then show ?thesis by (simp add: ebitmap_set_bit_def align64_top)
next
  case False
  have *: "ebitmap_set_bit_loop h b v (highbit e) None (node e) = (Inr (ns, hb), h') \<Longrightarrow>
      nodes_ok ns \<and> nodes_bits ns = bit_update v (unat b) (nodes_bits (node e)) \<and> hb = highbit_of_prev ns" for ns hb h'
    using set_bit_loop_correct [of "[]" "node e" b None h v ns hb h'] assms False
    by (simp add: ebitmap_wf_def)
  have "b < 0xFFFFFFC0" using False by (simp add: align64_top not_le)
  with False show ?thesis
    by (auto simp: ebitmap_set_bit_def ebitmap_wf_def ebitmap_bits_def split: prod.splits sum.splits
        dest: * set_bit_loop_error)
qed

lemma ebitmap_init_range_spec:
  "case ebitmap_init_range h lo hi of
     (Inl err, h') \<Rightarrow> err = EINVAL \<and> hi < lo \<or> err = EOVERFLOW \<and> 0xFFFFFFC0 \<le> hi \<and> lo \<le> hi
        \<or> err = ENOMEM \<and> \<not> mem_ok h
   | (Inr e, h') \<Rightarrow> lo \<le> hi \<and> hi < 0xFFFFFFC0 \<and> ebitmap_wf e \<and> ebitmap_bits e = {unat lo..unat hi}"
proof (cases "hi < lo \<or> align64 lo + 64 = 0 \<or> align64 hi + 64 = 0")
  case True
  then show ?thesis by (auto simp: ebitmap_init_range_def align64_top)
next
  case False
  let ?ns = "ebitmap_range_nodes lo hi (align64 lo)"
  have le: "lo \<le> hi" and hi: "align64 hi + 64 \<noteq> 0" using False by auto
  have lohi: "align64 lo \<le> align64 hi"
    using le by (simp add: word_le_nat_alt unat_align64 div_le_mono)
  note * = range_nodes_correct [OF align64_dvd order_refl le hi]
  have "nodes_bits ?ns = {unat lo..unat hi}"
    using * align64_bounds [of lo] by auto
  moreover have "highbit_of_prev ?ns = align64 hi + 64"
    using * lohi by (simp add: highbit_of_prev_def)
  ultimately show ?thesis
    using * False by (auto simp: ebitmap_init_range_def ebitmap_wf_def ebitmap_bits_def align64_top
        split: prod.splits sum.splits dest: malloc_list_Inr malloc_list_Inl)
qed

lemma ebitmap_not_spec:
  assumes "ebitmap_wf e" "maxbit \<le> 0xFFFFFFC0"
  shows "case ebitmap_not h e maxbit of
      None \<Rightarrow> False
    | Some (Inl err, h') \<Rightarrow> err = ENOMEM \<and> \<not> mem_ok h
    | Some (Inr e', h') \<Rightarrow> ebitmap_wf e' \<and> ebitmap_bits e' = {..<unat maxbit} - ebitmap_bits e"
  using not_loop_correct [of "node e" 0 maxbit h] assms
  by (auto simp: ebitmap_not_def ebitmap_wf_def ebitmap_bits_def
      split: option.splits prod.splits sum.splits)

lemma ebitmap_not_diverges:
  "\<lbrakk>0xFFFFFFC0 < maxbit; mem_ok h\<rbrakk> \<Longrightarrow> ebitmap_not h e maxbit = None"
  using not_loop_diverges [of h "node e" 0 maxbit]
  by (cases "ebitmap_not_loop h (node e) 0 maxbit") (auto simp: ebitmap_not_def)

lemma ebitmap_cardinality_spec: "ebitmap_wf e \<Longrightarrow> unat (ebitmap_cardinality e) = card (ebitmap_bits e)"
  by (simp add: ebitmap_cardinality_def ebitmap_wf_def ebitmap_bits_def cardinality_nodes_card)

lemma ebitmap_highest_set_bit_spec:
  assumes "ebitmap_wf e"
  shows "unat (ebitmap_highest_set_bit e) = (if ebitmap_bits e = {} then 0 else Max (ebitmap_bits e))"
proof (cases "node e = []")
  case True
  then show ?thesis by (simp add: ebitmap_highest_set_bit_def ebitmap_bits_def)
next
  case False
  let ?n = "last (node e)"
  have ok: "nodes_ok (node e)" "node_ok ?n"
    using assms False by (auto simp: ebitmap_wf_def intro: nodes_ok_memD)
  have "emap ?n \<noteq> 0" using ok(2) by (simp add: node_ok_def)
  moreover have "i \<le> 64" if "bit (emap ?n) i" for i using bit_u64_bound [OF that] by simp
  ultimately obtain j where j: "highest_set_pos 64 (emap ?n) 0 = j" "bit (emap ?n) j"
      "\<forall>i. bit (emap ?n) i \<longrightarrow> i \<le> j"
    using highest_set_pos_max [of "emap ?n" 64 0] by auto
  have j64: "j < 64" using bit_u64_bound [OF j(2)] .
  have mem: "unat (startbit ?n) + j \<in> nodes_bits (node e)"
    using j(2) False by (intro nodes_bitsI) auto
  have "x \<le> unat (startbit ?n) + j" if "x \<in> nodes_bits (node e)" for x
    using last_node_max [OF ok(1) that j(3)] .
  with mem have "Max (nodes_bits (node e)) = unat (startbit ?n) + j" by (intro Max_eqI) auto
  moreover have "unat (word_of_nat j :: u32) = j"
    using j64 by (simp add: unsigned_of_nat take_bit_nat_eq_self)
  ultimately show ?thesis
    using mem ok(2) j64 j(1) False unat_add_no_wrap [of "startbit ?n" "word_of_nat j"]
    by (auto simp: ebitmap_highest_set_bit_def ebitmap_bits_def node_ok_def)
qed

lemma ebitmap_positive_bits_spec:
  assumes "ebitmap_wf e"
  shows "map unat (ebitmap_positive_bits e) = sorted_list_of_set (ebitmap_bits e)"
proof -
  let ?l = "map unat (ebitmap_positive_bits e)"
  have "sorted_wrt (<) ?l \<and> set ?l = {x \<in> nodes_bits (node e). unat (ebitmap_startbit e) \<le> x}"
    unfolding ebitmap_positive_bits_def
    using assms by (intro positive_bits_from_spec)
      (auto simp: ebitmap_wf_def ebitmap_length_def ebitmap_startbit_def split: list.splits)
  moreover have "unat (ebitmap_startbit e) \<le> x" if "x \<in> nodes_bits (node e)" for x
    using first_node_min [of "hd (node e)" "tl (node e)" x] assms that
    by (cases "node e") (auto simp: ebitmap_wf_def ebitmap_startbit_def)
  ultimately have "sorted_wrt (<) ?l" "set ?l = ebitmap_bits e"
    by (auto simp: ebitmap_bits_def)
  then show ?thesis
    by (metis sorted_list_of_set.idem_if_sorted_distinct strict_sorted_iff)
qed

subsection \<open>The remaining operations\<close>

text \<open>\<open>op_result h r B\<close>: the operation that returned \<open>r\<close> failed for want of memory, or
  produced a well-formed bitmap that holds exactly \<open>B\<close>.\<close>

definition op_result :: "heap \<Rightarrow> (errno + ebitmap) \<times> heap \<Rightarrow> nat set \<Rightarrow> bool" where
  "op_result h r B \<longleftrightarrow>
     (case r of
        (Inl err, h') \<Rightarrow> err = ENOMEM \<and> \<not> mem_ok h
      | (Inr e, h') \<Rightarrow> ebitmap_wf e \<and> ebitmap_bits e = B)"

lemma op_result_ops:
  assumes "ebitmap_wf e1" "ebitmap_wf e2"
  shows "op_result h (ebitmap_or h e1 e2) (ebitmap_bits e1 \<union> ebitmap_bits e2)"
    and "op_result h (ebitmap_and h e1 e2) (ebitmap_bits e1 \<inter> ebitmap_bits e2)"
    and "op_result h (ebitmap_xor h e1 e2)
           ((ebitmap_bits e1 - ebitmap_bits e2) \<union> (ebitmap_bits e2 - ebitmap_bits e1))"
    and "op_result h (ebitmap_cpy h e1) (ebitmap_bits e1)"
  using ebitmap_or_spec [OF assms, of h] ebitmap_and_spec [OF assms, of h]
    ebitmap_xor_spec [OF assms, of h] ebitmap_cpy_spec [of h e1] assms
  by (auto simp: op_result_def split: prod.splits sum.splits)

lemma ebitmap_union_spec:
  assumes "ebitmap_wf dst" "ebitmap_wf e1"
  shows "case ebitmap_union h dst e1 of
     (Inl err, h') \<Rightarrow> err = EFAIL \<and> \<not> mem_ok h
   | (Inr e, h') \<Rightarrow> ebitmap_wf e \<and> ebitmap_bits e = ebitmap_bits dst \<union> ebitmap_bits e1"
  using ebitmap_or_spec [OF assms, of h]
  by (auto simp: ebitmap_union_def ebitmap_wf_def ebitmap_bits_def split: prod.splits sum.splits)

lemma malloc_list_heap: "\<lbrakk>malloc_list h xs = (r, h'); mem_ok h\<rbrakk> \<Longrightarrow> mem_ok h'"
  using malloc_list_mem_ok [of h xs] by auto

lemma not_loop_heap:
  assumes "ebitmap_not_loop h ns cur maxbit = Some (r, h')"
  shows "mem_ok h \<longrightarrow> mem_ok h'"
proof -
  have "mem_ok h \<longrightarrow> mem_ok (snd y)" if "ebitmap_not_loop h ns cur maxbit = Some y" for y
  proof (rule ebitmap_not_loop.raw_induct [OF _ that, of "\<lambda>h ns cur maxbit y. mem_ok h \<longrightarrow> mem_ok (snd y)"], goal_cases)
    case (1 f h ns cur maxbit y)
    have mono: "malloc h = (ok, h') \<Longrightarrow> mem_ok h \<Longrightarrow> mem_ok h'" for ok h'
      using malloc_mem_ok [of h] by auto
    have step: "f h' ns' c m = Some z \<Longrightarrow> mem_ok h' \<Longrightarrow> mem_ok (snd z)" for h' ns' c m z
      using 1(1) by blast
    have same: "(case r of Inl err \<Rightarrow> Some (Inl err, hr) | Inr rs \<Rightarrow> Some (Inr (n # rs), hr)) = Some y \<Longrightarrow> snd y = hr"
      for r :: "errno + ebitmap_node list" and n hr
      by (cases r) auto
    show ?case
      using 1(2)
      by (auto simp: Let_def bind_eq_Some_conv split: prod.split_asm if_splits dest!: same step
          dest: mono)
  qed
  with assms show ?thesis by fastforce
qed

lemma ebitmap_andnot_spec:
  assumes "ebitmap_wf e1" "ebitmap_wf e2" "maxbit \<le> 0xFFFFFFC0"
  shows "case ebitmap_andnot h e1 e2 maxbit of
      None \<Rightarrow> False
    | Some r \<Rightarrow> op_result h r (ebitmap_bits e1 \<inter> {..<unat maxbit} - ebitmap_bits e2)"
proof -
  obtain r h1 where r: "ebitmap_not h e2 maxbit = Some (r, h1)"
    using ebitmap_not_spec [OF assms(2,3), of h] by (auto split: option.splits)
  obtain r0 where "ebitmap_not_loop h (node e2) 0 maxbit = Some (r0, h1)"
    using r by (auto simp: ebitmap_not_def split: prod.splits sum.splits) (metis sum.exhaust)
  then have heap: "mem_ok h \<Longrightarrow> mem_ok h1"
    using not_loop_heap by blast
  show ?thesis
  proof (cases r)
    case (Inl e)
    then show ?thesis
      using ebitmap_not_spec [OF assms(2,3), of h] r by (simp add: ebitmap_andnot_def op_result_def)
  next
    case (Inr e3)
    then have e3: "ebitmap_wf e3" "ebitmap_bits e3 = {..<unat maxbit} - ebitmap_bits e2"
      using ebitmap_not_spec [OF assms(2,3), of h] r by simp_all
    have "ebitmap_bits e1 \<inter> {..<unat maxbit} - ebitmap_bits e2 = ebitmap_bits e1 \<inter> ebitmap_bits e3"
      using e3(2) by blast
    then show ?thesis
      using op_result_ops(2) [OF assms(1) e3(1), of h1] r Inr heap
      by (auto simp: ebitmap_andnot_def op_result_def split: prod.splits sum.splits)
  qed
qed

lemma ebitmap_hamming_distance_spec:
  assumes "ebitmap_wf e1" "ebitmap_wf e2"
  shows "case ebitmap_hamming_distance h e1 e2 of
     (Inl err, h') \<Rightarrow> err = EFAIL \<and> \<not> mem_ok h
   | (Inr d, h') \<Rightarrow>
       unat d = card ((ebitmap_bits e1 - ebitmap_bits e2) \<union> (ebitmap_bits e2 - ebitmap_bits e1))"
  using ebitmap_xor_spec [OF assms, of h] ebitmap_cmp_spec [OF assms]
  by (auto simp: ebitmap_hamming_distance_def ebitmap_cardinality_spec split: prod.splits sum.splits)

subsection \<open>The interface the clients rely on\<close>

text \<open>
  The security server, the MLS code and the policy readers use bitmaps as sets of
  numbers. What they rely on is this contract: the membership test, inclusion, equality
  and intersection tests mean what they say of the set a bitmap stands for.
\<close>

locale bitset =
  fixes wf :: "'b \<Rightarrow> bool" and bits :: "'b \<Rightarrow> nat set"
    and get_bit :: "'b \<Rightarrow> u32 \<Rightarrow> bool" and contains :: "'b \<Rightarrow> 'b \<Rightarrow> bool"
    and cmp :: "'b \<Rightarrow> 'b \<Rightarrow> bool" and match_any :: "'b \<Rightarrow> 'b \<Rightarrow> bool"
  assumes get_bit_iff: "wf a \<Longrightarrow> get_bit a i \<longleftrightarrow> unat i \<in> bits a"
    and contains_iff: "\<lbrakk>wf a; wf b\<rbrakk> \<Longrightarrow> contains a b \<longleftrightarrow> bits b \<subseteq> bits a"
    and cmp_iff: "\<lbrakk>wf a; wf b\<rbrakk> \<Longrightarrow> cmp a b \<longleftrightarrow> bits a = bits b"
    and match_any_iff: "\<lbrakk>wf a; wf b\<rbrakk> \<Longrightarrow> match_any a b \<longleftrightarrow> bits a \<inter> bits b \<noteq> {}"
begin

lemma contains_refl: "wf a \<Longrightarrow> contains a a"
  by (simp add: contains_iff)

lemma contains_trans: "\<lbrakk>wf a; wf b; wf c; contains a b; contains b c\<rbrakk> \<Longrightarrow> contains a c"
  by (auto simp: contains_iff)

lemma contains_antisym: "\<lbrakk>wf a; wf b\<rbrakk> \<Longrightarrow> contains a b \<and> contains b a \<longleftrightarrow> cmp a b"
  by (auto simp: contains_iff cmp_iff)

lemma contains_get_bit: "\<lbrakk>wf a; wf b; contains a b; get_bit b i\<rbrakk> \<Longrightarrow> get_bit a i"
  by (auto simp: contains_iff get_bit_iff)

lemma match_any_contains: "\<lbrakk>wf a; wf b; wf c; contains a b; match_any b c\<rbrakk> \<Longrightarrow> match_any a c"
  by (auto simp: contains_iff match_any_iff)

end

interpretation ebm: bitset ebitmap_wf ebitmap_bits ebitmap_get_bit ebitmap_contains
    ebitmap_cmp ebitmap_match_any
  by unfold_locales
    (simp_all add: ebitmap_get_bit_spec ebitmap_contains_spec ebitmap_cmp_spec ebitmap_match_any_spec)

end
