(* ===== verification/Policy_File.thy ===== *)
theory Policy_File
  imports Sepol_Prelude
begin

section \<open>Policy files: reading and writing the binary format\<close>

text \<open>
  The model of \<open>struct policy_file\<close> (libsepol/include/sepol/policydb/policydb.h) and of
  \<open>next_entry\<close>, \<open>put_entry\<close> and \<open>str_read\<close> (libsepol/src/services.c), with the
  sequencing combinators in which the readers and writers of the other components are
  written, and the two notions their correctness is stated with: \<open>reads m bs x\<close>, the
  reader \<open>m\<close> turns the bytes \<open>bs\<close> into \<open>x\<close> and leaves the rest of the file alone, and
  \<open>writes w bs\<close>, the writer \<open>w\<close> appends exactly \<open>bs\<close>. The locale \<open>codec\<close> is the
  contract between the two directions.
\<close>

datatype pf_type = PF_USE_MEMORY | PF_USE_STDIO | PF_LEN | PF_OTHER

text \<open>\<open>pf_data\<close> are the bytes not read yet, \<open>pf_out\<close> the bytes written so far. When
  writing, \<open>pf_len\<close> is the room left in the memory region or on the device, and for
  \<open>PF_LEN\<close> the total counted so far; when reading from memory the \<open>len\<close> of the C
  structure is the length of \<open>pf_data\<close>.\<close>

record policy_file =
  pf_type :: pf_type
  pf_data :: "u8 list"
  pf_out :: "u8 list"
  pf_len :: nat

type_synonym 'a rd = "heap \<times> policy_file \<Rightarrow> (errno + 'a) \<times> heap \<times> policy_file"
type_synonym wr = "policy_file \<Rightarrow> bool \<times> policy_file"

definition rret :: "'a \<Rightarrow> 'a rd" where
  "rret x s = (Inr x, s)"

definition rfail :: "errno \<Rightarrow> 'a rd" where
  "rfail e s = (Inl e, s)"

definition rbind :: "'a rd \<Rightarrow> ('a \<Rightarrow> 'b rd) \<Rightarrow> 'b rd" where
  "rbind m f s = (case m s of (Inl e, s') \<Rightarrow> (Inl e, s') | (Inr x, s') \<Rightarrow> f x s')"

text \<open>Any failure of \<open>m\<close> is returned as \<open>e\<close>.\<close>

definition rerr :: "errno \<Rightarrow> 'a rd \<Rightarrow> 'a rd" where
  "rerr e m s = (case m s of (Inl _, s') \<Rightarrow> (Inl e, s') | (Inr x, s') \<Rightarrow> (Inr x, s'))"

text \<open>A \<open>malloc\<close> whose failure ends the reader with \<open>e\<close>.\<close>

definition rmalloc :: "errno \<Rightarrow> unit rd" where
  "rmalloc e s = (case malloc (fst s) of
      (True, h) \<Rightarrow> (Inr (), h, snd s) | (False, h) \<Rightarrow> (Inl e, h, snd s))"

text \<open>\<open>fread(buf, bytes, 1, fp)\<close> returns 0 for a zero size; a short read consumes what is
  left of the file.\<close>

definition next_entry :: "nat \<Rightarrow> u8 list rd" where
  "next_entry bytes s =
     (let (h, fp) = s in
      case pf_type fp of
        PF_USE_STDIO \<Rightarrow>
          if bytes = 0 then (Inl EFAIL, h, fp)
          else if bytes \<le> length (pf_data fp)
          then (Inr (take bytes (pf_data fp)), h, fp\<lparr>pf_data := drop bytes (pf_data fp)\<rparr>)
          else (Inl EFAIL, h, fp\<lparr>pf_data := []\<rparr>)
      | PF_USE_MEMORY \<Rightarrow>
          if bytes > length (pf_data fp) then (Inl EFAIL, h, fp)
          else (Inr (take bytes (pf_data fp)), h, fp\<lparr>pf_data := drop bytes (pf_data fp)\<rparr>)
      | _ \<Rightarrow> (Inl EFAIL, h, fp))"

text \<open>\<open>put_entry ptr size n fp\<close>: the items are given as byte strings of length \<open>size\<close>.
  \<open>fwrite\<close> returns the number of items it wrote completely.\<close>

definition put_entry :: "u8 list list \<Rightarrow> nat \<Rightarrow> policy_file \<Rightarrow> nat \<times> policy_file" where
  "put_entry items sz fp =
     (let n = length items; bytes = sz * n in
      case pf_type fp of
        PF_USE_STDIO \<Rightarrow>
          (let k = (if bytes \<le> pf_len fp then n else pf_len fp div sz)
           in (k, fp\<lparr>pf_out := pf_out fp @ take (pf_len fp) (concat items),
                    pf_len := pf_len fp - bytes\<rparr>))
      | PF_USE_MEMORY \<Rightarrow>
          if bytes > pf_len fp then (0, fp)
          else (n, fp\<lparr>pf_out := pf_out fp @ concat items, pf_len := pf_len fp - bytes\<rparr>)
      | PF_LEN \<Rightarrow> (n, fp\<lparr>pf_len := pf_len fp + bytes\<rparr>)
      | PF_OTHER \<Rightarrow> (0, fp))"

text \<open>\<open>items = put_entry(...); if (items != n) return POLICYDB_ERROR;\<close>\<close>

definition put_all :: "u8 list list \<Rightarrow> nat \<Rightarrow> wr" where
  "put_all items sz fp =
     (case put_entry items sz fp of (k, fp') \<Rightarrow> (k = length items, fp'))"

definition wseq :: "wr \<Rightarrow> wr \<Rightarrow> wr" where
  "wseq w1 w2 fp = (case w1 fp of (False, fp') \<Rightarrow> (False, fp') | (True, fp') \<Rightarrow> w2 fp')"

definition wskip :: wr where
  "wskip fp = (True, fp)"

fun wlist :: "('a \<Rightarrow> wr) \<Rightarrow> 'a list \<Rightarrow> wr" where
  "wlist w [] = wskip"
| "wlist w (x # xs) = wseq (w x) (wlist w xs)"

text \<open>\<open>str_read\<close>: the string is returned without the terminating zero the C code adds.
  A \<open>len\<close> of 0 or of all ones is refused before the allocation.\<close>

definition str_read :: "u64 \<Rightarrow> u8 list rd" where
  "str_read len =
     (if len = 0 \<or> len = - 1 then rfail EFAIL
      else rbind (rmalloc EFAIL) (\<lambda>_. next_entry (unat len)))"

definition next_u32 :: "u32 rd" where
  "next_u32 = rbind (next_entry 4) (\<lambda>b. rret (le32 b))"

subsection \<open>Reading and writing exactly\<close>

definition pf_readable :: "policy_file \<Rightarrow> bool" where
  "pf_readable fp \<longleftrightarrow> pf_type fp = PF_USE_MEMORY \<or> pf_type fp = PF_USE_STDIO"

definition reads :: "'a rd \<Rightarrow> u8 list \<Rightarrow> 'a \<Rightarrow> bool" where
  "reads m bs x \<longleftrightarrow>
     (\<forall>h fp rest. mem_ok h \<longrightarrow> pf_readable fp \<longrightarrow> pf_data fp = bs @ rest \<longrightarrow>
        (\<exists>h'. mem_ok h' \<and> m (h, fp) = (Inr x, h', fp\<lparr>pf_data := rest\<rparr>)))"

definition writes :: "wr \<Rightarrow> u8 list \<Rightarrow> bool" where
  "writes w bs \<longleftrightarrow>
     (\<forall>fp. (pf_readable fp \<and> length bs \<le> pf_len fp \<longrightarrow>
              w fp = (True, fp\<lparr>pf_out := pf_out fp @ bs, pf_len := pf_len fp - length bs\<rparr>)) \<and>
           (pf_type fp = PF_LEN \<longrightarrow> w fp = (True, fp\<lparr>pf_len := pf_len fp + length bs\<rparr>)))"

named_theorems reads_intros
named_theorems writes_intros

lemma readsD:
  "\<lbrakk>reads m bs x; mem_ok h; pf_readable fp; pf_data fp = bs @ rest\<rbrakk>
   \<Longrightarrow> \<exists>h'. mem_ok h' \<and> m (h, fp) = (Inr x, h', fp\<lparr>pf_data := rest\<rparr>)"
  unfolding reads_def by blast

lemma reads_rret [reads_intros]: "reads (rret x) [] x"
  by (auto simp: reads_def rret_def)

lemma reads_rbind [reads_intros]:
  assumes m: "reads m b1 x" and f: "reads (f x) b2 y"
  shows "reads (rbind m f) (b1 @ b2) y"
  unfolding reads_def
proof (intro allI impI)
  fix h fp rest
  assume pre: "mem_ok h" "pf_readable fp" "pf_data fp = (b1 @ b2) @ rest"
  obtain h1 where h1: "mem_ok h1" "m (h, fp) = (Inr x, h1, fp\<lparr>pf_data := b2 @ rest\<rparr>)"
    using readsD [OF m pre(1,2), of "b2 @ rest"] pre(3) by auto
  obtain h2 where "mem_ok h2"
      "f x (h1, fp\<lparr>pf_data := b2 @ rest\<rparr>) = (Inr y, h2, fp\<lparr>pf_data := rest\<rparr>)"
    using readsD [OF f h1(1), of "fp\<lparr>pf_data := b2 @ rest\<rparr>" rest] pre(2)
    by (auto simp: pf_readable_def)
  with h1(2) show "\<exists>h'. mem_ok h' \<and> rbind m f (h, fp) = (Inr y, h', fp\<lparr>pf_data := rest\<rparr>)"
    by (auto simp: rbind_def)
qed

lemma reads_rmalloc: "reads (f ()) bs x \<Longrightarrow> reads (rbind (rmalloc e) f) bs x"
proof -
  have "reads (rmalloc e) [] ()"
    unfolding reads_def
  proof (intro allI impI)
    fix h :: heap and fp :: policy_file and rest
    assume "mem_ok h" "pf_data fp = [] @ rest"
    moreover from this obtain h' where "malloc h = (True, h')" "mem_ok h'"
      using malloc_mem_ok by blast
    ultimately show "\<exists>h'. mem_ok h' \<and> rmalloc e (h, fp) = (Inr (), h', fp\<lparr>pf_data := rest\<rparr>)"
      by (auto simp: rmalloc_def)
  qed
  then show "reads (f ()) bs x \<Longrightarrow> reads (rbind (rmalloc e) f) bs x"
    using reads_rbind [of "rmalloc e" "[]" "()" f bs x] by simp
qed

lemma reads_next_entry: "\<lbrakk>length bs = n; 0 < n\<rbrakk> \<Longrightarrow> reads (next_entry n) bs bs"
  by (auto simp: reads_def next_entry_def pf_readable_def)

lemma reads_entry:
  "\<lbrakk>length bs = n; 0 < n; reads (f bs) b2 y\<rbrakk> \<Longrightarrow> reads (rbind (next_entry n) f) (bs @ b2) y"
  by (rule reads_rbind [OF reads_next_entry])

lemma reads_entry_last:
  "\<lbrakk>length bs = n; 0 < n; reads (f bs) [] y\<rbrakk> \<Longrightarrow> reads (rbind (next_entry n) f) bs y"
  using reads_entry [of bs n f "[]" y] by simp

lemma reads_rerr: "reads m bs x \<Longrightarrow> reads (rerr e m) bs x"
  unfolding reads_def rerr_def by fastforce

lemma reads_check: "\<lbrakk>\<not> c; reads m bs x\<rbrakk> \<Longrightarrow> reads (if c then rfail e else m) bs x"
  by simp

lemma reads_next_u32: "reads next_u32 (put32 w) w"
  unfolding next_u32_def
  using reads_rbind [of "next_entry 4" "put32 w" "put32 w" "\<lambda>b. rret (le32 b)" "[]" w]
  by (simp add: reads_next_entry reads_rret)

lemma reads_str_read:
  assumes "bs \<noteq> []" "length bs = unat len" "len \<noteq> - 1"
  shows "reads (str_read len) bs bs"
proof -
  have "0 < unat len" using assms(1) by (simp add: assms(2) [symmetric])
  moreover from this have "len \<noteq> 0" by auto
  ultimately show ?thesis
    using assms unfolding str_read_def by (auto intro!: reads_rmalloc reads_next_entry)
qed

lemma writes_wskip [writes_intros]: "writes wskip []"
  by (simp add: writes_def wskip_def)

lemma writes_wseq [writes_intros]:
  "\<lbrakk>writes w1 b1; writes w2 b2\<rbrakk> \<Longrightarrow> writes (wseq w1 w2) (b1 @ b2)"
  by (auto simp: writes_def wseq_def pf_readable_def)

lemma concat_length_const: "\<forall>b\<in>set items. length b = sz \<Longrightarrow> length (concat items) = sz * length items"
  by (induction items) auto

lemma writes_put_all [writes_intros]:
  "\<forall>b\<in>set items. length b = sz \<Longrightarrow> writes (put_all items sz) (concat items)"
  using concat_length_const [of items sz]
  by (auto simp: writes_def put_all_def put_entry_def pf_readable_def Let_def)

lemma writes_wlist [writes_intros]:
  "(\<And>x. x \<in> set xs \<Longrightarrow> writes (w x) (enc x)) \<Longrightarrow> writes (wlist w xs) (concat (map enc xs))"
  by (induction xs) (auto intro: writes_intros)

subsection \<open>Successful runs of a reader\<close>

lemma rbind_Inr:
  "rbind m f s = (Inr y, s') \<longleftrightarrow> (\<exists>x s1. m s = (Inr x, s1) \<and> f x s1 = (Inr y, s'))"
  by (auto simp: rbind_def split: prod.splits sum.splits)

lemma rret_Inr: "rret x s = (Inr y, s') \<longleftrightarrow> y = x \<and> s' = s"
  by (auto simp: rret_def)

lemma rfail_Inr: "rfail e s = (Inr y, s') \<longleftrightarrow> False"
  by (simp add: rfail_def)

lemma rerr_Inr: "rerr e m s = (Inr y, s') \<longleftrightarrow> m s = (Inr y, s')"
  by (auto simp: rerr_def split: prod.splits sum.splits)

lemma rcheck_Inr:
  "(if c then rfail e else m) s = (Inr y, s') \<longleftrightarrow> \<not> c \<and> m s = (Inr y, s')"
  by (simp add: rfail_def)

lemmas rd_Inr = rcheck_Inr rerr_Inr rbind_Inr rret_Inr rfail_Inr

subsection \<open>The contract between a writer and its reader\<close>

locale codec =
  fixes ok :: "'a \<Rightarrow> bool" and enc :: "'a \<Rightarrow> u8 list" and wr :: "'a \<Rightarrow> wr" and rd :: "'a rd"
  assumes wr_enc: "ok x \<Longrightarrow> writes (wr x) (enc x)"
    and rd_enc: "ok x \<Longrightarrow> reads rd (enc x) x"
begin

text \<open>What was written into an empty memory region with room enough is read back.\<close>

lemma read_back:
  assumes "ok x" "pf_readable fp" "length (enc x) \<le> pf_len fp" "mem_ok h" "pf_readable fp'"
    and "wr x fp = (b, fp1)" "pf_data fp' = drop (length (pf_out fp)) (pf_out fp1) @ rest"
  shows "b \<and> (\<exists>h'. rd (h, fp') = (Inr x, h', fp'\<lparr>pf_data := rest\<rparr>))"
proof -
  have "b" "pf_out fp1 = pf_out fp @ enc x"
    using wr_enc [OF assms(1)] assms(2,3,6) by (auto simp: writes_def)
  then show ?thesis
    using readsD [OF rd_enc [OF assms(1)] assms(4,5)] assms(7) by auto
qed

text \<open>The counting pass with \<open>PF_LEN\<close> computes the room the real pass needs.\<close>

lemma counting_pass:
  assumes "ok x" "pf_type fp = PF_LEN"
    and "wr x fp = (b, fp1)" "pf_readable fp'" "pf_len fp' = pf_len fp1 - pf_len fp"
  shows "b \<and> fst (wr x fp') \<and> pf_len (snd (wr x fp')) = 0"
  using wr_enc [OF assms(1)] assms(2-5) by (auto simp: writes_def)

end

end
