(* ===== verification/Ebitmap_IO.thy ===== *)
theory Ebitmap_IO
  imports Ebitmap_Laws Policy_File
begin

section \<open>Bitmaps in the binary policy\<close>

text \<open>
  \<open>ebitmap_read\<close> (libsepol/src/ebitmap.c) and \<open>ebitmap_write\<close> (libsepol/src/write.c).
  Whatever the bytes of the file, a bitmap that is accepted satisfies the bitmap
  invariant; a well-formed bitmap that is written is read back unchanged.
\<close>

text \<open>One iteration of the node loop. \<open>l\<close> is the last node read, \<open>hb\<close> the high bit
  of the header. Sums and differences with \<open>MAPSIZE\<close> are of type \<open>size_t\<close>.\<close>

definition ebitmap_read_node :: "u32 \<Rightarrow> ebitmap_node option \<Rightarrow> ebitmap_node rd" where
  "ebitmap_read_node hb l =
     rbind (next_entry 4) (\<lambda>buf.
     rbind (rmalloc ENOMEM) (\<lambda>_.
     let sb = le32 buf in
     if sb AND 63 \<noteq> 0 then rfail EINVAL
     else if unat sb > unat hb - MAPSIZE then rfail EINVAL
     else
       rbind (next_entry 8) (\<lambda>m.
       let n = \<lparr>startbit = sb, emap = le64 m\<rparr> in
       if emap n = 0 then rfail EINVAL
       else (case l of
               Some p \<Rightarrow> if startbit n \<le> startbit p then rfail EINVAL else rret n
             | None \<Rightarrow> rret n))))"

fun ebitmap_read_nodes :: "nat \<Rightarrow> u32 \<Rightarrow> ebitmap_node option \<Rightarrow> ebitmap_node list rd" where
  "ebitmap_read_nodes 0 hb l = rret []"
| "ebitmap_read_nodes (Suc count) hb l =
     rbind (ebitmap_read_node hb l) (\<lambda>n.
     rbind (ebitmap_read_nodes count hb (Some n)) (\<lambda>ns. rret (n # ns)))"

text \<open>The part after the header.\<close>

definition ebitmap_read_body :: "u32 \<Rightarrow> u32 \<Rightarrow> u32 \<Rightarrow> ebitmap rd" where
  "ebitmap_read_body mapsize hb count =
     (if unat mapsize \<noteq> MAPSIZE then rfail EINVAL
      else if hb = 0 then rret \<lparr>node = [], highbit = hb\<rparr>
      else if hb AND 63 \<noteq> 0 then rfail EINVAL
      else if hb \<noteq> 0 \<and> count = 0 then rfail EINVAL
      else
        rbind (ebitmap_read_nodes (unat count) hb None) (\<lambda>ns.
        if count \<noteq> 0 \<and> unat (startbit (last ns)) + MAPSIZE \<noteq> unat hb then rfail EINVAL
        else rret \<lparr>node = ns, highbit = hb\<rparr>))"

definition ebitmap_read :: "ebitmap rd" where
  "ebitmap_read =
     rbind (next_entry 12) (\<lambda>buf.
       ebitmap_read_body (le32 (take 4 buf)) (le32 (take 4 (drop 4 buf))) (le32 (drop 8 buf)))"

definition ebitmap_write_node :: "ebitmap_node \<Rightarrow> wr" where
  "ebitmap_write_node n = wseq (put_all [put32 (startbit n)] 4) (put_all [put64 (emap n)] 8)"

definition ebitmap_write :: "ebitmap \<Rightarrow> wr" where
  "ebitmap_write e =
     wseq (put_all [put32 (word_of_nat MAPSIZE), put32 (highbit e),
                    put32 (word_of_nat (length (node e)))] 4)
          (wlist ebitmap_write_node (node e))"

text \<open>The encoding of a bitmap.\<close>

definition node_enc :: "ebitmap_node \<Rightarrow> u8 list" where
  "node_enc n = put32 (startbit n) @ put64 (emap n)"

definition ebitmap_enc :: "ebitmap \<Rightarrow> u8 list" where
  "ebitmap_enc e =
     put32 64 @ put32 (highbit e) @ put32 (word_of_nat (length (node e))) @
     concat (map node_enc (node e))"

subsection \<open>Every accepted bitmap is well-formed\<close>

lemma and_63_dvd: "(w :: u32) AND 63 = 0 \<longleftrightarrow> 64 dvd unat w"
proof -
  have "w AND 63 = take_bit 6 w" by (simp add: take_bit_eq_mask mask_eq_exp_minus_1)
  then have "unat (w AND 63) = take_bit 6 (unat w)" by (simp only: unsigned_take_bit_eq)
  then have "unat (w AND 63) = unat w mod 64" by (simp add: take_bit_eq_mod)
  then show ?thesis by (metis dvd_eq_mod_eq_0 unat_eq_0)
qed

lemma read_node_ok:
  assumes "ebitmap_read_node hb l s = (Inr n, s')" "64 dvd unat hb" "hb \<noteq> 0"
  shows "node_ok n \<and> unat (startbit n) + 64 \<le> unat hb \<and> (\<forall>p. l = Some p \<longrightarrow> startbit p < startbit n)"
proof -
  have "0 < unat hb" using assms(3) by (simp add: unat_gt_0)
  then have "64 \<le> unat hb" using assms(2) by (rule dvd_imp_le [rotated])
  moreover have "unat hb + 64 \<le> 4294967296"
    using unat_u32_less [of hb] by (intro aligned_gap assms(2)) simp_all
  ultimately show ?thesis
    using assms(1)
    by (auto simp: ebitmap_read_node_def rd_Inr Let_def and_63_dvd node_ok_def MAPSIZE_def
        split: if_splits option.splits)
qed

lemma read_nodes_ok:
  assumes "ebitmap_read_nodes count hb l s = (Inr ns, s')" "64 dvd unat hb" "hb \<noteq> 0"
  shows "nodes_ok ns \<and> length ns = count \<and> (\<forall>p. l = Some p \<longrightarrow> starts_above (startbit p) ns)"
  using assms
proof (induction count arbitrary: l s ns s')
  case 0
  then show ?case by (auto simp: rret_def nodes_ok_def starts_above_def)
next
  case (Suc count)
  from Suc.prems(1) obtain n s1 ms where
    n: "ebitmap_read_node hb l s = (Inr n, s1)" and
    ms: "ebitmap_read_nodes count hb (Some n) s1 = (Inr ms, s')" and ns: "ns = n # ms"
    by (auto simp: rd_Inr)
  have IH: "nodes_ok ms" "length ms = count" "starts_above (startbit n) ms"
    using Suc.IH [OF ms Suc.prems(2,3)] by simp_all
  moreover note nok = read_node_ok [OF n Suc.prems(2,3)]
  moreover have "starts_above (startbit p) ns" if "l = Some p" for p
    using nok that IH(3) unfolding ns starts_above_def by auto
  ultimately show ?case unfolding ns by (simp add: nodes_ok_Cons_word)
qed

lemma ebitmap_read_wf:
  assumes "ebitmap_read s = (Inr e, s')"
  shows "ebitmap_wf e"
proof -
  obtain mapsize hb count s1 where "ebitmap_read_body mapsize hb count s1 = (Inr e, s')"
    using assms by (auto simp: ebitmap_read_def rbind_Inr)
  then consider "e = \<lparr>node = [], highbit = 0\<rparr>"
    | ns s2 where "ebitmap_read_nodes (unat count) hb None s1 = (Inr ns, s2)"
      "e = \<lparr>node = ns, highbit = hb\<rparr>" "64 dvd unat hb" "hb \<noteq> 0" "count \<noteq> 0"
      "unat (startbit (last ns)) + MAPSIZE = unat hb"
    by (auto simp: ebitmap_read_body_def rd_Inr and_63_dvd split: if_splits)
  then show ?thesis
  proof cases
    case 1
    then show ?thesis using ebitmap_init_spec(1) by (simp add: ebitmap_init_def)
  next
    case (2 ns s2)
    note ok = read_nodes_ok [OF 2(1,3,4)]
    then have "ns \<noteq> []" using 2(5) by (auto simp: unat_eq_0)
    then have "highbit_of_prev ns = hb"
      using 2(6) ok unat_highbit_of_prev [of ns] by (simp add: MAPSIZE_def word_unat_eq_iff)
    then show ?thesis using ok 2(2) ebitmap_wfI [of ns] by simp
  qed
qed

subsection \<open>Round trip\<close>

lemma nodes_ok_length: "nodes_ok ns \<Longrightarrow> length ns < 2 ^ 32"
proof -
  assume ok: "nodes_ok ns"
  then have "sorted_wrt (<) (map (\<lambda>n. unat (startbit n)) ns)"
    by (simp add: nodes_ok_def sorted_wrt_map word_less_nat_alt)
  then have "distinct (map (\<lambda>n. unat (startbit n)) ns)" by (simp add: strict_sorted_iff)
  moreover have "set (map (\<lambda>n. unat (startbit n)) ns) \<subseteq> {..<2 ^ 32 - 1}"
    using ok by (auto simp: nodes_ok_def node_ok_def)
  ultimately have "length (map (\<lambda>n. unat (startbit n)) ns) \<le> card {..<2 ^ 32 - 1 :: nat}"
    by (metis card_mono distinct_card finite_lessThan)
  then show ?thesis by simp
qed

lemma node_eta [simp]: "\<lparr>startbit = startbit n, emap = emap n\<rparr> = (n :: ebitmap_node)"
  by simp

lemma ebitmap_eta [simp]: "\<lparr>node = node e, highbit = highbit e\<rparr> = (e :: ebitmap)"
  by simp

lemma reads_read_node:
  assumes n: "node_ok n" and hb: "unat (startbit n) + 64 \<le> unat hb"
    and l: "\<forall>p. l = Some p \<longrightarrow> startbit p < startbit n"
  shows "reads (ebitmap_read_node hb l) (node_enc n) n"
proof -
  have "\<not> unat hb - MAPSIZE < unat (startbit n)" "startbit n AND 63 = 0" "emap n \<noteq> 0"
    using n hb by (simp_all add: MAPSIZE_def and_63_dvd node_ok_def)
  then show ?thesis
    unfolding ebitmap_read_node_def node_enc_def Let_def
    by (intro reads_entry reads_rmalloc reads_check reads_entry_last)
      (use l reads_rret [of n] in \<open>auto split: option.split\<close>)
qed

lemma reads_read_nodes:
  assumes "nodes_ok ns" "\<forall>n\<in>set ns. unat (startbit n) + 64 \<le> unat hb"
    and "\<forall>p. l = Some p \<longrightarrow> starts_above (startbit p) ns"
  shows "reads (ebitmap_read_nodes (length ns) hb l) (concat (map node_enc ns)) ns"
  using assms
proof (induction ns arbitrary: l)
  case Nil
  then show ?case by (simp add: reads_rret)
next
  case (Cons n ns)
  have "reads (ebitmap_read_node hb l) (node_enc n) n"
    using Cons.prems by (intro reads_read_node) (auto simp: nodes_ok_Cons_word)
  moreover have "reads (ebitmap_read_nodes (length ns) hb (Some n)) (concat (map node_enc ns)) ns"
    using Cons.prems by (intro Cons.IH) (auto simp: nodes_ok_Cons_word)
  then have "reads (rbind (ebitmap_read_nodes (length ns) hb (Some n)) (\<lambda>ns. rret (n # ns)))
      (concat (map node_enc ns) @ []) (n # ns)"
    by (rule reads_rbind) (rule reads_rret)
  ultimately show ?case by (simp add: reads_rbind)
qed

lemma reads_ebitmap_read:
  assumes wf: "ebitmap_wf e"
  shows "reads ebitmap_read (ebitmap_enc e) e"
proof -
  let ?hd = "put32 64 @ put32 (highbit e) @ put32 (word_of_nat (length (node e)))"
  have ok: "nodes_ok (node e)" and hb: "highbit e = highbit_of_prev (node e)"
    using wf by (simp_all add: ebitmap_wf_def)
  have e: "e = \<lparr>node = node e, highbit = highbit e\<rparr>" by simp
  have body: "reads (ebitmap_read_body 64 (highbit e) (word_of_nat (length (node e)))) (concat (map node_enc (node e))) e"
  proof (cases "node e = []")
    case True
    then have e0: "e = \<lparr>node = [], highbit = 0\<rparr>" using hb by (cases e) (simp add: highbit_of_prev_def)
    then show ?thesis
      using reads_rret [of e] unfolding e0 by (simp add: ebitmap_read_body_def MAPSIZE_def)
  next
    case False
    have cnt: "unat (word_of_nat (length (node e)) :: u32) = length (node e)"
      using nodes_ok_length [OF ok] by (simp add: unsigned_of_nat take_bit_nat_eq_self)
    have hbv: "unat (highbit e) = unat (startbit (last (node e))) + 64"
      using unat_highbit_of_prev [OF ok] hb False by simp
    have rd: "reads (ebitmap_read_nodes (length (node e)) (highbit e) None) (concat (map node_enc (node e))) (node e)"
      using ok nodes_ok_last [OF ok] hbv by (intro reads_read_nodes) auto
    have "reads (rbind (ebitmap_read_nodes (length (node e)) (highbit e) None) (\<lambda>ns.
        if (word_of_nat (length (node e)) :: u32) \<noteq> 0 \<and> unat (startbit (last ns)) + MAPSIZE \<noteq> unat (highbit e)
        then rfail EINVAL else rret \<lparr>node = ns, highbit = highbit e\<rparr>)) (concat (map node_enc (node e)) @ []) e"
      by (rule reads_rbind [OF rd], rule reads_check) (use hbv e reads_rret [of e] in \<open>simp_all add: MAPSIZE_def\<close>)
    moreover have "highbit e AND 63 = 0" using highbit_of_prev_dvd [OF ok] hb by (simp add: and_63_dvd)
    moreover have "highbit e \<noteq> 0" using hbv by (metis add_is_0 unat_0 zero_neq_numeral)
    moreover have "(word_of_nat (length (node e)) :: u32) \<noteq> 0" using cnt False by (metis length_0_conv unat_0)
    ultimately show ?thesis
      unfolding ebitmap_read_body_def by (simp add: MAPSIZE_def cnt)
  qed
  then have "reads ebitmap_read (?hd @ concat (map node_enc (node e))) e"
    unfolding ebitmap_read_def by (intro reads_entry) simp_all
  then show ?thesis by (simp add: ebitmap_enc_def)
qed

lemma writes_ebitmap_write: "writes (ebitmap_write e) (ebitmap_enc e)"
proof -
  have n: "writes (ebitmap_write_node n) (node_enc n)" for n
    unfolding ebitmap_write_node_def node_enc_def
    by (rule writes_wseq) (use writes_put_all [of "[put32 (startbit n)]" 4] writes_put_all [of "[put64 (emap n)]" 8] in simp_all)
  let ?h = "[put32 (word_of_nat MAPSIZE), put32 (highbit e), put32 (word_of_nat (length (node e)))]"
  have "writes (ebitmap_write e) (concat ?h @ concat (map node_enc (node e)))"
    unfolding ebitmap_write_def
    by (rule writes_wseq [OF writes_put_all writes_wlist]) (use n in simp_all)
  then show ?thesis by (simp add: ebitmap_enc_def MAPSIZE_def)
qed

interpretation ebc: codec ebitmap_wf ebitmap_enc ebitmap_write ebitmap_read
  by unfold_locales (simp_all add: writes_ebitmap_write reads_ebitmap_read)

end
