(* ===== verification/Ebitmap_Props.thy ===== *)
theory Ebitmap_Props
  imports Ebitmap_IO
begin

section \<open>Properties of the bitmaps\<close>

text \<open>
  The correctness properties of the extensible bitmaps, over the laws of
  \<open>Ebitmap_Laws\<close> and \<open>Ebitmap_IO\<close>. The two sample bitmaps stand for
  \<open>{1, 70}\<close> and \<open>{70, 200}\<close>.
\<close>

definition sample_a :: ebitmap where
  "sample_a = \<lparr>node = [\<lparr>startbit = 0, emap = 2\<rparr>, \<lparr>startbit = 64, emap = 64\<rparr>], highbit = 128\<rparr>"

definition sample_b :: ebitmap where
  "sample_b = \<lparr>node = [\<lparr>startbit = 64, emap = 64\<rparr>, \<lparr>startbit = 192, emap = 256\<rparr>], highbit = 256\<rparr>"

lemma samples_wf [simp]: "ebitmap_wf sample_a" "ebitmap_wf sample_b"
  by (simp_all add: sample_a_def sample_b_def ebitmap_wf_def nodes_ok_def node_ok_def highbit_of_prev_def)

text \<open>(C33) The union, intersection, symmetric difference and copy of well-formed bitmaps are
  well-formed and hold exactly the set-theoretic result; the only failure is exhausted memory.\<close>

theorem ebitmap_set_operations:
  assumes "ebitmap_wf e1" "ebitmap_wf e2"
  shows "op_result h (ebitmap_or h e1 e2) (ebitmap_bits e1 \<union> ebitmap_bits e2) \<and>
         op_result h (ebitmap_and h e1 e2) (ebitmap_bits e1 \<inter> ebitmap_bits e2) \<and>
         op_result h (ebitmap_xor h e1 e2)
           ((ebitmap_bits e1 - ebitmap_bits e2) \<union> (ebitmap_bits e2 - ebitmap_bits e1)) \<and>
         op_result h (ebitmap_cpy h e1) (ebitmap_bits e1)"
  using op_result_ops [OF assms] by blast

theorem ebitmap_set_operations_witness:
  "op_result [] (ebitmap_or [] sample_a sample_b) (ebitmap_bits sample_a \<union> ebitmap_bits sample_b)"
  using ebitmap_set_operations [of sample_a sample_b "[]"] by simp

text \<open>(C34) Setting or clearing a bit below \<open>0xFFFFFFC0\<close> changes the membership of that bit and
  of no other, keeps the bitmap well-formed, and fails only when memory is exhausted; a bit
  from \<open>0xFFFFFFC0\<close> on is refused with \<open>EINVAL\<close>.\<close>

theorem ebitmap_set_bit_get_bit:
  assumes "ebitmap_wf e"
  shows "case ebitmap_set_bit h e b v of
      (Inl err, h') \<Rightarrow> err = EINVAL \<and> 0xFFFFFFC0 \<le> b \<or> err = ENOMEM \<and> \<not> mem_ok h
    | (Inr e', h') \<Rightarrow> b < 0xFFFFFFC0 \<and> ebitmap_wf e' \<and>
        (\<forall>c. ebitmap_get_bit e' c = (if c = b then v \<noteq> 0 else ebitmap_get_bit e c))"
proof (cases "\<exists>e' h'. ebitmap_set_bit h e b v = (Inr e', h')")
  case True
  then obtain e' h' where r: "ebitmap_set_bit h e b v = (Inr e', h')" by blast
  with ebitmap_set_bit_spec [OF assms, where h = h and b = b and v = v]
  have "b < 0xFFFFFFC0" "ebitmap_wf e'" "ebitmap_bits e' = bit_update v (unat b) (ebitmap_bits e)"
    by simp_all
  then show ?thesis
    using assms by (simp add: r ebm.get_bit_iff bit_update_def word_unat_eq_iff)
next
  case False
  then show ?thesis
    using ebitmap_set_bit_spec [OF assms, where h = h and b = b and v = v]
    by (auto split: prod.splits sum.splits)
qed

theorem ebitmap_set_bit_get_bit_witness:
  "case ebitmap_set_bit [True] sample_a 300 1 of
      (Inl err, h') \<Rightarrow> err = EINVAL \<and> 0xFFFFFFC0 \<le> (300 :: u32) \<or> err = ENOMEM \<and> \<not> mem_ok [True]
    | (Inr e', h') \<Rightarrow> 300 < (0xFFFFFFC0 :: u32) \<and> ebitmap_wf e' \<and>
        (\<forall>c. ebitmap_get_bit e' c = (if c = 300 then (1 :: int) \<noteq> 0 else ebitmap_get_bit sample_a c))"
  by (rule ebitmap_set_bit_get_bit) simp

text \<open>(C35) The comparison, containment, intersection and membership tests, the cardinality and
  the highest set bit are those of the set a well-formed bitmap stands for; none of the
  32-bit counters wraps.\<close>

theorem ebitmap_queries:
  assumes "ebitmap_wf e1" "ebitmap_wf e2"
  shows "(ebitmap_cmp e1 e2 \<longleftrightarrow> ebitmap_bits e1 = ebitmap_bits e2) \<and>
         (ebitmap_contains e1 e2 \<longleftrightarrow> ebitmap_bits e2 \<subseteq> ebitmap_bits e1) \<and>
         (ebitmap_match_any e1 e2 \<longleftrightarrow> ebitmap_bits e1 \<inter> ebitmap_bits e2 \<noteq> {}) \<and>
         (ebitmap_get_bit e1 b \<longleftrightarrow> unat b \<in> ebitmap_bits e1) \<and>
         unat (ebitmap_cardinality e1) = card (ebitmap_bits e1) \<and>
         unat (ebitmap_highest_set_bit e1) =
           (if ebitmap_bits e1 = {} then 0 else Max (ebitmap_bits e1))"
  using assms
  by (simp add: ebm.cmp_iff ebm.contains_iff ebm.match_any_iff ebm.get_bit_iff
      ebitmap_cardinality_spec ebitmap_highest_set_bit_spec)

theorem ebitmap_queries_witness:
  "\<not> ebitmap_contains sample_a sample_b \<and> \<not> ebitmap_bits sample_b \<subseteq> ebitmap_bits sample_a"
proof -
  have "\<not> ebitmap_contains sample_a sample_b"
    by (simp add: ebitmap_contains_def sample_a_def sample_b_def)
  then show ?thesis using ebitmap_queries [OF samples_wf, of 0] by simp
qed

text \<open>(C36) \<open>ebitmap_not\<close> with a bound up to \<open>0xFFFFFFC0\<close> returns, and unless memory is
  exhausted its result is well-formed and is the complement below the bound.\<close>

theorem ebitmap_not_complement:
  assumes "ebitmap_wf e" "maxbit \<le> 0xFFFFFFC0"
  shows "\<exists>r. ebitmap_not h e maxbit = Some r \<and> op_result h r ({..<unat maxbit} - ebitmap_bits e)"
  using ebitmap_not_spec [OF assms, of h] by (auto simp: op_result_def split: option.splits)

theorem ebitmap_not_complement_witness:
  "\<exists>r. ebitmap_not [] sample_a 100 = Some r \<and> op_result [] r ({..<unat (100 :: u32)} - ebitmap_bits sample_a)"
  by (rule ebitmap_not_complement) simp_all

text \<open>(C37) With a bound above \<open>0xFFFFFFC0\<close> the 32-bit position of \<open>ebitmap_not\<close> wraps around
  to 0 before it reaches the bound, so that the loop never ends unless an allocation fails.\<close>

theorem ebitmap_not_never_returns:
  "\<lbrakk>0xFFFFFFC0 < maxbit; mem_ok h\<rbrakk> \<Longrightarrow> ebitmap_not h e maxbit = None"
  by (rule ebitmap_not_diverges)

theorem ebitmap_not_never_returns_witness:
  "ebitmap_not [] ebitmap_init 0xFFFFFFFF = None"
  by (rule ebitmap_not_never_returns) simp_all

text \<open>(C38) \<open>ebitmap_for_each_positive_bit\<close> visits every member exactly once, in increasing
  order, and nothing else; a range bitmap has exactly the bits of the range.\<close>

theorem ebitmap_iteration:
  assumes "ebitmap_wf e"
  shows "map unat (ebitmap_positive_bits e) = sorted_list_of_set (ebitmap_bits e) \<and>
    (case ebitmap_init_range h lo hi of
       (Inl err, h') \<Rightarrow> err = EINVAL \<and> hi < lo \<or> err = EOVERFLOW \<and> 0xFFFFFFC0 \<le> hi \<and> lo \<le> hi
         \<or> err = ENOMEM \<and> \<not> mem_ok h
     | (Inr r, h') \<Rightarrow> lo \<le> hi \<and> hi < 0xFFFFFFC0 \<and>
         map unat (ebitmap_positive_bits r) = [unat lo..<Suc (unat hi)])"
  using ebitmap_positive_bits_spec ebitmap_init_range_spec [where h = h and lo = lo and hi = hi] assms
  by (auto split: prod.splits sum.splits simp: atLeastLessThanSuc_atLeastAtMost [symmetric]
      simp del: upt_Suc)

theorem ebitmap_iteration_witness:
  "map unat (ebitmap_positive_bits sample_a) = sorted_list_of_set (ebitmap_bits sample_a)"
  using ebitmap_iteration [OF samples_wf(1), where h = "[]" and lo = 3 and hi = 130] by simp

text \<open>(C39) Whatever the bytes of the policy file and the outcome of the allocations, a bitmap
  that \<open>ebitmap_read\<close> accepts is well-formed.\<close>

theorem ebitmap_read_accepts_wf:
  "ebitmap_read s = (Inr e, s') \<Longrightarrow> ebitmap_wf e"
  by (rule ebitmap_read_wf)

theorem ebitmap_read_accepts_wf_witness:
  "ebitmap_wf \<lparr>node = [], highbit = 0\<rparr>"
proof (rule ebitmap_read_accepts_wf)
  show "ebitmap_read ([], \<lparr>pf_type = PF_USE_MEMORY, pf_data = [64,0,0,0, 0,0,0,0, 0,0,0,0],
      pf_out = [], pf_len = 0\<rparr>)
    = (Inr \<lparr>node = [], highbit = 0\<rparr>, [], \<lparr>pf_type = PF_USE_MEMORY, pf_data = [], pf_out = [], pf_len = 0\<rparr>)"
    by (simp add: ebitmap_read_def ebitmap_read_body_def rbind_def next_entry_def le32_def rret_def MAPSIZE_def)
qed

text \<open>(C40) A well-formed bitmap written to a file or memory region with room enough is written
  completely and read back unchanged, and the reader leaves the rest of the file in place.\<close>

theorem ebitmap_write_read:
  assumes "ebitmap_wf e" "pf_readable fp" "12 + 12 * length (node e) \<le> pf_len fp"
    and "mem_ok h" "pf_readable fp'"
    and "ebitmap_write e fp = (b, fp1)"
    and "pf_data fp' = drop (length (pf_out fp)) (pf_out fp1) @ rest"
  shows "b \<and> (\<exists>h'. ebitmap_read (h, fp') = (Inr e, h', fp'\<lparr>pf_data := rest\<rparr>))"
proof -
  have "length (concat (map node_enc ns)) = 12 * length ns" for ns
    by (induction ns) (simp_all add: node_enc_def)
  then have "length (ebitmap_enc e) = 12 + 12 * length (node e)"
    by (simp add: ebitmap_enc_def)
  with assms show ?thesis by (intro ebc.read_back) simp_all
qed

theorem ebitmap_write_read_witness:
  "\<exists>h'. ebitmap_read ([], \<lparr>pf_type = PF_USE_MEMORY, pf_data = ebitmap_enc sample_a @ [7], pf_out = [], pf_len = 0\<rparr>)
     = (Inr sample_a, h', \<lparr>pf_type = PF_USE_MEMORY, pf_data = [7], pf_out = [], pf_len = 0\<rparr>)"
proof -
  let ?fp = "\<lparr>pf_type = PF_USE_STDIO, pf_data = [], pf_out = [], pf_len = 100\<rparr>"
  have "length (ebitmap_enc sample_a) \<le> 100"
    by (simp add: ebitmap_enc_def node_enc_def sample_a_def)
  then have "ebitmap_write sample_a ?fp = (True, ?fp\<lparr>pf_out := ebitmap_enc sample_a,
      pf_len := 100 - length (ebitmap_enc sample_a)\<rparr>)"
    using writes_ebitmap_write [of sample_a] by (simp add: writes_def pf_readable_def)
  from ebitmap_write_read [OF _ _ _ _ _ this, of "[]" "\<lparr>pf_type = PF_USE_MEMORY,
      pf_data = ebitmap_enc sample_a @ [7], pf_out = [], pf_len = 0\<rparr>" "[7]"]
  show ?thesis by (simp add: pf_readable_def) (simp add: sample_a_def)
qed

end
