(* ===== verification/Hashtab.thy ===== *)
theory Hashtab
  imports Sepol_Prelude
begin

section \<open>Hash tables\<close>

text \<open>
  The chained hash tables of libsepol/src/hashtab.c. A table carries its hash function and
  its key comparison, as the C structure does; a slot is the list of the nodes of its
  chain. The loop that walks a chain while \<open>keycmp(key, cur) > 0\<close> splits the chain with
  \<open>takeWhile\<close> and \<open>dropWhile\<close>. A null table pointer is \<open>None\<close>.
\<close>

record ('k, 'd) hashtab_node =
  hkey :: 'k
  hdatum :: 'd

record ('k, 'd) hashtab_val =
  htable :: "('k, 'd) hashtab_node list list"
  hsize :: u32
  nel :: u32
  hash_value :: "u32 \<Rightarrow> 'k \<Rightarrow> u32"
  keycmp :: "'k \<Rightarrow> 'k \<Rightarrow> int"

type_synonym ('k, 'd) hashtab = "('k, 'd) hashtab_val option"

definition hashtab_create ::
  "heap \<Rightarrow> (u32 \<Rightarrow> 'k \<Rightarrow> u32) \<Rightarrow> ('k \<Rightarrow> 'k \<Rightarrow> int) \<Rightarrow> u32 \<Rightarrow> ('k, 'd) hashtab \<times> heap" where
  "hashtab_create hp hash cmp sz =
     (case malloc hp of
        (False, hp1) \<Rightarrow> (None, hp1)
      | (True, hp1) \<Rightarrow>
          (case malloc hp1 of
             (False, hp2) \<Rightarrow> (None, hp2)
           | (True, hp2) \<Rightarrow>
               (Some \<lparr>htable = replicate (unat sz) [], hsize = sz, nel = 0,
                      hash_value = hash, keycmp = cmp\<rparr>, hp2)))"

text \<open>The loop \<open>while (new_size <= h->nel && new_size * 2 != 0) new_size *= 2\<close>: doubling a
  32-bit word 32 times gives 0, so that 32 rounds are enough.\<close>

fun hashtab_grow :: "nat \<Rightarrow> u32 \<Rightarrow> u32 \<Rightarrow> u32" where
  "hashtab_grow 0 n new_size = new_size"
| "hashtab_grow (Suc fuel) n new_size =
     (if new_size \<le> n \<and> new_size * 2 \<noteq> 0 then hashtab_grow fuel n (new_size * 2) else new_size)"

definition chain_before :: "('k \<Rightarrow> 'k \<Rightarrow> int) \<Rightarrow> 'k \<Rightarrow> ('k, 'd) hashtab_node list
    \<Rightarrow> ('k, 'd) hashtab_node list" where
  "chain_before cmp key ch = takeWhile (\<lambda>cur. cmp key (hkey cur) > 0) ch"

definition chain_from :: "('k \<Rightarrow> 'k \<Rightarrow> int) \<Rightarrow> 'k \<Rightarrow> ('k, 'd) hashtab_node list
    \<Rightarrow> ('k, 'd) hashtab_node list" where
  "chain_from cmp key ch = dropWhile (\<lambda>cur. cmp key (hkey cur) > 0) ch"

definition chain_place :: "('k \<Rightarrow> 'k \<Rightarrow> int) \<Rightarrow> ('k, 'd) hashtab_node
    \<Rightarrow> ('k, 'd) hashtab_node list \<Rightarrow> ('k, 'd) hashtab_node list" where
  "chain_place cmp n ch = chain_before cmp (hkey n) ch @ n # chain_from cmp (hkey n) ch"

text \<open>One round of the moving loop of \<open>hashtab_check_resize\<close>.\<close>

definition hashtab_move :: "(u32 \<Rightarrow> 'k \<Rightarrow> u32) \<Rightarrow> ('k \<Rightarrow> 'k \<Rightarrow> int) \<Rightarrow> u32 \<Rightarrow> ('k, 'd) hashtab_node
    \<Rightarrow> ('k, 'd) hashtab_node list list \<Rightarrow> ('k, 'd) hashtab_node list list" where
  "hashtab_move hash cmp sz n tbl =
     (let hv = unat (hash sz (hkey n)) in tbl[hv := chain_place cmp n (tbl ! hv)])"

definition hashtab_check_resize :: "heap \<Rightarrow> ('k, 'd) hashtab_val \<Rightarrow> ('k, 'd) hashtab_val \<times> heap" where
  "hashtab_check_resize hp h =
     (let new_size = hashtab_grow 32 (nel h) (hsize h) in
      if hsize h = new_size then (h, hp)
      else (case malloc hp of
              (False, hp') \<Rightarrow> (h, hp')
            | (True, hp') \<Rightarrow>
                (h\<lparr>hsize := new_size,
                   htable := fold (hashtab_move (hash_value h) (keycmp h) new_size)
                               (concat (htable h)) (replicate (unat new_size) [])\<rparr>, hp')))"

definition hashtab_insert :: "heap \<Rightarrow> ('k, 'd) hashtab \<Rightarrow> 'k \<Rightarrow> 'd
    \<Rightarrow> (errno + unit) \<times> ('k, 'd) hashtab \<times> heap" where
  "hashtab_insert hp ho key datum =
     (case ho of
        None \<Rightarrow> (Inl ENOMEM, None, hp)
      | Some h0 \<Rightarrow>
          (let (h, hp1) = hashtab_check_resize hp h0;
               hvalue = unat (hash_value h (hsize h) key);
               cur = chain_from (keycmp h) key (htable h ! hvalue)
           in if cur \<noteq> [] \<and> keycmp h key (hkey (hd cur)) = 0 then (Inl EEXIST, Some h, hp1)
              else (case malloc hp1 of
                      (False, hp2) \<Rightarrow> (Inl ENOMEM, Some h, hp2)
                    | (True, hp2) \<Rightarrow>
                        (Inr (),
                         Some (h\<lparr>htable := (htable h)[hvalue :=
                                   chain_before (keycmp h) key (htable h ! hvalue) @
                                   \<lparr>hkey = key, hdatum = datum\<rparr> # cur],
                                 nel := nel h + 1\<rparr>), hp2))))"

text \<open>\<open>hashtab_remove\<close> also returns the node the \<open>destroy\<close> callback is applied to.\<close>

definition hashtab_remove :: "('k, 'd) hashtab \<Rightarrow> 'k
    \<Rightarrow> (errno + ('k, 'd) hashtab_node) \<times> ('k, 'd) hashtab" where
  "hashtab_remove ho key =
     (case ho of
        None \<Rightarrow> (Inl ENOENT, None)
      | Some h \<Rightarrow>
          (let hvalue = unat (hash_value h (hsize h) key);
               cur = chain_from (keycmp h) key (htable h ! hvalue)
           in if cur = [] \<or> keycmp h key (hkey (hd cur)) \<noteq> 0 then (Inl ENOENT, Some h)
              else (Inr (hd cur),
                    Some (h\<lparr>htable := (htable h)[hvalue :=
                              chain_before (keycmp h) key (htable h ! hvalue) @ tl cur],
                            nel := nel h - 1\<rparr>))))"

definition hashtab_search :: "('k, 'd) hashtab \<Rightarrow> 'k \<Rightarrow> 'd option" where
  "hashtab_search ho key =
     (case ho of
        None \<Rightarrow> None
      | Some h \<Rightarrow>
          (let cur = chain_from (keycmp h) key (htable h ! unat (hash_value h (hsize h) key))
           in if cur = [] \<or> keycmp h key (hkey (hd cur)) \<noteq> 0 then None
              else Some (hdatum (hd cur))))"

text \<open>A change of the datum behind the pointer that \<open>hashtab_search\<close> returns.\<close>

definition hashtab_update :: "('k, 'd) hashtab \<Rightarrow> 'k \<Rightarrow> ('d \<Rightarrow> 'd) \<Rightarrow> ('k, 'd) hashtab" where
  "hashtab_update ho key f =
     (case ho of
        None \<Rightarrow> None
      | Some h \<Rightarrow>
          (let hvalue = unat (hash_value h (hsize h) key);
               cur = chain_from (keycmp h) key (htable h ! hvalue)
           in if cur = [] \<or> keycmp h key (hkey (hd cur)) \<noteq> 0 then Some h
              else Some (h\<lparr>htable := (htable h)[hvalue :=
                             chain_before (keycmp h) key (htable h ! hvalue) @
                             (hd cur)\<lparr>hdatum := f (hdatum (hd cur))\<rparr> # tl cur]\<rparr>)))"

definition hashtab_destroy :: "('k, 'd) hashtab \<Rightarrow> ('k, 'd) hashtab" where
  "hashtab_destroy ho = None"

text \<open>\<open>hashtab_map\<close>: the callback gets the key, the datum and the state behind \<open>args\<close>; a
  non-zero return ends the walk.\<close>

fun hashtab_map_nodes :: "('k \<Rightarrow> 'd \<Rightarrow> 's \<Rightarrow> int \<times> 's) \<Rightarrow> ('k, 'd) hashtab_node list \<Rightarrow> 's \<Rightarrow> int \<times> 's" where
  "hashtab_map_nodes apply_fn [] s = (0, s)"
| "hashtab_map_nodes apply_fn (cur # rest) s =
     (case apply_fn (hkey cur) (hdatum cur) s of
        (ret, s') \<Rightarrow> if ret \<noteq> 0 then (ret, s') else hashtab_map_nodes apply_fn rest s')"

definition hashtab_map :: "('k, 'd) hashtab \<Rightarrow> ('k \<Rightarrow> 'd \<Rightarrow> 's \<Rightarrow> int \<times> 's) \<Rightarrow> 's \<Rightarrow> int \<times> 's" where
  "hashtab_map ho apply_fn s =
     (case ho of None \<Rightarrow> (0, s) | Some h \<Rightarrow> hashtab_map_nodes apply_fn (concat (htable h)) s)"

definition hashtab_hash_eval :: "('k, 'd) hashtab_val \<Rightarrow> u32 \<times> nat \<times> u32 \<times> nat" where
  \<comment> \<open>the four numbers that are printed\<close>
  "hashtab_hash_eval h =
     (nel h, length (filter (\<lambda>ch. ch \<noteq> []) (htable h)), hsize h,
      foldl max 0 (map length (htable h)))"

subsection \<open>The invariant\<close>

definition chain_sorted :: "('k \<Rightarrow> 'k \<Rightarrow> int) \<Rightarrow> ('k, 'd) hashtab_node list \<Rightarrow> bool" where
  "chain_sorted cmp ch \<longleftrightarrow> sorted_wrt (\<lambda>a b. cmp (hkey a) (hkey b) < 0) ch"

definition slots_ok :: "(u32 \<Rightarrow> 'k \<Rightarrow> u32) \<Rightarrow> ('k \<Rightarrow> 'k \<Rightarrow> int) \<Rightarrow> u32
    \<Rightarrow> ('k, 'd) hashtab_node list list \<Rightarrow> bool" where
  "slots_ok hash cmp sz tbl \<longleftrightarrow> length tbl = unat sz \<and>
     (\<forall>i<length tbl. chain_sorted cmp (tbl ! i) \<and> (\<forall>n\<in>set (tbl ! i). unat (hash sz (hkey n)) = i))"

definition pow2_size :: "u32 \<Rightarrow> bool" where
  "pow2_size sz \<longleftrightarrow> (\<exists>k<32. unat sz = 2 ^ k)"

definition hashtab_ok :: "('k, 'd) hashtab_val \<Rightarrow> bool" where
  "hashtab_ok h \<longleftrightarrow> pow2_size (hsize h) \<and> slots_ok (hash_value h) (keycmp h) (hsize h) (htable h) \<and>
     nel h = word_of_nat (length (concat (htable h)))"

text \<open>A well-formed table over a given hash function and comparison.\<close>

definition table_ok :: "(u32 \<Rightarrow> 'k \<Rightarrow> u32) \<Rightarrow> ('k \<Rightarrow> 'k \<Rightarrow> int) \<Rightarrow> ('k, 'd) hashtab_val \<Rightarrow> bool" where
  "table_ok hash cmp h \<longleftrightarrow> hashtab_ok h \<and> hash_value h = hash \<and> keycmp h = cmp"

text \<open>The finite map a table stands for.\<close>

definition hashtab_abs :: "('k, 'd) hashtab_val \<Rightarrow> 'k \<Rightarrow> 'd option" where
  "hashtab_abs h = map_of (map (\<lambda>n. (hkey n, hdatum n)) (concat (htable h)))"

end
