(* ===== verification/Hashtab_Laws.thy ===== *)
theory Hashtab_Laws
  imports Hashtab
begin

section \<open>Hash tables: correctness\<close>

text \<open>
  What the hash tables need of a hash function and a key comparison is the locale
  \<open>hash_keys\<close>. Under it every operation keeps the invariant \<open>hashtab_ok\<close> and acts on the
  finite map \<open>hashtab_abs\<close> as its contract says, resizing included. The contract is itself
  the locale \<open>assoc_table\<close>, which clients of a table use.
\<close>

subsection \<open>Growing\<close>

lemma grow_pow2:
  assumes "pow2_size sz" shows "pow2_size (hashtab_grow fuel n sz)"
  using assms
proof (induction fuel n sz rule: hashtab_grow.induct)
  case (2 fuel n sz)
  show ?case
  proof (cases "sz \<le> n \<and> sz * 2 \<noteq> 0")
    case True
    obtain k where k: "k < 32" "unat sz = 2 ^ k" using "2.prems" by (auto simp: pow2_size_def)
    have "unat (sz * 2) = 2 ^ Suc k mod 2 ^ 32" by (simp add: unat_word_ariths k(2) mult.commute)
    moreover have "k \<noteq> 31"
    proof
      assume "k = 31"
      then have "unat (sz * 2) = 0" using calculation by simp
      with True show False by (simp add: unat_eq_0)
    qed
    moreover have "(2 :: nat) ^ Suc k < 2 ^ 32" if "Suc k < 32"
      using that by (rule power_strict_increasing) simp
    ultimately have "unat (sz * 2) = 2 ^ Suc k" "Suc k < 32"
      using k(1) by auto
    then have "pow2_size (sz * 2)" unfolding pow2_size_def by blast
    with True show ?thesis using "2.IH" by simp
  qed (use "2.prems" in auto)
qed simp

text \<open>The fuel of 32 is enough: the loop condition is false when it stops.\<close>

lemma grow_more: "hashtab_grow fuel n sz \<le> n \<and> hashtab_grow fuel n sz * 2 \<noteq> 0 \<Longrightarrow>
    hashtab_grow fuel n sz = sz * 2 ^ fuel"
  by (induction fuel n sz rule: hashtab_grow.induct) (auto simp: algebra_simps split: if_splits)

lemma grow_done: "\<not> (hashtab_grow 32 n sz \<le> n \<and> hashtab_grow 32 n sz * 2 \<noteq> 0)"
proof
  assume *: "hashtab_grow 32 n sz \<le> n \<and> hashtab_grow 32 n sz * 2 \<noteq> 0"
  have "(2 :: u32) ^ 32 = 0" unfolding exp_eq_zero_iff by simp
  with grow_more [OF *] have "hashtab_grow 32 n sz = 0" by (metis mult_zero_right)
  with * show False by simp
qed

lemma pow2_size_index:
  assumes "pow2_size sz" shows "sz \<noteq> 0" "unat sz \<le> 2 ^ 31"
proof -
  obtain k where k: "k < 32" "unat sz = 2 ^ k" using assms by (auto simp: pow2_size_def)
  then show "sz \<noteq> 0" by (metis power_not_zero unat_0 zero_neq_numeral)
  show "unat sz \<le> 2 ^ 31" unfolding k(2) using k(1) by (intro power_increasing) auto
qed

subsection \<open>Slots as lists of chains\<close>

lemma set_concat_update:
  "i < length xss \<Longrightarrow> set (concat (xss[i := ys])) = set ys \<union> (\<Union>j\<in>{..<length xss} - {i}. set (xss ! j))"
  by (auto simp: set_concat_nth nth_list_update simp del: set_concat split: if_splits)

lemma length_concat_update:
  "i < length xss \<Longrightarrow> length (concat (xss[i := ys])) + length (xss ! i) = length (concat xss) + length ys"
proof (induction xss arbitrary: i)
  case (Cons a xss)
  then show ?case by (cases i) auto
qed simp

lemma distinct_concat_blocks:
  assumes "\<And>i. i < length xss \<Longrightarrow> distinct (map f (xss ! i)) \<and> (\<forall>x\<in>set (xss ! i). g (f x) = i + c)"
  shows "distinct (map f (concat xss))"
  using assms
proof (induction xss arbitrary: c)
  case (Cons xs xss)
  have IH: "distinct (map f (concat xss))"
  proof (rule Cons.IH [of "Suc c"])
    fix i assume "i < length xss"
    then show "distinct (map f (xss ! i)) \<and> (\<forall>x\<in>set (xss ! i). g (f x) = i + Suc c)"
      using Cons.prems [of "Suc i"] by simp
  qed
  have hd: "distinct (map f xs)" "\<forall>x\<in>set xs. g (f x) = c" using Cons.prems [of 0] by simp_all
  have "g (f x) > c" if x: "x \<in> set (concat xss)" for x
  proof -
    obtain i where "i < length xss" "x \<in> set (xss ! i)" using x unfolding set_concat_nth by blast
    then show ?thesis using Cons.prems [of "Suc i"] by simp
  qed
  then have "set (map f xs) \<inter> set (map f (concat xss)) = {}" using hd(2) by fastforce
  with hd(1) IH show ?case by simp
qed simp

locale hash_keys =
  fixes hash :: "u32 \<Rightarrow> 'k \<Rightarrow> u32" and cmp :: "'k \<Rightarrow> 'k \<Rightarrow> int"
  assumes hash_bound: "sz \<noteq> 0 \<Longrightarrow> hash sz k < sz"
    and cmp_eq: "cmp a b = 0 \<longleftrightarrow> a = b"
    and cmp_anti: "cmp a b > 0 \<longleftrightarrow> cmp b a < 0"
    and cmp_trans: "\<lbrakk>cmp a b < 0; cmp b c < 0\<rbrakk> \<Longrightarrow> cmp a c < 0"
begin

lemma cmp_refl: "cmp a a = 0"
  by (simp add: cmp_eq)

text \<open>The index of a slot fits into the \<open>int\<close> variable \<open>hvalue\<close> and into the table.\<close>

lemma hash_index:
  assumes "pow2_size sz"
  shows "unat (hash sz k) < unat sz" "unat (hash sz k) < 2 ^ 31"
  using hash_bound [of sz k] pow2_size_index [OF assms] by (simp_all add: word_less_nat_alt)

lemma chain_from_found:
  assumes "chain_sorted cmp ch" "n \<in> set ch"
  shows "chain_from cmp (hkey n) ch \<noteq> [] \<and> hd (chain_from cmp (hkey n) ch) = n"
  using assms
proof (induction ch)
  case (Cons m ch)
  then show ?case
    using cmp_anti cmp_refl by (auto simp: chain_from_def chain_sorted_def)
qed simp

lemma chain_split:
  assumes "chain_sorted cmp ch" "\<forall>n\<in>set ch. hkey n \<noteq> k"
  shows "\<forall>n\<in>set (chain_before cmp k ch). cmp (hkey n) k < 0"
    and "\<forall>n\<in>set (chain_from cmp k ch). cmp k (hkey n) < 0"
proof -
  show "\<forall>n\<in>set (chain_before cmp k ch). cmp (hkey n) k < 0"
    using cmp_anti by (auto simp: chain_before_def dest: set_takeWhileD)
  show "\<forall>n\<in>set (chain_from cmp k ch). cmp k (hkey n) < 0"
    using assms
  proof (induction ch)
    case (Cons m ch)
    have "cmp k (hkey m) < 0" if "\<not> cmp k (hkey m) > 0"
      using that Cons.prems(2) cmp_eq [of k "hkey m"] by auto
    moreover have "cmp k (hkey n) < 0" if "cmp k (hkey m) < 0" "n \<in> set ch" for n
      using that Cons.prems(1) cmp_trans by (auto simp: chain_sorted_def)
    ultimately show ?case
      using Cons by (auto simp: chain_from_def chain_sorted_def)
  qed (simp add: chain_from_def)
qed

lemma chain_cat: "chain_before cmp k ch @ chain_from cmp k ch = ch"
  by (simp add: chain_before_def chain_from_def)

lemma chain_place_sorted:
  assumes ch: "chain_sorted cmp ch" and new: "\<forall>m\<in>set ch. hkey m \<noteq> hkey n"
  shows "chain_sorted cmp (chain_place cmp n ch)"
proof -
  have "chain_sorted cmp (chain_before cmp (hkey n) ch @ chain_from cmp (hkey n) ch)"
    using ch by (simp add: chain_cat)
  then show ?thesis
    using chain_split [OF ch new] cmp_trans
    by (auto simp: chain_sorted_def chain_place_def sorted_wrt_append)
qed

lemma chain_place_set [simp]: "set (chain_place cmp n ch) = insert n (set ch)"
proof -
  have "set (chain_before cmp (hkey n) ch) \<union> set (chain_from cmp (hkey n) ch) = set ch"
    by (metis chain_cat set_append)
  then show ?thesis by (auto simp: chain_place_def)
qed

lemma chain_place_length [simp]: "length (chain_place cmp n ch) = Suc (length ch)"
proof -
  have "length (chain_before cmp (hkey n) ch) + length (chain_from cmp (hkey n) ch) = length ch"
    by (metis chain_cat length_append)
  then show ?thesis by (simp add: chain_place_def)
qed

lemma slot_mem:
  assumes "slots_ok hash cmp sz tbl"
  shows "n \<in> set (concat tbl) \<longleftrightarrow>
    unat (hash sz (hkey n)) < length tbl \<and> n \<in> set (tbl ! unat (hash sz (hkey n)))"
proof
  assume "n \<in> set (concat tbl)"
  then obtain i where i: "i < length tbl" "n \<in> set (tbl ! i)" unfolding set_concat_nth by blast
  then have "unat (hash sz (hkey n)) = i" using assms unfolding slots_ok_def by blast
  with i show "unat (hash sz (hkey n)) < length tbl \<and> n \<in> set (tbl ! unat (hash sz (hkey n)))" by simp
next
  assume "unat (hash sz (hkey n)) < length tbl \<and> n \<in> set (tbl ! unat (hash sz (hkey n)))"
  then show "n \<in> set (concat tbl)" unfolding set_concat_nth by blast
qed

lemma sorted_chain_key: "\<lbrakk>chain_sorted cmp ch; a \<in> set ch; b \<in> set ch; hkey a = hkey b\<rbrakk> \<Longrightarrow> a = b"
  using chain_from_found by metis

lemma slots_key_unique:
  assumes "slots_ok hash cmp sz tbl" "a \<in> set (concat tbl)" "b \<in> set (concat tbl)" "hkey a = hkey b"
  shows "a = b"
  using assms slot_mem [OF assms(1)] sorted_chain_key by (metis slots_ok_def)

text \<open>Placing a node with a new key into its slot.\<close>

lemma place_slots_ok:
  assumes ok: "slots_ok hash cmp sz tbl" and new: "\<forall>m\<in>set (concat tbl). hkey m \<noteq> hkey n"
    and i: "i = unat (hash sz (hkey n))" "i < unat sz"
  shows "slots_ok hash cmp sz (tbl[i := chain_place cmp n (tbl ! i)])"
    and "set (concat (tbl[i := chain_place cmp n (tbl ! i)])) = insert n (set (concat tbl))"
    and "length (concat (tbl[i := chain_place cmp n (tbl ! i)])) = Suc (length (concat tbl))"
proof -
  have len: "i < length tbl" using ok i(2) by (simp add: slots_ok_def)
  have here: "\<forall>m\<in>set (tbl ! i). hkey m \<noteq> hkey n" using new len by (auto simp: set_concat_nth)
  show "slots_ok hash cmp sz (tbl[i := chain_place cmp n (tbl ! i)])"
    using ok len i chain_place_sorted [OF _ here]
    by (auto simp: slots_ok_def nth_list_update)
  show "set (concat (tbl[i := chain_place cmp n (tbl ! i)])) = insert n (set (concat tbl))"
    using len unfolding set_concat_update [OF len]
    by (auto simp: set_concat_nth simp del: set_concat)
  show "length (concat (tbl[i := chain_place cmp n (tbl ! i)])) = Suc (length (concat tbl))"
    using length_concat_update [OF len, of "chain_place cmp n (tbl ! i)"] by simp
qed

lemma move_all:
  assumes "slots_ok hash cmp sz tbl" "pow2_size sz" "distinct (map hkey ns)"
    and "\<forall>n\<in>set ns. \<forall>m\<in>set (concat tbl). hkey m \<noteq> hkey n"
  shows "slots_ok hash cmp sz (fold (hashtab_move hash cmp sz) ns tbl)
    \<and> set (concat (fold (hashtab_move hash cmp sz) ns tbl)) = set ns \<union> set (concat tbl)
    \<and> length (concat (fold (hashtab_move hash cmp sz) ns tbl)) = length ns + length (concat tbl)"
  using assms
proof (induction ns arbitrary: tbl)
  case (Cons n ns)
  let ?t = "hashtab_move hash cmp sz n tbl"
  have step: "slots_ok hash cmp sz ?t" "set (concat ?t) = insert n (set (concat tbl))"
    "length (concat ?t) = Suc (length (concat tbl))"
    using place_slots_ok [OF Cons.prems(1) _ refl hash_index(1) [OF Cons.prems(2)], of n] Cons.prems(4)
    by (simp_all add: hashtab_move_def Let_def)
  have "\<forall>a\<in>set ns. \<forall>m\<in>set (concat ?t). hkey m \<noteq> hkey a"
    using Cons.prems(3,4) unfolding step(2) by auto
  with Cons.IH [OF step(1) Cons.prems(2)] Cons.prems(3) step show ?case by simp
qed simp

lemma chain_sorted_distinct: "chain_sorted cmp ch \<Longrightarrow> distinct (map hkey ch)"
proof (induction ch)
  case (Cons n ch)
  then show ?case using cmp_refl by (fastforce simp: chain_sorted_def)
qed simp

lemma slots_distinct:
  assumes "slots_ok hash cmp sz tbl" shows "distinct (map hkey (concat tbl))"
  by (rule distinct_concat_blocks [where g = "\<lambda>k. unat (hash sz k)" and c = 0])
    (use assms in \<open>simp add: slots_ok_def chain_sorted_distinct\<close>)

subsection \<open>Tables\<close>

lemma table_okD:
  assumes "table_ok hash cmp h"
  shows "pow2_size (hsize h)" "slots_ok hash cmp (hsize h) (htable h)"
    "nel h = word_of_nat (length (concat (htable h)))" "hash_value h = hash" "keycmp h = cmp"
    "unat (hash (hsize h) k) < length (htable h)"
  using assms hash_index(1) [of "hsize h" k] by (auto simp: table_ok_def hashtab_ok_def slots_ok_def)

lemma abs_iff:
  assumes "table_ok hash cmp h"
  shows "hashtab_abs h k = Some d \<longleftrightarrow> \<lparr>hkey = k, hdatum = d\<rparr> \<in> set (concat (htable h))"
proof -
  have "distinct (map fst (map (\<lambda>n. (hkey n, hdatum n)) (concat (htable h))))"
    using slots_distinct [OF table_okD(2) [OF assms]] by (simp add: comp_def)
  then have "hashtab_abs h k = Some d \<longleftrightarrow> (k, d) \<in> (\<lambda>n. (hkey n, hdatum n)) ` set (concat (htable h))"
    unfolding hashtab_abs_def by (simp only: map_of_eq_Some_iff set_map)
  also have "\<dots> \<longleftrightarrow> \<lparr>hkey = k, hdatum = d\<rparr> \<in> set (concat (htable h))"
  proof
    assume "(k, d) \<in> (\<lambda>n. (hkey n, hdatum n)) ` set (concat (htable h))"
    then obtain n where "n \<in> set (concat (htable h))" "k = hkey n" "d = hdatum n" by blast
    moreover from this have "n = \<lparr>hkey = k, hdatum = d\<rparr>" by simp
    ultimately show "\<lparr>hkey = k, hdatum = d\<rparr> \<in> set (concat (htable h))" by metis
  next
    assume "\<lparr>hkey = k, hdatum = d\<rparr> \<in> set (concat (htable h))"
    from imageI [OF this, of "\<lambda>n. (hkey n, hdatum n)"]
    show "(k, d) \<in> (\<lambda>n. (hkey n, hdatum n)) ` set (concat (htable h))" by (simp only: hashtab_node.simps)
  qed
  finally show ?thesis .
qed

lemma abs_eqI:
  assumes "table_ok hash cmp h" "table_ok hash cmp h'" "set (concat (htable h')) = set (concat (htable h))"
  shows "hashtab_abs h' = hashtab_abs h"
proof
  fix k
  show "hashtab_abs h' k = hashtab_abs h k"
    using abs_iff [OF assms(1), of k] abs_iff [OF assms(2), of k] assms(3)
    by (metis option.exhaust)
qed

text \<open>The position a walk along the chain of \<open>k\<close> stops at.\<close>

lemma walk_found:
  assumes ok: "table_ok hash cmp h" and d: "hashtab_abs h k = Some d"
  shows "chain_from cmp k (htable h ! unat (hash (hsize h) k)) \<noteq> []"
    and "hd (chain_from cmp k (htable h ! unat (hash (hsize h) k))) = \<lparr>hkey = k, hdatum = d\<rparr>"
proof -
  let ?n = "\<lparr>hkey = k, hdatum = d\<rparr>"
  have "?n \<in> set (htable h ! unat (hash (hsize h) k))"
    using slot_mem [OF table_okD(2) [OF ok], of ?n] d abs_iff [OF ok] by simp
  moreover have "chain_sorted cmp (htable h ! unat (hash (hsize h) k))"
    using table_okD(2) [OF ok] table_okD(6) [OF ok, of k] by (simp add: slots_ok_def)
  ultimately show "chain_from cmp k (htable h ! unat (hash (hsize h) k)) \<noteq> []"
    "hd (chain_from cmp k (htable h ! unat (hash (hsize h) k))) = \<lparr>hkey = k, hdatum = d\<rparr>"
    using chain_from_found [of "htable h ! unat (hash (hsize h) k)" ?n] by simp_all
qed

lemma walk_missing:
  assumes ok: "table_ok hash cmp h" and none: "hashtab_abs h k = None"
  shows "chain_from cmp k (htable h ! unat (hash (hsize h) k)) = [] \<or>
    cmp k (hkey (hd (chain_from cmp k (htable h ! unat (hash (hsize h) k))))) \<noteq> 0"
proof -
  let ?ch = "htable h ! unat (hash (hsize h) k)"
  have "\<forall>n\<in>set (concat (htable h)). hkey n \<noteq> k"
    using none by (force simp: hashtab_abs_def map_of_eq_None_iff simp del: set_concat)
  then have "\<forall>n\<in>set ?ch. hkey n \<noteq> k"
    using table_okD(6) [OF ok, of k] by (auto simp: set_concat_nth simp del: set_concat)
  moreover have "set (chain_from cmp k ?ch) \<subseteq> set ?ch"
    by (auto simp: chain_from_def dest: set_dropWhileD)
  ultimately have "chain_from cmp k ?ch \<noteq> [] \<Longrightarrow> hkey (hd (chain_from cmp k ?ch)) \<noteq> k"
    by (auto dest: hd_in_set)
  then show ?thesis by (auto simp: cmp_eq)
qed

lemma search_abs:
  assumes "table_ok hash cmp h" shows "hashtab_search (Some h) k = hashtab_abs h k"
proof (cases "hashtab_abs h k")
  case None
  then show ?thesis
    using walk_missing [OF assms] table_okD(4,5) [OF assms] by (auto simp: hashtab_search_def Let_def)
next
  case (Some d)
  then show ?thesis
    using walk_found [OF assms Some] table_okD(4,5) [OF assms]
    by (simp add: hashtab_search_def Let_def cmp_refl)
qed

lemma resize_ok:
  assumes ok: "table_ok hash cmp h" and r: "hashtab_check_resize hp h = (h', hp')"
  shows "table_ok hash cmp h'" "set (concat (htable h')) = set (concat (htable h))"
    "mem_ok hp \<Longrightarrow> mem_ok hp'"
proof -
  let ?ns = "hashtab_grow 32 (nel h) (hsize h)"
  let ?t = "fold (hashtab_move hash cmp ?ns) (concat (htable h)) (replicate (unat ?ns) [])"
  have p2: "pow2_size ?ns" by (rule grow_pow2 [OF table_okD(1) [OF ok]])
  have "slots_ok hash cmp ?ns (replicate (unat ?ns) [])"
    by (simp add: slots_ok_def chain_sorted_def)
  from move_all [OF this p2 slots_distinct [OF table_okD(2) [OF ok]]]
  have t: "slots_ok hash cmp ?ns ?t" "set (concat ?t) = set (concat (htable h))"
    "length (concat ?t) = length (concat (htable h))" by simp_all
  have moved: "table_ok hash cmp (h\<lparr>hsize := ?ns, htable := ?t\<rparr>)"
    using t p2 table_okD(3-5) [OF ok] by (simp add: table_ok_def hashtab_ok_def del: set_concat)
  consider "h' = h" | "h' = h\<lparr>hsize := ?ns, htable := ?t\<rparr>"
    using r table_okD(4,5) [OF ok]
    by (auto simp: hashtab_check_resize_def Let_def split: if_splits prod.splits bool.splits)
  then show "table_ok hash cmp h'" "set (concat (htable h')) = set (concat (htable h))"
    using ok moved t(2) by (cases; simp del: set_concat)+
  show "mem_ok hp'" if "mem_ok hp"
    using r malloc_mem_ok [OF that] that
    by (auto simp: hashtab_check_resize_def Let_def split: if_splits prod.splits bool.splits)
qed

lemma place_ok:
  assumes ok: "table_ok hash cmp h" and none: "hashtab_abs h k = None"
    and h': "h' = h\<lparr>htable := (htable h)[unat (hash (hsize h) k) :=
        chain_place cmp \<lparr>hkey = k, hdatum = d\<rparr> (htable h ! unat (hash (hsize h) k))], nel := nel h + 1\<rparr>"
  shows "table_ok hash cmp h'" "hashtab_abs h' = (hashtab_abs h)(k \<mapsto> d)"
proof -
  let ?n = "\<lparr>hkey = k, hdatum = d\<rparr>"
  have new: "\<forall>m\<in>set (concat (htable h)). hkey m \<noteq> hkey ?n"
    using none by (force simp: hashtab_abs_def map_of_eq_None_iff simp del: set_concat)
  have len: "unat (hash (hsize h) k) < unat (hsize h)"
    by (rule hash_index(1) [OF table_okD(1) [OF ok]])
  note pl = place_slots_ok [OF table_okD(2) [OF ok] new, unfolded hashtab_node.simps, OF refl len]
  show t: "table_ok hash cmp h'"
    using pl(1,3) table_okD(1,3,4,5) [OF ok] by (simp add: h' table_ok_def hashtab_ok_def)
  show "hashtab_abs h' = (hashtab_abs h)(k \<mapsto> d)"
  proof
    fix x
    have "hashtab_abs h' x = Some y \<longleftrightarrow> ((hashtab_abs h)(k \<mapsto> d)) x = Some y" for y
      using abs_iff [OF t, of x y] abs_iff [OF ok, of x y] pl(2) none
      by (auto simp: h' simp del: set_concat)
    then show "hashtab_abs h' x = ((hashtab_abs h)(k \<mapsto> d)) x" by (metis option.exhaust)
  qed
qed

lemma insert_spec:
  assumes ok: "table_ok hash cmp h"
  shows "case hashtab_insert hp (Some h) k d of
      (Inl e, Some h', hp') \<Rightarrow> table_ok hash cmp h' \<and> hashtab_abs h' = hashtab_abs h \<and>
         (e = EEXIST \<and> hashtab_abs h k \<noteq> None \<or> e = ENOMEM \<and> hashtab_abs h k = None \<and> \<not> mem_ok hp)
    | (Inr _, Some h', hp') \<Rightarrow> table_ok hash cmp h' \<and> hashtab_abs h k = None \<and>
         hashtab_abs h' = (hashtab_abs h)(k \<mapsto> d)
    | (_, None, _) \<Rightarrow> False"
proof -
  obtain g hp1 where g: "hashtab_check_resize hp h = (g, hp1)" by (cases "hashtab_check_resize hp h")
  note okg = resize_ok(1) [OF ok g]
  have abs: "hashtab_abs g = hashtab_abs h" by (rule abs_eqI [OF ok okg resize_ok(2) [OF ok g]])
  let ?i = "unat (hash (hsize g) k)"
  note eqs = table_okD(4,5) [OF okg]
  show ?thesis
  proof (cases "hashtab_abs h k")
    case (Some d')
    have "hashtab_insert hp (Some h) k d = (Inl EEXIST, Some g, hp1)"
      using walk_found [OF okg, of k d'] abs Some
      by (simp add: hashtab_insert_def g Let_def eqs cmp_refl)
    then show ?thesis using okg abs Some by simp
  next
    case None
    have walk: "\<not> (chain_from cmp k (htable g ! ?i) \<noteq> [] \<and> cmp k (hkey (hd (chain_from cmp k (htable g ! ?i)))) = 0)"
      using walk_missing [OF okg] abs None by auto
    show ?thesis
    proof (cases "malloc hp1")
      case (Pair b hp2)
      show ?thesis
      proof (cases b)
        case True
        let ?h' = "g\<lparr>htable := (htable g)[?i := chain_place cmp \<lparr>hkey = k, hdatum = d\<rparr> (htable g ! ?i)], nel := nel g + 1\<rparr>"
        have "hashtab_insert hp (Some h) k d = (Inr (), Some ?h', hp2)"
          using walk Pair True by (simp add: hashtab_insert_def g Let_def eqs chain_place_def)
        then show ?thesis
          using place_ok [OF okg _ refl, of k d] abs None by simp
      next
        case False
        then have "\<not> mem_ok hp"
          using Pair malloc_fail_not_ok [of hp1 hp2] resize_ok(3) [OF ok g] by auto
        moreover have "hashtab_insert hp (Some h) k d = (Inl ENOMEM, Some g, hp2)"
          using walk Pair False by (simp add: hashtab_insert_def g Let_def eqs)
        ultimately show ?thesis using okg abs None by simp
      qed
    qed
  qed
qed

lemma chain_cut:
  assumes ch: "chain_sorted cmp ch" and n: "n \<in> set ch"
  shows "chain_sorted cmp (chain_before cmp (hkey n) ch @ tl (chain_from cmp (hkey n) ch))"
    and "set (chain_before cmp (hkey n) ch @ tl (chain_from cmp (hkey n) ch)) = set ch - {n}"
    and "Suc (length (chain_before cmp (hkey n) ch @ tl (chain_from cmp (hkey n) ch))) = length ch"
proof -
  define a where "a = chain_before cmp (hkey n) ch"
  define b where "b = tl (chain_from cmp (hkey n) ch)"
  have eq: "ch = a @ n # b"
    using chain_cat [of "hkey n" ch] chain_from_found [OF ch n]
    by (metis a_def b_def list.collapse)
  have "distinct ch" using chain_sorted_distinct [OF ch] distinct_map by blast
  then show "set (chain_before cmp (hkey n) ch @ tl (chain_from cmp (hkey n) ch)) = set ch - {n}"
    unfolding a_def [symmetric] b_def [symmetric] by (auto simp: eq)
  show "chain_sorted cmp (chain_before cmp (hkey n) ch @ tl (chain_from cmp (hkey n) ch))"
    using ch unfolding a_def [symmetric] b_def [symmetric]
    by (auto simp: eq chain_sorted_def sorted_wrt_append)
  show "Suc (length (chain_before cmp (hkey n) ch @ tl (chain_from cmp (hkey n) ch))) = length ch"
    unfolding a_def [symmetric] b_def [symmetric] by (simp add: eq)
qed

lemma remove_spec:
  assumes ok: "table_ok hash cmp h"
  shows "case hashtab_remove (Some h) k of
      (Inl e, t) \<Rightarrow> e = ENOENT \<and> hashtab_abs h k = None \<and> t = Some h
    | (Inr n, Some h') \<Rightarrow> hkey n = k \<and> hashtab_abs h k = Some (hdatum n) \<and> table_ok hash cmp h' \<and>
         hashtab_abs h' = (hashtab_abs h)(k := None)
    | (_, None) \<Rightarrow> False"
proof (cases "hashtab_abs h k")
  case None
  then show ?thesis
    using walk_missing [OF ok] table_okD(4,5) [OF ok] by (auto simp: hashtab_remove_def Let_def)
next
  case (Some d)
  let ?n = "\<lparr>hkey = k, hdatum = d\<rparr>" and ?i = "unat (hash (hsize h) k)"
  let ?ch = "htable h ! ?i"
  let ?c = "chain_before cmp k ?ch @ tl (chain_from cmp k ?ch)"
  let ?h' = "h\<lparr>htable := (htable h)[?i := ?c], nel := nel h - 1\<rparr>"
  note sok = table_okD(2) [OF ok] and len = table_okD(6) [OF ok, of k]
  have n: "?n \<in> set (concat (htable h))" using Some abs_iff [OF ok] by simp
  have ch: "chain_sorted cmp ?ch" "?n \<in> set ?ch"
    using sok len slot_mem [OF sok, of ?n] n by (simp_all add: slots_ok_def del: set_concat)
  note cut = chain_cut [OF ch, simplified hashtab_node.simps]
  have "\<forall>n\<in>set ?c. unat (hash (hsize h) (hkey n)) = ?i"
    using sok len unfolding cut(2) by (simp add: slots_ok_def)
  then have sok': "slots_ok hash cmp (hsize h) ((htable h)[?i := ?c])"
    using sok len cut(1) by (simp add: slots_ok_def nth_list_update del: set_append)
  have set': "set (concat ((htable h)[?i := ?c])) = set (concat (htable h)) - {?n}"
  proof -
    have "j = ?i" if "j < length (htable h)" "?n \<in> set (htable h ! j)" for j
    proof -
      have "\<forall>m\<in>set (htable h ! j). unat (hash (hsize h) (hkey m)) = j"
        using sok that(1) by (simp add: slots_ok_def)
      from bspec [OF this that(2)] show ?thesis by simp
    qed
    then show ?thesis
      using len unfolding set_concat_update [OF len] cut(2)
      by (auto simp: set_concat_nth simp del: set_concat)
  qed
  have "length (concat (htable h)) = Suc (length (concat ((htable h)[?i := ?c])))"
    using length_concat_update [OF len, of ?c] cut(3) by linarith
  then have t: "table_ok hash cmp ?h'"
    using sok' table_okD(1,3,4,5) [OF ok] by (simp add: table_ok_def hashtab_ok_def)
  have "hashtab_abs ?h' = (hashtab_abs h)(k := None)"
  proof
    fix x
    have "hashtab_abs ?h' x = Some y \<longleftrightarrow> ((hashtab_abs h)(k := None)) x = Some y" for y
    proof -
      have "hashtab_abs ?h' x = Some y \<longleftrightarrow> hashtab_abs h x = Some y \<and> \<not> (x = k \<and> y = d)"
        using abs_iff [OF t, of x y] abs_iff [OF ok, of x y] set' by (simp del: set_concat)
      also have "\<dots> \<longleftrightarrow> ((hashtab_abs h)(k := None)) x = Some y" using Some by auto
      finally show ?thesis .
    qed
    then show "hashtab_abs ?h' x = ((hashtab_abs h)(k := None)) x" by (metis option.exhaust)
  qed
  moreover have "hashtab_remove (Some h) k = (Inr ?n, Some ?h')"
    using walk_found [OF ok Some] table_okD(4,5) [OF ok] by (simp add: hashtab_remove_def Let_def cmp_refl)
  ultimately show ?thesis using t Some by simp
qed

lemma create_spec:
  assumes "pow2_size sz" "hashtab_create hp hash cmp sz = (ho, hp')"
  shows "case ho of None \<Rightarrow> \<not> mem_ok hp | Some h \<Rightarrow> table_ok hash cmp h \<and> hashtab_abs h = Map.empty"
  using assms malloc_mem_ok
  by (fastforce simp: hashtab_create_def table_ok_def hashtab_ok_def slots_ok_def chain_sorted_def
      hashtab_abs_def split: prod.splits bool.splits dest: malloc_fail_not_ok)

end

subsection \<open>The contract of an association table\<close>

text \<open>
  What the users of a table rely on, whatever its keys: \<open>abs\<close> is the finite map it stands
  for, a search returns its value, an insertion adds exactly one binding or reports that
  the key is there, a removal deletes exactly one binding.
\<close>

locale assoc_table =
  fixes ok :: "'t \<Rightarrow> bool" and abs :: "'t \<Rightarrow> 'k \<Rightarrow> 'd option"
    and search :: "'t option \<Rightarrow> 'k \<Rightarrow> 'd option"
    and insert :: "heap \<Rightarrow> 't option \<Rightarrow> 'k \<Rightarrow> 'd \<Rightarrow> (errno + unit) \<times> 't option \<times> heap"
    and remove :: "'t option \<Rightarrow> 'k \<Rightarrow> (errno + 'n) \<times> 't option"
  assumes search_law: "ok t \<Longrightarrow> search (Some t) k = abs t k"
    and insert_law: "ok t \<Longrightarrow> case insert hp (Some t) k d of
      (Inl e, Some t', hp') \<Rightarrow> ok t' \<and> abs t' = abs t \<and>
         (e = EEXIST \<and> abs t k \<noteq> None \<or> e = ENOMEM \<and> abs t k = None \<and> \<not> mem_ok hp)
    | (Inr _, Some t', hp') \<Rightarrow> ok t' \<and> abs t k = None \<and> abs t' = (abs t)(k \<mapsto> d)
    | (_, None, _) \<Rightarrow> False"
    and remove_law: "ok t \<Longrightarrow> case remove (Some t) k of
      (Inl e, t') \<Rightarrow> e = ENOENT \<and> abs t k = None \<and> t' = Some t
    | (Inr n, Some t') \<Rightarrow> ok t' \<and> abs t k \<noteq> None \<and> abs t' = (abs t)(k := None)
    | (_, None) \<Rightarrow> False"
begin

lemma insert_Inr:
  assumes "ok t" "insert hp (Some t) k d = (Inr u, to, hp')"
  obtains t' where "to = Some t'" "ok t'" "search (Some t) k = None"
    "\<And>x. search (Some t') x = (if x = k then Some d else search (Some t) x)"
proof (cases to)
  case None
  then show ?thesis using insert_law [OF assms(1), where hp = hp and k = k and d = d] assms(2) by simp
next
  case (Some t')
  then have "ok t'" "abs t k = None" "abs t' = (abs t)(k \<mapsto> d)"
    using insert_law [OF assms(1), where hp = hp and k = k and d = d] assms(2) by simp_all
  with that [OF Some] show ?thesis using assms(1) by (simp add: search_law)
qed

lemma insert_Inl:
  assumes "ok t" "insert hp (Some t) k d = (Inl e, to, hp')"
  obtains t' where "to = Some t'" "ok t'" "\<And>x. search (Some t') x = search (Some t) x"
    "e = EEXIST \<and> search (Some t) k \<noteq> None \<or> e = ENOMEM \<and> search (Some t) k = None \<and> \<not> mem_ok hp"
proof (cases to)
  case None
  then show ?thesis using insert_law [OF assms(1), where hp = hp and k = k and d = d] assms(2) by simp
next
  case (Some t')
  with that [OF Some] show ?thesis
    using insert_law [OF assms(1), where hp = hp and k = k and d = d] assms by (simp add: search_law)
qed

lemma remove_Inr:
  assumes "ok t" "remove (Some t) k = (Inr n, to)"
  obtains t' where "to = Some t'" "ok t'" "search (Some t) k \<noteq> None"
    "\<And>x. search (Some t') x = (if x = k then None else search (Some t) x)"
proof (cases to)
  case None
  then show ?thesis using remove_law [OF assms(1), of k] assms(2) by simp
next
  case (Some t')
  with that [OF Some] show ?thesis
    using remove_law [OF assms(1), of k] assms by (simp add: search_law)
qed

lemma insert_remove:
  assumes "ok t" "insert hp (Some t) k d = (Inr u, Some t1, hp')"
  obtains n t2 where "remove (Some t1) k = (Inr n, Some t2)" "ok t2" "abs t2 = abs t"
proof -
  have t1: "ok t1" "abs t k = None" "abs t1 = (abs t)(k \<mapsto> d)"
    using insert_law [OF assms(1), where hp = hp and k = k and d = d] assms(2) by simp_all
  obtain r t2 where r: "remove (Some t1) k = (r, t2)" by (cases "remove (Some t1) k")
  have "(abs t1)(k := None) = abs t" using t1(2,3) by auto
  with remove_law [OF t1(1), of k] r t1(3) that show ?thesis
    by (cases r; cases t2) auto
qed

end

context hash_keys
begin

lemma assoc_table_laws: "assoc_table (table_ok hash cmp) hashtab_abs hashtab_search hashtab_insert hashtab_remove"
proof
  show "hashtab_search (Some t) k = hashtab_abs t k" if "table_ok hash cmp t" for t :: "('k, 'a) hashtab_val" and k
    by (rule search_abs [OF that])
next
  fix t :: "('k, 'a) hashtab_val" and hp k d
  assume "table_ok hash cmp t"
  from insert_spec [OF this, where hp = hp and k = k and d = d]
  show "case hashtab_insert hp (Some t) k d of
      (Inl e, Some t', hp') \<Rightarrow> table_ok hash cmp t' \<and> hashtab_abs t' = hashtab_abs t \<and>
         (e = EEXIST \<and> hashtab_abs t k \<noteq> None \<or> e = ENOMEM \<and> hashtab_abs t k = None \<and> \<not> mem_ok hp)
    | (Inr _, Some t', hp') \<Rightarrow> table_ok hash cmp t' \<and> hashtab_abs t k = None \<and> hashtab_abs t' = (hashtab_abs t)(k \<mapsto> d)
    | (_, None, _) \<Rightarrow> False" .
next
  fix t :: "('k, 'a) hashtab_val" and k
  assume "table_ok hash cmp t"
  from remove_spec [OF this, of k]
  show "case hashtab_remove (Some t) k of
      (Inl e, t') \<Rightarrow> e = ENOENT \<and> hashtab_abs t k = None \<and> t' = Some t
    | (Inr n, Some t') \<Rightarrow> table_ok hash cmp t' \<and> hashtab_abs t k \<noteq> None \<and> hashtab_abs t' = (hashtab_abs t)(k := None)
    | (_, None) \<Rightarrow> False"
    by (auto split: prod.splits sum.splits option.splits)
qed

end

end
