(* ===== verification/Symtab.thy ===== *)
theory Symtab
  imports Hashtab_Laws
begin

section \<open>Symbol tables\<close>

text \<open>
  libsepol/src/symtab.c: hash tables whose keys are C strings. A string is the list of its
  bytes before the terminating zero. \<open>symhash\<close> and \<open>symcmp\<close> meet the requirements of the
  hash tables, so that every symbol table is an association table.
\<close>

type_synonym cstring = "u8 list"

text \<open>\<open>strcmp\<close>: only the sign of the result is specified; bytes compare as unsigned.\<close>

fun strcmp :: "cstring \<Rightarrow> cstring \<Rightarrow> int" where
  "strcmp [] [] = 0"
| "strcmp [] (b # bs) = - 1"
| "strcmp (a # as) [] = 1"
| "strcmp (a # as) (b # bs) = (if a = b then strcmp as bs else if a < b then - 1 else 1)"

text \<open>\<open>val << 4 | val >> 28\<close>, exclusive or with the sign-extended \<open>char\<close>.\<close>

definition symhash_step :: "u32 \<Rightarrow> u8 \<Rightarrow> u32" where
  "symhash_step val p = (push_bit 4 val OR drop_bit 28 val) XOR scast p"

definition symhash :: "u32 \<Rightarrow> cstring \<Rightarrow> u32" where
  "symhash sz key = foldl symhash_step 0 key AND (sz - 1)"

definition symcmp :: "cstring \<Rightarrow> cstring \<Rightarrow> int" where
  "symcmp key1 key2 = strcmp key1 key2"

record 'd symtab =
  table :: "(cstring, 'd) hashtab"
  nprim :: u32

definition symtab_init :: "heap \<Rightarrow> u32 \<Rightarrow> (errno + 'd symtab) \<times> heap" where
  "symtab_init hp sz =
     (case hashtab_create hp symhash symcmp sz of
        (None, hp') \<Rightarrow> (Inl EFAIL, hp')
      | (Some t, hp') \<Rightarrow> (Inr \<lparr>table = Some t, nprim = 0\<rparr>, hp'))"

definition symtab_destroy :: "'d symtab \<Rightarrow> 'd symtab" where
  "symtab_destroy s = (case table s of None \<Rightarrow> s | Some t \<Rightarrow> s\<lparr>table := hashtab_destroy (Some t)\<rparr>)"

subsection \<open>Strings as keys\<close>

lemma strcmp_eq: "strcmp a b = 0 \<longleftrightarrow> a = b"
  by (induction a b rule: strcmp.induct) auto

lemma strcmp_anti: "strcmp a b > 0 \<longleftrightarrow> strcmp b a < 0"
  by (induction a b rule: strcmp.induct) auto

lemma strcmp_trans: "\<lbrakk>strcmp a b < 0; strcmp b c < 0\<rbrakk> \<Longrightarrow> strcmp a c < 0"
proof (induction a b arbitrary: c rule: strcmp.induct)
  case (4 a as b bs)
  then show ?case by (cases c) (auto split: if_splits)
next
  case (2 b bs)
  then show ?case by (cases c) auto
qed auto

lemma symhash_bound: "sz \<noteq> 0 \<Longrightarrow> symhash sz key < sz"
proof -
  assume "sz \<noteq> 0"
  then have "sz - 1 < sz" by (simp add: word_less_nat_alt unat_minus_one unat_gt_0)
  moreover have "symhash sz key \<le> sz - 1" unfolding symhash_def by (rule word_and_le1)
  ultimately show ?thesis by simp
qed

interpretation sym: hash_keys symhash symcmp
  by unfold_locales (auto simp: symcmp_def strcmp_eq strcmp_anti symhash_bound intro: strcmp_trans)

interpretation symt: assoc_table "table_ok symhash symcmp" hashtab_abs hashtab_search
    hashtab_insert hashtab_remove
  by (rule sym.assoc_table_laws)

text \<open>A symbol table created with a power-of-two size is empty and well-formed.\<close>

lemma symtab_init_ok:
  fixes r :: "errno + 'd symtab"
  assumes "pow2_size sz" "symtab_init hp sz = (r, hp')"
  shows "case r of Inl e \<Rightarrow> e = EFAIL \<and> \<not> mem_ok hp
    | Inr s \<Rightarrow> nprim s = 0 \<and> (\<exists>t. table s = Some t \<and> table_ok symhash symcmp t \<and> hashtab_abs t = Map.empty)"
proof -
  obtain ho :: "(cstring, 'd) hashtab" and hp1 where c: "hashtab_create hp symhash symcmp sz = (ho, hp1)" by fastforce
  with sym.create_spec [OF assms(1) c] assms(2) show ?thesis
    by (auto simp: symtab_init_def split: option.splits)
qed

end
