(* ===== verification/Avtab.thy ===== *)
theory Avtab
  imports Policy_File
begin

section \<open>Access vector tables\<close>

text \<open>
  libsepol/src/avtab.c: hash tables of type-enforcement rules, keyed by source type, target
  type and class, with the kind of rule in the bits of \<open>specified\<close>. Chains are ordered by
  the three key fields; several nodes with the same three fields follow each other. A node
  pointer is the suffix of its chain that starts at the node. Conditional rules refer to
  nodes by address: \<open>naddr\<close> is the address of a node and \<open>anext\<close> the next one the
  allocator hands out.
\<close>

record avtab_key =
  source_type :: u16
  target_type :: u16
  target_class :: u16
  specified :: u16

record avtab_extended_perms =
  xspecified :: u8
  driver :: u8
  perms :: "u32 list"

record avtab_datum =
  data :: u32
  xperms :: "avtab_extended_perms option"

record avtab_node =
  akey :: avtab_key
  adatum :: avtab_datum
  naddr :: nat

record avtab =
  ahtable :: "avtab_node list list option"
  anel :: u32
  nslot :: u32
  amask :: u32
  anext :: nat

definition AVTAB_ALLOWED :: u16 where "AVTAB_ALLOWED = 0x0001"
definition AVTAB_AUDITALLOW :: u16 where "AVTAB_AUDITALLOW = 0x0002"
definition AVTAB_AUDITDENY :: u16 where "AVTAB_AUDITDENY = 0x0004"
definition AVTAB_AV :: u16 where "AVTAB_AV = 0x0007"
definition AVTAB_TRANSITION :: u16 where "AVTAB_TRANSITION = 0x0010"
definition AVTAB_MEMBER :: u16 where "AVTAB_MEMBER = 0x0020"
definition AVTAB_CHANGE :: u16 where "AVTAB_CHANGE = 0x0040"
definition AVTAB_TYPE :: u16 where "AVTAB_TYPE = 0x0070"
definition AVTAB_XPERMS_ALLOWED :: u16 where "AVTAB_XPERMS_ALLOWED = 0x0100"
definition AVTAB_XPERMS_AUDITALLOW :: u16 where "AVTAB_XPERMS_AUDITALLOW = 0x0200"
definition AVTAB_XPERMS_DONTAUDIT :: u16 where "AVTAB_XPERMS_DONTAUDIT = 0x0400"
definition AVTAB_XPERMS :: u16 where "AVTAB_XPERMS = 0x0700"
definition AVTAB_ENABLED :: u16 where "AVTAB_ENABLED = 0x8000"

lemmas avtab_consts = AVTAB_ALLOWED_def AVTAB_AUDITALLOW_def AVTAB_AUDITDENY_def AVTAB_AV_def
  AVTAB_TRANSITION_def AVTAB_MEMBER_def AVTAB_CHANGE_def AVTAB_TYPE_def AVTAB_XPERMS_ALLOWED_def
  AVTAB_XPERMS_AUDITALLOW_def AVTAB_XPERMS_DONTAUDIT_def AVTAB_XPERMS_def AVTAB_ENABLED_def

text \<open>\<open>MAX_AVTAB_HASH_BUCKETS\<close>\<close>

definition MAX_AVTAB_HASH_BUCKETS :: u32 where "MAX_AVTAB_HASH_BUCKETS = push_bit 20 1"

subsection \<open>Hashing\<close>

definition avtab_mix :: "u32 \<Rightarrow> u32 \<Rightarrow> u32" where
  "avtab_mix hash input =
     (let v = input * 0xcc9e2d51;
          v = push_bit 15 v OR drop_bit 17 v;
          v = v * 0x1b873593;
          hash = hash XOR v;
          hash = push_bit 13 hash OR drop_bit 19 hash
      in hash * 5 + 0xe6546b64)"

definition avtab_hash :: "avtab_key \<Rightarrow> u32 \<Rightarrow> u32" where
  "avtab_hash keyp mask_bits =
     (let hash = avtab_mix 0 (ucast (target_class keyp));
          hash = avtab_mix hash (ucast (target_type keyp));
          hash = avtab_mix hash (ucast (source_type keyp));
          hash = hash XOR drop_bit 16 hash;
          hash = hash * 0x85ebca6b;
          hash = hash XOR drop_bit 13 hash;
          hash = hash * 0xc2b2ae35;
          hash = hash XOR drop_bit 16 hash
      in hash AND mask_bits)"

subsection \<open>Walking a chain\<close>

definition key_same :: "avtab_key \<Rightarrow> avtab_key \<Rightarrow> bool" where
  "key_same k c \<longleftrightarrow> source_type k = source_type c \<and> target_type k = target_type c \<and>
     target_class k = target_class c"

definition key_less :: "avtab_key \<Rightarrow> avtab_key \<Rightarrow> bool" where
  "key_less k c \<longleftrightarrow> source_type k < source_type c \<or>
     source_type k = source_type c \<and> target_type k < target_type c \<or>
     source_type k = source_type c \<and> target_type k = target_type c \<and>
       target_class k < target_class c"

definition node_match :: "avtab_key \<Rightarrow> u16 \<Rightarrow> avtab_node \<Rightarrow> bool" where
  "node_match key spec cur \<longleftrightarrow> key_same key (akey cur) \<and> spec AND specified (akey cur) \<noteq> 0"

text \<open>The loop all searches and insertions share: step over the nodes of the chain until one
  matches or the key is smaller than the node's. The result is the part of the chain
  stepped over and the part from the current node on.\<close>

fun avtab_scan :: "avtab_key \<Rightarrow> u16 \<Rightarrow> avtab_node list \<Rightarrow> avtab_node list \<times> avtab_node list" where
  "avtab_scan key spec [] = ([], [])"
| "avtab_scan key spec (cur # rest) =
     (if node_match key spec cur then ([], cur # rest)
      else if key_less key (akey cur) then ([], cur # rest)
      else (case avtab_scan key spec rest of (bef, from) \<Rightarrow> (cur # bef, from)))"

definition spec_mask :: "u16 \<Rightarrow> u16" where
  \<comment> \<open>\<open>specified & ~(AVTAB_ENABLED | AVTAB_ENABLED_OLD)\<close> in 16 bits\<close>
  "spec_mask s = s AND NOT AVTAB_ENABLED"

definition scan_hit :: "avtab_key \<Rightarrow> u16 \<Rightarrow> avtab_node list \<Rightarrow> bool" where
  "scan_hit key spec from \<longleftrightarrow> from \<noteq> [] \<and> node_match key spec (hd from)"

definition avtab_search_node :: "avtab \<Rightarrow> avtab_key \<Rightarrow> avtab_node list" where
  \<comment> \<open>the empty list is the null pointer\<close>
  "avtab_search_node h key =
     (case ahtable h of
        None \<Rightarrow> []
      | Some tbl \<Rightarrow>
          (let spec = spec_mask (specified key);
               from = snd (avtab_scan key spec (tbl ! unat (avtab_hash key (amask h))))
           in if scan_hit key spec from then from else []))"

definition avtab_search_node_next :: "avtab_node list \<Rightarrow> u16 \<Rightarrow> avtab_node list" where
  "avtab_search_node_next nodep specs =
     (case nodep of
        [] \<Rightarrow> []
      | n # rest \<Rightarrow>
          (let spec = spec_mask specs; from = snd (avtab_scan (akey n) spec rest)
           in if scan_hit (akey n) spec from then from else []))"

definition avtab_search :: "avtab \<Rightarrow> avtab_key \<Rightarrow> avtab_datum option" where
  "avtab_search h key =
     (case ahtable h of
        None \<Rightarrow> None
      | Some tbl \<Rightarrow>
          (let spec = spec_mask (specified key);
               from = snd (avtab_scan key spec (tbl ! unat (avtab_hash key (amask h))))
           in if scan_hit key spec from then Some (adatum (hd from)) else None))"

text \<open>The loop \<open>for (node = avtab_search_node(h, key); node; node = avtab_search_node_next(node,
  key->specified))\<close> of the callers: the nodes it visits.\<close>

lemma scan_suffix: "length (snd (avtab_scan k s ch)) \<le> length ch"
  by (induction ch) (auto split: prod.splits)

function avtab_visit_from :: "avtab_node list \<Rightarrow> u16 \<Rightarrow> avtab_node list" where
  "avtab_visit_from nodep specs =
     (case nodep of
        [] \<Rightarrow> []
      | n # rest \<Rightarrow> n # avtab_visit_from (avtab_search_node_next nodep specs) specs)"
  by pat_completeness auto
termination
proof (relation "measure (\<lambda>(nodep, specs). length nodep)", goal_cases)
  case (2 nodep specs n rest)
  then show ?case
    using scan_suffix [of "akey n" "spec_mask specs" rest]
    by (auto simp: avtab_search_node_next_def Let_def)
qed simp

declare avtab_visit_from.simps [simp del]

definition avtab_visit :: "avtab \<Rightarrow> avtab_key \<Rightarrow> avtab_node list" where
  "avtab_visit h key = avtab_visit_from (avtab_search_node h key) (specified key)"

subsection \<open>Insertion\<close>

text \<open>The datum of the new node: for an extended-permission rule the permissions are copied
  into a fresh allocation, all zero if the caller gave none.\<close>

definition avtab_node_datum :: "avtab_key \<Rightarrow> avtab_datum \<Rightarrow> avtab_datum" where
  "avtab_node_datum key datum =
     (if specified key AND AVTAB_XPERMS \<noteq> 0
      then \<lparr>data = data datum,
            xperms = Some (case xperms datum of
                             Some x \<Rightarrow> x
                           | None \<Rightarrow> \<lparr>xspecified = 0, driver = 0, perms = replicate 8 0\<rparr>)\<rparr>
      else datum)"

text \<open>\<open>bef\<close> are the nodes of the chain up to and including \<open>prev\<close>, \<open>from\<close> the rest. The
  result is the address of the new node, or none when an allocation failed.\<close>

definition avtab_insert_node ::
  "heap \<Rightarrow> avtab \<Rightarrow> nat \<Rightarrow> avtab_node list \<Rightarrow> avtab_node list \<Rightarrow> avtab_key \<Rightarrow> avtab_datum
   \<Rightarrow> nat option \<times> avtab \<times> heap" where
  "avtab_insert_node hp h hvalue bef from key datum =
     (let (ok1, hp1) = malloc hp in
      if \<not> ok1 then (None, h, hp1)
      else
        (let (ok2, hp2) = (if specified key AND AVTAB_XPERMS \<noteq> 0 then malloc hp1 else (True, hp1)) in
         if \<not> ok2 then (None, h, hp2)
         else
           (let newnode = \<lparr>akey = key, adatum = avtab_node_datum key datum, naddr = anext h\<rparr>
            in (Some (anext h),
                h\<lparr>ahtable := map_option (\<lambda>tbl. tbl[hvalue := bef @ newnode # from]) (ahtable h),
                  anel := anel h + 1, anext := Suc (anext h)\<rparr>, hp2))))"

definition avtab_insert :: "heap \<Rightarrow> avtab \<Rightarrow> avtab_key \<Rightarrow> avtab_datum \<Rightarrow> (errno + unit) \<times> avtab \<times> heap" where
  "avtab_insert hp h key datum =
     (case ahtable h of
        None \<Rightarrow> (Inl ENOMEM, h, hp)
      | Some tbl \<Rightarrow>
          (let spec = spec_mask (specified key);
               hvalue = unat (avtab_hash key (amask h));
               (bef, from) = avtab_scan key spec (tbl ! hvalue)
           in if scan_hit key spec from \<and> \<not> (spec AND AVTAB_XPERMS \<noteq> 0) then (Inl EEXIST, h, hp)
              else (case avtab_insert_node hp h hvalue bef from key datum of
                      (None, h', hp') \<Rightarrow> (Inl ENOMEM, h', hp')
                    | (Some a, h', hp') \<Rightarrow> (Inr (), h', hp'))))"

definition avtab_insert_nonunique ::
  "heap \<Rightarrow> avtab \<Rightarrow> avtab_key \<Rightarrow> avtab_datum \<Rightarrow> nat option \<times> avtab \<times> heap" where
  "avtab_insert_nonunique hp h key datum =
     (case ahtable h of
        None \<Rightarrow> (None, h, hp)
      | Some tbl \<Rightarrow>
          (let spec = spec_mask (specified key);
               hvalue = unat (avtab_hash key (amask h));
               (bef, from) = avtab_scan key spec (tbl ! hvalue)
           in avtab_insert_node hp h hvalue bef from key datum))"

subsection \<open>Whole tables\<close>

definition avtab_init :: "avtab \<Rightarrow> avtab" where
  "avtab_init h = h\<lparr>ahtable := None, anel := 0\<rparr>"

definition avtab_destroy :: "avtab \<Rightarrow> avtab" where
  "avtab_destroy h = (case ahtable h of None \<Rightarrow> h | Some _ \<Rightarrow> h\<lparr>ahtable := None, nslot := 0, amask := 0\<rparr>)"

fun avtab_map_nodes :: "(avtab_key \<Rightarrow> avtab_datum \<Rightarrow> 's \<Rightarrow> int \<times> 's) \<Rightarrow> avtab_node list \<Rightarrow> 's \<Rightarrow> int \<times> 's" where
  "avtab_map_nodes apply_fn [] s = (0, s)"
| "avtab_map_nodes apply_fn (cur # rest) s =
     (case apply_fn (akey cur) (adatum cur) s of
        (ret, s') \<Rightarrow> if ret \<noteq> 0 then (ret, s') else avtab_map_nodes apply_fn rest s')"

definition avtab_nodes :: "avtab \<Rightarrow> avtab_node list" where
  \<comment> \<open>all nodes, slot by slot\<close>
  "avtab_nodes h = (case ahtable h of None \<Rightarrow> [] | Some tbl \<Rightarrow> concat tbl)"

definition avtab_map :: "avtab \<Rightarrow> (avtab_key \<Rightarrow> avtab_datum \<Rightarrow> 's \<Rightarrow> int \<times> 's) \<Rightarrow> 's \<Rightarrow> int \<times> 's" where
  "avtab_map h apply_fn s = avtab_map_nodes apply_fn (avtab_nodes h) s"

text \<open>\<open>while (work) { work = work >> 1; shift++; }\<close>\<close>

function avtab_shift :: "u32 \<Rightarrow> nat \<Rightarrow> nat" where
  "avtab_shift work shift = (if work = 0 then shift else avtab_shift (drop_bit 1 work) (Suc shift))"
  by pat_completeness auto
termination
proof (relation "measure (\<lambda>(work, shift). unat work)", goal_cases)
  case (2 work shift)
  have "unat (drop_bit 1 work) = unat work div 2"
    by (simp add: drop_bit_eq_div unat_div)
  moreover have "0 < unat work" using 2 by (simp add: unat_gt_0)
  ultimately show ?case by simp
qed simp

declare avtab_shift.simps [simp del]

definition avtab_nslot :: "u32 \<Rightarrow> u32" where
  "avtab_nslot nrules =
     (let shift = avtab_shift nrules 0;
          shift = (if shift > 2 then shift - 2 else shift);
          n = push_bit shift 1
      in if n > MAX_AVTAB_HASH_BUCKETS then MAX_AVTAB_HASH_BUCKETS else n)"

definition avtab_alloc :: "heap \<Rightarrow> avtab \<Rightarrow> u32 \<Rightarrow> (errno + unit) \<times> avtab \<times> heap" where
  "avtab_alloc hp h nrules =
     (if nrules = 0 then (Inr (), h\<lparr>anel := 0, nslot := 0, amask := 0\<rparr>, hp)
      else
        (let n = avtab_nslot nrules; (ok, hp') = malloc hp in
         if \<not> ok then (Inl EFAIL, h\<lparr>ahtable := None\<rparr>, hp')
         else (Inr (), h\<lparr>ahtable := Some (replicate (unat n) []), anel := 0, nslot := n, amask := n - 1\<rparr>, hp')))"

definition avtab_hash_eval :: "avtab \<Rightarrow> u32 \<times> nat \<times> u32 \<times> nat" where
  "avtab_hash_eval h =
     (let tbl = (case ahtable h of None \<Rightarrow> [] | Some t \<Rightarrow> t) in
      (anel h, length (filter (\<lambda>ch. ch \<noteq> []) tbl), nslot h, foldl max 0 (map length tbl)))"

end
