(* ===== verification/Avtab_Laws.thy ===== *)
theory Avtab_Laws
  imports Avtab "HOL-Library.Multiset"
begin

section \<open>Access vector tables: correctness\<close>

text \<open>
  The invariant \<open>avtab_ok\<close> of a table, that insertion keeps it, and what searches return:
  walking a chain with \<open>avtab_search_node\<close> and \<open>avtab_search_node_next\<close> visits exactly the
  rules of the table that match the key, in spite of the early exits.
\<close>

definition key_le :: "avtab_node \<Rightarrow> avtab_node \<Rightarrow> bool" where
  "key_le a b \<longleftrightarrow> \<not> key_less (akey b) (akey a)"

definition slots_sorted :: "u32 \<Rightarrow> avtab_node list list \<Rightarrow> bool" where
  "slots_sorted m tbl \<longleftrightarrow>
     (\<forall>i<length tbl. sorted_wrt key_le (tbl ! i) \<and> (\<forall>n\<in>set (tbl ! i). unat (avtab_hash (akey n) m) = i))"

definition avtab_ok :: "avtab \<Rightarrow> bool" where
  "avtab_ok h \<longleftrightarrow>
     (case ahtable h of
        None \<Rightarrow> True
      | Some tbl \<Rightarrow>
          nslot h \<noteq> 0 \<and> nslot h \<le> MAX_AVTAB_HASH_BUCKETS \<and> amask h = nslot h - 1 \<and>
          length tbl = unat (nslot h) \<and> slots_sorted (amask h) tbl) \<and>
     distinct (map naddr (avtab_nodes h)) \<and> (\<forall>n\<in>set (avtab_nodes h). naddr n < anext h)"

text \<open>Two rules of the same kind for the same key are extended-permission rules.\<close>

definition avtab_unique :: "avtab \<Rightarrow> bool" where
  "avtab_unique h \<longleftrightarrow>
     (\<forall>a\<in>set (avtab_nodes h). \<forall>b\<in>set (avtab_nodes h). naddr a \<noteq> naddr b \<longrightarrow>
        node_match (akey a) (spec_mask (specified (akey a))) b \<longrightarrow>
        specified (akey a) AND AVTAB_XPERMS \<noteq> 0 \<or> specified (akey b) AND AVTAB_XPERMS \<noteq> 0)"

subsection \<open>Keys and hashing\<close>

lemma key_same_refl [simp]: "key_same k k"
  by (simp add: key_same_def)

lemma key_same_sym: "key_same a b \<Longrightarrow> key_same b a"
  by (simp add: key_same_def)

lemma key_same_trans: "\<lbrakk>key_same a b; key_same b c\<rbrakk> \<Longrightarrow> key_same a c"
  by (simp add: key_same_def)

lemma key_less_same: "\<lbrakk>key_same a b; key_less a b\<rbrakk> \<Longrightarrow> False"
  by (auto simp: key_same_def key_less_def)

lemma key_less_cong: "key_same a b \<Longrightarrow> key_less a c = key_less b c" "key_same a b \<Longrightarrow> key_less c a = key_less c b"
  by (simp_all add: key_same_def key_less_def)

lemma key_less_trans: "\<lbrakk>key_less a b; key_less b c\<rbrakk> \<Longrightarrow> key_less a c"
  by (auto simp: key_less_def)

lemma key_less_asym: "key_less a b \<Longrightarrow> \<not> key_less b a"
  by (auto simp: key_less_def)

lemma key_less_linear: "\<not> key_less a b \<Longrightarrow> \<not> key_less b a \<Longrightarrow> key_same a b"
  by (auto simp: key_less_def key_same_def)

lemma key_less_le: "\<lbrakk>key_less a b; \<not> key_less c b\<rbrakk> \<Longrightarrow> key_less a c"
  by (metis key_less_cong(2) key_less_linear key_less_trans)

lemma avtab_hash_same: "key_same a b \<Longrightarrow> avtab_hash a m = avtab_hash b m"
  by (simp add: key_same_def avtab_hash_def)

lemma avtab_hash_bound:
  assumes "n \<noteq> 0" shows "unat (avtab_hash k (n - 1)) < unat n"
proof -
  have "avtab_hash k (n - 1) \<le> n - 1" by (simp add: avtab_hash_def Let_def word_and_le1)
  moreover have "n - 1 < n" using assms by (simp add: word_less_nat_alt unat_minus_one unat_gt_0)
  ultimately show ?thesis by (simp add: word_less_nat_alt word_le_nat_alt)
qed

lemma match_same: "key_same a b \<Longrightarrow> node_match a s n = node_match b s n"
  by (simp add: node_match_def key_same_def)

subsection \<open>The chain walk\<close>

lemma scan_cat: "avtab_scan k s ch = (b, f) \<Longrightarrow> ch = b @ f"
  by (induction ch arbitrary: b f) (auto split: if_splits prod.splits)

lemma scan_before: "avtab_scan k s ch = (b, f) \<Longrightarrow> n \<in> set b \<Longrightarrow> \<not> node_match k s n \<and> \<not> key_less k (akey n)"
  by (induction ch arbitrary: b f) (auto split: if_splits prod.splits)

lemma scan_from: "avtab_scan k s ch = (b, f) \<Longrightarrow> f \<noteq> [] \<Longrightarrow> node_match k s (hd f) \<or> key_less k (akey (hd f))"
  by (induction ch arbitrary: b f) (auto split: if_splits prod.splits)

lemma sorted_hd_le: "\<lbrakk>sorted_wrt key_le ch; n \<in> set ch\<rbrakk> \<Longrightarrow> key_le (hd ch) n"
  by (cases ch) (auto simp: key_le_def key_less_def)

lemma scan_miss:
  assumes ch: "sorted_wrt key_le ch" and s: "avtab_scan k s ch = (b, f)" and no: "\<not> scan_hit k s f"
  shows "\<forall>n\<in>set f. \<not> node_match k s n"
proof
  fix n assume n: "n \<in> set f"
  then have "f \<noteq> []" by auto
  with scan_from [OF s] no have less: "key_less k (akey (hd f))" by (auto simp: scan_hit_def)
  have "sorted_wrt key_le f" using ch scan_cat [OF s] by (simp add: sorted_wrt_append)
  then have "key_le (hd f) n" using n by (rule sorted_hd_le)
  then have "key_less k (akey n)" using key_less_le [OF less] by (simp add: key_le_def)
  then show "\<not> node_match k s n" using key_less_same by (auto simp: node_match_def)
qed

lemma scan_filter:
  assumes "avtab_scan k s ch = (b, f)"
  shows "filter (node_match k s) ch = filter (node_match k s) f"
  using scan_cat [OF assms] scan_before [OF assms] by (simp add: filter_False)

lemma visit_from_filter:
  assumes "sorted_wrt key_le (n # rest)"
  shows "avtab_visit_from (n # rest) s = n # filter (node_match (akey n) (spec_mask s)) rest"
  using assms
proof (induction "length rest" arbitrary: n rest rule: less_induct)
  case less
  obtain b f where bf: "avtab_scan (akey n) (spec_mask s) rest = (b, f)" by fastforce
  have srt: "sorted_wrt key_le rest" "sorted_wrt key_le f"
    using less.prems scan_cat [OF bf] by (simp_all add: sorted_wrt_append)
  show ?case
  proof (cases "scan_hit (akey n) (spec_mask s) f")
    case False
    then have "filter (node_match (akey n) (spec_mask s)) rest = []"
      using scan_filter [OF bf] scan_miss [OF srt(1) bf] by (simp add: filter_empty_conv)
    moreover have "avtab_search_node_next (n # rest) s = []"
      using False bf by (simp add: avtab_search_node_next_def Let_def)
    ultimately show ?thesis by (simp add: avtab_visit_from.simps)
  next
    case True
    then obtain m r where f: "f = m # r" and m: "node_match (akey n) (spec_mask s) m"
      by (cases f) (auto simp: scan_hit_def)
    have "length r < length rest" using scan_cat [OF bf] f by simp
    then have IH: "avtab_visit_from (m # r) s = m # filter (node_match (akey m) (spec_mask s)) r"
      using less.hyps srt(2) f by simp
    have "key_same (akey n) (akey m)" using m by (simp add: node_match_def)
    then have "filter (node_match (akey m) (spec_mask s)) r = filter (node_match (akey n) (spec_mask s)) r"
      using match_same by (metis (mono_tags, lifting) filter_cong)
    moreover have "avtab_search_node_next (n # rest) s = m # r"
      using True bf f by (simp add: avtab_search_node_next_def Let_def)
    ultimately show ?thesis
      using IH scan_filter [OF bf] f m by (simp add: avtab_visit_from.simps [of "n # rest"])
  qed
qed

lemma filter_concat_single:
  assumes "i < length xss" "\<And>j x. j < length xss \<Longrightarrow> j \<noteq> i \<Longrightarrow> x \<in> set (xss ! j) \<Longrightarrow> \<not> P x"
  shows "filter P (concat xss) = filter P (xss ! i)"
  using assms
proof (induction xss arbitrary: i)
  case (Cons xs xss)
  show ?case
  proof (cases i)
    case 0
    have "\<not> P x" if "x \<in> set (concat xss)" for x
    proof -
      obtain j where "j < length xss" "x \<in> set (xss ! j)"
        using \<open>x \<in> set (concat xss)\<close> unfolding set_concat_nth by blast
      then show ?thesis using Cons.prems(2) [of "Suc j" x] 0 by simp
    qed
    then show ?thesis using 0 by (simp add: filter_empty_conv)
  next
    case (Suc i')
    have "filter P xs = []" using Cons.prems(2) [of 0] Suc by (auto simp: filter_empty_conv)
    moreover have "filter P (concat xss) = filter P (xss ! i')"
    proof (rule Cons.IH)
      show "i' < length xss" using Cons.prems(1) Suc by simp
      show "\<not> P x" if "j < length xss" "j \<noteq> i'" "x \<in> set (xss ! j)" for j x
        using Cons.prems(2) [of "Suc j" x] that Suc by simp
    qed
    ultimately show ?thesis using Suc by simp
  qed
qed simp

subsection \<open>Searches\<close>

lemma avtab_okD:
  assumes "avtab_ok h" "ahtable h = Some tbl"
  shows "unat (avtab_hash k (amask h)) < length tbl" "slots_sorted (amask h) tbl" "length tbl = unat (nslot h)"
  using assms avtab_hash_bound [of "nslot h" k] by (auto simp: avtab_ok_def)

lemma slot_matches:
  assumes "avtab_ok h" "ahtable h = Some tbl"
  shows "filter (node_match k s) (avtab_nodes h) = filter (node_match k s) (tbl ! unat (avtab_hash k (amask h)))"
proof -
  have "filter (node_match k s) (concat tbl) = filter (node_match k s) (tbl ! unat (avtab_hash k (amask h)))"
  proof (rule filter_concat_single [OF avtab_okD(1) [OF assms]])
    fix j x assume j: "j < length tbl" "j \<noteq> unat (avtab_hash k (amask h))" "x \<in> set (tbl ! j)"
    then have "unat (avtab_hash (akey x) (amask h)) = j"
      using avtab_okD(2) [OF assms] by (simp add: slots_sorted_def)
    then show "\<not> node_match k s x"
      using j(2) avtab_hash_same [of k "akey x" "amask h"] by (auto simp: node_match_def)
  qed
  then show ?thesis using assms(2) by (simp add: avtab_nodes_def)
qed

lemma search_node_cases:
  assumes ok: "avtab_ok h"
  shows "case avtab_search_node h key of
      [] \<Rightarrow> filter (node_match key (spec_mask (specified key))) (avtab_nodes h) = []
    | n # rest \<Rightarrow> sorted_wrt key_le (n # rest) \<and> node_match key (spec_mask (specified key)) n \<and>
        filter (node_match key (spec_mask (specified key))) (avtab_nodes h)
          = n # filter (node_match key (spec_mask (specified key))) rest"
proof (cases "ahtable h")
  case None
  then show ?thesis by (simp add: avtab_search_node_def avtab_nodes_def)
next
  case (Some tbl)
  let ?s = "spec_mask (specified key)" and ?i = "unat (avtab_hash key (amask h))"
  obtain b f where bf: "avtab_scan key ?s (tbl ! ?i) = (b, f)" by fastforce
  have srt: "sorted_wrt key_le (tbl ! ?i)"
    using avtab_okD [OF ok Some] by (simp add: slots_sorted_def)
  note flt = slot_matches [OF ok Some, of key ?s] scan_filter [OF bf]
  show ?thesis
  proof (cases "scan_hit key ?s f")
    case False
    then show ?thesis
      using flt scan_miss [OF srt bf] Some bf
      by (simp add: avtab_search_node_def Let_def filter_empty_conv)
  next
    case True
    then obtain n rest where "f = n # rest" "node_match key ?s n" by (cases f) (auto simp: scan_hit_def)
    then show ?thesis
      using flt srt scan_cat [OF bf] True Some bf
      by (simp add: avtab_search_node_def Let_def sorted_wrt_append)
  qed
qed

lemma avtab_visit_spec:
  assumes "avtab_ok h"
  shows "avtab_visit h key = filter (node_match key (spec_mask (specified key))) (avtab_nodes h)"
proof (cases "avtab_search_node h key")
  case Nil
  then show ?thesis
    using search_node_cases [OF assms, of key] by (simp add: avtab_visit_def avtab_visit_from.simps)
next
  case (Cons n rest)
  note * = search_node_cases [OF assms, of key, unfolded Cons, simplified]
  have "key_same key (akey n)" using * by (simp add: node_match_def)
  then have "filter (node_match (akey n) (spec_mask (specified key))) rest
      = filter (node_match key (spec_mask (specified key))) rest"
    using match_same by (metis (mono_tags, lifting) filter_cong)
  then show ?thesis
    using * visit_from_filter [of n rest "specified key"] by (simp add: avtab_visit_def Cons)
qed

lemma avtab_search_spec:
  assumes "avtab_ok h"
  shows "avtab_search h key =
    (case filter (node_match key (spec_mask (specified key))) (avtab_nodes h) of
       [] \<Rightarrow> None | n # _ \<Rightarrow> Some (adatum n))"
proof -
  have "avtab_search h key = (case avtab_search_node h key of [] \<Rightarrow> None | n # _ \<Rightarrow> Some (adatum n))"
    by (auto simp: avtab_search_def avtab_search_node_def Let_def scan_hit_def split: option.splits list.splits)
  then show ?thesis
    using search_node_cases [OF assms, of key] by (auto split: list.splits)
qed

subsection \<open>Insertion\<close>

lemma scan_insert_sorted:
  assumes ch: "sorted_wrt key_le ch" and s: "avtab_scan k s ch = (b, f)" and n: "akey n = k"
  shows "sorted_wrt key_le (b @ n # f)"
proof -
  have cat: "sorted_wrt key_le (b @ f)" using ch scan_cat [OF s] by simp
  have "key_le m n" if "m \<in> set b" for m
    using scan_before [OF s that] n by (simp add: key_le_def)
  moreover have "key_le n m" if m: "m \<in> set f" for m
  proof -
    have f: "f \<noteq> []" using m by auto
    have hd: "key_le (hd f) m" using cat m sorted_hd_le by (simp add: sorted_wrt_append)
    consider "key_same k (akey (hd f))" | "key_less k (akey (hd f))"
      using scan_from [OF s f] by (auto simp: node_match_def)
    then show ?thesis
    proof cases
      case 1
      then show ?thesis using hd n key_less_cong(2) [of k "akey (hd f)" "akey m"] by (simp add: key_le_def)
    next
      case 2
      have "key_less k (akey m)" using key_less_le [OF 2] hd by (simp add: key_le_def)
      then show ?thesis using n key_less_asym by (simp add: key_le_def)
    qed
  qed
  ultimately show ?thesis using cat by (simp add: sorted_wrt_append)
qed

lemma mset_concat_update:
  "i < length xss \<Longrightarrow> mset (concat (xss[i := ys])) + mset (xss ! i) = mset (concat xss) + mset ys"
proof (induction xss arbitrary: i)
  case (Cons a xss)
  show ?case
  proof (cases i)
    case (Suc i')
    then show ?thesis using Cons.IH [of i'] Cons.prems by (simp add: ac_simps)
  qed simp
qed simp

lemma slots_sorted_update:
  assumes "slots_sorted m tbl" "sorted_wrt key_le ys" "\<forall>n\<in>set ys. unat (avtab_hash (akey n) m) = i"
  shows "slots_sorted m (tbl[i := ys])"
  unfolding slots_sorted_def
proof (intro allI impI)
  fix j assume "j < length (tbl[i := ys])"
  then show "sorted_wrt key_le (tbl[i := ys] ! j) \<and>
      (\<forall>n\<in>set (tbl[i := ys] ! j). unat (avtab_hash (akey n) m) = j)"
    using assms by (cases "i = j") (simp_all add: slots_sorted_def)
qed

text \<open>The node an insertion adds.\<close>

definition new_node :: "avtab \<Rightarrow> avtab_key \<Rightarrow> avtab_datum \<Rightarrow> avtab_node" where
  "new_node h key datum = \<lparr>akey = key, adatum = avtab_node_datum key datum, naddr = anext h\<rparr>"

lemma insert_node_spec:
  assumes ok: "avtab_ok h" and tbl: "ahtable h = Some tbl"
    and bf: "avtab_scan key s (tbl ! unat (avtab_hash key (amask h))) = (b, f)"
  shows "case avtab_insert_node hp h (unat (avtab_hash key (amask h))) b f key datum of
      (None, h', hp') \<Rightarrow> h' = h \<and> \<not> mem_ok hp
    | (Some a, h', hp') \<Rightarrow> avtab_ok h' \<and> a = anext h \<and> anext h' = Suc a \<and> anel h' = anel h + 1 \<and>
        mset (avtab_nodes h') = add_mset (new_node h key datum) (mset (avtab_nodes h))"
proof -
  let ?i = "unat (avtab_hash key (amask h))" and ?n = "new_node h key datum"
  let ?t = "tbl[?i := b @ ?n # f]"
  let ?h = "h\<lparr>ahtable := Some ?t, anel := anel h + 1, anext := Suc (anext h)\<rparr>"
  note i = avtab_okD(1) [OF ok tbl, of key] and srt = avtab_okD(2) [OF ok tbl]
  have ch: "tbl ! ?i = b @ f" by (rule scan_cat [OF bf])
  have ms: "mset (concat ?t) = add_mset ?n (mset (concat tbl))"
    using mset_concat_update [OF i, of "b @ ?n # f"] unfolding ch by simp
  have "sorted_wrt key_le (b @ ?n # f)"
    using srt i by (intro scan_insert_sorted [OF _ bf]) (simp_all add: slots_sorted_def new_node_def)
  moreover have "\<forall>n\<in>set (b @ ?n # f). unat (avtab_hash (akey n) (amask h)) = ?i"
    using srt i ch unfolding slots_sorted_def by (auto simp: new_node_def)
  ultimately have "slots_sorted (amask h) ?t"
    using srt by (intro slots_sorted_update)
  moreover have "distinct (map naddr (concat ?t)) \<and> (\<forall>n\<in>set (concat ?t). naddr n < Suc (anext h))"
  proof -
    have old: "distinct (map naddr (concat tbl))" "\<forall>n\<in>set (concat tbl). naddr n < anext h"
      using ok tbl by (simp_all add: avtab_ok_def avtab_nodes_def)
    have st: "set (concat ?t) = insert ?n (set (concat tbl))"
      using ms by (metis set_mset_add_mset_insert set_mset_mset)
    have "mset (map naddr (concat ?t)) = mset (map naddr (?n # concat tbl))"
      using ms by simp
    moreover have "distinct (map naddr (?n # concat tbl))"
      using old by (fastforce simp: new_node_def simp del: set_concat)
    ultimately show ?thesis
      unfolding st using old(2) mset_eq_imp_distinct_iff by (fastforce simp: new_node_def simp del: set_concat)
  qed
  ultimately have ok': "avtab_ok ?h"
    using ok tbl by (simp add: avtab_ok_def avtab_nodes_def)
  obtain ok1 hp1 where m1: "malloc hp = (ok1, hp1)" by fastforce
  obtain ok2 hp2 where m2: "(if specified key AND AVTAB_XPERMS \<noteq> 0 then malloc hp1 else (True, hp1)) = (ok2, hp2)"
    by fastforce
  show ?thesis
  proof (cases "ok1 \<and> ok2")
    case True
    then have "avtab_insert_node hp h ?i b f key datum = (Some (anext h), ?h, hp2)"
      using m1 m2 tbl by (simp add: avtab_insert_node_def new_node_def)
    then show ?thesis using ok' ms tbl by (simp add: avtab_nodes_def)
  next
    case False
    have "\<not> mem_ok hp"
    proof
      assume mem: "mem_ok hp"
      then have "ok1" "mem_ok hp1" using malloc_mem_ok [OF mem] m1 by auto
      moreover from this have "ok2" using malloc_mem_ok [of hp1] m2 by (auto split: if_splits)
      ultimately show False using False by simp
    qed
    moreover have "\<exists>hp'. avtab_insert_node hp h ?i b f key datum = (None, h, hp')"
      using m1 m2 False by (auto simp: avtab_insert_node_def Let_def split: prod.splits)
    ultimately show ?thesis by auto
  qed
qed

lemma avtab_insert_spec:
  assumes ok: "avtab_ok h" and some: "ahtable h \<noteq> None"
  shows "case avtab_insert hp h key datum of
      (Inl e, h', hp') \<Rightarrow> h' = h \<and>
        (e = EEXIST \<and> avtab_visit h key \<noteq> [] \<and> spec_mask (specified key) AND AVTAB_XPERMS = 0 \<or>
         e = ENOMEM \<and> \<not> mem_ok hp)
    | (Inr _, h', hp') \<Rightarrow> avtab_ok h' \<and> ahtable h' \<noteq> None \<and>
        (avtab_visit h key = [] \<or> spec_mask (specified key) AND AVTAB_XPERMS \<noteq> 0) \<and>
        anext h' = Suc (anext h) \<and> anel h' = anel h + 1 \<and>
        mset (avtab_nodes h') = add_mset (new_node h key datum) (mset (avtab_nodes h))"
proof -
  obtain tbl where tbl: "ahtable h = Some tbl" using some by auto
  let ?s = "spec_mask (specified key)" and ?i = "unat (avtab_hash key (amask h))"
  obtain b f where bf: "avtab_scan key ?s (tbl ! ?i) = (b, f)" by fastforce
  have hit: "scan_hit key ?s f \<longleftrightarrow> avtab_visit h key \<noteq> []"
  proof -
    have "sorted_wrt key_le (tbl ! ?i)" using avtab_okD [OF ok tbl] by (simp add: slots_sorted_def)
    then have "scan_hit key ?s f \<longleftrightarrow> filter (node_match key ?s) f \<noteq> []"
      using scan_miss [OF _ bf] by (cases f) (auto simp: scan_hit_def filter_empty_conv)
    then show ?thesis
      using avtab_visit_spec [OF ok] slot_matches [OF ok tbl, of key ?s] scan_filter [OF bf] by simp
  qed
  note ins = insert_node_spec [OF ok tbl bf, where hp = hp and datum = datum]
  obtain a h' hp' where r: "avtab_insert_node hp h ?i b f key datum = (a, h', hp')"
    by (cases "avtab_insert_node hp h ?i b f key datum")
  have some': "ahtable h' \<noteq> None"
    using r tbl by (auto simp: avtab_insert_node_def Let_def split: prod.splits if_splits)
  show ?thesis
    using ins r hit tbl bf some'
    by (cases a) (auto simp: avtab_insert_def Let_def)
qed

lemma avtab_insert_nonunique_spec:
  assumes ok: "avtab_ok h" and some: "ahtable h \<noteq> None"
  shows "case avtab_insert_nonunique hp h key datum of
      (None, h', hp') \<Rightarrow> h' = h \<and> \<not> mem_ok hp
    | (Some a, h', hp') \<Rightarrow> avtab_ok h' \<and> a = anext h \<and> anext h' = Suc a \<and> anel h' = anel h + 1 \<and>
        mset (avtab_nodes h') = add_mset (new_node h key datum) (mset (avtab_nodes h))"
proof -
  obtain tbl where tbl: "ahtable h = Some tbl" using some by auto
  obtain b f where bf: "avtab_scan key (spec_mask (specified key)) (tbl ! unat (avtab_hash key (amask h))) = (b, f)"
    by fastforce
  show ?thesis
    using insert_node_spec [OF ok tbl bf, where hp = hp and datum = datum] tbl bf
    by (simp add: avtab_insert_nonunique_def Let_def)
qed

text \<open>A search after an insertion: the rules found before, and the new one if it matches.\<close>

lemma visit_after:
  assumes "avtab_ok h" "avtab_ok h'" "mset (avtab_nodes h') = add_mset n (mset (avtab_nodes h))"
  shows "mset (avtab_visit h' k) =
    (if node_match k (spec_mask (specified k)) n then add_mset n (mset (avtab_visit h k)) else mset (avtab_visit h k))"
  using assms by (simp add: avtab_visit_spec mset_filter)

lemma match_spec_sym:
  assumes "node_match (akey a) (spec_mask (specified (akey a))) b"
  shows "node_match (akey b) (spec_mask (specified (akey b))) a"
  using assms by (auto simp: node_match_def key_same_def spec_mask_def ac_simps)

lemma insert_unique:
  assumes ok: "avtab_ok h" and uni: "avtab_unique h"
    and r: "avtab_insert hp h key datum = (Inr u, h', hp')"
  shows "avtab_unique h'"
proof -
  have some: "ahtable h \<noteq> None" using r by (cases "ahtable h") (simp_all add: avtab_insert_def)
  note sp = avtab_insert_spec [OF ok some, where hp = hp and key = key and datum = datum, unfolded r, simplified]
  let ?n = "new_node h key datum"
  have st: "set (avtab_nodes h') = insert ?n (set (avtab_nodes h))"
    using sp by (metis set_mset_add_mset_insert set_mset_mset)
  have new: "specified key AND AVTAB_XPERMS \<noteq> 0" if b: "b \<in> set (avtab_nodes h)"
      "node_match key (spec_mask (specified key)) b" for b
  proof -
    have "b \<in> set (avtab_visit h key)" using b avtab_visit_spec [OF ok] by simp
    then have "avtab_visit h key \<noteq> []" by auto
    then have "spec_mask (specified key) AND AVTAB_XPERMS \<noteq> 0" using sp by simp
    then show ?thesis by (auto simp: spec_mask_def avtab_consts ac_simps)
  qed
  have k: "akey ?n = key" by (simp add: new_node_def)
  have flip: "node_match (akey a) (spec_mask (specified (akey a))) ?n \<Longrightarrow>
      node_match key (spec_mask (specified key)) a" for a
    using match_spec_sym [of a ?n] k by simp
  show ?thesis
    unfolding avtab_unique_def st
    using uni new flip k by (auto simp: avtab_unique_def)
qed

subsection \<open>Allocation\<close>

lemma avtab_shift_bound: "unat w < 2 ^ k \<Longrightarrow> avtab_shift w n \<le> n + k"
proof (induction k arbitrary: w n)
  case 0
  then show ?case by (simp add: avtab_shift.simps unat_eq_0)
next
  case (Suc k)
  have "unat (drop_bit 1 w) < 2 ^ k"
    using Suc.prems by (simp add: drop_bit_eq_div unat_div)
  then show ?case
    using Suc.IH [of "drop_bit 1 w" "Suc n"] by (subst avtab_shift.simps) simp
qed

lemma avtab_nslot_ok: "avtab_nslot n \<noteq> 0 \<and> avtab_nslot n \<le> MAX_AVTAB_HASH_BUCKETS"
proof -
  have "avtab_shift n 0 \<le> 32" using avtab_shift_bound [of n 32 0] unat_u32_less [of n] by simp
  moreover have "(push_bit k 1 :: u32) \<noteq> 0" if "k \<le> 31" for k
  proof -
    have "(2 :: u32) ^ k \<noteq> 0" unfolding exp_eq_zero_iff using that by simp
    then show ?thesis by (simp add: push_bit_eq_mult)
  qed
  moreover have "MAX_AVTAB_HASH_BUCKETS \<noteq> 0" by (simp add: MAX_AVTAB_HASH_BUCKETS_def)
  ultimately show ?thesis by (auto simp: avtab_nslot_def Let_def)
qed

lemma avtab_alloc_spec:
  assumes "nrules \<noteq> 0"
  shows "case avtab_alloc hp h nrules of
      (Inl e, h', hp') \<Rightarrow> e = EFAIL \<and> ahtable h' = None \<and> \<not> mem_ok hp
    | (Inr _, h', hp') \<Rightarrow> avtab_ok h' \<and> ahtable h' \<noteq> None \<and> avtab_nodes h' = [] \<and> anel h' = 0 \<and>
        anext h' = anext h"
proof -
  obtain ok hp' where m: "malloc hp = (ok, hp')" by fastforce
  have "slots_sorted m (replicate n [])" for m n by (simp add: slots_sorted_def)
  moreover have "concat (replicate n []) = []" for n :: nat by simp
  ultimately show ?thesis
    using m assms avtab_nslot_ok [of nrules] malloc_fail_not_ok [of hp hp']
    by (auto simp: avtab_alloc_def avtab_ok_def avtab_nodes_def Let_def)
qed

text \<open>A walk whose callback never fails folds over all rules.\<close>

lemma avtab_map_all:
  assumes "\<And>k d s. fst (f k d s) = 0"
  shows "avtab_map h f s = (0, fold (\<lambda>n s. snd (f (akey n) (adatum n) s)) (avtab_nodes h) s)"
proof -
  have "avtab_map_nodes f ns s = (0, fold (\<lambda>n s. snd (f (akey n) (adatum n) s)) ns s)" for ns s
  proof (induction ns arbitrary: s)
    case (Cons n ns)
    obtain r s' where "f (akey n) (adatum n) s = (r, s')" by fastforce
    moreover from this have "r = 0" using assms [of "akey n" "adatum n" s] by simp
    ultimately show ?case using Cons by simp
  qed simp
  then show ?thesis by (simp add: avtab_map_def)
qed

end
