(* ===== verification/Avtab_IO.thy ===== *)
theory Avtab_IO
  imports Avtab_Laws
begin

section \<open>Access vector tables in the binary policy\<close>

text \<open>
  \<open>avtab_read_item\<close> and \<open>avtab_read\<close> (libsepol/src/avtab.c) for the format with several
  rules per entry that precedes policy version 20 and for the later one, and
  \<open>avtab_write_item\<close> and \<open>avtab_write\<close> (libsepol/src/write.c) for the later format. A reader
  gets the insertion function as an argument, as in the code; the state that function works
  on is threaded through.
\<close>

definition POLICYDB_VERSION_AVTAB :: u32 where "POLICYDB_VERSION_AVTAB = 20"
definition POLICYDB_VERSION_XPERMS_IOCTL :: u32 where "POLICYDB_VERSION_XPERMS_IOCTL = 30"

definition spec_order :: "u16 list" where
  "spec_order = [AVTAB_ALLOWED, AVTAB_AUDITDENY, AVTAB_AUDITALLOW, AVTAB_TRANSITION, AVTAB_CHANGE,
     AVTAB_MEMBER, AVTAB_XPERMS_ALLOWED, AVTAB_XPERMS_AUDITALLOW, AVTAB_XPERMS_DONTAUDIT]"

type_synonym 's insertf = "avtab_key \<Rightarrow> avtab_datum \<Rightarrow> 's \<Rightarrow> 's rd"

text \<open>The loop over \<open>spec_order\<close> in the old format: \<open>items\<close> is the index of the next word of
  the buffer, \<open>items2\<close> the number of its words.\<close>

fun avtab_old_specs :: "'s insertf \<Rightarrow> u32 list \<Rightarrow> nat \<Rightarrow> u32 \<Rightarrow> u16 \<Rightarrow> avtab_key \<Rightarrow> u16 list \<Rightarrow> nat \<Rightarrow> 's \<Rightarrow> (nat \<times> 's) rd" where
  "avtab_old_specs insertf buf32 items2 val enabled key [] items s = rret (items, s)"
| "avtab_old_specs insertf buf32 items2 val enabled key (spec # specs) items s =
     (if val AND ucast spec \<noteq> 0
      then (if items \<ge> items2 then rfail EFAIL
            else rbind (insertf (key\<lparr>specified := spec OR enabled\<rparr>)
                                \<lparr>data = buf32 ! items, xperms = None\<rparr> s)
                   (avtab_old_specs insertf buf32 items2 val enabled key specs (Suc items)))
      else avtab_old_specs insertf buf32 items2 val enabled key specs items s)"

definition avtab_read_item_old :: "'s insertf \<Rightarrow> 's \<Rightarrow> 's rd" where
  "avtab_read_item_old insertf s =
     rbind next_u32 (\<lambda>items2.
     if items2 < 5 \<or> items2 > 8 then rfail EFAIL
     else rbind (next_entry (4 * unat items2)) (\<lambda>b.
       let buf32 = le32s (unat items2) b;
           key = \<lparr>source_type = ucast (buf32 ! 0), target_type = ucast (buf32 ! 1),
                  target_class = ucast (buf32 ! 2), specified = 0\<rparr>;
           val = buf32 ! 3;
           enabled = (if val AND 0x80000000 \<noteq> 0 then AVTAB_ENABLED else 0)
       in
       if ucast (source_type key) \<noteq> buf32 ! 0 then rfail EFAIL
       else if ucast (target_type key) \<noteq> buf32 ! 1 then rfail EFAIL
       else if ucast (target_class key) \<noteq> buf32 ! 2 then rfail EFAIL
       else if val AND (ucast AVTAB_AV OR ucast AVTAB_TYPE) = 0 then rfail EFAIL
       else if val AND ucast AVTAB_AV \<noteq> 0 \<and> val AND ucast AVTAB_TYPE \<noteq> 0 then rfail EFAIL
       else rbind (avtab_old_specs insertf buf32 (unat items2) val enabled key spec_order 4 s) (\<lambda>(items, s').
         if items \<noteq> unat items2 then rfail EFAIL else rret s')))"

definition spec_count :: "u16 \<Rightarrow> nat" where
  "spec_count sp = length (filter (\<lambda>o1. sp AND o1 \<noteq> 0) spec_order)"

definition avtab_read_xperms :: "avtab_datum rd" where
  "avtab_read_xperms =
     rbind (next_entry 1) (\<lambda>b1.
     rbind (next_entry 1) (\<lambda>b2.
     rbind (next_entry 32) (\<lambda>b.
     rret \<lparr>data = 0, xperms = Some \<lparr>xspecified = hd b1, driver = hd b2, perms = le32s 8 b\<rparr>\<rparr>)))"

text \<open>The part after the key.\<close>

definition avtab_read_item_body :: "u32 \<Rightarrow> 's insertf \<Rightarrow> 's \<Rightarrow> avtab_key \<Rightarrow> 's rd" where
  "avtab_read_item_body vers insertf s key =
     (if spec_count (specified key) = 0 \<or> spec_count (specified key) > 1 then rfail EFAIL
      else if vers < POLICYDB_VERSION_XPERMS_IOCTL \<and> specified key AND AVTAB_XPERMS \<noteq> 0 then rfail EFAIL
      else rbind (if specified key AND AVTAB_XPERMS \<noteq> 0 then avtab_read_xperms
                  else rbind next_u32 (\<lambda>d. rret \<lparr>data = d, xperms = None\<rparr>)) (\<lambda>datum.
        insertf key datum s))"

definition avtab_read_item_new :: "u32 \<Rightarrow> 's insertf \<Rightarrow> 's \<Rightarrow> 's rd" where
  "avtab_read_item_new vers insertf s =
     rbind (next_entry 8) (\<lambda>b.
     avtab_read_item_body vers insertf s
       \<lparr>source_type = le16 (take 2 b), target_type = le16 (take 2 (drop 2 b)),
        target_class = le16 (take 2 (drop 4 b)), specified = le16 (take 2 (drop 6 b))\<rparr>)"

definition avtab_read_item :: "u32 \<Rightarrow> 's insertf \<Rightarrow> 's \<Rightarrow> 's rd" where
  "avtab_read_item vers insertf s =
     (if vers < POLICYDB_VERSION_AVTAB then avtab_read_item_old insertf s
      else avtab_read_item_new vers insertf s)"

definition avtab_insertf :: "avtab insertf" where
  "avtab_insertf k d a s =
     (case avtab_insert (fst s) a k d of
        (Inl e, _, hp) \<Rightarrow> (Inl e, hp, snd s)
      | (Inr _, a', hp) \<Rightarrow> (Inr a', hp, snd s))"

fun avtab_read_items :: "u32 \<Rightarrow> nat \<Rightarrow> avtab \<Rightarrow> avtab rd" where
  "avtab_read_items vers 0 a = rret a"
| "avtab_read_items vers (Suc n) a =
     rbind (avtab_read_item vers avtab_insertf a) (avtab_read_items vers n)"

definition ralloc :: "avtab \<Rightarrow> u32 \<Rightarrow> avtab rd" where
  "ralloc a nel s =
     (case avtab_alloc (fst s) a nel of
        (Inl e, _, hp) \<Rightarrow> (Inl e, hp, snd s)
      | (Inr _, a', hp) \<Rightarrow> (Inr a', hp, snd s))"

text \<open>Every failure destroys the table and returns \<open>-1\<close>; the callers then give the policy up.\<close>

definition avtab_read :: "avtab \<Rightarrow> u32 \<Rightarrow> avtab rd" where
  "avtab_read a vers =
     rerr EFAIL
       (rbind next_u32 (\<lambda>nel.
        if nel = 0 then rfail EFAIL
        else rbind (ralloc a nel) (avtab_read_items vers (unat nel))))"

subsection \<open>Writing\<close>

definition xperms_of :: "avtab_datum \<Rightarrow> avtab_extended_perms" where
  \<comment> \<open>\<open>cur->datum.xperms\<close>, which is not null for a rule with extended permissions\<close>
  "xperms_of d = (case xperms d of Some x \<Rightarrow> x | None \<Rightarrow> \<lparr>xspecified = 0, driver = 0, perms = replicate 8 0\<rparr>)"

definition avtab_write_item :: "u32 \<Rightarrow> bool \<Rightarrow> avtab_node \<Rightarrow> wr" where
  "avtab_write_item policyvers target_selinux cur =
     (let k = akey cur; x = xperms_of (adatum cur); isx = (specified k AND AVTAB_XPERMS \<noteq> 0) in
      wseq (put_all [put16 (source_type k), put16 (target_type k), put16 (target_class k), put16 (specified k)] 2)
        (if policyvers < POLICYDB_VERSION_XPERMS_IOCTL \<and> isx then (\<lambda>fp. (False, fp))
         else if \<not> target_selinux \<and> isx then (\<lambda>fp. (False, fp))
         else if isx
         then wseq (put_all [[xspecified x]] 1)
                (wseq (put_all [[driver x]] 1) (put_all (map put32 (perms x)) 4))
         else put_all [put32 (data (adatum cur))] 4))"

definition avtab_write :: "u32 \<Rightarrow> bool \<Rightarrow> avtab \<Rightarrow> wr" where
  "avtab_write policyvers target_selinux a =
     wseq (put_all [put32 (anel a)] 4) (wlist (avtab_write_item policyvers target_selinux) (avtab_nodes a))"

subsection \<open>Every table that is read is well-formed\<close>

definition avtab_wf :: "avtab \<Rightarrow> bool" where
  "avtab_wf a \<longleftrightarrow> avtab_ok a \<and> avtab_unique a \<and> ahtable a \<noteq> None"

lemma insertf_wf:
  assumes "avtab_insertf k d a s = (Inr a', s')" "avtab_wf a"
  shows "avtab_wf a'" "anel a' = anel a + 1" "mset (avtab_nodes a') = add_mset (new_node a k d) (mset (avtab_nodes a))"
proof -
  obtain hp where r: "avtab_insert (fst s) a k d = (Inr (), a', hp)"
    using assms(1) by (auto simp: avtab_insertf_def split: prod.splits sum.splits)
  note * = avtab_insert_spec [of a, where hp = "fst s" and key = k and datum = d, unfolded r, simplified]
  show "avtab_wf a'" "anel a' = anel a + 1"
      "mset (avtab_nodes a') = add_mset (new_node a k d) (mset (avtab_nodes a))"
    using * insert_unique [OF _ _ r] assms(2) by (simp_all add: avtab_wf_def)
qed

text \<open>What every insertion keeps, reading an item keeps, whatever the insertion function is.\<close>

lemma old_specs_keeps:
  assumes keep: "\<And>k d a s a' s'. \<lbrakk>insertf k d a s = (Inr a', s'); I a\<rbrakk> \<Longrightarrow> I a'"
  shows "\<lbrakk>avtab_old_specs insertf buf n val en key specs items a s = (Inr (items', a'), s'); I a\<rbrakk> \<Longrightarrow> I a'"
proof (induction specs arbitrary: items a s)
  case Nil
  then show ?case by (simp add: rret_def)
next
  case (Cons sp specs)
  show ?case
  proof (cases "val AND ucast sp \<noteq> 0 \<and> items < n")
    case True
    then obtain a1 s1 where "insertf (key\<lparr>specified := sp OR en\<rparr>) \<lparr>data = buf ! items, xperms = None\<rparr> a s = (Inr a1, s1)"
        "avtab_old_specs insertf buf n val en key specs (Suc items) a1 s1 = (Inr (items', a'), s')"
      using Cons.prems(1) by (auto simp: rbind_Inr)
    then show ?thesis using Cons.IH keep Cons.prems(2) by blast
  next
    case False
    then show ?thesis using Cons.prems Cons.IH by (auto simp: rfail_def split: if_splits)
  qed
qed

lemma read_item_keeps:
  assumes keep: "\<And>k d a s a' s'. \<lbrakk>insertf k d a s = (Inr a', s'); I a\<rbrakk> \<Longrightarrow> I a'"
    and r: "avtab_read_item vers insertf a s = (Inr a', s')" and I: "I a"
  shows "I a'"
proof (cases "vers < POLICYDB_VERSION_AVTAB")
  case True
  then have "avtab_read_item_old insertf a s = (Inr a', s')"
    using r by (simp add: avtab_read_item_def)
  then show ?thesis
    using old_specs_keeps [where I = I and insertf = insertf, OF keep] I
    by (auto simp: avtab_read_item_old_def Let_def rd_Inr case_prod_beta split: if_splits)
next
  case False
  then have "avtab_read_item_new vers insertf a s = (Inr a', s')"
    using r by (simp add: avtab_read_item_def)
  then obtain k d s1 where "insertf k d a s1 = (Inr a', s')"
    by (auto simp: avtab_read_item_new_def avtab_read_item_body_def rd_Inr)
  then show ?thesis using keep I by blast
qed

lemma read_item_wf: "\<lbrakk>avtab_read_item vers avtab_insertf a s = (Inr a', s'); avtab_wf a\<rbrakk> \<Longrightarrow> avtab_wf a'"
  by (rule read_item_keeps [where insertf = avtab_insertf and I = avtab_wf]) (use insertf_wf(1) in blast)+

lemma read_items_wf: "\<lbrakk>avtab_read_items vers n a s = (Inr a', s'); avtab_wf a\<rbrakk> \<Longrightarrow> avtab_wf a'"
  by (induction n arbitrary: a s) (auto simp: rd_Inr dest: read_item_wf)

lemma ralloc_wf: "\<lbrakk>ralloc a nel s = (Inr a', s'); nel \<noteq> 0\<rbrakk> \<Longrightarrow> avtab_wf a' \<and> avtab_nodes a' = [] \<and> anel a' = 0"
  using avtab_alloc_spec [of nel "fst s" a]
  by (auto simp: ralloc_def avtab_wf_def avtab_unique_def split: prod.splits sum.splits)

lemma avtab_read_wf:
  assumes "avtab_read a vers s = (Inr a', s')"
  shows "avtab_wf a'"
proof -
  obtain nel s1 a1 s2 where "nel \<noteq> 0" "ralloc a nel s1 = (Inr a1, s2)" "avtab_read_items vers (unat nel) a1 s2 = (Inr a', s')"
    using assms by (auto simp: avtab_read_def rd_Inr)
  then show ?thesis using ralloc_wf read_items_wf by blast
qed

subsection \<open>Round trip\<close>

text \<open>The rules the later format can hold: one kind of rule each, and for a rule with extended
  permissions, whose permissions are written and not its data word, a version and platform
  that has them.\<close>

definition rule_ok :: "u32 \<Rightarrow> bool \<Rightarrow> avtab_node \<Rightarrow> bool" where
  "rule_ok vers target_selinux n \<longleftrightarrow> spec_mask (specified (akey n)) \<in> set spec_order \<and>
     (if specified (akey n) AND AVTAB_XPERMS \<noteq> 0
      then POLICYDB_VERSION_XPERMS_IOCTL \<le> vers \<and> target_selinux \<and> data (adatum n) = 0 \<and>
        (\<exists>x. xperms (adatum n) = Some x \<and> length (perms x) = 8)
      else xperms (adatum n) = None)"

lemma spec_count_one:
  assumes "spec_mask sp \<in> set spec_order" shows "spec_count sp = 1"
proof -
  have "\<forall>o1\<in>set spec_order. NOT AVTAB_ENABLED AND o1 = o1"
    by (simp add: spec_order_def avtab_consts)
  then have "\<forall>o1\<in>set spec_order. sp AND o1 = spec_mask sp AND o1"
    unfolding spec_mask_def and.assoc by metis
  then have "spec_count sp = spec_count (spec_mask sp)"
    unfolding spec_count_def by (metis (mono_tags, lifting) filter_cong)
  also have "\<dots> = 1"
    using assms by (auto simp: spec_order_def spec_count_def avtab_consts)
  finally show ?thesis .
qed

definition item_enc :: "avtab_node \<Rightarrow> u8 list" where
  "item_enc n =
     put16 (source_type (akey n)) @ put16 (target_type (akey n)) @ put16 (target_class (akey n)) @
     put16 (specified (akey n)) @
     (if specified (akey n) AND AVTAB_XPERMS \<noteq> 0
      then [xspecified (xperms_of (adatum n))] @ [driver (xperms_of (adatum n))] @
           concat (map put32 (perms (xperms_of (adatum n))))
      else put32 (data (adatum n)))"

lemma writes_item:
  assumes "rule_ok vers tgt n" shows "writes (avtab_write_item vers tgt n) (item_enc n)"
proof -
  let ?x = "xperms_of (adatum n)"
  have h: "writes (put_all [put16 a, put16 b, put16 c, put16 d] 2) (put16 a @ put16 b @ put16 c @ put16 d)" for a b c d
    using writes_put_all [of "[put16 a, put16 b, put16 c, put16 d]" 2] by simp
  have one: "writes (put_all [[b]] 1) [b]" for b using writes_put_all [of "[[b]]" 1] by simp
  have d: "writes (put_all [put32 w] 4) (put32 w)" for w using writes_put_all [of "[put32 w]" 4] by simp
  have ps: "writes (put_all (map put32 ws) 4) (concat (map put32 ws))" for ws by (rule writes_put_all) simp
  note x = writes_wseq [OF one [of "xspecified ?x"] writes_wseq [OF one [of "driver ?x"] ps [of "perms ?x"]]]
  show ?thesis
    using writes_wseq [OF h x] writes_wseq [OF h d] assms
    by (auto simp: avtab_write_item_def item_enc_def rule_ok_def Let_def)
qed

lemma concat_put32_length [simp]: "length (concat (map put32 ws)) = 4 * length ws"
  by (induction ws) auto

lemma reads_xperms:
  assumes "length (perms x) = 8"
  shows "reads avtab_read_xperms ([xspecified x] @ [driver x] @ concat (map put32 (perms x)))
           \<lparr>data = 0, xperms = Some x\<rparr>"
proof -
  have "le32s 8 (concat (map put32 (perms x))) = perms x" using le32s_put32 [of "perms x"] assms by simp
  then have "\<lparr>data = 0, xperms = Some \<lparr>xspecified = hd [xspecified x], driver = hd [driver x],
      perms = le32s 8 (concat (map put32 (perms x)))\<rparr>\<rparr> = \<lparr>data = 0, xperms = Some x\<rparr>" by simp
  then show ?thesis
    unfolding avtab_read_xperms_def
    by (intro reads_entry reads_entry_last) (use assms reads_rret [of "\<lparr>data = 0, xperms = Some x\<rparr>"] in simp_all)
qed

lemma key_eta [simp]: "\<lparr>source_type = source_type k, target_type = target_type k,
    target_class = target_class k, specified = specified k\<rparr> = (k :: avtab_key)"
  by simp

lemma reads_item:
  assumes ok: "rule_ok vers tgt n" and vers: "POLICYDB_VERSION_AVTAB \<le> vers"
    and ins: "reads (insertf (akey n) (adatum n) s) [] s'"
  shows "reads (avtab_read_item vers insertf s) (item_enc n) s'"
proof -
  let ?k = "akey n"
  let ?hd = "put16 (source_type ?k) @ put16 (target_type ?k) @ put16 (target_class ?k) @ put16 (specified ?k)"
  let ?body = "if specified ?k AND AVTAB_XPERMS \<noteq> 0
      then [xspecified (xperms_of (adatum n))] @ [driver (xperms_of (adatum n))] @
           concat (map put32 (perms (xperms_of (adatum n)))) else put32 (data (adatum n))"
  have datum: "reads (if specified ?k AND AVTAB_XPERMS \<noteq> 0 then avtab_read_xperms
      else rbind next_u32 (\<lambda>d. rret \<lparr>data = d, xperms = None\<rparr>)) ?body (adatum n)"
  proof (cases "specified ?k AND AVTAB_XPERMS \<noteq> 0")
    case True
    then obtain x where x: "xperms (adatum n) = Some x" "length (perms x) = 8" "data (adatum n) = 0"
      using ok by (auto simp: rule_ok_def)
    then have "adatum n = \<lparr>data = 0, xperms = Some x\<rparr>" by simp
    then show ?thesis using True reads_xperms [OF x(2)] by (simp add: xperms_of_def)
  next
    case False
    then have "adatum n = \<lparr>data = data (adatum n), xperms = None\<rparr>" using ok by (simp add: rule_ok_def)
    then show ?thesis
      using False reads_rbind [OF reads_next_u32 [of "data (adatum n)"], of "\<lambda>d. rret \<lparr>data = d, xperms = None\<rparr>" "[]" "adatum n"]
        reads_rret [of "adatum n"] by simp
  qed
  have "reads (rbind (if specified ?k AND AVTAB_XPERMS \<noteq> 0 then avtab_read_xperms
      else rbind next_u32 (\<lambda>d. rret \<lparr>data = d, xperms = None\<rparr>)) (\<lambda>datum. insertf ?k datum s)) (?body @ []) s'"
    by (rule reads_rbind [OF datum]) (rule ins)
  moreover have "\<not> (vers < POLICYDB_VERSION_XPERMS_IOCTL \<and> specified ?k AND AVTAB_XPERMS \<noteq> 0)"
    using ok by (auto simp: rule_ok_def split: if_splits)
  ultimately have "reads (avtab_read_item_body vers insertf s ?k) ?body s'"
    unfolding avtab_read_item_body_def
    by (intro reads_check) (use ok spec_count_one [of "specified ?k"] in \<open>simp_all add: rule_ok_def\<close>)
  then have "reads (avtab_read_item_new vers insertf s) (?hd @ ?body) s'"
    unfolding avtab_read_item_new_def by (intro reads_entry) simp_all
  moreover have "\<not> vers < POLICYDB_VERSION_AVTAB" using vers by simp
  ultimately show ?thesis unfolding avtab_read_item_def item_enc_def by simp
qed

text \<open>While memory lasts, the table an insertion leaves does not depend on the heap.\<close>

lemma insert_mem_ok:
  assumes "mem_ok hp"
  shows "\<exists>hp'. mem_ok hp' \<and> avtab_insert hp a k d = (fst (avtab_insert [] a k d), fst (snd (avtab_insert [] a k d)), hp')"
proof -
  obtain hp1 where m1: "malloc hp = (True, hp1)" "mem_ok hp1" using malloc_mem_ok [OF assms] by blast
  obtain hp2 where m2: "malloc hp1 = (True, hp2)" "mem_ok hp2" using malloc_mem_ok [OF m1(2)] by blast
  show ?thesis
  proof (cases "ahtable a")
    case None
    then show ?thesis using assms by (auto simp: avtab_insert_def)
  next
    case (Some tbl)
    obtain b f where "avtab_scan k (spec_mask (specified k)) (tbl ! unat (avtab_hash k (amask a))) = (b, f)"
      by fastforce
    with Some m1 m2 assms show ?thesis
      by (auto simp: avtab_insert_def avtab_insert_node_def Let_def)
  qed
qed

lemma alloc_mem_ok:
  assumes "mem_ok hp" "n \<noteq> 0"
  shows "\<exists>hp'. mem_ok hp' \<and> avtab_alloc hp a n = (Inr (), fst (snd (avtab_alloc [] a n)), hp')"
  using malloc_mem_ok [OF assms(1)] assms(2) by (auto simp: avtab_alloc_def Let_def)

text \<open>Rules that may be inserted one after the other without a clash.\<close>

definition no_clash :: "avtab_node \<Rightarrow> avtab_node \<Rightarrow> bool" where
  "no_clash a b \<longleftrightarrow> (node_match (akey a) (spec_mask (specified (akey a))) b \<longrightarrow>
     specified (akey a) AND AVTAB_XPERMS \<noteq> 0)"

definition rule_of :: "avtab_node \<Rightarrow> avtab_key \<times> avtab_datum" where
  "rule_of n = (akey n, adatum n)"

lemma spec_mask_xperms: "spec_mask s AND AVTAB_XPERMS = s AND AVTAB_XPERMS"
proof -
  have "NOT AVTAB_ENABLED AND AVTAB_XPERMS = AVTAB_XPERMS" by (simp add: avtab_consts)
  then show ?thesis by (simp add: spec_mask_def and.assoc)
qed

lemma node_datum_ok: "rule_ok vers tgt n \<Longrightarrow> avtab_node_datum (akey n) (adatum n) = adatum n"
  by (auto simp: rule_ok_def avtab_node_datum_def)

lemma insert_no_clash:
  assumes wf: "avtab_wf a" and ok: "rule_ok vers tgt n" and free: "\<forall>m\<in>set (avtab_nodes a). no_clash n m"
  shows "\<exists>a'. reads (avtab_insertf (akey n) (adatum n) a) [] a' \<and> avtab_wf a' \<and> anel a' = anel a + 1 \<and>
    mset (map rule_of (avtab_nodes a')) = add_mset (rule_of n) (mset (map rule_of (avtab_nodes a)))"
proof -
  let ?i = "avtab_insert [] a (akey n) (adatum n)" and ?a = "fst (snd (avtab_insert [] a (akey n) (adatum n)))"
  have "avtab_visit a (akey n) = [] \<or> specified (akey n) AND AVTAB_XPERMS \<noteq> 0"
    using free wf by (auto simp: avtab_visit_spec avtab_wf_def filter_empty_conv no_clash_def)
  then have r: "?i = (Inr (), ?a, snd (snd ?i))"
    using avtab_insert_spec [of a, where hp = "[]" and key = "akey n" and datum = "adatum n"] wf
    by (auto simp: avtab_wf_def spec_mask_xperms split: prod.splits sum.splits)
  have rd: "reads (avtab_insertf (akey n) (adatum n) a) [] ?a"
    unfolding reads_def
  proof (intro allI impI)
    fix h :: heap and fp :: policy_file and rest
    assume h: "mem_ok h" "pf_data fp = [] @ rest"
    obtain hp' where "mem_ok hp'" "avtab_insert h a (akey n) (adatum n) = (Inr (), ?a, hp')"
      using insert_mem_ok [OF h(1), of a "akey n" "adatum n"] fst_conv r by metis
    then show "\<exists>h'. mem_ok h' \<and> avtab_insertf (akey n) (adatum n) a (h, fp) = (Inr ?a, h', fp\<lparr>pf_data := rest\<rparr>)"
      using h(2) by (auto simp: avtab_insertf_def)
  qed
  have "avtab_insertf (akey n) (adatum n) a ([], undefined) = (Inr ?a, snd (snd ?i), undefined)"
    unfolding avtab_insertf_def fst_conv snd_conv by (subst r) (simp add: case_prod_beta)
  note wf' = insertf_wf [OF this wf]
  have "rule_of (new_node a (akey n) (adatum n)) = rule_of n"
    using node_datum_ok [OF ok] by (simp add: rule_of_def new_node_def)
  then have "mset (map rule_of (avtab_nodes ?a)) = add_mset (rule_of n) (mset (map rule_of (avtab_nodes a)))"
    using wf'(3) by simp
  with rd wf' show ?thesis by blast
qed

lemma clash_rule:
  assumes "rule_of m' = rule_of m" "no_clash n m" shows "no_clash n m'"
  using assms by (simp add: rule_of_def no_clash_def node_match_def)

lemma reads_items:
  assumes "avtab_wf a" "\<forall>n\<in>set ns. rule_ok vers tgt n" "POLICYDB_VERSION_AVTAB \<le> vers"
    and "sorted_wrt (\<lambda>m n. no_clash n m) ns" "\<forall>n\<in>set ns. \<forall>m\<in>set (avtab_nodes a). no_clash n m"
  shows "\<exists>a'. reads (avtab_read_items vers (length ns) a) (concat (map item_enc ns)) a' \<and> avtab_wf a' \<and>
    anel a' = anel a + word_of_nat (length ns) \<and>
    mset (map rule_of (avtab_nodes a')) = mset (map rule_of (avtab_nodes a)) + mset (map rule_of ns)"
  using assms
proof (induction ns arbitrary: a)
  case Nil
  then show ?case using reads_rret [of a] by auto
next
  case (Cons n ns)
  obtain a1 where a1: "reads (avtab_insertf (akey n) (adatum n) a) [] a1" "avtab_wf a1" "anel a1 = anel a + 1"
    "mset (map rule_of (avtab_nodes a1)) = add_mset (rule_of n) (mset (map rule_of (avtab_nodes a)))"
    using insert_no_clash [OF Cons.prems(1)] Cons.prems(2,5) by (metis list.set_intros(1))
  have "rule_of ` set (avtab_nodes a1) = insert (rule_of n) (rule_of ` set (avtab_nodes a))"
    using a1(4) by (metis list.set_map set_mset_add_mset_insert set_mset_mset)
  then have "\<forall>k\<in>set ns. \<forall>m\<in>set (avtab_nodes a1). no_clash k m"
    using Cons.prems(4,5) clash_rule by (metis (no_types, lifting) imageE image_eqI insert_iff list.set_intros(2) sorted_wrt.simps(2))
  then obtain a2 where a2: "reads (avtab_read_items vers (length ns) a1) (concat (map item_enc ns)) a2" "avtab_wf a2"
    "anel a2 = anel a1 + word_of_nat (length ns)"
    "mset (map rule_of (avtab_nodes a2)) = mset (map rule_of (avtab_nodes a1)) + mset (map rule_of ns)"
    using Cons.IH [OF a1(2)] Cons.prems(2,3,4) by auto
  have "reads (avtab_read_items vers (length (n # ns)) a) (concat (map item_enc (n # ns))) a2"
    using reads_rbind [OF reads_item [of vers tgt n avtab_insertf a a1], where f = "avtab_read_items vers (length ns)",
        OF _ _ _ a2(1)] Cons.prems(2,3) a1(1) by simp
  then show ?case using a1 a2 by (auto simp: algebra_simps)
qed

text \<open>The rules of a table, in the order they are written, do not clash.\<close>

lemma kinds_overlap: "\<lbrakk>s \<in> set spec_order; t \<in> set spec_order; s AND t \<noteq> 0\<rbrakk> \<Longrightarrow> s = t"
  by (auto simp: spec_order_def avtab_consts)

lemma distinct_map_sorted: "distinct (map f xs) \<Longrightarrow> sorted_wrt (\<lambda>a b. f a \<noteq> f b) xs"
  by (induction xs) auto

lemma table_no_clash:
  assumes "avtab_ok a" "avtab_unique a"
    and single: "\<forall>n\<in>set (avtab_nodes a). spec_mask (specified (akey n)) \<in> set spec_order"
  shows "sorted_wrt (\<lambda>m n. no_clash n m) (avtab_nodes a)"
proof -
  have "no_clash n m" if mn: "m \<in> set (avtab_nodes a)" "n \<in> set (avtab_nodes a)" "naddr m \<noteq> naddr n" for m n
    unfolding no_clash_def
  proof
    assume match: "node_match (akey n) (spec_mask (specified (akey n))) m"
    then consider "specified (akey n) AND AVTAB_XPERMS \<noteq> 0" | "specified (akey m) AND AVTAB_XPERMS \<noteq> 0"
      using assms(2) mn unfolding avtab_unique_def by metis
    then show "specified (akey n) AND AVTAB_XPERMS \<noteq> 0"
    proof cases
      case 2
      have "spec_mask (specified (akey n)) AND spec_mask (specified (akey m)) \<noteq> 0"
        using match by (simp add: node_match_def spec_mask_def ac_simps)
      then have "spec_mask (specified (akey n)) = spec_mask (specified (akey m))"
        using kinds_overlap single mn(1,2) by blast
      then show ?thesis using 2 spec_mask_xperms by metis
    qed
  qed
  moreover have "sorted_wrt (\<lambda>m n. naddr m \<noteq> naddr n) (avtab_nodes a)"
    using assms(1) by (simp add: avtab_ok_def distinct_map_sorted)
  ultimately show ?thesis by (auto intro: sorted_wrt_mono_rel [rotated])
qed

definition avtab_enc :: "avtab \<Rightarrow> u8 list" where
  "avtab_enc a = put32 (anel a) @ concat (map item_enc (avtab_nodes a))"

definition avtab_writable :: "u32 \<Rightarrow> bool \<Rightarrow> avtab \<Rightarrow> bool" where
  "avtab_writable vers tgt a \<longleftrightarrow> avtab_ok a \<and> avtab_unique a \<and> avtab_nodes a \<noteq> [] \<and>
     unat (anel a) = length (avtab_nodes a) \<and> (\<forall>n\<in>set (avtab_nodes a). rule_ok vers tgt n)"

lemma writes_avtab: "avtab_writable vers tgt a \<Longrightarrow> writes (avtab_write vers tgt a) (avtab_enc a)"
  unfolding avtab_write_def avtab_enc_def avtab_writable_def
  by (rule writes_wseq [OF _ writes_wlist])
    (use writes_put_all [of "[put32 (anel a)]" 4] writes_item in auto)

lemma reads_ralloc:
  assumes "n \<noteq> 0" shows "reads (ralloc a n) [] (fst (snd (avtab_alloc [] a n)))"
  unfolding reads_def
proof (intro allI impI)
  fix h :: heap and fp :: policy_file and rest
  assume h: "mem_ok h" "pf_data fp = [] @ rest"
  then show "\<exists>h'. mem_ok h' \<and> ralloc a n (h, fp) = (Inr (fst (snd (avtab_alloc [] a n))), h', fp\<lparr>pf_data := rest\<rparr>)"
    using alloc_mem_ok [OF h(1) assms, of a] by (auto simp: ralloc_def)
qed

lemma reads_avtab:
  assumes w: "avtab_writable vers tgt a" and vers: "POLICYDB_VERSION_AVTAB \<le> vers"
  shows "\<exists>a'. reads (avtab_read a0 vers) (avtab_enc a) a' \<and> avtab_wf a' \<and> anel a' = anel a \<and>
    mset (map rule_of (avtab_nodes a')) = mset (map rule_of (avtab_nodes a))"
proof -
  let ?ns = "avtab_nodes a" and ?n = "anel a"
  have n2: "unat ?n = length ?ns" "length ?ns \<noteq> 0" using w by (auto simp: avtab_writable_def)
  then have n: "?n \<noteq> 0" "unat ?n = length ?ns" "word_of_nat (length ?ns) = ?n"
    by (auto simp flip: n2(1))
  let ?a1 = "fst (snd (avtab_alloc [] a0 ?n))"
  have a1: "avtab_wf ?a1" "avtab_nodes ?a1 = []" "anel ?a1 = 0"
    using avtab_alloc_spec [OF n(1), of "[]" a0]
    by (auto simp: avtab_wf_def avtab_unique_def split: prod.splits sum.splits)
  have "sorted_wrt (\<lambda>m n. no_clash n m) ?ns"
    using w by (intro table_no_clash) (auto simp: avtab_writable_def rule_ok_def)
  then obtain a' where a': "reads (avtab_read_items vers (length ?ns) ?a1) (concat (map item_enc ?ns)) a'"
      "avtab_wf a'" "anel a' = ?n" "mset (map rule_of (avtab_nodes a')) = mset (map rule_of ?ns)"
    using reads_items [OF a1(1) _ vers, of ?ns tgt] w a1(2,3) n(3) by (auto simp: avtab_writable_def)
  have "reads (rbind (ralloc a0 ?n) (avtab_read_items vers (unat ?n))) ([] @ concat (map item_enc ?ns)) a'"
    by (rule reads_rbind [OF reads_ralloc [OF n(1)]]) (use a'(1) n(2) in simp)
  then have "reads (avtab_read a0 vers) (avtab_enc a) a'"
    unfolding avtab_read_def avtab_enc_def
    by (intro reads_rerr reads_rbind [OF reads_next_u32] reads_check) (use n(1) in simp_all)
  with a' show ?thesis by blast
qed

end
