(* ===== verification/Table_Props.thy ===== *)
theory Table_Props
  imports Symtab Avtab_IO
begin

section \<open>Properties of hash tables, symbol tables and access vector tables\<close>

text \<open>
  The properties of libsepol/src/hashtab.c, symtab.c and avtab.c, on the concrete hash
  functions and comparisons of the library: symbol tables refine finite maps, resizing ends
  and changes nothing but the layout, and access vector tables keep their order, find what a
  scan of all rules finds, and survive being written and read.
\<close>

definition sample_symtab :: "(cstring, nat) hashtab_val" where
  "sample_symtab = \<lparr>htable = [[], [\<lparr>hkey = [0x61], hdatum = 7\<rparr>]], hsize = 2, nel = 1,
     hash_value = symhash, keycmp = symcmp\<rparr>"

definition sample_key :: avtab_key where
  "sample_key = \<lparr>source_type = 1, target_type = 2, target_class = 3, specified = AVTAB_ALLOWED\<rparr>"

definition sample_avtab :: avtab where
  "sample_avtab = \<lparr>ahtable = Some [[\<lparr>akey = sample_key, adatum = \<lparr>data = 5, xperms = None\<rparr>, naddr = 0\<rparr>]],
     anel = 1, nslot = 1, amask = 0, anext = 1\<rparr>"

lemma sample_symtab_ok: "table_ok symhash symcmp sample_symtab"
proof -
  have "symhash 2 [0x61] = 1" by (simp add: symhash_def symhash_step_def)
  moreover have "pow2_size 2" unfolding pow2_size_def by (rule exI [of _ 1]) simp
  ultimately show ?thesis
    by (auto simp: table_ok_def hashtab_ok_def slots_ok_def sample_symtab_def chain_sorted_def
        less_Suc_eq)
qed

lemma sample_avtab_ok: "avtab_ok sample_avtab" "avtab_unique sample_avtab" "ahtable sample_avtab \<noteq> None"
    "avtab_nodes sample_avtab = [\<lparr>akey = sample_key, adatum = \<lparr>data = 5, xperms = None\<rparr>, naddr = 0\<rparr>]"
  by (simp_all add: avtab_ok_def avtab_unique_def sample_avtab_def avtab_nodes_def slots_sorted_def
      avtab_hash_def MAX_AVTAB_HASH_BUCKETS_def Let_def)

lemma sample_avtab_writable: "avtab_writable 30 True sample_avtab"
  using sample_avtab_ok
  by (simp add: avtab_writable_def rule_ok_def sample_key_def spec_mask_def spec_order_def avtab_consts)
    (simp add: sample_avtab_def)

subsection \<open>Symbol tables\<close>

text \<open>(C26) Refinement: on a well-formed symbol table the search, the insertion and the removal
  are lookup, update and deletion of the finite map the table stands for, and keep the table
  well-formed. An insertion fails with \<open>EEXIST\<close> exactly for a key that is present and with
  \<open>ENOMEM\<close> only when memory is exhausted, a removal with \<open>ENOENT\<close> exactly for a missing
  key, and a failure leaves the map as it was.\<close>

theorem symtab_refines_map:
  assumes "table_ok symhash symcmp t"
  shows "hashtab_search (Some t) x = hashtab_abs t x \<and>
    (case hashtab_insert hp (Some t) k d of
       (Inl e, Some t', hp') \<Rightarrow> table_ok symhash symcmp t' \<and> hashtab_abs t' = hashtab_abs t \<and>
         (e = EEXIST \<and> k \<in> dom (hashtab_abs t) \<or> e = ENOMEM \<and> k \<notin> dom (hashtab_abs t) \<and> \<not> mem_ok hp)
     | (Inr _, Some t', hp') \<Rightarrow> table_ok symhash symcmp t' \<and> k \<notin> dom (hashtab_abs t) \<and>
         hashtab_abs t' = (hashtab_abs t)(k \<mapsto> d)
     | (_, None, _) \<Rightarrow> False) \<and>
    (case hashtab_remove (Some t) k of
       (Inl e, t') \<Rightarrow> e = ENOENT \<and> k \<notin> dom (hashtab_abs t) \<and> t' = Some t
     | (Inr n, Some t') \<Rightarrow> hashtab_abs t k = Some (hdatum n) \<and> table_ok symhash symcmp t' \<and>
         hashtab_abs t' = (hashtab_abs t)(k := None)
     | (_, None) \<Rightarrow> False)"
  using sym.search_abs [OF assms, of x] sym.insert_spec [OF assms, where hp = hp and k = k and d = d]
    sym.remove_spec [OF assms, where k = k]
  by (auto split: prod.splits sum.splits option.splits)

theorem symtab_refines_map_witness:
  "hashtab_search (Some sample_symtab) [0x61] = Some 7 \<and>
   (\<exists>t' hp'. hashtab_insert [] (Some sample_symtab) [0x62] 9 = (Inr (), Some t', hp') \<and>
      hashtab_abs t' = (hashtab_abs sample_symtab)([0x62] \<mapsto> 9))"
proof -
  have abs: "hashtab_abs sample_symtab = [[0x61] \<mapsto> 7]" by (simp add: hashtab_abs_def sample_symtab_def)
  show ?thesis
    using symtab_refines_map [OF sample_symtab_ok, where x = "[0x61]" and hp = "[]" and k = "[0x62]" and d = 9]
    by (auto simp: abs split: prod.splits sum.splits option.splits)
qed

text \<open>(C27) Resizing: the doubling loop of \<open>hashtab_check_resize\<close> has ended after its 32
  rounds; the size it gives is a power of two above the number of elements, unless the size
  cannot be doubled any more. Whether or not the allocation of the new slots succeeds, the
  table stays well-formed and holds the same map, and a slot index is a valid
  non-negative \<open>int\<close>.\<close>

theorem hashtab_resize_keeps_map:
  assumes "table_ok symhash symcmp t" "hashtab_check_resize hp t = (t', hp')"
  shows "(let n = hashtab_grow 32 (nel t) (hsize t) in pow2_size n \<and> (nel t < n \<or> n * 2 = 0)) \<and>
    table_ok symhash symcmp t' \<and> hashtab_abs t' = hashtab_abs t \<and>
    hsize t' \<in> {hsize t, hashtab_grow 32 (nel t) (hsize t)} \<and>
    unat (symhash (hsize t') k) < length (htable t') \<and> unat (symhash (hsize t') k) < 2 ^ 31"
proof -
  note ok' = sym.resize_ok [OF assms]
  have "hashtab_abs t' = hashtab_abs t" by (rule sym.abs_eqI [OF assms(1) ok'(1,2)])
  moreover have "hsize t' \<in> {hsize t, hashtab_grow 32 (nel t) (hsize t)}"
    using assms(2) by (auto simp: hashtab_check_resize_def Let_def split: if_splits prod.splits bool.splits)
  ultimately show ?thesis
    using grow_pow2 [OF sym.table_okD(1) [OF assms(1)]] grow_done [of "nel t" "hsize t"] ok'(1)
      sym.table_okD(1,6) [OF ok'(1)] sym.hash_index(2)
    by (auto simp: Let_def not_le)
qed

theorem hashtab_resize_keeps_map_witness:
  "hashtab_abs (fst (hashtab_check_resize [False] sample_symtab)) = hashtab_abs sample_symtab"
proof -
  obtain t' hp' where "hashtab_check_resize [False] sample_symtab = (t', hp')" by fastforce
  with hashtab_resize_keeps_map [OF sample_symtab_ok this, of "[]"] show ?thesis by simp
qed

text \<open>Symbol table life cycle: a table created with a power-of-two size is empty and
  well-formed, creation fails only when memory is exhausted, an inserted symbol is found
  and every other symbol keeps its datum, and removing it restores the map.\<close>

lemma symtab_life_cycle:
  fixes d :: 'd
  assumes "pow2_size sz" "mem_ok hp"
  shows "\<exists>s t hp'. symtab_init hp sz = (Inr s, hp') \<and> nprim s = 0 \<and> table s = Some t \<and>
    table_ok symhash symcmp t \<and> hashtab_search (Some t) x = (None :: 'd option) \<and>
    (\<exists>t1. hashtab_insert [] (Some t) k d = (Inr (), Some t1, []) \<and>
       hashtab_search (Some t1) x = (if x = k then Some d else None) \<and>
       (\<exists>n t2. hashtab_remove (Some t1) k = (Inr n, Some t2) \<and> hashtab_abs t2 = Map.empty))"
proof -
  obtain r :: "errno + 'd symtab" and hp' where r: "symtab_init hp sz = (r, hp')" by fastforce
  from symtab_init_ok [OF assms(1) r] assms(2) obtain s t where s: "r = Inr s" "nprim s = 0"
      "table s = Some t" "table_ok symhash symcmp t" "hashtab_abs t = Map.empty"
    by (auto split: sum.splits)
  obtain u to hp2 where i: "hashtab_insert [] (Some t) k d = (u, to, hp2)"
    by (rule prod_cases3)
  have hp2: "hp2 = []"
    using i by (auto simp: hashtab_insert_def hashtab_check_resize_def Let_def split: if_splits)
  obtain t1 where t1: "u = Inr ()" "to = Some t1" "table_ok symhash symcmp t1" "hashtab_abs t1 = [k \<mapsto> d]"
    using sym.insert_spec [OF s(4), where hp = "[]" and k = k and d = d] i s(5)
    by (auto split: sum.splits option.splits)
  obtain n t2 where "hashtab_remove (Some t1) k = (Inr n, Some t2)" "hashtab_abs t2 = Map.empty"
    using symt.insert_remove [OF s(4) i [unfolded t1(1,2)]] s(5) by metis
  with t1 i r s hp2 show ?thesis using sym.search_abs by fastforce
qed

lemma symtab_life_cycle_example:
  "\<exists>s t hp'. symtab_init [True] 16 = (Inr s, hp') \<and> nprim s = 0 \<and> table s = Some t \<and>
    table_ok symhash symcmp t \<and> hashtab_search (Some t) [0x61] = (None :: nat option) \<and>
    (\<exists>t1. hashtab_insert [] (Some t) [0x61] 4 = (Inr (), Some t1, []) \<and>
       hashtab_search (Some t1) [0x61] = (if [0x61 :: u8] = [0x61] then Some 4 else None) \<and>
       (\<exists>n t2. hashtab_remove (Some t1) [0x61] = (Inr n, Some t2) \<and> hashtab_abs t2 = Map.empty))"
proof (rule symtab_life_cycle)
  show "pow2_size 16" unfolding pow2_size_def by (rule exI [of _ 4]) simp
qed simp

subsection \<open>Access vector tables\<close>

text \<open>(C28) Equivalence with a reference definition: on a well-formed table the iteration by
  \<open>avtab_search_node\<close> and \<open>avtab_search_node_next\<close>, which looks at one chain and stops at
  the first greater key, visits exactly the rules that a scan of the whole table for the key
  and a common kind of rule selects, in table order, and \<open>avtab_search\<close> returns the datum of
  the first of them.\<close>

theorem avtab_visit_is_filter:
  assumes "avtab_ok h"
  shows "avtab_visit h key =
      filter (\<lambda>n. key_same key (akey n) \<and> spec_mask (specified key) AND specified (akey n) \<noteq> 0) (avtab_nodes h) \<and>
    avtab_search h key = map_option adatum (find (\<lambda>n. n \<in> set (avtab_visit h key)) (avtab_nodes h))"
proof -
  have m: "node_match key (spec_mask (specified key)) =
      (\<lambda>n. key_same key (akey n) \<and> spec_mask (specified key) AND specified (akey n) \<noteq> 0)"
    by (auto simp: node_match_def)
  note v = avtab_visit_spec [OF assms, of key]
  have "find (\<lambda>n. n \<in> set (avtab_visit h key)) (avtab_nodes h) = find (node_match key (spec_mask (specified key))) (avtab_nodes h)"
    by (rule find_cong) (simp_all add: v)
  moreover have "find P xs = (case filter P xs of [] \<Rightarrow> None | n # _ \<Rightarrow> Some n)" for P and xs :: "avtab_node list"
    by (induction xs) auto
  ultimately show ?thesis
    using v unfolding avtab_search_spec [OF assms] m by (simp split: list.splits)
qed

theorem avtab_visit_is_filter_witness:
  "map naddr (avtab_visit sample_avtab sample_key) = [0]"
  using avtab_visit_is_filter [OF sample_avtab_ok(1), of sample_key]
  by (simp add: sample_avtab_ok(4) sample_key_def spec_mask_def avtab_consts)

text \<open>(C29) Invariant: every operation that changes a table keeps it well-formed, whatever the
  outcome of its allocations; \<open>avtab_insert\<close> also keeps the table free of two
  conflicting rules. A successful insertion adds exactly one node, at a fresh address, and a
  failed one leaves the table as it was.\<close>

theorem avtab_operations_keep_invariant:
  assumes "avtab_ok h" "ahtable h \<noteq> None"
  shows "(case avtab_insert hp h key datum of
       (Inl e, h', hp') \<Rightarrow> h' = h
     | (Inr _, h', hp') \<Rightarrow> avtab_ok h' \<and> (avtab_unique h \<longrightarrow> avtab_unique h') \<and>
         mset (avtab_nodes h') = add_mset (new_node h key datum) (mset (avtab_nodes h))) \<and>
    (case avtab_insert_nonunique hp h key datum of
       (None, h', hp') \<Rightarrow> h' = h
     | (Some a, h', hp') \<Rightarrow> avtab_ok h' \<and> a \<notin> naddr ` set (avtab_nodes h) \<and>
         mset (avtab_nodes h') = add_mset (new_node h key datum) (mset (avtab_nodes h))) \<and>
    avtab_ok (avtab_init h) \<and> avtab_ok (avtab_destroy h)"
proof -
  have "avtab_ok (avtab_init h)" "avtab_ok (avtab_destroy h)"
    by (simp_all add: avtab_init_def avtab_destroy_def avtab_ok_def avtab_nodes_def split: option.splits)
  moreover have "anext h \<notin> naddr ` set (avtab_nodes h)" using assms(1) by (force simp: avtab_ok_def)
  ultimately show ?thesis
    using avtab_insert_spec [OF assms, where hp = hp and key = key and datum = datum]
      avtab_insert_nonunique_spec [OF assms, where hp = hp and key = key and datum = datum]
      insert_unique [OF assms(1), where hp = hp and key = key and datum = datum]
    by (auto split: prod.splits sum.splits option.splits)
qed

theorem avtab_operations_keep_invariant_witness:
  "case avtab_insert [] sample_avtab (sample_key\<lparr>target_class := 4\<rparr>) \<lparr>data = 1, xperms = None\<rparr> of
     (Inl e, h', hp') \<Rightarrow> False
   | (Inr _, h', hp') \<Rightarrow> avtab_ok h' \<and> avtab_unique h' \<and> size (mset (avtab_nodes h')) = 2"
proof -
  have "avtab_visit sample_avtab (sample_key\<lparr>target_class := 4\<rparr>) = []"
    by (simp add: avtab_visit_spec sample_avtab_ok node_match_def key_same_def sample_key_def)
  then show ?thesis
    using avtab_operations_keep_invariant [OF sample_avtab_ok(1,3), where hp = "[]" and
        key = "sample_key\<lparr>target_class := 4\<rparr>" and datum = "\<lparr>data = 1, xperms = None\<rparr>"]
      avtab_insert_spec [OF sample_avtab_ok(1,3), where hp = "[]" and
        key = "sample_key\<lparr>target_class := 4\<rparr>" and datum = "\<lparr>data = 1, xperms = None\<rparr>"] sample_avtab_ok(2)
    by (auto simp: sample_avtab_ok(4) simp del: size_mset split: prod.splits sum.splits)
qed

text \<open>(C30) Errors of \<open>avtab_insert\<close>: with memory available it fails exactly when a rule for the
  same types and class and a common kind exists and the new rule has no extended
  permissions, and then with \<open>EEXIST\<close>; a table whose slots were never allocated gives
  \<open>ENOMEM\<close>. After a successful insertion a search for any key also visits the new rule when
  it matches, and otherwise what it visited before.\<close>

theorem avtab_insert_errors:
  assumes "avtab_ok h" "mem_ok hp" "avtab_insert hp h key datum = (r, h', hp')"
  shows "(r = Inl EEXIST \<longleftrightarrow> ahtable h \<noteq> None \<and> avtab_visit h key \<noteq> [] \<and> specified key AND AVTAB_XPERMS = 0) \<and>
    (r = Inl ENOMEM \<longleftrightarrow> ahtable h = None) \<and> (r \<in> {Inl EEXIST, Inl ENOMEM, Inr ()}) \<and>
    (r = Inr () \<longrightarrow> mset (avtab_visit h' k) = mset (avtab_visit h k) +
       (if node_match k (spec_mask (specified k)) (new_node h key datum) then {#new_node h key datum#} else {#}))"
proof (cases "ahtable h = None")
  case True
  then show ?thesis using assms(3) by (auto simp: avtab_insert_def)
next
  case False
  note sp = avtab_insert_spec [OF assms(1) False, where hp = hp and key = key and datum = datum,
      unfolded assms(3) prod.case spec_mask_xperms]
  show ?thesis
  proof (cases r)
    case (Inl e)
    with sp assms(2) False show ?thesis by auto
  next
    case (Inr u)
    with sp have ok': "avtab_ok h'" "mset (avtab_nodes h') = add_mset (new_node h key datum) (mset (avtab_nodes h))"
      by auto
    show ?thesis using visit_after [OF assms(1) ok'(1,2), of k] sp Inr False by auto
  qed
qed

theorem avtab_insert_errors_witness:
  "avtab_insert [] sample_avtab sample_key \<lparr>data = 1, xperms = None\<rparr> = (Inl EEXIST, sample_avtab, [])"
proof -
  have v: "avtab_visit sample_avtab sample_key \<noteq> []" "specified sample_key AND AVTAB_XPERMS = 0"
    by (simp_all add: avtab_visit_spec sample_avtab_ok node_match_def sample_key_def spec_mask_def avtab_consts)
  obtain r h' hp' where r: "avtab_insert [] sample_avtab sample_key \<lparr>data = 1, xperms = None\<rparr> = (r, h', hp')"
    by (rule prod_cases3)
  with avtab_insert_errors [OF sample_avtab_ok(1) _ r] v have "r = Inl EEXIST"
    by (simp add: sample_avtab_ok)
  then show ?thesis
    using r avtab_insert_spec [OF sample_avtab_ok(1,3), where hp = "[]" and key = sample_key
        and datum = "\<lparr>data = 1, xperms = None\<rparr>"]
    by (auto simp: avtab_insert_def avtab_insert_node_def Let_def sample_avtab_def split: prod.splits if_splits option.splits)
qed

text \<open>Bounds of \<open>avtab_alloc\<close>: for any number of rules the number of slots is positive and
  at most \<open>MAX_AVTAB_HASH_BUCKETS\<close>, the mask is one less, and every hash value under the
  mask is an index of the allocated slots.\<close>

lemma avtab_alloc_bounds:
  assumes "nrules \<noteq> 0" "avtab_alloc hp h nrules = (Inr u, h', hp')"
  shows "0 < nslot h' \<and> nslot h' \<le> 2 ^ 20 \<and> amask h' = nslot h' - 1 \<and>
    (\<exists>tbl. ahtable h' = Some tbl \<and> length tbl = unat (nslot h') \<and>
       unat (avtab_hash k (amask h')) < length tbl) \<and> avtab_nodes h' = []"
proof -
  have ok: "avtab_ok h'" "ahtable h' \<noteq> None" "avtab_nodes h' = []"
    using avtab_alloc_spec [OF assms(1), of hp h] assms(2) by auto
  then obtain tbl where tbl: "ahtable h' = Some tbl" by auto
  have "nslot h' \<noteq> 0" "nslot h' \<le> 2 ^ 20" "amask h' = nslot h' - 1"
    using ok(1) tbl by (simp_all add: avtab_ok_def MAX_AVTAB_HASH_BUCKETS_def push_bit_eq_mult)
  with ok(3) tbl avtab_okD [OF ok(1) tbl] show ?thesis by (simp add: word_gt_0)
qed

lemma avtab_alloc_bounds_example:
  "\<exists>h' hp'. avtab_alloc [] sample_avtab 0xFFFFFFFF = (Inr (), h', hp') \<and> nslot h' \<le> 2 ^ 20"
proof -
  obtain r h' hp' where r: "avtab_alloc [] sample_avtab 0xFFFFFFFF = (r, h', hp')" by (rule prod_cases3)
  then have "r = Inr ()" by (auto simp: avtab_alloc_def Let_def)
  with r avtab_alloc_bounds [of "0xFFFFFFFF" "[]" sample_avtab "()" h' hp'] show ?thesis by auto
qed

text \<open>(C31) Reading untrusted bytes: a table that \<open>avtab_read\<close> accepts, from whatever bytes in the
  old or in the new format, is allocated, well-formed and free of conflicting rules.\<close>

theorem avtab_read_accepts_wf:
  assumes "avtab_read a vers s = (Inr a', s')"
  shows "ahtable a' \<noteq> None \<and> avtab_ok a' \<and> avtab_unique a'"
  using avtab_read_wf [OF assms] by (simp add: avtab_wf_def)

theorem avtab_read_accepts_wf_witness:
  "\<exists>a' s'. avtab_read sample_avtab 30 ([], \<lparr>pf_type = PF_USE_MEMORY, pf_data = avtab_enc sample_avtab @ [1],
       pf_out = [], pf_len = 0\<rparr>) = (Inr a', s') \<and> ahtable a' \<noteq> None \<and> avtab_ok a' \<and> avtab_unique a'"
proof -
  obtain a' where "reads (avtab_read sample_avtab 30) (avtab_enc sample_avtab) a'"
    using reads_avtab [OF sample_avtab_writable, of sample_avtab] by (auto simp: POLICYDB_VERSION_AVTAB_def)
  from this [unfolded reads_def, rule_format, of "[]" "\<lparr>pf_type = PF_USE_MEMORY,
      pf_data = avtab_enc sample_avtab @ [1], pf_out = [], pf_len = 0\<rparr>" "[1]"]
  obtain s' where r: "avtab_read sample_avtab 30 ([], \<lparr>pf_type = PF_USE_MEMORY,
      pf_data = avtab_enc sample_avtab @ [1], pf_out = [], pf_len = 0\<rparr>) = (Inr a', s')"
    by (auto simp: pf_readable_def)
  with avtab_read_accepts_wf [OF r] show ?thesis by blast
qed

text \<open>(C32) Round trip: a table whose rules the format can hold is written completely into a file or
  memory region with enough room, and reading those bytes gives a well-formed table with
  the same rules and the same count, leaving the rest of the file in place.\<close>

theorem avtab_write_read:
  assumes "avtab_writable vers tgt a" "POLICYDB_VERSION_AVTAB \<le> vers"
    and "pf_readable fp" "length (avtab_enc a) \<le> pf_len fp" "avtab_write vers tgt a fp = (b, fp1)"
    and "mem_ok h" "pf_readable fp'" "pf_data fp' = drop (length (pf_out fp)) (pf_out fp1) @ rest"
  shows "b \<and> (\<exists>a' h'. avtab_read init vers (h, fp') = (Inr a', h', fp'\<lparr>pf_data := rest\<rparr>) \<and>
    avtab_ok a' \<and> avtab_unique a' \<and> anel a' = anel a \<and>
    mset (map rule_of (avtab_nodes a')) = mset (map rule_of (avtab_nodes a)))"
proof -
  have w: "b" "pf_out fp1 = pf_out fp @ avtab_enc a"
    using writes_avtab [OF assms(1)] assms(3-5) by (auto simp: writes_def)
  obtain a' where a': "reads (avtab_read init vers) (avtab_enc a) a'" "avtab_wf a'" "anel a' = anel a"
      "mset (map rule_of (avtab_nodes a')) = mset (map rule_of (avtab_nodes a))"
    using reads_avtab [OF assms(1,2)] by blast
  have "pf_data fp' = avtab_enc a @ rest" using assms(8) w(2) by simp
  then obtain h' where "avtab_read init vers (h, fp') = (Inr a', h', fp'\<lparr>pf_data := rest\<rparr>)"
    using a'(1) assms(6,7) unfolding reads_def by blast
  then show ?thesis using a' w(1) unfolding avtab_wf_def by blast
qed

theorem avtab_write_read_witness:
  "\<exists>a' h'. avtab_read sample_avtab 30 ([], \<lparr>pf_type = PF_USE_MEMORY, pf_data = avtab_enc sample_avtab, pf_out = [], pf_len = 0\<rparr>)
     = (Inr a', h', \<lparr>pf_type = PF_USE_MEMORY, pf_data = [], pf_out = [], pf_len = 0\<rparr>) \<and>
   mset (map rule_of (avtab_nodes a')) = {#(sample_key, \<lparr>data = 5, xperms = None\<rparr>)#}"
proof -
  let ?fp = "\<lparr>pf_type = PF_USE_STDIO, pf_data = [], pf_out = [], pf_len = 100\<rparr>"
  have "length (avtab_enc sample_avtab) \<le> 100"
    by (simp add: avtab_enc_def sample_avtab_ok item_enc_def sample_key_def avtab_consts put16_def)
  then have "avtab_write 30 True sample_avtab ?fp = (True, ?fp\<lparr>pf_out := avtab_enc sample_avtab,
      pf_len := 100 - length (avtab_enc sample_avtab)\<rparr>)"
    using writes_avtab [OF sample_avtab_writable] by (simp add: writes_def pf_readable_def)
  from avtab_write_read [OF sample_avtab_writable _ _ _ this, where h = "[]" and rest = "[]" and init = sample_avtab
      and fp' = "\<lparr>pf_type = PF_USE_MEMORY, pf_data = avtab_enc sample_avtab, pf_out = [], pf_len = 0\<rparr>"]
  show ?thesis
    using \<open>length (avtab_enc sample_avtab) \<le> 100\<close>
    by (auto simp: pf_readable_def POLICYDB_VERSION_AVTAB_def sample_avtab_ok(4) rule_of_def)
qed

end
