(* ===== verification/Mls_Types.thy ===== *)
theory Mls_Types
  imports Ebitmap_Laws
begin

section \<open>MLS levels, ranges and security contexts\<close>

text \<open>
  The inline functions of sepol/policydb/mls_types.h and context.h. A level is a sensitivity
  and a bitmap of categories, a range a low and a high level, a context the numbers of a
  user, role and type with a range. The functions that fill in a destination structure
  return it; when one fails its callers destroy the destination, so that no partial result is
  kept. An allocating function takes and returns the allocation schedule.
\<close>

subsection \<open>Allocating functions in sequence\<close>

type_synonym 'a hp = "heap \<Rightarrow> (errno + 'a) \<times> heap"

definition hret :: "'a \<Rightarrow> 'a hp" where
  "hret x h = (Inr x, h)"

definition hfail :: "errno \<Rightarrow> 'a hp" where
  "hfail e h = (Inl e, h)"

definition hbind :: "'a hp \<Rightarrow> ('a \<Rightarrow> 'b hp) \<Rightarrow> 'b hp" where
  "hbind m f h = (case m h of (Inl e, h') \<Rightarrow> (Inl e, h') | (Inr x, h') \<Rightarrow> f x h')"

text \<open>A caller that turns every failure into its own error code.\<close>

definition herr :: "errno \<Rightarrow> 'a hp \<Rightarrow> 'a hp" where
  "herr e m h = (case m h of (Inl _, h') \<Rightarrow> (Inl e, h') | r \<Rightarrow> r)"

definition hmalloc :: "errno \<Rightarrow> unit hp" where
  "hmalloc e h = (case malloc h of (ok, h') \<Rightarrow> (if ok then Inr () else Inl e, h'))"

text \<open>\<open>hgives m P E\<close>: every success of \<open>m\<close> satisfies \<open>P\<close>, and a failure that does not satisfy \<open>E\<close>
  comes from an exhausted heap. Success leaves a good schedule good.\<close>

definition hgives :: "'a hp \<Rightarrow> ('a \<Rightarrow> bool) \<Rightarrow> (errno \<Rightarrow> bool) \<Rightarrow> bool" where
  "hgives m P E \<longleftrightarrow>
     (\<forall>h. case m h of (Inl e, h') \<Rightarrow> E e \<or> \<not> mem_ok h | (Inr x, h') \<Rightarrow> P x \<and> (mem_ok h \<longrightarrow> mem_ok h'))"

lemma hbind_assoc: "hbind (hbind m f) g = hbind m (\<lambda>x. hbind (f x) g)"
  by (rule ext) (simp add: hbind_def split: prod.splits sum.splits)

lemma hbind_hret [simp]: "hbind (hret x) f = f x" "hbind (hfail e) f = hfail e"
  by (rule ext, simp add: hbind_def hret_def hfail_def)+

named_theorems hgives_intros

lemma hgives_hret [hgives_intros]: "P x \<Longrightarrow> hgives (hret x) P E"
  by (simp add: hgives_def hret_def)

lemma hgives_hfail [hgives_intros]: "E e \<Longrightarrow> hgives (hfail e) P E"
  by (simp add: hgives_def hfail_def)

lemma hgives_hbind:
  assumes "hgives m Q E" "\<And>x. Q x \<Longrightarrow> hgives (f x) P E" shows "hgives (hbind m f) P E"
  unfolding hgives_def
proof
  fix h
  obtain r h' where r: "m h = (r, h')" by fastforce
  show "case hbind m f h of (Inl e, h') \<Rightarrow> E e \<or> \<not> mem_ok h | (Inr x, h') \<Rightarrow> P x \<and> (mem_ok h \<longrightarrow> mem_ok h')"
  proof (cases r)
    case (Inl e)
    then show ?thesis using assms(1) r by (auto simp: hbind_def hgives_def dest!: spec [of _ h])
  next
    case (Inr x)
    then have "Q x" "mem_ok h \<longrightarrow> mem_ok h'" using assms(1) r by (auto simp: hgives_def dest!: spec [of _ h])
    with assms(2) [of x] show ?thesis
      using r Inr by (auto simp: hbind_def hgives_def dest!: spec [of _ h'] split: prod.splits sum.splits)
  qed
qed

lemma hgives_herr:
  assumes "hgives m P E'" "\<And>e'. E' e' \<Longrightarrow> E e" shows "hgives (herr e m) P E"
  unfolding hgives_def
proof
  fix h
  obtain r h' where "m h = (r, h')" by fastforce
  then show "case herr e m h of (Inl e, h') \<Rightarrow> E e \<or> \<not> mem_ok h | (Inr x, h') \<Rightarrow> P x \<and> (mem_ok h \<longrightarrow> mem_ok h')"
    using assms spec [OF assms(1) [unfolded hgives_def], of h] by (cases r) (auto simp: herr_def)
qed

lemma hgives_hmalloc [hgives_intros]: "P () \<Longrightarrow> hgives (hmalloc e) P E"
  unfolding hgives_def hmalloc_def using malloc_mem_ok malloc_fail_not_ok
  by (fastforce split: prod.splits)

lemma hgives_weaken: "\<lbrakk>hgives m P E; \<And>x. P x \<Longrightarrow> P' x; \<And>e. E e \<Longrightarrow> E' e\<rbrakk> \<Longrightarrow> hgives m P' E'"
  unfolding hgives_def by (fastforce split: prod.splits sum.splits)

lemma hgives_Inr: "\<lbrakk>hgives m P E; m h = (Inr x, h')\<rbrakk> \<Longrightarrow> P x"
  unfolding hgives_def by (drule spec [of _ h]) simp

lemma hgives_Inl: "\<lbrakk>hgives m P E; m h = (Inl e, h'); mem_ok h\<rbrakk> \<Longrightarrow> E e"
  unfolding hgives_def by (drule spec [of _ h]) simp

lemma hgives_seq:
  assumes "hgives m (\<lambda>y. y = x) (\<lambda>_. False)" "hgives (f x) P E" shows "hgives (hbind m f) P E"
  using hgives_hbind [OF hgives_weaken [OF assms(1)], of "\<lambda>y. y = x" E f P] assms(2) by blast

text \<open>With memory available a function whose only failure is exhausted memory succeeds.\<close>

lemma hgives_returns:
  assumes "hgives m P (\<lambda>_. False)" "mem_ok h"
  obtains x h' where "m h = (Inr x, h')" "P x" "mem_ok h'"
proof -
  obtain r h' where r: "m h = (r, h')" by fastforce
  then show ?thesis
    using spec [OF assms(1) [unfolded hgives_def], of h] assms(2) that by (cases r) auto
qed

subsection \<open>Levels\<close>

record mls_level =
  sens :: u32
  cat :: ebitmap

record mls_range =
  level0 :: mls_level
  level1 :: mls_level

definition mls_level_init :: mls_level where
  "mls_level_init = \<lparr>sens = 0, cat = ebitmap_init\<rparr>"

definition mls_level_destroy :: "mls_level \<Rightarrow> mls_level" where
  "mls_level_destroy l = mls_level_init"

definition mls_level_cpy :: "mls_level \<Rightarrow> mls_level hp" where
  "mls_level_cpy src = herr EFAIL (hbind (\<lambda>h. ebitmap_cpy h (cat src)) (\<lambda>c. hret \<lparr>sens = sens src, cat = c\<rparr>))"

definition mls_level_eq :: "mls_level \<Rightarrow> mls_level \<Rightarrow> bool" where
  "mls_level_eq l1 l2 \<longleftrightarrow> sens l1 = sens l2 \<and> ebitmap_cmp (cat l1) (cat l2)"

definition mls_level_dom :: "mls_level \<Rightarrow> mls_level \<Rightarrow> bool" where
  "mls_level_dom l1 l2 \<longleftrightarrow> sens l1 \<ge> sens l2 \<and> ebitmap_contains (cat l1) (cat l2)"

definition mls_level_incomp :: "mls_level \<Rightarrow> mls_level \<Rightarrow> bool" where
  "mls_level_incomp l1 l2 \<longleftrightarrow> \<not> mls_level_dom l1 l2 \<and> \<not> mls_level_dom l2 l1"

definition mls_level_between :: "mls_level \<Rightarrow> mls_level \<Rightarrow> mls_level \<Rightarrow> bool" where
  "mls_level_between l1 l2 l3 \<longleftrightarrow> mls_level_dom l1 l2 \<and> mls_level_dom l3 l1"

subsection \<open>Ranges\<close>

definition mls_range_contains :: "mls_range \<Rightarrow> mls_range \<Rightarrow> bool" where
  "mls_range_contains r1 r2 \<longleftrightarrow> mls_level_dom (level0 r2) (level0 r1) \<and> mls_level_dom (level1 r1) (level1 r2)"

definition mls_range_glblub :: "mls_range \<Rightarrow> mls_range \<Rightarrow> mls_range hp" where
  "mls_range_glblub r1 r2 =
     (if sens (level1 r1) < sens (level0 r2) \<or> sens (level1 r2) < sens (level0 r1) then hfail EINVAL
      else herr EFAIL
        (hbind (\<lambda>h. ebitmap_and h (cat (level0 r1)) (cat (level0 r2))) (\<lambda>c0.
         hbind (\<lambda>h. ebitmap_and h (cat (level1 r1)) (cat (level1 r2))) (\<lambda>c1.
         hret \<lparr>level0 = \<lparr>sens = max (sens (level0 r1)) (sens (level0 r2)), cat = c0\<rparr>,
               level1 = \<lparr>sens = min (sens (level1 r1)) (sens (level1 r2)), cat = c1\<rparr>\<rparr>))))"

definition mls_range_cpy :: "mls_range \<Rightarrow> mls_range hp" where
  "mls_range_cpy src =
     hbind (mls_level_cpy (level0 src)) (\<lambda>l0.
     hbind (mls_level_cpy (level1 src)) (\<lambda>l1. hret \<lparr>level0 = l0, level1 = l1\<rparr>))"

definition mls_range_init :: mls_range where
  "mls_range_init = \<lparr>level0 = mls_level_init, level1 = mls_level_init\<rparr>"

definition mls_range_destroy :: "mls_range \<Rightarrow> mls_range" where
  "mls_range_destroy r = \<lparr>level0 = mls_level_destroy (level0 r), level1 = mls_level_destroy (level1 r)\<rparr>"

definition mls_range_eq :: "mls_range \<Rightarrow> mls_range \<Rightarrow> bool" where
  "mls_range_eq r1 r2 \<longleftrightarrow> mls_level_eq (level0 r1) (level0 r2) \<and> mls_level_eq (level1 r1) (level1 r2)"

subsection \<open>Semantic levels of modules\<close>

record mls_semantic_cat =
  cat_low :: u32
  cat_high :: u32

record mls_semantic_level =
  ssens :: u32
  scat :: "mls_semantic_cat list"

record mls_semantic_range =
  slevel0 :: mls_semantic_level
  slevel1 :: mls_semantic_level

definition mls_semantic_cat_init :: mls_semantic_cat where
  "mls_semantic_cat_init = \<lparr>cat_low = 0, cat_high = 0\<rparr>"

definition mls_semantic_level_init :: mls_semantic_level where
  "mls_semantic_level_init = \<lparr>ssens = 0, scat = []\<rparr>"

definition mls_semantic_level_cpy :: "mls_semantic_level \<Rightarrow> mls_semantic_level hp" where
  "mls_semantic_level_cpy src =
     herr EFAIL (hbind (\<lambda>h. malloc_list h (scat src)) (\<lambda>c. hret (mls_semantic_level_init\<lparr>ssens := ssens src, scat := c\<rparr>)))"

definition mls_semantic_range_init :: mls_semantic_range where
  "mls_semantic_range_init = \<lparr>slevel0 = mls_semantic_level_init, slevel1 = mls_semantic_level_init\<rparr>"

definition mls_semantic_range_cpy :: "mls_semantic_range \<Rightarrow> mls_semantic_range hp" where
  "mls_semantic_range_cpy src =
     hbind (mls_semantic_level_cpy (slevel0 src)) (\<lambda>l0.
     hbind (mls_semantic_level_cpy (slevel1 src)) (\<lambda>l1. hret \<lparr>slevel0 = l0, slevel1 = l1\<rparr>))"

subsection \<open>Contexts\<close>

record context_struct =
  c_user :: u32
  c_role :: u32
  c_type :: u32
  c_range :: mls_range

definition mls_context_init :: "context_struct \<Rightarrow> context_struct" where
  "mls_context_init c = c\<lparr>c_range := mls_range_init\<rparr>"

definition mls_context_cpy :: "context_struct \<Rightarrow> context_struct \<Rightarrow> context_struct hp" where
  "mls_context_cpy dst src = hbind (mls_range_cpy (c_range src)) (\<lambda>r. hret (dst\<lparr>c_range := r\<rparr>))"

text \<open>Both levels become a copy of \<open>l\<close>.\<close>

definition range_of_level :: "mls_level \<Rightarrow> mls_range hp" where
  "range_of_level l =
     hbind (\<lambda>h. ebitmap_cpy h (cat l)) (\<lambda>c0.
     hbind (\<lambda>h. ebitmap_cpy h (cat l)) (\<lambda>c1.
     hret \<lparr>level0 = \<lparr>sens = sens l, cat = c0\<rparr>, level1 = \<lparr>sens = sens l, cat = c1\<rparr>\<rparr>))"

definition mls_context_cpy_low :: "context_struct \<Rightarrow> context_struct \<Rightarrow> context_struct hp" where
  "mls_context_cpy_low dst src = hbind (range_of_level (level0 (c_range src))) (\<lambda>r. hret (dst\<lparr>c_range := r\<rparr>))"

definition mls_context_cpy_high :: "context_struct \<Rightarrow> context_struct \<Rightarrow> context_struct hp" where
  "mls_context_cpy_high dst src = hbind (range_of_level (level1 (c_range src))) (\<lambda>r. hret (dst\<lparr>c_range := r\<rparr>))"

definition mls_context_glblub :: "context_struct \<Rightarrow> context_struct \<Rightarrow> context_struct \<Rightarrow> context_struct hp" where
  "mls_context_glblub dst c1 c2 = hbind (mls_range_glblub (c_range c1) (c_range c2)) (\<lambda>r. hret (dst\<lparr>c_range := r\<rparr>))"

definition mls_context_cmp :: "context_struct \<Rightarrow> context_struct \<Rightarrow> bool" where
  "mls_context_cmp c1 c2 \<longleftrightarrow> mls_level_eq (level0 (c_range c1)) (level0 (c_range c2)) \<and>
     mls_level_eq (level1 (c_range c1)) (level1 (c_range c2))"

definition mls_context_destroy :: "context_struct \<Rightarrow> context_struct" where
  "mls_context_destroy c = mls_context_init (c\<lparr>c_range := mls_range_destroy (c_range c)\<rparr>)"

definition context_init :: context_struct where
  "context_init = \<lparr>c_user = 0, c_role = 0, c_type = 0, c_range = mls_range_init\<rparr>"

definition context_cpy :: "context_struct \<Rightarrow> context_struct \<Rightarrow> context_struct hp" where
  "context_cpy dst src =
     mls_context_cpy (dst\<lparr>c_user := c_user src, c_role := c_role src, c_type := c_type src\<rparr>) src"

definition context_destroy :: "context_struct \<Rightarrow> context_struct" where
  "context_destroy c = mls_context_destroy (c\<lparr>c_user := 0, c_role := 0, c_type := 0\<rparr>)"

definition context_cmp :: "context_struct \<Rightarrow> context_struct \<Rightarrow> bool" where
  "context_cmp c1 c2 \<longleftrightarrow> c_user c1 = c_user c2 \<and> c_role c1 = c_role c2 \<and> c_type c1 = c_type c2 \<and>
     mls_context_cmp c1 c2"

subsection \<open>Well-formed levels and what the operations give\<close>

definition level_wf :: "mls_level \<Rightarrow> bool" where
  "level_wf l \<longleftrightarrow> ebitmap_wf (cat l)"

definition range_wf :: "mls_range \<Rightarrow> bool" where
  "range_wf r \<longleftrightarrow> level_wf (level0 r) \<and> level_wf (level1 r)"

definition context_wf :: "context_struct \<Rightarrow> bool" where
  "context_wf c \<longleftrightarrow> range_wf (c_range c)"

text \<open>A valid range: its high level dominates its low level.\<close>

definition range_valid :: "mls_range \<Rightarrow> bool" where
  "range_valid r \<longleftrightarrow> range_wf r \<and> mls_level_dom (level1 r) (level0 r)"

lemmas wf_defs = level_wf_def range_wf_def context_wf_def

lemma level_eta [simp]: "\<lparr>sens = sens l, cat = cat l\<rparr> = l"
  by (cases l) simp

lemma range_eta [simp]: "\<lparr>level0 = level0 r, level1 = level1 r\<rparr> = r"
  by (cases r) simp

lemma hgives_cpy [hgives_intros]: "P e \<Longrightarrow> hgives (\<lambda>h. ebitmap_cpy h e) P E"
  unfolding hgives_def
proof
  fix h assume P: "P e"
  have "mem_ok h \<Longrightarrow> \<exists>h'. ebitmap_cpy h e = (Inr e, h') \<and> mem_ok h'"
    using malloc_list_mem_ok [of h "node e"] by (auto simp: ebitmap_cpy_def)
  with ebitmap_cpy_spec [of h e] P
  show "case ebitmap_cpy h e of (Inl e, h') \<Rightarrow> E e \<or> \<not> mem_ok h | (Inr x, h') \<Rightarrow> P x \<and> (mem_ok h \<longrightarrow> mem_ok h')"
    by (auto split: prod.splits sum.splits)
qed

lemma hgives_and:
  assumes "ebitmap_wf a" "ebitmap_wf b"
  shows "hgives (\<lambda>h. ebitmap_and h a b) (\<lambda>e. ebitmap_wf e \<and> ebitmap_bits e = ebitmap_bits a \<inter> ebitmap_bits b) E"
  unfolding hgives_def
proof
  fix h
  have "mem_ok h'" if "mem_ok h" "ebitmap_and h a b = (Inr e, h')" for e h'
    using that malloc_list_mem_ok [of h "ebitmap_and_nodes (node a) (node b)"]
    by (auto simp: ebitmap_and_def split: prod.splits sum.splits)
  with ebitmap_and_spec [OF assms, of h]
  show "case ebitmap_and h a b of (Inl e, h') \<Rightarrow> E e \<or> \<not> mem_ok h
      | (Inr x, h') \<Rightarrow> (ebitmap_wf x \<and> ebitmap_bits x = ebitmap_bits a \<inter> ebitmap_bits b) \<and> (mem_ok h \<longrightarrow> mem_ok h')"
    by (auto split: prod.splits sum.splits)
qed

lemma hgives_level_cpy [hgives_intros]: "P l \<Longrightarrow> hgives (mls_level_cpy l) P E"
  unfolding mls_level_cpy_def
  by (rule hgives_herr [where E' = "\<lambda>_. False"])
    (auto intro!: hgives_hbind [where Q = "\<lambda>c. c = cat l"] hgives_intros)

lemma hgives_range_cpy [hgives_intros]: "P r \<Longrightarrow> hgives (mls_range_cpy r) P E"
  unfolding mls_range_cpy_def
  by (rule hgives_hbind [where Q = "\<lambda>l. l = level0 r"], intro hgives_intros refl,
      rule hgives_hbind [where Q = "\<lambda>l. l = level1 r"], intro hgives_intros refl, intro hgives_intros) simp

lemma hgives_range_of_level [hgives_intros]:
  "P \<lparr>level0 = l, level1 = l\<rparr> \<Longrightarrow> hgives (range_of_level l) P E"
  unfolding range_of_level_def
  by (rule hgives_hbind [where Q = "\<lambda>c. c = cat l"], intro hgives_intros refl,
      rule hgives_hbind [where Q = "\<lambda>c. c = cat l"], intro hgives_intros refl, intro hgives_intros) simp

lemma hgives_context_cpy [hgives_intros]: "P (dst\<lparr>c_range := c_range src\<rparr>) \<Longrightarrow> hgives (mls_context_cpy dst src) P E"
  unfolding mls_context_cpy_def
  by (rule hgives_hbind [where Q = "\<lambda>r. r = c_range src"]) (auto intro: hgives_intros)

lemma context_cpy_gives [hgives_intros]: "P src \<Longrightarrow> hgives (context_cpy dst src) P E"
  unfolding context_cpy_def by (rule hgives_context_cpy) (cases src; cases dst; simp)

subsection \<open>Dominance\<close>

text \<open>
  What the MLS decisions need of a dominance relation: it is reflexive, transitive and
  antisymmetric up to the comparison of levels. The lemmas about ranges are proved from this
  contract alone.
\<close>

locale dominance =
  fixes ok :: "'l \<Rightarrow> bool" and dom :: "'l \<Rightarrow> 'l \<Rightarrow> bool" and eq :: "'l \<Rightarrow> 'l \<Rightarrow> bool"
  assumes dom_refl: "ok a \<Longrightarrow> dom a a"
    and dom_trans: "\<lbrakk>ok a; ok b; ok c; dom a b; dom b c\<rbrakk> \<Longrightarrow> dom a c"
    and dom_antisym: "\<lbrakk>ok a; ok b\<rbrakk> \<Longrightarrow> dom a b \<and> dom b a \<longleftrightarrow> eq a b"
begin

lemma eq_refl: "ok a \<Longrightarrow> eq a a"
  using dom_antisym dom_refl by blast

lemma eq_sym: "\<lbrakk>ok a; ok b; eq a b\<rbrakk> \<Longrightarrow> eq b a"
  using dom_antisym by blast

lemma eq_trans: "\<lbrakk>ok a; ok b; ok c; eq a b; eq b c\<rbrakk> \<Longrightarrow> eq a c"
  using dom_antisym dom_trans by meson

text \<open>Containment of the range from \<open>l2\<close> to \<open>h2\<close> in the range from \<open>l1\<close> to \<open>h1\<close>.\<close>

lemma contains_trans:
  "\<lbrakk>ok l1; ok l2; ok l3; ok h1; ok h2; ok h3; dom l2 l1 \<and> dom h1 h2; dom l3 l2 \<and> dom h2 h3\<rbrakk>
    \<Longrightarrow> dom l3 l1 \<and> dom h1 h3"
  using dom_trans by meson

text \<open>The level and clearance \<open>mls_setup_user_range\<close> chooses.\<close>

lemma user_range_choice:
  assumes "ok fl" "ok fh" "ok ul" "ok uh" "ok ud" "dom fh fl" "dom ud ul" "dom uh ud"
    and s: "if dom ud fl \<and> dom fh ud then s = ud
      else if dom fl ud \<and> dom uh fl then s = fl else dom fh ul \<and> dom ud fh \<and> s = ul"
    and c: "if dom uh fh then c = fh else dom fh uh \<and> c = uh"
  shows "dom c s" "dom s ul" "dom uh c" "dom fh c"
proof -
  have cs: "c = fh \<or> c = uh \<and> dom fh uh" using c by (auto split: if_splits)
  have ss: "s = ud \<and> dom fh ud \<or> s = fl \<and> dom fl ud \<and> dom uh fl \<or> s = ul \<and> dom fh ul"
    using s by (auto split: if_splits)
  show "dom c s" using cs ss assms dom_trans by metis
  show "dom s ul" using ss assms(1-8) dom_trans dom_refl by metis
  show "dom uh c" using c assms(1-8) dom_refl by (auto split: if_splits)
  show "dom fh c" using c assms(1-8) dom_refl by (auto split: if_splits)
qed

end

interpretation lvl: dominance level_wf mls_level_dom mls_level_eq
proof
  fix a b c
  show "level_wf a \<Longrightarrow> mls_level_dom a a"
    by (simp add: mls_level_dom_def level_wf_def ebm.contains_refl)
  show "mls_level_dom a c" if "level_wf a" "level_wf b" "level_wf c" "mls_level_dom a b" "mls_level_dom b c"
    using that ebm.contains_trans unfolding mls_level_dom_def level_wf_def by (meson order_trans)
  show "(mls_level_dom a b \<and> mls_level_dom b a) = mls_level_eq a b" if "level_wf a" "level_wf b"
    using that ebm.contains_antisym [of "cat a" "cat b"] unfolding mls_level_dom_def mls_level_eq_def level_wf_def
    by auto
qed

lemma level_eq_iff: "\<lbrakk>level_wf a; level_wf b\<rbrakk> \<Longrightarrow> mls_level_eq a b \<longleftrightarrow> sens a = sens b \<and> ebitmap_bits (cat a) = ebitmap_bits (cat b)"
  by (simp add: mls_level_eq_def level_wf_def ebm.cmp_iff)

lemma level_dom_iff: "\<lbrakk>level_wf a; level_wf b\<rbrakk> \<Longrightarrow> mls_level_dom a b \<longleftrightarrow> sens b \<le> sens a \<and> ebitmap_bits (cat b) \<subseteq> ebitmap_bits (cat a)"
  by (simp add: mls_level_dom_def level_wf_def ebm.contains_iff)

text \<open>The meet of two valid ranges is valid.\<close>

lemma glblub_gives:
  assumes "range_valid r1" "range_valid r2"
  shows "hgives (mls_range_glblub r1 r2)
    (\<lambda>r. range_valid r \<and> sens (level0 r) = max (sens (level0 r1)) (sens (level0 r2)) \<and>
         sens (level1 r) = min (sens (level1 r1)) (sens (level1 r2)) \<and>
         ebitmap_bits (cat (level0 r)) = ebitmap_bits (cat (level0 r1)) \<inter> ebitmap_bits (cat (level0 r2)) \<and>
         ebitmap_bits (cat (level1 r)) = ebitmap_bits (cat (level1 r1)) \<inter> ebitmap_bits (cat (level1 r2)))
    (\<lambda>e. e = EINVAL \<and> (sens (level1 r1) < sens (level0 r2) \<or> sens (level1 r2) < sens (level0 r1)))"
proof (cases "sens (level1 r1) < sens (level0 r2) \<or> sens (level1 r2) < sens (level0 r1)")
  case True
  then show ?thesis by (auto simp: mls_range_glblub_def intro!: hgives_intros)
next
  case False
  have wf: "ebitmap_wf (cat (level0 r1))" "ebitmap_wf (cat (level0 r2))" "ebitmap_wf (cat (level1 r1))" "ebitmap_wf (cat (level1 r2))"
    using assms by (simp_all add: range_valid_def wf_defs)
  have dom: "sens (level0 r1) \<le> sens (level1 r1)" "sens (level0 r2) \<le> sens (level1 r2)"
      "ebitmap_bits (cat (level0 r1)) \<subseteq> ebitmap_bits (cat (level1 r1))"
      "ebitmap_bits (cat (level0 r2)) \<subseteq> ebitmap_bits (cat (level1 r2))"
    using assms level_dom_iff unfolding range_valid_def range_wf_def by blast+
  show ?thesis
    using False unfolding mls_range_glblub_def
    by (simp only: if_False, intro hgives_herr [where E' = "\<lambda>_. False"])
      (rule hgives_hbind [OF hgives_and [OF wf(1,2)]], rule hgives_hbind [OF hgives_and [OF wf(3,4)]],
       use dom False in \<open>auto intro!: hgives_intros simp: range_valid_def wf_defs level_dom_iff\<close>)
qed

text \<open>Comparing contexts is equality: bitmaps are equal exactly when their nodes are.\<close>

lemma ebitmap_cmp_eq: "ebitmap_cmp a b \<longleftrightarrow> a = b"
  by (cases a, cases b) (auto simp: ebitmap_cmp_def)

lemma level_eq_eq: "mls_level_eq a b \<longleftrightarrow> a = b"
  by (cases a, cases b) (auto simp: mls_level_eq_def ebitmap_cmp_eq)

lemma context_cmp_eq: "context_cmp a b \<longleftrightarrow> a = b"
proof -
  have "mls_context_cmp a b \<longleftrightarrow> c_range a = c_range b"
    by (cases "c_range a", cases "c_range b") (auto simp: mls_context_cmp_def level_eq_eq)
  then show ?thesis by (cases a, cases b) (auto simp: context_cmp_def)
qed

end
