(* ===== verification/Policydb.thy ===== *)
theory Policydb
  imports Mls_Types Symtab Avtab_Laws
begin

section \<open>The policy database\<close>

text \<open>
  The data of sepol/policydb/policydb.h that the policy decisions read: the datums of the
  symbol tables, the arrays that index them by value, the rule tables and lists, and the
  hash tables of range and filename transitions with their hash functions from policydb.c.
  Fields that no modelled function reads are left out. An
  array of pointers indexed by (value - 1) is a list of options; an index outside the array,
  undefined in C, reads as a null pointer.
\<close>

subsection \<open>Datums\<close>

record perm_datum =
  perm_value :: u32

record common_datum =
  common_value :: u32
  common_permissions :: "perm_datum symtab"

record type_set =
  ts_types :: ebitmap
  ts_negset :: ebitmap
  ts_flags :: u32

record role_set =
  rs_roles :: ebitmap
  rs_flags :: u32

definition type_set_init :: type_set where
  "type_set_init = \<lparr>ts_types = ebitmap_init, ts_negset = ebitmap_init, ts_flags = 0\<rparr>"

definition role_set_init :: role_set where
  "role_set_init = \<lparr>rs_roles = ebitmap_init, rs_flags = 0\<rparr>"

record constraint_expr =
  expr_type :: u32
  attr :: u32
  cop :: u32
  names :: ebitmap
  type_names :: type_set

record constraint_node =
  cpermissions :: u32
  cexpr :: "constraint_expr list"

record class_datum =
  class_value :: u32
  comdatum :: "common_datum option"
  permissions :: "perm_datum symtab"
  constraints :: "constraint_node list"
  validatetrans :: "constraint_node list"
  default_user :: u8
  default_role :: u8
  default_type :: u8
  default_range :: u8

record role_datum =
  role_value :: u32
  dominates :: ebitmap
  role_types :: type_set
  role_cache :: ebitmap
  role_bounds :: u32
  role_flavor :: u32
  role_roles :: ebitmap

record type_datum =
  type_value :: u32
  primary :: u32
  flavor :: u32
  type_types :: ebitmap
  type_flags :: u32
  type_bounds :: u32

record user_datum =
  user_value :: u32
  user_roles :: role_set
  user_range :: mls_semantic_range
  user_dfltlevel :: mls_semantic_level
  user_cache :: ebitmap
  exp_range :: mls_range
  exp_dfltlevel :: mls_level
  user_bounds :: u32

record level_datum =
  level :: mls_level
  lisalias :: u8
  defined :: u8

record cat_datum =
  cat_value :: u32
  cisalias :: u8

record cond_bool_datum =
  bool_value :: u32
  state :: int
  bool_flags :: u32

record role_trans =
  rt_role :: u32
  rt_type :: u32
  rt_tclass :: u32
  rt_new_role :: u32

record role_allow =
  ra_role :: u32
  ra_new_role :: u32

record range_trans =
  rtr_source_type :: u32
  rtr_target_type :: u32
  rtr_target_class :: u32

record filename_trans_key =
  ft_ttype :: u32
  ft_tclass :: u32
  ft_name :: cstring

record filename_trans_datum =
  ft_stypes :: ebitmap
  ft_otype :: u32

text \<open>The union \<open>u\<close> of an object context, \<open>U_zero\<close> while nothing is stored in it, and the union \<open>v\<close>,
  whose two members are both 32-bit numbers.\<close>

datatype ocontext_u =
    U_zero
  | U_name cstring
  | U_port u8 u16 u16
  | U_node u32 u32
  | U_node6 "u32 list" "u32 list"
  | U_ibpkey u64 u16 u16
  | U_ibendport cstring u8
  | U_device u32
  | U_pirq u16
  | U_iomem u64 u64
  | U_ioport u32 u32

record ocontext =
  oc_u :: ocontext_u
  oc_v :: u32
  oc_context0 :: context_struct
  oc_context1 :: context_struct
  oc_sid0 :: u32
  oc_sid1 :: u32

record genfs =
  genfs_fstype :: cstring
  genfs_head :: "ocontext list"

subsection \<open>Rules of modules\<close>

text \<open>The line numbers and file names a rule carries for error messages are left out.\<close>

record class_perm_node =
  cp_tclass :: u32
  cp_data :: u32

record av_extended_perms =
  xp_specified :: u8
  xp_driver :: u8
  xp_perms :: "u32 list"

record avrule =
  ar_specified :: u32
  ar_flags :: u32
  ar_stypes :: type_set
  ar_ttypes :: type_set
  ar_perms :: "class_perm_node list"
  ar_xperms :: "av_extended_perms option"

record role_trans_rule =
  rtrl_roles :: role_set
  rtrl_types :: type_set
  rtrl_classes :: ebitmap
  rtrl_new_role :: u32

record role_allow_rule =
  rarl_roles :: role_set
  rarl_new_roles :: role_set

record filename_trans_rule =
  ftrl_flags :: u32
  ftrl_stypes :: type_set
  ftrl_ttypes :: type_set
  ftrl_tclass :: u32
  ftrl_name :: cstring
  ftrl_otype :: u32

record range_trans_rule =
  rngl_stypes :: type_set
  rngl_ttypes :: type_set
  rngl_tclasses :: ebitmap
  rngl_trange :: mls_semantic_range

subsection \<open>Conditionals\<close>

text \<open>The lists of a conditional refer to rules of the conditional table by address.\<close>

record cond_expr =
  cond_expr_type :: u32
  cond_bool :: u32

record cond_node =
  cur_state :: int
  expr :: "cond_expr list"
  true_list :: "nat list"
  false_list :: "nat list"
  avtrue_list :: "avrule list"
  avfalse_list :: "avrule list"
  nbools :: u32
  bool_ids :: "u32 list"
  expr_pre_comp :: u32
  cn_flags :: u32

subsection \<open>Blocks of a module\<close>

text \<open>The bitmaps of the symbols in scope, one per kind of symbol, and for each class the permissions
  in scope.\<close>

record scope_index =
  si_scope :: "ebitmap list"
  si_class_perms_map :: "ebitmap list"
  si_class_perms_len :: u32

record scope_datum =
  sd_scope :: u32
  sd_decl_ids :: "u32 list"

record avrule_decl =
  decl_id :: u32
  decl_enabled :: u32
  decl_cond_list :: "cond_node list"
  decl_avrules :: "avrule list"
  decl_role_tr_rules :: "role_trans_rule list"
  decl_role_allow_rules :: "role_allow_rule list"
  decl_range_tr_rules :: "range_trans_rule list"
  decl_required :: scope_index
  decl_declared :: scope_index
  decl_filename_trans_rules :: "filename_trans_rule list"
  d_commons :: "common_datum symtab"
  d_classes :: "class_datum symtab"
  d_roles :: "role_datum symtab"
  d_types :: "type_datum symtab"
  d_users :: "user_datum symtab"
  d_bools :: "cond_bool_datum symtab"
  d_levels :: "level_datum symtab"
  d_cats :: "cat_datum symtab"

text \<open>\<open>enabled\<close> is the position of the enabled branch in the list.\<close>

record avrule_block =
  branch_list :: "avrule_decl list"
  block_enabled :: "nat option"
  block_flags :: u32

subsection \<open>The database\<close>

record policydb =
  policy_type :: u32
  pol_name :: "cstring option"
  pol_version :: "cstring option"
  target_platform :: u32
  mls :: bool
  policyvers :: u32
  handle_unknown :: u32
  p_commons :: "common_datum symtab"
  p_classes :: "class_datum symtab"
  p_roles :: "role_datum symtab"
  p_types :: "type_datum symtab"
  p_users :: "user_datum symtab"
  p_bools :: "cond_bool_datum symtab"
  p_levels :: "level_datum symtab"
  p_cats :: "cat_datum symtab"
  p_common_val_to_name :: "cstring option list"
  p_class_val_to_name :: "cstring option list"
  p_role_val_to_name :: "cstring option list"
  p_type_val_to_name :: "cstring option list"
  p_user_val_to_name :: "cstring option list"
  p_bool_val_to_name :: "cstring option list"
  p_sens_val_to_name :: "cstring option list"
  p_cat_val_to_name :: "cstring option list"
  class_val_to_struct :: "class_datum option list"
  role_val_to_struct :: "role_datum option list"
  user_val_to_struct :: "user_datum option list"
  type_val_to_struct :: "type_datum option list"
  p_scope :: "scope_datum symtab list"
  global :: "avrule_block list"
  decl_val_to_struct :: "(nat \<times> nat) option list"
  bool_val_to_struct :: "cond_bool_datum option list"
  te_avtab :: avtab
  te_cond_avtab :: avtab
  cond_list :: "cond_node list"
  role_tr :: "role_trans list"
  role_allows :: "role_allow list"
  ocontexts :: "ocontext list list"
  genfs_list :: "genfs list"
  range_tr :: "(range_trans, mls_range) hashtab"
  filename_trans :: "(filename_trans_key, filename_trans_datum list) hashtab"
  filename_trans_count :: u32
  type_attr_map :: "ebitmap list"
  attr_type_map :: "ebitmap list"
  policycaps :: ebitmap
  permissive_map :: ebitmap
  process_class :: u16
  dir_class :: u16
  process_trans :: u32
  process_trans_dyntrans :: u32

definition OBJECT_R_VAL :: u32 where "OBJECT_R_VAL = 1"

text \<open>\<open>arr[v - 1]\<close> with the subtraction in 32 bits.\<close>

definition val_get :: "'a option list \<Rightarrow> u32 \<Rightarrow> 'a option" where
  "val_get arr v = (if unat (v - 1) < length arr then arr ! unat (v - 1) else None)"

definition idx_get :: "'a option list \<Rightarrow> u32 \<Rightarrow> 'a option" where
  "idx_get arr i = (if unat i < length arr then arr ! unat i else None)"

text \<open>The value of a symbol is in use: not 0 and at most the number of primary symbols.\<close>

definition value_ok :: "'d symtab \<Rightarrow> u32 \<Rightarrow> bool" where
  "value_ok t v \<longleftrightarrow> v \<noteq> 0 \<and> v \<le> nprim t"

subsection \<open>Range and filename transitions\<close>

definition spaceship_cmp :: "u32 \<Rightarrow> u32 \<Rightarrow> int" where
  "spaceship_cmp a b = of_bool (a > b) - of_bool (a < b)"

definition rangetr_hash :: "u32 \<Rightarrow> range_trans \<Rightarrow> u32" where
  "rangetr_hash sz key =
     (rtr_source_type key + push_bit 3 (rtr_target_type key) + push_bit 5 (rtr_target_class key)) AND (sz - 1)"

definition rangetr_cmp :: "range_trans \<Rightarrow> range_trans \<Rightarrow> int" where
  "rangetr_cmp key1 key2 =
     (let v = spaceship_cmp (rtr_source_type key1) (rtr_source_type key2) in
      if v \<noteq> 0 then v
      else (let v = spaceship_cmp (rtr_target_type key1) (rtr_target_type key2) in
            if v \<noteq> 0 then v
            else spaceship_cmp (rtr_target_class key1) (rtr_target_class key2)))"

definition partial_name_hash :: "u64 \<Rightarrow> u64 \<Rightarrow> u64" where
  "partial_name_hash c prevhash = (prevhash + push_bit 4 c + drop_bit 4 c) * 11"

definition filenametr_hash :: "u32 \<Rightarrow> filename_trans_key \<Rightarrow> u32" where
  "filenametr_hash sz ft =
     (let hash = foldl (\<lambda>hash focus. partial_name_hash (ucast focus) hash)
                   (ucast (ft_ttype ft XOR ft_tclass ft)) (ft_name ft)
      in ucast (hash AND ucast (sz - 1)))"

definition filenametr_cmp :: "filename_trans_key \<Rightarrow> filename_trans_key \<Rightarrow> int" where
  "filenametr_cmp ft1 ft2 =
     (let v = spaceship_cmp (ft_ttype ft1) (ft_ttype ft2) in
      if v \<noteq> 0 then v
      else (let v = spaceship_cmp (ft_tclass ft1) (ft_tclass ft2) in
            if v \<noteq> 0 then v else strcmp (ft_name ft1) (ft_name ft2)))"

lemma spaceship_cases:
  "spaceship_cmp a b = 0 \<longleftrightarrow> a = b" "spaceship_cmp a b > 0 \<longleftrightarrow> a > b" "spaceship_cmp a b < 0 \<longleftrightarrow> a < b"
  by (auto simp: spaceship_cmp_def)

lemma mask_less: "sz \<noteq> 0 \<Longrightarrow> x AND (sz - 1) < (sz :: u32)"
proof -
  assume "sz \<noteq> 0"
  then have "sz - 1 < sz" by (simp add: word_less_nat_alt unat_minus_one unat_gt_0)
  then show ?thesis using word_and_le1 [of x "sz - 1"] by (rule le_less_trans [rotated])
qed

lemma filenametr_hash_mask: "\<exists>x. filenametr_hash sz ft = x AND (sz - 1)"
proof -
  have "ucast (w AND ucast (sz - 1)) = (ucast w :: u32) AND (sz - 1)" for w :: u64
    by (rule bit_word_eqI) (simp add: bit_simps)
  then show ?thesis by (auto simp: filenametr_hash_def Let_def)
qed

interpretation rtr: hash_keys rangetr_hash rangetr_cmp
proof
  fix a b c :: range_trans and sz :: u32 and k
  show "sz \<noteq> 0 \<Longrightarrow> rangetr_hash sz k < sz" by (simp add: rangetr_hash_def mask_less)
  show "(rangetr_cmp a b = 0) = (a = b)"
    by (cases a, cases b) (auto simp: rangetr_cmp_def Let_def spaceship_cases)
  show "(0 < rangetr_cmp a b) = (rangetr_cmp b a < 0)"
    by (auto simp: rangetr_cmp_def Let_def spaceship_cases)
  show "rangetr_cmp a c < 0" if "rangetr_cmp a b < 0" "rangetr_cmp b c < 0"
    using that by (auto simp: rangetr_cmp_def Let_def spaceship_cases split: if_splits)
qed

interpretation ftr: hash_keys filenametr_hash filenametr_cmp
proof
  fix a b c :: filename_trans_key and sz :: u32 and k
  show "sz \<noteq> 0 \<Longrightarrow> filenametr_hash sz k < sz" using filenametr_hash_mask mask_less by metis
  show "(filenametr_cmp a b = 0) = (a = b)"
    by (cases a, cases b) (auto simp: filenametr_cmp_def Let_def spaceship_cases strcmp_eq)
  show "(0 < filenametr_cmp a b) = (filenametr_cmp b a < 0)"
    by (auto simp: filenametr_cmp_def Let_def spaceship_cases strcmp_anti)
  show "filenametr_cmp a c < 0" if "filenametr_cmp a b < 0" "filenametr_cmp b c < 0"
    using that strcmp_trans [of "ft_name a" "ft_name b" "ft_name c"]
    by (auto simp: filenametr_cmp_def Let_def spaceship_cases split: if_splits)
qed

end
