(* ===== verification/Mls.thy ===== *)
theory Mls
  imports Policydb
begin

section \<open>The MLS policy\<close>

text \<open>
  libsepol/src/mls.c: the textual form of MLS ranges and its parser, the validity of the MLS
  part of a context, and the computation of ranges. A \<open>char *\<close> that advances through a string
  is the suffix it points to; the buffer a function writes through a \<open>char **\<close> is the list of
  the bytes written. A value without a name, undefined in C, has the empty name.
\<close>

definition name_of :: "cstring option list \<Rightarrow> u32 \<Rightarrow> cstring" where
  \<comment> \<open>\<open>names[v - 1]\<close>\<close>
  "name_of arr v = (case val_get arr v of Some n \<Rightarrow> n | None \<Rightarrow> [])"

definition cat_name :: "policydb \<Rightarrow> u32 \<Rightarrow> cstring" where
  "cat_name p i = (case idx_get (p_cat_val_to_name p) i of Some n \<Rightarrow> n | None \<Rightarrow> [])"

subsection \<open>Iterating over all bits of a bitmap\<close>

text \<open>\<open>ebitmap_for_each_bit\<close>: the positions visited, whether the bit is set there, and the value of
  the loop variable after the loop. Positions between the nodes are not visited.\<close>

function ebitmap_each_bit_from :: "u32 \<Rightarrow> ebitmap_node list \<Rightarrow> u32 \<Rightarrow> (u32 \<times> bool) list \<times> u32" where
  "ebitmap_each_bit_from len ns b =
     (case ns of
        [] \<Rightarrow> ([], b)
      | n # _ \<Rightarrow>
          if b < len
          then (let (ns', b') = ebitmap_next ns b;
                    (vs, i) = ebitmap_each_bit_from len ns' b'
                in ((b, ebitmap_node_get_bit n b) # vs, i))
          else ([], b))"
  by pat_completeness auto
termination
proof (relation "measures [\<lambda>(len, ns, b). length ns, \<lambda>(len, ns, b). 4294967296 - unat b]", goal_cases)
  case 2
  then show ?case by (intro ebitmap_next_progress) auto
qed simp

declare ebitmap_each_bit_from.simps [simp del]

definition ebitmap_each_bit :: "ebitmap \<Rightarrow> (u32 \<times> bool) list \<times> u32" where
  "ebitmap_each_bit e = ebitmap_each_bit_from (ebitmap_length e) (node e) (ebitmap_startbit e)"

subsection \<open>Printing\<close>

abbreviation colon :: u8 where "colon \<equiv> 0x3A"
abbreviation comma :: u8 where "comma \<equiv> 0x2C"
abbreviation dot :: u8 where "dot \<equiv> 0x2E"
abbreviation dash :: u8 where "dash \<equiv> 0x2D"
abbreviation dollar :: u8 where "dollar \<equiv> 0x24"

text \<open>The body of the category loop of \<open>mls_compute_context_len\<close>, on \<open>len\<close> and \<open>range\<close>.\<close>

definition cat_len_step :: "policydb \<Rightarrow> u32 \<times> bool \<Rightarrow> u32 \<times> nat \<Rightarrow> u32 \<times> nat" where
  "cat_len_step p v s =
     (case (v, s) of ((i, isset), (len, rng)) \<Rightarrow>
        if isset
        then (if rng \<noteq> 0 then (len, rng + 1)
              else (len + word_of_nat (length (cat_name p i)) + 1, rng + 1))
        else (if rng > 1 then len + word_of_nat (length (cat_name p (i - 1))) + 1 else len, 0))"

definition level_len :: "policydb \<Rightarrow> mls_level \<Rightarrow> u32 \<Rightarrow> u32" where
  "level_len p l len0 =
     (let (vs, i) = ebitmap_each_bit (cat l);
          (len, rng) = fold (cat_len_step p) vs (len0 + word_of_nat (length (name_of (p_sens_val_to_name p) (sens l))), 0)
      in if rng > 1 then len + word_of_nat (length (cat_name p (i - 1))) + 1 else len)"

definition mls_compute_context_len :: "policydb \<Rightarrow> context_struct \<Rightarrow> u32" where
  "mls_compute_context_len p c =
     (if \<not> mls p then 0
      else (let len = level_len p (level0 (c_range c)) 1
            in if mls_level_eq (level0 (c_range c)) (level1 (c_range c)) then len
               else level_len p (level1 (c_range c)) (len + 1)))"

text \<open>The body of the category loop of \<open>mls_sid_to_context\<close>, on the bytes written, \<open>range\<close> and
  \<open>wrote_sep\<close>; \<open>close_range\<close> writes the end of a run of categories.\<close>

definition close_range :: "policydb \<Rightarrow> u32 \<Rightarrow> nat \<Rightarrow> cstring \<Rightarrow> cstring" where
  "close_range p i rng out =
     (if rng > 1 then out @ (if rng > 2 then dot else comma) # cat_name p (i - 1) else out)"

definition cat_print_step :: "policydb \<Rightarrow> u32 \<times> bool \<Rightarrow> cstring \<times> nat \<times> bool \<Rightarrow> cstring \<times> nat \<times> bool" where
  "cat_print_step p v s =
     (case (v, s) of ((i, isset), (out, rng, wrote_sep)) \<Rightarrow>
        if isset
        then (if rng \<noteq> 0 then (out, rng + 1, wrote_sep)
              else (out @ (if wrote_sep then comma else colon) # cat_name p i, rng + 1, True))
        else (close_range p i rng out, 0, wrote_sep))"

definition level_print :: "policydb \<Rightarrow> mls_level \<Rightarrow> cstring" where
  "level_print p l =
     (let (vs, i) = ebitmap_each_bit (cat l);
          (out, rng, wrote_sep) = fold (cat_print_step p) vs (name_of (p_sens_val_to_name p) (sens l), 0, False)
      in close_range p i rng out)"

definition mls_sid_to_context :: "policydb \<Rightarrow> context_struct \<Rightarrow> cstring" where
  "mls_sid_to_context p c =
     (if \<not> mls p then []
      else colon # level_print p (level0 (c_range c)) @
        (if mls_level_eq (level0 (c_range c)) (level1 (c_range c)) then []
         else dash # level_print p (level1 (c_range c))))"

text \<open>\<open>mls_to_string\<close> drops the leading colon; it is called for MLS policies only.\<close>

definition mls_to_string :: "policydb \<Rightarrow> context_struct \<Rightarrow> cstring hp" where
  "mls_to_string p c =
     hbind (hmalloc EFAIL) (\<lambda>_. hbind (hmalloc EFAIL) (\<lambda>_. hret (drop 1 (mls_sid_to_context p c))))"

subsection \<open>Validity\<close>

definition level_isvalid :: "policydb \<Rightarrow> mls_level \<Rightarrow> bool" where
  "level_isvalid p l \<longleftrightarrow>
     value_ok (p_levels p) (sens l) \<and>
     (case val_get (p_sens_val_to_name p) (sens l) of
        None \<Rightarrow> False
      | Some key \<Rightarrow>
          (case hashtab_search (table (p_levels p)) key of
             None \<Rightarrow> False
           | Some levdatum \<Rightarrow>
               list_all (\<lambda>i. \<not> i > nprim (p_cats p) \<and> ebitmap_get_bit (cat (level levdatum)) i)
                 (ebitmap_positive_bits (cat l))))"

definition mls_context_isvalid :: "policydb \<Rightarrow> context_struct \<Rightarrow> bool" where
  "mls_context_isvalid p c \<longleftrightarrow>
     (if \<not> mls p then True
      else if \<not> mls_level_dom (level1 (c_range c)) (level0 (c_range c)) then False
      else if \<not> (level_isvalid p (level0 (c_range c)) \<and> level_isvalid p (level1 (c_range c))) then False
      else if c_role c = OBJECT_R_VAL then True
      else if \<not> value_ok (p_users p) (c_user c) then False
      else (case val_get (user_val_to_struct p) (c_user c) of
              None \<Rightarrow> False
            | Some usrdatum \<Rightarrow> mls_range_contains (exp_range usrdatum) (c_range c)))"

subsection \<open>Parsing\<close>

text \<open>Scan to the first byte in \<open>stops\<close>: the token before it, the delimiter (0 at the end of the
  string) and the rest after the delimiter.\<close>

definition next_token :: "u8 list \<Rightarrow> cstring \<Rightarrow> cstring \<times> u8 \<times> cstring" where
  "next_token stops s =
     (takeWhile (\<lambda>c. c \<notin> set stops) s,
      (case dropWhile (\<lambda>c. c \<notin> set stops) s of [] \<Rightarrow> (0, []) | d # r \<Rightarrow> (d, r)))"

text \<open>\<open>strchr(scontextp, '.')\<close>\<close>

definition split_dot :: "cstring \<Rightarrow> cstring \<times> cstring option" where
  "split_dot tok =
     (takeWhile (\<lambda>c. c \<noteq> dot) tok,
      (case dropWhile (\<lambda>c. c \<noteq> dot) tok of [] \<Rightarrow> None | _ # r \<Rightarrow> Some r))"

definition set_bits :: "u32 list \<Rightarrow> ebitmap \<Rightarrow> ebitmap hp" where
  "set_bits is e = foldl (\<lambda>m i. hbind m (\<lambda>e h. ebitmap_set_bit h e i 1)) (hret e) is"

definition cats_set :: "policydb \<Rightarrow> cstring \<Rightarrow> ebitmap \<Rightarrow> ebitmap hp" where
  "cats_set p tok e =
     (let (first, rngptr) = split_dot tok in
      case hashtab_search (table (p_cats p)) first of
        None \<Rightarrow> hfail EFAIL
      | Some catdatum \<Rightarrow>
          hbind (\<lambda>h. ebitmap_set_bit h e (cat_value catdatum - 1) 1) (\<lambda>e.
          case rngptr of
            None \<Rightarrow> hret e
          | Some r \<Rightarrow>
              (case hashtab_search (table (p_cats p)) r of
                 None \<Rightarrow> hfail EFAIL
               | Some rngdatum \<Rightarrow>
                   if cat_value catdatum \<ge> cat_value rngdatum then hfail EFAIL
                   else set_bits (map word_of_nat [unat (cat_value catdatum)..<unat (cat_value rngdatum)]) e)))"

lemma next_token_shorter: "next_token stops s = (tok, d, r) \<Longrightarrow> d \<noteq> 0 \<Longrightarrow> length r < length s"
  using length_dropWhile_le [of "\<lambda>c. c \<notin> set stops" s]
  by (auto simp: next_token_def split: list.splits)

text \<open>The loop over the categories of a level; it returns the delimiter that ended it.\<close>

function cats_parse :: "policydb \<Rightarrow> cstring \<Rightarrow> ebitmap \<Rightarrow> (ebitmap \<times> u8 \<times> cstring) hp" where
  "cats_parse p s e =
     (let (tok, delim, r) = next_token [comma, dash] s in
      hbind (cats_set p tok e) (\<lambda>e. if delim = comma then cats_parse p r e else hret (e, delim, r)))"
  by pat_completeness auto
termination
  by (relation "measure (\<lambda>(p, s, e). length s)") (auto dest!: next_token_shorter [OF sym])

declare cats_parse.simps [simp del]

definition level_parse :: "policydb \<Rightarrow> cstring \<times> u8 \<times> cstring \<Rightarrow> mls_level \<Rightarrow> (mls_level \<times> u8 \<times> cstring) hp" where
  "level_parse p t l =
     (case t of (tok, delim, r) \<Rightarrow>
      case hashtab_search (table (p_levels p)) tok of
        None \<Rightarrow> hfail EFAIL
      | Some levdatum \<Rightarrow>
          if delim = colon
          then hbind (cats_parse p r (cat l)) (\<lambda>(e, delim, r). hret (\<lparr>sens = sens (level levdatum), cat = e\<rparr>, delim, r))
          else hret (l\<lparr>sens := sens (level levdatum)\<rparr>, delim, r))"

text \<open>The position behind the parsed text, which the only caller discards, is left out.\<close>

definition mls_context_to_sid :: "policydb \<Rightarrow> u8 \<Rightarrow> cstring \<Rightarrow> context_struct \<Rightarrow> context_struct hp" where
  "mls_context_to_sid p oldc s c =
     (if \<not> mls p then hret c
      else if oldc = 0 then hfail EFAIL
      else herr EFAIL
        (hbind (level_parse p (next_token [colon, dash] s) (level0 (c_range c))) (\<lambda>(l0, delim, r).
         if delim = dash
         then hbind (level_parse p (next_token [colon] r) (level1 (c_range c))) (\<lambda>(l1, delim, r).
                hret (c\<lparr>c_range := \<lparr>level0 = l0, level1 = l1\<rparr>\<rparr>))
         else hbind (mls_level_cpy l0) (\<lambda>l1. hret (c\<lparr>c_range := \<lparr>level0 = l0, level1 = l1\<rparr>\<rparr>)))))"

definition mls_from_string :: "policydb \<Rightarrow> cstring \<Rightarrow> context_struct \<Rightarrow> context_struct hp" where
  "mls_from_string p str c = hbind (hmalloc EFAIL) (\<lambda>_. herr EFAIL (mls_context_to_sid p dollar str c))"

definition sepol_mls_contains :: "policydb \<Rightarrow> cstring \<Rightarrow> cstring \<Rightarrow> bool hp" where
  "sepol_mls_contains p mls1 mls2 =
     hbind (hmalloc EFAIL) (\<lambda>_. hbind (hmalloc EFAIL) (\<lambda>_.
     hbind (mls_from_string p mls1 context_init) (\<lambda>ctx1.
     hbind (mls_from_string p mls2 context_init) (\<lambda>ctx2.
     hret (mls_range_contains (c_range ctx1) (c_range ctx2))))))"

definition sepol_mls_check :: "policydb \<Rightarrow> cstring \<Rightarrow> unit hp" where
  "sepol_mls_check p str =
     hbind (hmalloc EFAIL) (\<lambda>_. hbind (mls_from_string p str context_init) (\<lambda>_. hret ()))"

subsection \<open>Computing ranges\<close>

text \<open>\<open>mls_copy_context\<close>, \<open>mls_scopy_context\<close> and \<open>mls_range_set\<close> copy two levels in turn.\<close>

definition set_range :: "mls_level \<Rightarrow> mls_level \<Rightarrow> context_struct \<Rightarrow> context_struct hp" where
  "set_range l0 l1 dst =
     hbind (\<lambda>h. ebitmap_cpy h (cat l0)) (\<lambda>c0.
     hbind (\<lambda>h. ebitmap_cpy h (cat l1)) (\<lambda>c1.
     hret (dst\<lparr>c_range := \<lparr>level0 = \<lparr>sens = sens l0, cat = c0\<rparr>, level1 = \<lparr>sens = sens l1, cat = c1\<rparr>\<rparr>\<rparr>)))"

definition mls_copy_context :: "context_struct \<Rightarrow> context_struct \<Rightarrow> context_struct hp" where
  "mls_copy_context dst src = set_range (level0 (c_range src)) (level1 (c_range src)) dst"

definition mls_scopy_context :: "context_struct \<Rightarrow> context_struct \<Rightarrow> context_struct hp" where
  "mls_scopy_context dst src = set_range (level0 (c_range src)) (level0 (c_range src)) dst"

definition mls_range_set :: "context_struct \<Rightarrow> mls_range \<Rightarrow> context_struct hp" where
  "mls_range_set dst r = set_range (level0 r) (level1 r) dst"

definition mls_setup_user_range ::
  "context_struct \<Rightarrow> user_datum \<Rightarrow> context_struct \<Rightarrow> bool \<Rightarrow> errno + context_struct" where
  "mls_setup_user_range fromcon user usercon is_mls =
     (if is_mls then
        (let fromcon_sen = level0 (c_range fromcon); fromcon_clr = level1 (c_range fromcon);
             user_low = level0 (exp_range user); user_clr = level1 (exp_range user);
             user_def = exp_dfltlevel user;
             sen = (if mls_level_between user_def fromcon_sen fromcon_clr then Some user_def
                    else if mls_level_between fromcon_sen user_def user_clr then Some fromcon_sen
                    else if mls_level_between fromcon_clr user_low user_def then Some user_low
                    else None)
         in case sen of
              None \<Rightarrow> Inl EINVAL
            | Some s \<Rightarrow>
                if mls_level_dom user_clr fromcon_clr
                then Inr (usercon\<lparr>c_range := \<lparr>level0 = s, level1 = fromcon_clr\<rparr>\<rparr>)
                else if mls_level_dom fromcon_clr user_clr
                then Inr (usercon\<lparr>c_range := \<lparr>level0 = s, level1 = user_clr\<rparr>\<rparr>)
                else Inl EINVAL)
      else Inr usercon)"

text \<open>The categories of a level renumbered from one policy to another.\<close>

fun convert_cats :: "policydb \<Rightarrow> policydb \<Rightarrow> u32 list \<Rightarrow> ebitmap \<Rightarrow> ebitmap hp" where
  "convert_cats oldp newp [] bitmap = hret bitmap"
| "convert_cats oldp newp (i # is) bitmap =
     (case hashtab_search (table (p_cats newp)) (cat_name oldp i) of
        None \<Rightarrow> hfail EINVAL
      | Some catdatum \<Rightarrow>
          hbind (\<lambda>h. ebitmap_set_bit h bitmap (cat_value catdatum - 1) 1) (convert_cats oldp newp is))"

definition convert_level :: "policydb \<Rightarrow> policydb \<Rightarrow> mls_level \<Rightarrow> mls_level hp" where
  "convert_level oldp newp l =
     (case hashtab_search (table (p_levels newp)) (name_of (p_sens_val_to_name oldp) (sens l)) of
        None \<Rightarrow> hfail EINVAL
      | Some levdatum \<Rightarrow>
          hbind (convert_cats oldp newp (ebitmap_positive_bits (cat l)) ebitmap_init) (\<lambda>bitmap.
          hret \<lparr>sens = sens (level levdatum), cat = bitmap\<rparr>))"

definition mls_convert_context :: "policydb \<Rightarrow> policydb \<Rightarrow> context_struct \<Rightarrow> context_struct hp" where
  "mls_convert_context oldp newp c =
     (if \<not> mls oldp then hret c
      else hbind (convert_level oldp newp (level0 (c_range c))) (\<lambda>l0.
           hbind (convert_level oldp newp (level1 (c_range c))) (\<lambda>l1.
           hret (c\<lparr>c_range := \<lparr>level0 = l0, level1 = l1\<rparr>\<rparr>))))"

definition DEFAULT_SOURCE :: u8 where "DEFAULT_SOURCE = 1"
definition DEFAULT_TARGET :: u8 where "DEFAULT_TARGET = 2"
definition DEFAULT_SOURCE_LOW :: u8 where "DEFAULT_SOURCE_LOW = 1"
definition DEFAULT_SOURCE_HIGH :: u8 where "DEFAULT_SOURCE_HIGH = 2"
definition DEFAULT_SOURCE_LOW_HIGH :: u8 where "DEFAULT_SOURCE_LOW_HIGH = 3"
definition DEFAULT_TARGET_LOW :: u8 where "DEFAULT_TARGET_LOW = 4"
definition DEFAULT_TARGET_HIGH :: u8 where "DEFAULT_TARGET_HIGH = 5"
definition DEFAULT_TARGET_LOW_HIGH :: u8 where "DEFAULT_TARGET_LOW_HIGH = 6"
definition DEFAULT_GLBLUB :: u8 where "DEFAULT_GLBLUB = 7"

text \<open>The \<open>AVTAB_CHANGE\<close> case, into which \<open>AVTAB_TRANSITION\<close> falls through.\<close>

definition mls_change_range :: "policydb \<Rightarrow> context_struct \<Rightarrow> u16 \<Rightarrow> context_struct \<Rightarrow> context_struct hp" where
  "mls_change_range p scontext tclass newcontext =
     (if tclass = process_class p then mls_copy_context newcontext scontext
      else mls_scopy_context newcontext scontext)"

definition class_default_range :: "policydb \<Rightarrow> u16 \<Rightarrow> u8" where
  "class_default_range p tclass =
     (if value_ok (p_classes p) (ucast tclass)
      then (case val_get (class_val_to_struct p) (ucast tclass) of Some c \<Rightarrow> default_range c | None \<Rightarrow> 0)
      else 0)"

definition mls_compute_sid ::
  "policydb \<Rightarrow> context_struct \<Rightarrow> context_struct \<Rightarrow> u16 \<Rightarrow> u32 \<Rightarrow> context_struct \<Rightarrow> context_struct hp" where
  "mls_compute_sid p scontext tcontext tclass spec newcontext =
     (if \<not> mls p then hret newcontext
      else if spec = ucast AVTAB_TRANSITION then
        (case hashtab_search (range_tr p) \<lparr>rtr_source_type = c_type scontext, rtr_target_type = c_type tcontext,
                 rtr_target_class = ucast tclass\<rparr> of
           Some r \<Rightarrow> mls_range_set newcontext r
         | None \<Rightarrow>
             (let d = class_default_range p tclass in
              if d = DEFAULT_SOURCE_LOW then mls_context_cpy_low newcontext scontext
              else if d = DEFAULT_SOURCE_HIGH then mls_context_cpy_high newcontext scontext
              else if d = DEFAULT_SOURCE_LOW_HIGH then mls_context_cpy newcontext scontext
              else if d = DEFAULT_TARGET_LOW then mls_context_cpy_low newcontext tcontext
              else if d = DEFAULT_TARGET_HIGH then mls_context_cpy_high newcontext tcontext
              else if d = DEFAULT_TARGET_LOW_HIGH then mls_context_cpy newcontext tcontext
              else if d = DEFAULT_GLBLUB then mls_context_glblub newcontext scontext tcontext
              else mls_change_range p scontext tclass newcontext))
      else if spec = ucast AVTAB_CHANGE then mls_change_range p scontext tclass newcontext
      else if spec = ucast AVTAB_MEMBER then mls_context_cpy_low newcontext scontext
      else hfail EINVAL)"

end
