(* ===== verification/Mls_Laws.thy ===== *)
theory Mls_Laws
  imports Mls
begin

section \<open>Laws of the MLS policy\<close>

text \<open>
  Lemmas about libsepol/src/mls.c: the computed length is that of the printed text, computed
  ranges are valid, and the textual form of a level names exactly its categories, so that
  parsing it gives the level back, as long as no run of categories ends at the end of a bitmap
  node that is followed by a gap.
\<close>

subsection \<open>Length and text\<close>

lemma cat_steps_agree:
  assumes "fold (cat_print_step p) vs (out, rng, sep) = (out', rng', sep')"
  shows "fold (cat_len_step p) vs (k + word_of_nat (length out), rng) = (k + word_of_nat (length out'), rng')"
  using assms
proof (induction vs arbitrary: out rng sep)
  case (Cons v vs)
  obtain i s where v: "v = (i, s)" by fastforce
  obtain o1 r1 s1 where one: "cat_print_step p v (out, rng, sep) = (o1, r1, s1)" by (rule prod_cases3)
  then have "cat_len_step p v (k + word_of_nat (length out), rng) = (k + word_of_nat (length o1), r1)"
    by (auto simp: v cat_print_step_def cat_len_step_def close_range_def algebra_simps split: if_splits)
  with Cons.IH [of o1 r1 s1] Cons.prems one show ?case by simp
qed simp

lemma level_len_print: "level_len p l k = k + word_of_nat (length (level_print p l))"
proof -
  obtain vs i where vs: "ebitmap_each_bit (cat l) = (vs, i)" by fastforce
  obtain out rng sep where f: "fold (cat_print_step p) vs (name_of (p_sens_val_to_name p) (sens l), 0, False) = (out, rng, sep)"
    by (rule prod_cases3)
  show ?thesis
    using cat_steps_agree [OF f, of k]
    by (simp add: level_len_def level_print_def vs f close_range_def algebra_simps)
qed

lemma context_len_text: "mls_compute_context_len p c = word_of_nat (length (mls_sid_to_context p c))"
  by (simp add: mls_compute_context_len_def mls_sid_to_context_def level_len_print Let_def algebra_simps)

subsection \<open>Computed ranges\<close>

lemma hgives_set_range [hgives_intros]:
  "P (dst\<lparr>c_range := \<lparr>level0 = l0, level1 = l1\<rparr>\<rparr>) \<Longrightarrow> hgives (set_range l0 l1 dst) P E"
  unfolding set_range_def
  by (rule hgives_hbind [where Q = "\<lambda>c. c = cat l0"], intro hgives_intros refl,
      rule hgives_hbind [where Q = "\<lambda>c. c = cat l1"], intro hgives_intros refl, intro hgives_intros) simp

lemma hgives_cpy_low [hgives_intros]:
  "P (dst\<lparr>c_range := \<lparr>level0 = level0 (c_range src), level1 = level0 (c_range src)\<rparr>\<rparr>) \<Longrightarrow> hgives (mls_context_cpy_low dst src) P E"
  unfolding mls_context_cpy_low_def
  by (rule hgives_hbind [where Q = "\<lambda>r. r = \<lparr>level0 = level0 (c_range src), level1 = level0 (c_range src)\<rparr>"])
    (auto intro!: hgives_intros)

lemma hgives_cpy_high [hgives_intros]:
  "P (dst\<lparr>c_range := \<lparr>level0 = level1 (c_range src), level1 = level1 (c_range src)\<rparr>\<rparr>) \<Longrightarrow> hgives (mls_context_cpy_high dst src) P E"
  unfolding mls_context_cpy_high_def
  by (rule hgives_hbind [where Q = "\<lambda>r. r = \<lparr>level0 = level1 (c_range src), level1 = level1 (c_range src)\<rparr>"])
    (auto intro!: hgives_intros)

lemma single_level_valid: "level_wf l \<Longrightarrow> range_valid \<lparr>level0 = l, level1 = l\<rparr>"
  by (simp add: range_valid_def range_wf_def lvl.dom_refl)

lemma hgives_change_range:
  assumes "range_valid (c_range scontext)"
  shows "hgives (mls_change_range p scontext tclass newcontext) (\<lambda>c. range_valid (c_range c)) E"
  using assms single_level_valid [of "level0 (c_range scontext)"]
  by (auto simp: mls_change_range_def mls_copy_context_def mls_scopy_context_def range_valid_def range_wf_def
      intro!: hgives_intros)

lemma hgives_glblub:
  assumes "range_valid (c_range c1)" "range_valid (c_range c2)" "E EINVAL"
  shows "hgives (mls_context_glblub dst c1 c2) (\<lambda>c. range_valid (c_range c)) E"
  unfolding mls_context_glblub_def
  by (rule hgives_hbind [OF hgives_weaken [OF glblub_gives [OF assms(1,2)]]])
    (use assms(3) in \<open>auto intro!: hgives_intros\<close>)

text \<open>The ranges of the range transition rules are valid.\<close>

definition range_tr_valid :: "policydb \<Rightarrow> bool" where
  "range_tr_valid p \<longleftrightarrow> (\<forall>k r. hashtab_search (range_tr p) k = Some r \<longrightarrow> range_valid r)"

lemma compute_sid_valid:
  assumes s: "range_valid (c_range scontext)" and t: "range_valid (c_range tcontext)"
    and n: "range_valid (c_range newcontext)" and tr: "range_tr_valid p"
  shows "hgives (mls_compute_sid p scontext tcontext tclass spec newcontext)
    (\<lambda>c. range_valid (c_range c)) (\<lambda>e. e = EINVAL)"
proof -
  have lo: "level_wf (level0 (c_range scontext))" "level_wf (level0 (c_range tcontext))"
      "level_wf (level1 (c_range scontext))" "level_wf (level1 (c_range tcontext))"
    using s t by (simp_all add: range_valid_def range_wf_def)
  note lows = lo [THEN single_level_valid]
  have trans: "range_valid r" if "hashtab_search (range_tr p) k = Some r" for k r
    using tr that by (simp add: range_tr_valid_def)
  show ?thesis
    unfolding mls_compute_sid_def Let_def mls_range_set_def
    by (auto intro!: hgives_intros hgives_glblub hgives_change_range s t n simp: lows dest: trans split: option.splits)
qed

lemma setup_user_range_ok:
  assumes f: "range_valid (c_range fromcon)" and u: "range_wf (exp_range user)" "level_wf (exp_dfltlevel user)"
    and d: "mls_level_dom (exp_dfltlevel user) (level0 (exp_range user))"
      "mls_level_dom (level1 (exp_range user)) (exp_dfltlevel user)"
    and r: "mls_setup_user_range fromcon user usercon True = Inr c"
  shows "range_valid (c_range c) \<and> mls_level_dom (level0 (c_range c)) (level0 (exp_range user)) \<and>
    mls_level_dom (level1 (exp_range user)) (level1 (c_range c)) \<and>
    mls_level_dom (level1 (c_range fromcon)) (level1 (c_range c))"
proof -
  let ?fl = "level0 (c_range fromcon)" and ?fh = "level1 (c_range fromcon)" and ?ul = "level0 (exp_range user)"
    and ?uh = "level1 (exp_range user)" and ?ud = "exp_dfltlevel user"
  let ?s = "level0 (c_range c)" and ?c = "level1 (c_range c)"
  have wf: "level_wf ?fl" "level_wf ?fh" "level_wf ?ul" "level_wf ?uh" "level_wf ?ud" and fd: "mls_level_dom ?fh ?fl"
    using f u by (simp_all add: range_valid_def range_wf_def)
  have s: "if mls_level_dom ?ud ?fl \<and> mls_level_dom ?fh ?ud then ?s = ?ud
      else if mls_level_dom ?fl ?ud \<and> mls_level_dom ?uh ?fl then ?s = ?fl
      else mls_level_dom ?fh ?ul \<and> mls_level_dom ?ud ?fh \<and> ?s = ?ul"
    using r by (auto simp: mls_setup_user_range_def Let_def mls_level_between_def split: if_splits option.splits)
  have c: "if mls_level_dom ?uh ?fh then ?c = ?fh else mls_level_dom ?fh ?uh \<and> ?c = ?uh"
    using r by (auto simp: mls_setup_user_range_def Let_def split: if_splits option.splits)
  have "level_wf ?s" "level_wf ?c" using s c wf by (auto split: if_splits)
  then show ?thesis
    using lvl.user_range_choice [OF wf fd d s c] by (simp add: range_valid_def range_wf_def)
qed

subsection \<open>The walk over the bits of a bitmap\<close>

text \<open>Between two nodes with a gap the walk jumps; a run of categories must not reach the end of
  the earlier node.\<close>

fun runs_dense :: "ebitmap_node list \<Rightarrow> bool" where
  "runs_dense (n # n' # r) \<longleftrightarrow>
     (unat (startbit n') = unat (startbit n) + 64 \<or> \<not> bit (emap n) 63) \<and> runs_dense (n' # r)"
| "runs_dense _ \<longleftrightarrow> True"

text \<open>The visited positions, for the set \<open>B\<close> of members, from position \<open>b\<close> on: a step goes to the
  next position, or from a non-member to a position before which there is no member.\<close>

fun walk :: "nat set \<Rightarrow> nat \<Rightarrow> (u32 \<times> bool) list \<Rightarrow> u32 \<Rightarrow> bool" where
  "walk B b [] i \<longleftrightarrow> unat i = b \<and> (\<forall>x\<in>B. x < b)"
| "walk B b ((x, s) # vs) i \<longleftrightarrow> unat x = b \<and> (s \<longleftrightarrow> b \<in> B) \<and>
     (\<exists>b'>b. (b' = Suc b \<or> b \<notin> B) \<and> (\<forall>y\<in>B. b < y \<longrightarrow> b' \<le> y) \<and> walk B b' vs i)"

lemma next_step:
  assumes ok: "nodes_ok (n # r)" and inb: "unat (startbit n) \<le> unat b" "unat b < unat (startbit n) + 64"
    and nb: "ebitmap_next (n # r) b = (ns', b')" and dense: "runs_dense (n # r)"
  shows "unat b' = Suc (unat b) \<or> unat b \<notin> nodes_bits (n # r)" "unat b < unat b'" "runs_dense ns'" "ns' \<noteq> []"
    "unat b' \<le> unat (startbit (hd ns')) + 64"
proof -
  have n: "unat (startbit n) + 64 < 2 ^ 32" using ok by (simp add: nodes_ok_Cons node_ok_def)
  have suc: "unat (b + 1) = unat b + 1" using n inb unat_add_no_wrap [of b 1] by simp
  have mem: "unat b \<in> nodes_bits (n # r) \<longleftrightarrow> bit (emap n) (unat b - unat (startbit n))"
    using block_mem [OF ok inb] inb(1) by (auto simp: single_node_bits)
  consider (jump) n' r' where "r = n' # r'" "unat b = unat (startbit n) + 63" "ns' = r" "b' = startbit n'"
    | (inc) "ns' = n # r" "b' = b + 1"
    using nb by (auto simp: ebitmap_next_def MAPSIZE_def split: list.splits if_splits)
  then have "(unat b' = Suc (unat b) \<or> unat b \<notin> nodes_bits (n # r)) \<and> unat b < unat b' \<and> runs_dense ns' \<and>
      ns' \<noteq> [] \<and> unat b' \<le> unat (startbit (hd ns')) + 64"
  proof cases
    case jump
    have "unat (startbit n) + 64 \<le> unat (startbit n')"
      using ok jump(1) by (intro aligned_gap) (auto simp: nodes_ok_Cons dest: nodes_ok_memD node_okD)
    then show ?thesis using jump dense mem by auto
  qed (use suc dense inb in auto)
  then show "unat b' = Suc (unat b) \<or> unat b \<notin> nodes_bits (n # r)" "unat b < unat b'" "runs_dense ns'" "ns' \<noteq> []"
      "unat b' \<le> unat (startbit (hd ns')) + 64" by auto
qed

lemma nodes_highbit_ge:
  assumes "nodes_ok ns" "ns \<noteq> []" shows "unat (startbit (hd ns)) + 64 \<le> unat (highbit_of_prev ns)"
proof -
  have "startbit (hd ns) \<le> startbit (last ns)"
    using assms by (cases ns) (auto simp: nodes_ok_def less_imp_le)
  then show ?thesis using unat_highbit_of_prev [OF assms(1)] assms(2) by (simp add: word_le_nat_alt)
qed

lemma each_bit_walk:
  assumes "nodes_ok ns" "len = highbit_of_prev ns" "ns \<noteq> []" "runs_dense ns"
    and "unat (startbit (hd ns)) \<le> unat b" "unat b \<le> unat len"
    and "tl ns \<noteq> [] \<Longrightarrow> unat b < unat (startbit (hd ns)) + 64"
    and "{x \<in> B. unat b \<le> x} = {x \<in> nodes_bits ns. unat b \<le> x}"
    and "ebitmap_each_bit_from len ns b = (vs, i)"
  shows "walk B (unat b) vs i"
  using assms
proof (induction len ns b arbitrary: vs i rule: ebitmap_each_bit_from.induct)
  case (1 len ns b)
  obtain n r where ns: "ns = n # r" using "1.prems"(3) by (cases ns) auto
  have mem: "x \<in> B \<longleftrightarrow> x \<in> nodes_bits ns" if "unat b \<le> x" for x using "1.prems"(8) that by blast
  show ?case
  proof (cases "b < len")
    case False
    have "x < unat b" if "x \<in> B" for x
    proof (rule ccontr)
      assume "\<not> x < unat b"
      with mem that have "x \<in> nodes_bits ns" by simp
      from nodes_bits_less [OF "1.prems"(1) this] "1.prems"(2) False \<open>\<not> x < unat b\<close>
      show False by (simp add: word_less_nat_alt)
    qed
    moreover have "vs = []" "i = b" using "1.prems"(9) False ns by (simp_all add: ebitmap_each_bit_from.simps)
    ultimately show ?thesis by simp
  next
    case True
    obtain ns' b' where nb: "ebitmap_next ns b = (ns', b')" by fastforce
    obtain vs' where vs: "vs = (b, ebitmap_node_get_bit n b) # vs'" "ebitmap_each_bit_from len ns' b' = (vs', i)"
      using "1.prems"(9) True ns nb by (subst (asm) ebitmap_each_bit_from.simps) (auto split: prod.splits)
    have inb: "unat (startbit n) \<le> unat b" "unat b < unat (startbit n) + 64"
      using "1.prems" ns True unat_highbit_of_prev [OF "1.prems"(1)]
      by (auto simp: word_less_nat_alt split: if_splits)
    note nx = next_spec [OF "1.prems"(1) [unfolded ns] inb nb [unfolded ns]]
    note st = next_step [OF "1.prems"(1) [unfolded ns] inb nb [unfolded ns] "1.prems"(4) [unfolded ns]]
    have len': "len = highbit_of_prev ns'" using nx(2) "1.prems"(2) ns by simp
    have set': "{x \<in> B. unat b < x} = {x \<in> nodes_bits ns'. unat b' \<le> x}"
    proof -
      have "{x \<in> B. unat b < x} = {x \<in> nodes_bits ns. unat b < x}" using mem by (auto intro: less_imp_le)
      then show ?thesis using nx(5) ns by simp
    qed
    then have "{x \<in> B. unat b' \<le> x} = {x \<in> nodes_bits ns'. unat b' \<le> x}"
      using st(2) by fastforce
    moreover have "unat b' \<le> unat len"
      using st(5) nodes_highbit_ge [OF nx(1) st(4)] len' by simp
    ultimately have "walk B (unat b') vs' i"
      using "1.IH" [OF ns True nb [symmetric] refl nx(1) len' st(4,3) nx(3) _ nx(4) _ vs(2)] by blast
    moreover have "ebitmap_node_get_bit n b \<longleftrightarrow> unat b \<in> B"
      using node_get_bit_mem [OF inb] block_mem [OF "1.prems"(1) [unfolded ns] inb] ns mem by simp
    moreover have "unat b' = Suc (unat b) \<or> unat b \<notin> B" using st(1) mem ns by simp
    moreover have "\<forall>y\<in>B. unat b < y \<longrightarrow> unat b' \<le> y" using set' by blast
    ultimately show ?thesis using st(2) unfolding vs(1) walk.simps by blast
  qed
qed

text \<open>The text of a category set as a list of tokens: a category, or the first and last category of
  a run.\<close>

type_synonym ctok = "u32 \<times> u32 option"

definition tok_bits :: "ctok \<Rightarrow> nat set" where
  "tok_bits t = (case snd t of None \<Rightarrow> {unat (fst t)} | Some b \<Rightarrow> {unat (fst t)..unat b})"

definition tok_lt :: "ctok \<Rightarrow> bool" where
  "tok_lt t \<longleftrightarrow> (case snd t of None \<Rightarrow> True | Some b \<Rightarrow> unat (fst t) < unat b)"

definition toks_bits :: "ctok list \<Rightarrow> nat set" where
  "toks_bits ts = (\<Union>t\<in>set ts. tok_bits t)"

definition tok_close :: "u32 \<Rightarrow> nat \<Rightarrow> ctok list \<Rightarrow> ctok list" where
  "tok_close i rng ts =
     (if rng > 2 then butlast ts @ [(fst (last ts), Some (i - 1))]
      else if rng > 1 then ts @ [(i - 1, None)] else ts)"

definition tok_step :: "u32 \<times> bool \<Rightarrow> ctok list \<times> nat \<Rightarrow> ctok list \<times> nat" where
  "tok_step v s =
     (case (v, s) of ((i, isset), (ts, rng)) \<Rightarrow>
        if isset then (if rng \<noteq> 0 then (ts, rng + 1) else (ts @ [(i, None)], rng + 1))
        else (tok_close i rng ts, 0))"

text \<open>The state between two steps: below position \<open>b\<close> the tokens and the open run are the members.\<close>

definition tok_inv :: "nat set \<Rightarrow> nat \<Rightarrow> ctok list \<times> nat \<Rightarrow> bool" where
  "tok_inv B b s \<longleftrightarrow>
     (case s of (ts, rng) \<Rightarrow> (\<forall>t\<in>set ts. tok_lt t) \<and>
        (if rng = 0 then toks_bits ts = B \<inter> {..<b}
         else rng \<le> b \<and> (\<exists>pre a. ts = pre @ [(a, None)] \<and> unat a = b - rng \<and>
                toks_bits pre = B \<inter> {..<b - rng} \<and> {b - rng..<b} \<subseteq> B)))"

lemma toks_bits_simps [simp]: "toks_bits [] = {}" "toks_bits (t # ts) = tok_bits t \<union> toks_bits ts"
    "toks_bits (ts @ us) = toks_bits ts \<union> toks_bits us"
  by (auto simp: toks_bits_def)

lemma tok_close_bits:
  assumes "tok_inv B b (ts, rng)" "unat i = b"
  shows "toks_bits (tok_close i rng ts) = B \<inter> {..<b} \<and> (\<forall>t\<in>set (tok_close i rng ts). tok_lt t)"
proof (cases "rng = 0")
  case True
  with assms show ?thesis by (simp add: tok_inv_def tok_close_def)
next
  case False
  obtain pre a where *: "rng \<le> b" "ts = pre @ [(a, None)]" "unat a = b - rng"
      "toks_bits pre = B \<inter> {..<b - rng}" "{b - rng..<b} \<subseteq> B" "\<forall>t\<in>set pre. tok_lt t"
    using assms(1) False by (auto simp: tok_inv_def)
  have i1: "unat (i - 1) = b - 1" using assms(2) * False by (subst unat_minus_one) (auto simp: unat_gt_0 simp flip: unat_eq_0)
  have split: "B \<inter> {..<b} = B \<inter> {..<b - rng} \<union> {b - rng..<b}" using *(1,5) by auto
  consider "rng = 1" | "rng = 2" | "rng > 2" using False by linarith
  then show ?thesis
  proof cases
    case 1
    then have "{b - rng..<b} = {unat a}" using *(1,3) by auto
    then show ?thesis using * 1 split by (simp add: tok_close_def tok_bits_def tok_lt_def Un_commute)
  next
    case 2
    then have "{b - rng..<b} = {unat a, unat (i - 1)}" using *(1,3) i1 by auto
    then show ?thesis using * 2 split by (auto simp: tok_close_def tok_bits_def tok_lt_def)
  next
    case 3
    then have "{b - rng..<b} = {unat a..unat (i - 1)}" using *(1,3) i1 by auto
    then show ?thesis using * 3 split i1 by (auto simp: tok_close_def tok_bits_def tok_lt_def)
  qed
qed

lemma tok_step_inv:
  assumes "tok_inv B (unat x) st" "s \<longleftrightarrow> unat x \<in> B" "unat x < b'" "b' = Suc (unat x) \<or> unat x \<notin> B"
    and "\<forall>y\<in>B. unat x < y \<longrightarrow> b' \<le> y"
  shows "tok_inv B b' (tok_step (x, s) st)"
proof -
  obtain ts rng where st: "st = (ts, rng)" by fastforce
  have below: "B \<inter> {..<b'} = B \<inter> {..<unat x} \<union> (B \<inter> {unat x})"
    using assms(3,5) by (auto simp: not_le)
  show ?thesis
  proof (cases s)
    case False
    then have "toks_bits (tok_close x rng ts) = B \<inter> {..<b'} \<and> (\<forall>t\<in>set (tok_close x rng ts). tok_lt t)"
      using tok_close_bits [OF assms(1) [unfolded st] refl] below assms(2) by auto
    then show ?thesis using False by (simp add: st tok_step_def tok_inv_def)
  next
    case True
    then have b': "b' = Suc (unat x)" and m: "unat x \<in> B" using assms(2,4) by auto
    show ?thesis
    proof (cases "rng = 0")
      case True
      then show ?thesis using assms(1) \<open>s\<close> b' m by (auto simp: st tok_step_def tok_inv_def tok_lt_def)
    next
      case False
      then obtain pre a where *: "rng \<le> unat x" "ts = pre @ [(a, None)]" "unat a = unat x - rng"
          "toks_bits pre = B \<inter> {..<unat x - rng}" "{unat x - rng..<unat x} \<subseteq> B" "\<forall>t\<in>set pre. tok_lt t"
        using assms(1) st by (auto simp: tok_inv_def)
      have "{unat x - rng..<Suc (unat x)} \<subseteq> B" using *(5) m by (auto simp: less_Suc_eq)
      then show ?thesis using False \<open>s\<close> b' * by (simp add: st tok_step_def tok_inv_def tok_lt_def)
    qed
  qed
qed

lemma walk_tokens:
  assumes "walk B b vs i" "tok_inv B b st" "fold tok_step vs st = (ts, rng)"
  shows "toks_bits (tok_close i rng ts) = B \<and> (\<forall>t\<in>set (tok_close i rng ts). tok_lt t)"
  using assms
proof (induction vs arbitrary: b st)
  case Nil
  then have "toks_bits (tok_close i rng ts) = B \<inter> {..<b} \<and> (\<forall>t\<in>set (tok_close i rng ts). tok_lt t)"
    by (intro tok_close_bits) auto
  then show ?case using Nil by auto
next
  case (Cons v vs)
  obtain x s where v: "v = (x, s)" by fastforce
  with Cons.prems(1) obtain b' where b': "unat x = b" "s \<longleftrightarrow> b \<in> B" "b < b'" "b' = Suc b \<or> b \<notin> B"
      "\<forall>y\<in>B. b < y \<longrightarrow> b' \<le> y" "walk B b' vs i" by auto
  have "tok_inv B b' (tok_step v st)"
    unfolding v using Cons.prems(2) b' by (intro tok_step_inv) simp_all
  then show ?case using Cons.IH [OF b'(6)] Cons.prems(3) by simp
qed

subsection \<open>The text of the tokens\<close>

definition tok_str :: "policydb \<Rightarrow> ctok \<Rightarrow> cstring" where
  "tok_str p t = cat_name p (fst t) @ (case snd t of None \<Rightarrow> [] | Some b \<Rightarrow> dot # cat_name p b)"

fun toks_join :: "policydb \<Rightarrow> ctok list \<Rightarrow> cstring" where
  "toks_join p [] = []"
| "toks_join p [t] = tok_str p t"
| "toks_join p (t # ts) = tok_str p t @ comma # toks_join p ts"

definition toks_str :: "policydb \<Rightarrow> ctok list \<Rightarrow> cstring" where
  "toks_str p ts = (if ts = [] then [] else colon # toks_join p ts)"

lemma toks_join_snoc: "toks_join p (ts @ [t]) = (if ts = [] then tok_str p t else toks_join p ts @ comma # tok_str p t)"
  by (induction p ts rule: toks_join.induct) auto

lemma toks_str_Nil [simp]: "toks_str p [] = []" "toks_str p [t] = colon # tok_str p t"
  by (simp_all add: toks_str_def)

lemma toks_str_snoc: "toks_str p (ts @ [t]) = toks_str p ts @ (if ts = [] then colon else comma) # tok_str p t"
  by (simp add: toks_str_def toks_join_snoc)

text \<open>While a run is open the last token is its first category.\<close>

definition open_run :: "ctok list \<times> nat \<Rightarrow> bool" where
  "open_run s \<longleftrightarrow> (snd s \<noteq> 0 \<longrightarrow> (\<exists>pre a. fst s = pre @ [(a, None)]))"

lemma close_text:
  assumes "open_run (ts, rng)"
  shows "close_range p i rng (S @ toks_str p ts) = S @ toks_str p (tok_close i rng ts)"
proof (cases "rng > 1")
  case True
  with assms obtain pre a where ts: "ts = pre @ [(a, None)]" by (auto simp: open_run_def)
  have "toks_str p (pre @ [(a, Some b)]) = toks_str p (pre @ [(a, None)]) @ dot # cat_name p b" for b
    by (simp add: toks_str_snoc tok_str_def)
  moreover have "toks_str p (ts @ [(b, None)]) = toks_str p ts @ comma # cat_name p b" for b
    using toks_str_snoc [of p ts "(b, None)"] ts by (simp add: tok_str_def)
  ultimately show ?thesis using True ts by (simp add: close_range_def tok_close_def)
qed (simp add: close_range_def tok_close_def)

lemma print_tokens:
  assumes "fold tok_step vs (ts, rng) = (ts', rng')" "open_run (ts, rng)"
  shows "fold (cat_print_step p) vs (S @ toks_str p ts, rng, ts \<noteq> []) = (S @ toks_str p ts', rng', ts' \<noteq> []) \<and> open_run (ts', rng')"
  using assms
proof (induction vs arbitrary: ts rng)
  case (Cons v vs)
  obtain i s where v: "v = (i, s)" by fastforce
  obtain t1 r1 where one: "tok_step v (ts, rng) = (t1, r1)" by fastforce
  have "cat_print_step p v (S @ toks_str p ts, rng, ts \<noteq> []) = (S @ toks_str p t1, r1, t1 \<noteq> [])"
  proof (cases s)
    case True
    then show ?thesis
      using one Cons.prems(2)
      by (auto simp: v cat_print_step_def tok_step_def toks_str_snoc tok_str_def open_run_def split: if_splits)
  next
    case False
    have "tok_close i rng ts = [] \<longleftrightarrow> ts = []"
      using Cons.prems(2) by (auto simp: tok_close_def open_run_def)
    then show ?thesis
      using one close_text [OF Cons.prems(2), of p i S] False by (auto simp: v cat_print_step_def tok_step_def)
  qed
  moreover have "open_run (t1, r1)"
    using one Cons.prems(2) by (auto simp: v tok_step_def open_run_def split: if_splits)
  ultimately show ?case using Cons.IH [of t1 r1] Cons.prems(1) one by simp
qed simp

text \<open>The text of a level: its sensitivity and the tokens of its categories.\<close>

lemma level_print_tokens:
  assumes wf: "level_wf l" and dense: "runs_dense (node (cat l))"
  obtains ts where "level_print p l = name_of (p_sens_val_to_name p) (sens l) @ toks_str p ts"
    "toks_bits ts = ebitmap_bits (cat l)" "\<forall>t\<in>set ts. tok_lt t"
proof -
  obtain vs i where vs: "ebitmap_each_bit (cat l) = (vs, i)" by fastforce
  obtain ts rng where ts: "fold tok_step vs ([], 0) = (ts, rng)" by fastforce
  have printed: "fold (cat_print_step p) vs (name_of (p_sens_val_to_name p) (sens l), 0, False)
      = (name_of (p_sens_val_to_name p) (sens l) @ toks_str p ts, rng, ts \<noteq> [])" "open_run (ts, rng)"
    using print_tokens [OF ts, of p "name_of (p_sens_val_to_name p) (sens l)"] by (simp_all add: open_run_def toks_str_def)
  have out: "level_print p l = name_of (p_sens_val_to_name p) (sens l) @ toks_str p (tok_close i rng ts)"
    by (simp add: level_print_def vs printed(1) close_text [OF printed(2)])
  have "toks_bits (tok_close i rng ts) = ebitmap_bits (cat l) \<and> (\<forall>t\<in>set (tok_close i rng ts). tok_lt t)"
  proof (cases "node (cat l)")
    case Nil
    then have "vs = []" using vs by (simp add: ebitmap_each_bit_def ebitmap_each_bit_from.simps)
    then show ?thesis using ts Nil by (simp add: tok_close_def ebitmap_bits_def nodes_bits_def)
  next
    case (Cons n r)
    let ?ns = "node (cat l)" and ?b = "ebitmap_startbit (cat l)"
    have ok: "nodes_ok ?ns" "highbit (cat l) = highbit_of_prev ?ns" using wf by (simp_all add: level_wf_def ebitmap_wf_def)
    have "unat ?b = unat (startbit n)" using Cons by (simp add: ebitmap_startbit_def)
    moreover have low: "\<forall>x\<in>nodes_bits ?ns. unat (startbit n) \<le> x"
      using first_node_min [of n r] ok(1) Cons by auto
    ultimately have "walk (nodes_bits ?ns) (unat ?b) vs i"
      using ok dense Cons nodes_highbit_ge [OF ok(1)] vs
      by (intro each_bit_walk [of ?ns "highbit (cat l)"]) (auto simp: ebitmap_each_bit_def ebitmap_length_def)
    moreover have "tok_inv (nodes_bits ?ns) (unat ?b) ([], 0)"
      using low \<open>unat ?b = unat (startbit n)\<close> by (auto simp: tok_inv_def)
    ultimately show ?thesis using walk_tokens ts by (fastforce simp: ebitmap_bits_def)
  qed
  with out that show ?thesis by blast
qed

subsection \<open>Parsing the text\<close>

lemma malloc_keeps_ok: "malloc h = (b, h') \<Longrightarrow> mem_ok h \<Longrightarrow> mem_ok h'"
  by (cases h) (auto simp: malloc_def)

lemma set_bit_loop_heap:
  "ebitmap_set_bit_loop h b v hb pre ns = (r, h') \<Longrightarrow> mem_ok h \<Longrightarrow> mem_ok h'"
proof (induction ns arbitrary: pre r)
  case (Cons n ns)
  show ?case
  proof (cases "startbit n \<le> b \<and> \<not> unat (startbit n) + MAPSIZE > unat b")
    case True
    obtain r1 h1 where "ebitmap_set_bit_loop h b v hb (Some n) ns = (r1, h1)" by fastforce
    then show ?thesis using Cons True by (cases r1) (auto split: prod.splits)
  next
    case False
    then show ?thesis
      using Cons.prems by (auto simp: Let_def split: if_splits prod.splits bool.splits dest: malloc_keeps_ok)
  qed
qed (auto split: if_splits prod.splits bool.splits dest: malloc_keeps_ok)

lemma hgives_set_bit:
  assumes "ebitmap_wf e" "i < 0xFFFFFFC0"
  shows "hgives (\<lambda>h. ebitmap_set_bit h e i 1) (\<lambda>e'. ebitmap_wf e' \<and> ebitmap_bits e' = insert (unat i) (ebitmap_bits e)) E"
  unfolding hgives_def
proof
  fix h
  have "mem_ok h'" if "mem_ok h" "ebitmap_set_bit h e i 1 = (Inr e', h')" for e' h'
    using that set_bit_loop_heap by (fastforce simp: ebitmap_set_bit_def split: if_splits prod.splits sum.splits)
  with ebitmap_set_bit_spec [OF assms(1), where h = h and b = i and v = 1] assms(2)
  show "case ebitmap_set_bit h e i 1 of (Inl e, h') \<Rightarrow> E e \<or> \<not> mem_ok h
      | (Inr x, h') \<Rightarrow> (ebitmap_wf x \<and> ebitmap_bits x = insert (unat i) (ebitmap_bits e)) \<and> (mem_ok h \<longrightarrow> mem_ok h')"
    by (auto simp: bit_update_def split: prod.splits sum.splits)
qed

lemma hgives_set_bits:
  assumes "ebitmap_wf e" "\<forall>i\<in>set is. i < 0xFFFFFFC0"
  shows "hgives (set_bits is e) (\<lambda>e'. ebitmap_wf e' \<and> ebitmap_bits e' = ebitmap_bits e \<union> unat ` set is) E"
  using assms(2)
proof (induction "is" rule: rev_induct)
  case Nil
  then show ?case using assms(1) by (auto simp: set_bits_def intro!: hgives_intros)
next
  case (snoc i "is")
  have "set_bits (is @ [i]) e = hbind (set_bits is e) (\<lambda>e h. ebitmap_set_bit h e i 1)" by (simp add: set_bits_def)
  moreover have "hgives \<dots> (\<lambda>e'. ebitmap_wf e' \<and> ebitmap_bits e' = ebitmap_bits e \<union> unat ` set (is @ [i])) E"
    by (rule hgives_hbind [OF snoc.IH]) (use snoc.prems in \<open>auto intro!: hgives_weaken [OF hgives_set_bit]\<close>)
  ultimately show ?case by simp
qed

text \<open>A policy names the categories and sensitivities of a level so that the text can be read
  back: without delimiters, and the symbol tables map each name to its value.\<close>

definition clean :: "cstring \<Rightarrow> bool" where
  "clean n \<longleftrightarrow> colon \<notin> set n \<and> comma \<notin> set n \<and> dot \<notin> set n \<and> dash \<notin> set n"

definition cat_named :: "policydb \<Rightarrow> u32 \<Rightarrow> bool" where
  "cat_named p i \<longleftrightarrow> clean (cat_name p i) \<and>
     (\<exists>d. hashtab_search (table (p_cats p)) (cat_name p i) = Some d \<and> cat_value d = i + 1)"

definition level_named :: "policydb \<Rightarrow> mls_level \<Rightarrow> bool" where
  "level_named p l \<longleftrightarrow>
     clean (name_of (p_sens_val_to_name p) (sens l)) \<and>
     (\<exists>d. hashtab_search (table (p_levels p)) (name_of (p_sens_val_to_name p) (sens l)) = Some d \<and> sens (level d) = sens l) \<and>
     list_all (cat_named p) (ebitmap_positive_bits (cat l))"

lemma level_named_bit:
  assumes "level_named p l" "level_wf l" "unat i \<in> ebitmap_bits (cat l)" shows "cat_named p i"
proof -
  have "unat i \<in> set (map unat (ebitmap_positive_bits (cat l)))"
    using assms(2,3) ebitmap_positive_bits_spec [of "cat l"] by (simp add: level_wf_def)
  then have "i \<in> set (ebitmap_positive_bits (cat l))" by (auto simp flip: word_unat_eq_iff)
  then show ?thesis using assms(1) by (auto simp: level_named_def list_all_iff)
qed

lemma bits_bound:
  assumes "ebitmap_wf e" "unat i \<in> ebitmap_bits e" shows "i < (0xFFFFFFC0 :: u32)"
proof -
  obtain n k where n: "n \<in> set (node e)" "unat i = unat (startbit n) + k" "bit (emap n) k"
    using assms(2) by (auto simp: ebitmap_bits_def nodes_bits_def)
  have "node_ok n" using assms(1) n(1) by (simp add: ebitmap_wf_def nodes_ok_def)
  then obtain m where "unat (startbit n) = 64 * m" "64 * m + 64 < 2 ^ 32" by (auto simp: node_ok_def dvd_def)
  then show ?thesis using n(2) bit_u64_bound [OF n(3)] by (simp add: word_less_nat_alt)
qed

text \<open>One token.\<close>

lemma cat_named_clean:
  assumes "cat_named p i" shows "takeWhile (\<lambda>c. c \<noteq> dot) (cat_name p i) = cat_name p i" "dropWhile (\<lambda>c. c \<noteq> dot) (cat_name p i) = []"
    "takeWhile (\<lambda>c. c \<noteq> dot) (cat_name p i @ dot # r) = cat_name p i" "dropWhile (\<lambda>c. c \<noteq> dot) (cat_name p i @ dot # r) = dot # r"
  using assms by (auto simp: cat_named_def clean_def takeWhile_eq_all_conv dropWhile_eq_Nil_conv takeWhile_append dropWhile_append)

lemma hgives_tok:
  assumes wf: "ebitmap_wf e" and lt: "tok_lt t" and nm: "\<And>i. unat i \<in> tok_bits t \<Longrightarrow> cat_named p i \<and> i < 0xFFFFFFC0"
  shows "hgives (cats_set p (tok_str p t) e) (\<lambda>e'. ebitmap_wf e' \<and> ebitmap_bits e' = ebitmap_bits e \<union> tok_bits t) E"
proof -
  obtain a bo where t: "t = (a, bo)" by fastforce
  have a: "cat_named p a" "a < 0xFFFFFFC0" using nm [of a] lt by (auto simp: t tok_bits_def tok_lt_def split: option.splits)
  then obtain d where d: "hashtab_search (table (p_cats p)) (cat_name p a) = Some d" "cat_value d = a + 1"
    by (auto simp: cat_named_def)
  have a1: "cat_value d - 1 = a" "unat (cat_value d) = Suc (unat a)"
    using a(2) d(2) by (simp_all add: word_less_nat_alt unat_word_ariths)
  show ?thesis
  proof (cases bo)
    case None
    have "split_dot (tok_str p t) = (cat_name p a, None)"
      unfolding split_dot_def tok_str_def t None by (simp only: fst_conv snd_conv option.case append_Nil2 list.case cat_named_clean [OF a(1)])
    then show ?thesis
      using a wf by (auto simp: cats_set_def d a1 t None tok_bits_def
          intro!: hgives_hbind [OF hgives_set_bit] hgives_intros)
  next
    case (Some b)
    have ab: "unat a < unat b" using lt by (simp add: t Some tok_lt_def)
    have b: "cat_named p b" "b < 0xFFFFFFC0" using nm [of b] ab by (auto simp: t Some tok_bits_def)
    then obtain f where f: "hashtab_search (table (p_cats p)) (cat_name p b) = Some f" "cat_value f = b + 1"
      by (auto simp: cat_named_def)
    have b1: "unat (cat_value f) = Suc (unat b)" using b(2) f(2) by (simp add: word_less_nat_alt unat_word_ariths)
    have le: "\<not> cat_value d \<ge> cat_value f" using a1 b1 ab by (simp add: word_le_nat_alt)
    have sd: "split_dot (tok_str p t) = (cat_name p a, Some (cat_name p b))"
      using cat_named_clean(3,4) [OF a(1), of "cat_name p b"] by (simp add: split_dot_def tok_str_def t Some)
    let ?is = "map word_of_nat [unat (cat_value d)..<unat (cat_value f)] :: u32 list"
    have img: "unat ` set ?is = {unat a<..unat b}" "\<forall>i\<in>set ?is. i < 0xFFFFFFC0"
    proof -
      have small: "unat (word_of_nat x :: u32) = x" if "x \<le> unat b" for x
        using that unat_u32_less [of b] by (simp add: unsigned_of_nat take_bit_nat_eq_self)
      have "set [Suc (unat a)..<Suc (unat b)] = {unat a<..unat b}" by auto
      then show "unat ` set ?is = {unat a<..unat b}" using small unfolding a1 b1 by (simp add: image_image)
      show "\<forall>i\<in>set ?is. i < 0xFFFFFFC0" using small b(2) unfolding a1 b1 by (auto simp: word_less_nat_alt)
    qed
    have eq: "cats_set p (tok_str p t) e = hbind (\<lambda>h. ebitmap_set_bit h e a 1) (set_bits ?is)"
      unfolding cats_set_def sd using le a1(1) by (simp add: d(1) f(1))
    show ?thesis
      unfolding eq
      by (rule hgives_hbind [OF hgives_set_bit [OF wf a(2)]], rule hgives_weaken [OF hgives_set_bits [OF _ img(2)]])
        (use img(1) ab in \<open>auto simp: t Some tok_bits_def\<close>)
  qed
qed

text \<open>The text of several tokens, up to the end of the string or the next level.\<close>

lemma tok_str_clean:
  assumes "tok_lt t" "\<And>i. unat i \<in> tok_bits t \<Longrightarrow> cat_named p i"
  shows "\<forall>c\<in>set (tok_str p t). c \<notin> {comma, dash}"
proof -
  have "cat_named p (fst t)" "\<And>b. snd t = Some b \<Longrightarrow> cat_named p b"
    using assms by (auto simp: tok_bits_def tok_lt_def split: option.splits)
  then show ?thesis by (auto simp: tok_str_def cat_named_def clean_def split: option.splits)
qed

lemma next_token_split:
  assumes "\<forall>c\<in>set s. c \<notin> set stops"
  shows "next_token stops s = (s, 0, [])" "x \<in> set stops \<Longrightarrow> next_token stops (s @ x # r) = (s, x, r)"
proof -
  have "dropWhile (\<lambda>c. c \<notin> set stops) s = []" using assms by simp
  then show "next_token stops s = (s, 0, [])"
    unfolding next_token_def using assms by (simp only: list.case) (simp add: takeWhile_eq_all_conv)
  show "x \<in> set stops \<Longrightarrow> next_token stops (s @ x # r) = (s, x, r)"
    using assms by (auto simp: next_token_def takeWhile_append dropWhile_append)
qed

definition text_end :: "cstring \<Rightarrow> u8 \<Rightarrow> cstring \<Rightarrow> bool" where
  "text_end suf d r \<longleftrightarrow> suf = [] \<and> d = 0 \<and> r = [] \<or> suf = dash # r \<and> d = dash"

lemma hgives_toks:
  assumes "ts \<noteq> []" "ebitmap_wf e" "\<forall>t\<in>set ts. tok_lt t" "text_end suf d r"
    and "\<And>i. unat i \<in> toks_bits ts \<Longrightarrow> cat_named p i \<and> i < 0xFFFFFFC0"
  shows "hgives (cats_parse p (toks_join p ts @ suf) e)
    (\<lambda>(e', d', r'). ebitmap_wf e' \<and> ebitmap_bits e' = ebitmap_bits e \<union> toks_bits ts \<and> d' = d \<and> r' = r) E"
  using assms
proof (induction p ts arbitrary: e rule: toks_join.induct)
  case (2 p t)
  have "\<forall>c\<in>set (tok_str p t). c \<notin> set [comma, dash]" using tok_str_clean [of t p] 2 by simp
  then have nt: "next_token [comma, dash] (tok_str p t @ suf) = (tok_str p t, d, r)" "d \<noteq> comma"
    using next_token_split [of "tok_str p t" "[comma, dash]"] 2(4) by (auto simp: text_end_def)
  show ?case
    using 2 by (subst cats_parse.simps) (auto simp: nt intro!: hgives_hbind [OF hgives_tok] hgives_intros)
next
  case (3 p t u us)
  have "\<forall>c\<in>set (tok_str p t). c \<notin> set [comma, dash]" using tok_str_clean [of t p] 3 by simp
  then have nt: "next_token [comma, dash] (tok_str p t @ comma # toks_join p (u # us) @ suf) = (tok_str p t, comma, toks_join p (u # us) @ suf)"
    using next_token_split(2) [of "tok_str p t" "[comma, dash]" comma] by simp
  have "hgives (hbind (cats_set p (tok_str p t) e) (cats_parse p (toks_join p (u # us) @ suf)))
    (\<lambda>(e', d', r'). ebitmap_wf e' \<and> ebitmap_bits e' = ebitmap_bits e \<union> toks_bits (t # u # us) \<and> d' = d \<and> r' = r) E"
  proof (rule hgives_hbind [OF hgives_tok])
    fix e1 assume e1: "ebitmap_wf e1 \<and> ebitmap_bits e1 = ebitmap_bits e \<union> tok_bits t"
    show "hgives (cats_parse p (toks_join p (u # us) @ suf) e1)
      (\<lambda>(e', d', r'). ebitmap_wf e' \<and> ebitmap_bits e' = ebitmap_bits e \<union> toks_bits (t # u # us) \<and> d' = d \<and> r' = r) E"
      by (rule hgives_weaken [OF "3.IH"]) (use e1 3 in auto)
  qed (use 3 in auto)
  then show ?case by (subst cats_parse.simps) (simp add: nt)
qed simp

lemma ebitmap_ext: "\<lbrakk>ebitmap_wf a; ebitmap_wf b; ebitmap_bits a = ebitmap_bits b\<rbrakk> \<Longrightarrow> a = b"
  using ebm.cmp_iff ebitmap_cmp_eq by blast

text \<open>Reading the text of a level, with the delimiters \<open>stops\<close> of its sensitivity, gives the level.\<close>

lemma hgives_level:
  assumes wf: "level_wf l" and dense: "runs_dense (node (cat l))" and nm: "level_named p l"
    and fin: "text_end suf d r" and st: "set stops = {colon, dash} \<or> set stops = {colon} \<and> suf = []"
  shows "hgives (level_parse p (next_token stops (level_print p l @ suf)) mls_level_init)
    (\<lambda>(l', d', r'). l' = l \<and> d' = d \<and> r' = r) E"
proof -
  let ?s = "name_of (p_sens_val_to_name p) (sens l)"
  obtain ts where ts: "level_print p l = ?s @ toks_str p ts" "toks_bits ts = ebitmap_bits (cat l)" "\<forall>t\<in>set ts. tok_lt t"
    using level_print_tokens [OF wf dense] by blast
  obtain ld where ld: "hashtab_search (table (p_levels p)) ?s = Some ld" "sens (level ld) = sens l"
    using nm by (auto simp: level_named_def)
  have cl: "\<forall>c\<in>set ?s. c \<notin> set stops" using nm st by (auto simp: level_named_def clean_def)
  have bits: "cat_named p i \<and> i < 0xFFFFFFC0" if "unat i \<in> toks_bits ts" for i
    using that level_named_bit [OF nm wf] bits_bound wf ts(2) by (simp add: level_wf_def)
  have e0: "ebitmap_wf ebitmap_init" "ebitmap_bits ebitmap_init = {}"
    by (simp_all add: ebitmap_wf_def ebitmap_init_def nodes_ok_def highbit_of_prev_def ebitmap_bits_def nodes_bits_def)
  show ?thesis
  proof (cases "ts = []")
    case True
    have "next_token stops (?s @ suf) = (?s, d, r)" "d \<noteq> colon"
      using next_token_split [OF cl] fin st by (auto simp: text_end_def)
    moreover have "cat l = ebitmap_init" using ebitmap_ext wf e0 ts(2) True by (simp add: level_wf_def)
    ultimately show ?thesis
      using True ld by (auto simp: ts(1) level_parse_def mls_level_init_def intro!: hgives_intros)
  next
    case False
    have "next_token stops ((?s @ toks_str p ts) @ suf) = (?s, colon, toks_join p ts @ suf)"
      using next_token_split(2) [OF cl, of colon] st False by (auto simp: toks_str_def)
    then have "level_parse p (next_token stops (level_print p l @ suf)) mls_level_init =
      hbind (cats_parse p (toks_join p ts @ suf) ebitmap_init) (\<lambda>(e, delim, r). hret (\<lparr>sens = sens l, cat = e\<rparr>, delim, r))"
      using ld by (simp add: ts(1) level_parse_def mls_level_init_def)
    moreover have "hgives \<dots> (\<lambda>(l', d', r'). l' = l \<and> d' = d \<and> r' = r) E"
    proof (rule hgives_hbind [OF hgives_toks [OF False e0(1) ts(3) fin bits]])
      fix x assume "case x of (e', d', r') \<Rightarrow> ebitmap_wf e' \<and> ebitmap_bits e' = ebitmap_bits ebitmap_init \<union> toks_bits ts \<and> d' = d \<and> r' = r"
      then have "x = (cat l, d, r)" using ebitmap_ext wf e0(2) ts(2) by (auto simp: level_wf_def)
      then show "hgives (case x of (e, delim, r) \<Rightarrow> hret (\<lparr>sens = sens l, cat = e\<rparr>, delim, r)) (\<lambda>(l', d', r'). l' = l \<and> d' = d \<and> r' = r) E"
        by (auto intro!: hgives_intros)
    qed
    ultimately show ?thesis by simp
  qed
qed

lemma parse_print:
  assumes wf: "range_wf (c_range c)" and mls: "mls p"
    and dense: "runs_dense (node (cat (level0 (c_range c))))" "runs_dense (node (cat (level1 (c_range c))))"
    and nm: "level_named p (level0 (c_range c))" "level_named p (level1 (c_range c))"
  shows "hgives (mls_from_string p (drop 1 (mls_sid_to_context p c)) context_init)
    (\<lambda>c'. c' = context_init\<lparr>c_range := c_range c\<rparr>) (\<lambda>_. False)"
proof -
  let ?l0 = "level0 (c_range c)" and ?l1 = "level1 (c_range c)"
  have wf0: "level_wf ?l0" "level_wf ?l1" using wf by (simp_all add: range_wf_def)
  have init: "level0 (c_range context_init) = mls_level_init" "level1 (c_range context_init) = mls_level_init"
    by (simp_all add: context_init_def mls_range_init_def)
  have parsed: "hgives (mls_context_to_sid p dollar (drop 1 (mls_sid_to_context p c)) context_init)
    (\<lambda>c'. c' = context_init\<lparr>c_range := c_range c\<rparr>) (\<lambda>_. False)"
  proof (cases "mls_level_eq ?l0 ?l1")
    case True
    then have r: "\<lparr>level0 = ?l0, level1 = ?l0\<rparr> = c_range c" by (cases "c_range c") (simp add: level_eq_eq)
    have out: "drop 1 (mls_sid_to_context p c) = level_print p ?l0 @ []" using True mls by (simp add: mls_sid_to_context_def)
    have lv: "hgives (level_parse p (next_token [colon, dash] (level_print p ?l0 @ [])) mls_level_init)
        (\<lambda>(l', d', r'). l' = ?l0 \<and> d' = 0 \<and> r' = []) (\<lambda>_. False)"
      by (rule hgives_level [OF wf0(1) dense(1) nm(1)]) (simp_all add: text_end_def)
    show ?thesis
      unfolding mls_context_to_sid_def out init using mls
      by (simp del: append_Nil2, intro hgives_herr [where E' = "\<lambda>_. False"] hgives_hbind [OF lv])
        (auto simp: r intro!: hgives_hbind [where Q = "\<lambda>l. l = ?l0"] hgives_intros)
  next
    case False
    then have out: "drop 1 (mls_sid_to_context p c) = level_print p ?l0 @ dash # level_print p ?l1"
      using mls by (simp add: mls_sid_to_context_def)
    have lv0: "hgives (level_parse p (next_token [colon, dash] (level_print p ?l0 @ dash # level_print p ?l1)) mls_level_init)
        (\<lambda>(l', d', r'). l' = ?l0 \<and> d' = dash \<and> r' = level_print p ?l1) (\<lambda>_. False)"
      by (rule hgives_level [OF wf0(1) dense(1) nm(1)]) (simp_all add: text_end_def)
    have lv1: "hgives (level_parse p (next_token [colon] (level_print p ?l1 @ [])) mls_level_init)
        (\<lambda>(l', d', r'). l' = ?l1 \<and> d' = 0 \<and> r' = []) (\<lambda>_. False)"
      by (rule hgives_level [OF wf0(2) dense(2) nm(2)]) (simp_all add: text_end_def)
    show ?thesis
      unfolding mls_context_to_sid_def out init using mls
      by (simp, intro hgives_herr [where E' = "\<lambda>_. False"] hgives_hbind [OF lv0])
        (auto intro!: hgives_hbind [OF lv1 [simplified]] hgives_intros)
  qed
  show ?thesis
    unfolding mls_from_string_def
    by (rule hgives_hbind [where Q = "\<lambda>_. True"], rule hgives_hmalloc, simp, rule hgives_herr [OF parsed])
qed

end
