(* ===== verification/Mls_Props.thy ===== *)
theory Mls_Props
  imports Mls_Laws
begin

section \<open>Properties of the MLS policy\<close>

text \<open>
  The properties of libsepol/src/mls.c and of the inline functions of mls_types.h and
  context.h: the order of levels, the validity of computed ranges, the size of the text
  buffers, and the round trip between ranges and their text, with the two inputs on which the
  text functions go wrong.
\<close>

subsection \<open>Samples\<close>

definition sample_cat :: "nat \<Rightarrow> cstring" where
  "sample_cat i = [0x63, 0x30 + word_of_nat i]"

definition sample_sens :: cstring where
  "sample_sens = [0x73, 0x30]"

definition sample_level :: mls_level where
  "sample_level = \<lparr>sens = 1, cat = \<lparr>node = [\<lparr>startbit = 0, emap = 7\<rparr>], highbit = 64\<rparr>\<rparr>"

definition sample_low :: mls_level where
  "sample_low = \<lparr>sens = 1, cat = \<lparr>node = [\<lparr>startbit = 0, emap = 1\<rparr>], highbit = 64\<rparr>\<rparr>"

definition sample_range :: mls_range where
  "sample_range = \<lparr>level0 = sample_low, level1 = sample_level\<rparr>"

definition sample_context :: context_struct where
  "sample_context = \<lparr>c_user = 1, c_role = 1, c_type = 1, c_range = sample_range\<rparr>"

definition one_slot :: "(cstring, 'd) hashtab_node list \<Rightarrow> 'd symtab" where
  "one_slot ns = \<lparr>table = Some \<lparr>htable = [ns], hsize = 1, nel = word_of_nat (length ns), hash_value = symhash, keycmp = symcmp\<rparr>,
     nprim = word_of_nat (length ns)\<rparr>"

definition sample_user :: user_datum where
  "sample_user = \<lparr>user_value = 1, user_roles = \<lparr>rs_roles = \<lparr>node = [\<lparr>startbit = 0, emap = 1\<rparr>], highbit = 64\<rparr>, rs_flags = 0\<rparr>,
     user_range = mls_semantic_range_init, user_dfltlevel = mls_semantic_level_init, user_cache = \<lparr>node = [\<lparr>startbit = 0, emap = 1\<rparr>], highbit = 64\<rparr>,
     exp_range = sample_range, exp_dfltlevel = sample_low, user_bounds = 0\<rparr>"

definition empty_avtab :: avtab where
  "empty_avtab = \<lparr>ahtable = None, anel = 0, nslot = 0, amask = 0, anext = 0\<rparr>"

definition sample_policy :: policydb where
  "sample_policy = \<lparr>policy_type = 0, pol_name = None, pol_version = None, target_platform = 0, mls = True, policyvers = 30, handle_unknown = 0, p_commons = one_slot [], p_classes = one_slot [], p_roles = one_slot [], p_types = one_slot [],
     p_users = one_slot [\<lparr>hkey = [0x75], hdatum = sample_user\<rparr>], p_bools = one_slot [],
     p_levels = one_slot [\<lparr>hkey = sample_sens, hdatum = \<lparr>level = sample_level, lisalias = 0, defined = 1\<rparr>\<rparr>],
     p_cats = one_slot [\<lparr>hkey = sample_cat 0, hdatum = \<lparr>cat_value = 1, cisalias = 0\<rparr>\<rparr>,
                        \<lparr>hkey = sample_cat 1, hdatum = \<lparr>cat_value = 2, cisalias = 0\<rparr>\<rparr>,
                        \<lparr>hkey = sample_cat 2, hdatum = \<lparr>cat_value = 3, cisalias = 0\<rparr>\<rparr>],
     p_common_val_to_name = [], p_class_val_to_name = [], p_role_val_to_name = [], p_type_val_to_name = [], p_user_val_to_name = [Some [0x75]],
     p_bool_val_to_name = [], p_sens_val_to_name = [Some sample_sens],
     p_cat_val_to_name = [Some (sample_cat 0), Some (sample_cat 1), Some (sample_cat 2)],
     class_val_to_struct = [], role_val_to_struct = [], user_val_to_struct = [Some sample_user], type_val_to_struct = [], p_scope = [], global = [], decl_val_to_struct = [],
     bool_val_to_struct = [], te_avtab = empty_avtab, te_cond_avtab = empty_avtab, cond_list = [], role_tr = [],
     role_allows = [], ocontexts = replicate 9 [], genfs_list = [], range_tr = None, filename_trans = None, filename_trans_count = 0, type_attr_map = [], attr_type_map = [],
     policycaps = ebitmap_init, permissive_map = ebitmap_init,
     process_class = 2, dir_class = 7, process_trans = 0, process_trans_dyntrans = 0\<rparr>"

lemma sample_levels_wf [simp]: "level_wf sample_level" "level_wf sample_low"
  by (simp_all add: level_wf_def ebitmap_wf_def sample_level_def sample_low_def nodes_ok_def node_ok_def highbit_of_prev_def)

lemma sample_dom: "mls_level_dom sample_level sample_low" "\<not> mls_level_dom sample_low sample_level"
  by (simp_all add: mls_level_dom_def sample_level_def sample_low_def ebitmap_contains_def)

lemma sample_range_valid: "range_valid sample_range" "range_wf sample_range"
  by (simp_all add: range_valid_def range_wf_def sample_range_def sample_dom)

subsection \<open>Levels and ranges\<close>

text \<open>(C20) Dominance of levels with well-formed category sets is a partial order: it holds exactly
  when the sensitivity is at least as high and the categories are a superset; it is
  reflexive and transitive, two levels that dominate each other are equal, two levels are
  incomparable exactly when neither dominates, and range containment is transitive.\<close>

theorem mls_dominance_order:
  assumes "level_wf a" "level_wf b" "level_wf c"
  shows "(mls_level_dom a b \<longleftrightarrow> sens b \<le> sens a \<and> ebitmap_bits (cat b) \<subseteq> ebitmap_bits (cat a)) \<and>
    mls_level_dom a a \<and> (mls_level_dom a b \<and> mls_level_dom b c \<longrightarrow> mls_level_dom a c) \<and>
    (mls_level_dom a b \<and> mls_level_dom b a \<longleftrightarrow> a = b) \<and> (mls_level_eq a b \<longleftrightarrow> a = b) \<and>
    (mls_level_incomp a b \<longleftrightarrow> \<not> mls_level_dom a b \<and> \<not> mls_level_dom b a) \<and>
    (mls_level_between b a c \<longrightarrow> mls_level_dom c a)"
  using level_dom_iff [OF assms(1,2)] lvl.dom_refl [OF assms(1)] lvl.dom_trans [OF assms] lvl.dom_antisym [OF assms(1,2)]
    lvl.dom_trans [OF assms(3,2,1)]
  by (simp add: level_eq_eq mls_level_incomp_def mls_level_between_def)

theorem mls_dominance_order_witness:
  "ebitmap_bits (cat sample_low) \<subseteq> ebitmap_bits (cat sample_level)"
  using mls_dominance_order [OF sample_levels_wf sample_levels_wf(2)] sample_dom(1) by blast

text \<open>(C21) \<open>mls_compute_sid\<close> with valid source and target ranges and valid range transitions
  gives, for every class, default and kind of request, a context whose high level dominates
  its low level; the only errors are \<open>EINVAL\<close> and exhausted memory.\<close>

theorem mls_compute_sid_valid:
  assumes "range_valid (c_range scontext)" "range_valid (c_range tcontext)"
    and "range_valid (c_range newcontext)" "range_tr_valid p"
    and "mls_compute_sid p scontext tcontext tclass spec newcontext h = (r, h')"
  shows "case r of Inl e \<Rightarrow> e = EINVAL \<or> \<not> mem_ok h
    | Inr c \<Rightarrow> range_valid (c_range c)"
  using hgives_Inr [OF compute_sid_valid [OF assms(1-4)]] hgives_Inl [OF compute_sid_valid [OF assms(1-4)]] assms(5)
  by (auto split: sum.splits)

theorem mls_compute_sid_valid_witness:
  "case fst (mls_compute_sid sample_policy sample_context sample_context 2 (ucast AVTAB_TRANSITION) sample_context []) of
     Inl e \<Rightarrow> e = EINVAL | Inr c \<Rightarrow> range_valid (c_range c)"
proof -
  have "range_valid (c_range sample_context)" by (simp add: sample_context_def sample_range_valid)
  moreover have "range_tr_valid sample_policy" by (simp add: range_tr_valid_def sample_policy_def hashtab_search_def)
  ultimately show ?thesis
    using mls_compute_sid_valid [of sample_context sample_context sample_context sample_policy 2 "ucast AVTAB_TRANSITION" "[]"]
    by (metis (no_types, lifting) empty_iff empty_set prod.collapse sum.case_eq_if)
qed

text \<open>(C22) \<open>mls_setup_user_range\<close>: when a range is found for a user whose default level lies in
  their range, starting from a context with a valid range, it is valid, its low level dominates the
  user's low level, and its high level is dominated both by the user's clearance and by that
  of the originating context.\<close>

theorem mls_user_range_confined:
  assumes "range_valid (c_range fromcon)" "range_wf (exp_range user)" "level_wf (exp_dfltlevel user)"
    and "mls_level_between (exp_dfltlevel user) (level0 (exp_range user)) (level1 (exp_range user))"
    and "mls_setup_user_range fromcon user usercon True = Inr c"
  shows "range_valid (c_range c) \<and> mls_level_dom (level0 (c_range c)) (level0 (exp_range user)) \<and>
    mls_range_contains (exp_range user) (c_range c) \<and> mls_level_dom (level1 (c_range fromcon)) (level1 (c_range c))"
  using setup_user_range_ok [OF assms(1-3) _ _ assms(5)] assms(4)
  by (simp add: mls_level_between_def mls_range_contains_def)

theorem mls_user_range_confined_witness:
  "mls_setup_user_range sample_context sample_user sample_context True = Inr sample_context \<and>
   mls_range_contains (exp_range sample_user) (c_range sample_context)"
proof -
  have r: "mls_setup_user_range sample_context sample_user sample_context True = Inr sample_context"
    by (simp add: mls_setup_user_range_def sample_context_def sample_user_def sample_range_def mls_level_between_def
        sample_dom lvl.dom_refl)
  have "range_valid (c_range sample_context)" "range_wf (exp_range sample_user)" "level_wf (exp_dfltlevel sample_user)"
      "mls_level_between (exp_dfltlevel sample_user) (level0 (exp_range sample_user)) (level1 (exp_range sample_user))"
    by (simp_all add: sample_context_def sample_user_def sample_range_valid [unfolded sample_range_def] mls_level_between_def
        sample_range_def sample_dom lvl.dom_refl)
  from mls_user_range_confined [OF this r] r show ?thesis by simp
qed

text \<open>The number \<open>mls_compute_context_len\<close> returns is the number of bytes
  \<open>mls_sid_to_context\<close> writes, as a 32-bit number: the buffer the callers allocate from it is
  large enough for every text below 4 GiB.\<close>

lemma mls_context_len_exact:
  assumes "length (mls_sid_to_context p c) < 2 ^ 32"
  shows "unat (mls_compute_context_len p c) = length (mls_sid_to_context p c)"
  using assms by (simp add: context_len_text unsigned_of_nat take_bit_nat_eq_self)

lemma mls_context_len_exact_example:
  "unat (mls_compute_context_len (sample_policy\<lparr>mls := False\<rparr>) sample_context) = 0"
  using mls_context_len_exact [of "sample_policy\<lparr>mls := False\<rparr>" sample_context]
  by (simp add: mls_sid_to_context_def)

subsection \<open>The text of a range\<close>

text \<open>(C23) Round trip: the text \<open>mls_to_string\<close> makes of a range, parsed by \<open>mls_from_string\<close>, gives
  the same range, if the policy names its levels and categories without delimiters and no run of
  categories ends at the end of a bitmap node that is followed by a gap.\<close>

theorem mls_print_parse:
  assumes "mls p" "range_wf (c_range c)"
    and "runs_dense (node (cat (level0 (c_range c))))" "runs_dense (node (cat (level1 (c_range c))))"
    and "level_named p (level0 (c_range c))" "level_named p (level1 (c_range c))"
    and "mem_ok h"
  shows "\<exists>str h1 c' h2. mls_to_string p c h = (Inr str, h1) \<and> mls_from_string p str context_init h1 = (Inr c', h2) \<and>
    c_range c' = c_range c"
proof -
  have "hgives (mls_to_string p c) (\<lambda>str. str = drop 1 (mls_sid_to_context p c)) (\<lambda>_. False)"
    unfolding mls_to_string_def
    by (rule hgives_hbind [where Q = "\<lambda>_. True"], rule hgives_hmalloc, simp,
        rule hgives_hbind [where Q = "\<lambda>_. True"], rule hgives_hmalloc, simp, rule hgives_hret, rule refl)
  from hgives_returns [OF this assms(7)] obtain str h1 where
    1: "mls_to_string p c h = (Inr str, h1)" "str = drop 1 (mls_sid_to_context p c)" "mem_ok h1" .
  from hgives_returns [OF parse_print [OF assms(2,1,3-6)] 1(3)] obtain c' h2 where
    2: "mls_from_string p str context_init h1 = (Inr c', h2)" "c' = context_init\<lparr>c_range := c_range c\<rparr>" unfolding 1(2) .
  have "c_range c' = c_range c" unfolding 2(2) by simp
  with 1(1) 2(1) show ?thesis by blast
qed

lemma sample_sens_name: "name_of (p_sens_val_to_name sample_policy) 1 = sample_sens"
  by (simp add: name_of_def val_get_def sample_policy_def)

lemma sample_cat_names: "cat_name sample_policy 0 = sample_cat 0" "cat_name sample_policy 1 = sample_cat 1"
    "cat_name sample_policy 2 = sample_cat 2"
  by (simp_all add: cat_name_def idx_get_def sample_policy_def)

lemma sample_cats_named: "cat_named sample_policy 0" "cat_named sample_policy 1" "cat_named sample_policy 2"
  by (simp_all add: cat_named_def sample_cat_names clean_def sample_cat_def)
    (simp_all add: sample_policy_def one_slot_def hashtab_search_def symhash_def sample_cat_def chain_from_def symcmp_def)

lemma sample_bits: "ebitmap_positive_bits (cat sample_level) = [0, 1, 2]" "ebitmap_positive_bits (cat sample_low) = [0]"
  by (simp_all add: ebitmap_positive_bits_def sample_level_def sample_low_def ebitmap_length_def ebitmap_startbit_def
      ebitmap_positive_bits_from.simps ebitmap_next_def MAPSIZE_def ebitmap_node_get_bit_def MAPBIT_def)

lemma sample_level_search:
  "hashtab_search (table (p_levels sample_policy)) sample_sens = Some \<lparr>level = sample_level, lisalias = 0, defined = 1\<rparr>"
  by (simp add: sample_policy_def one_slot_def hashtab_search_def symhash_def chain_from_def symcmp_def sample_sens_def)

lemma sample_named: "level_named sample_policy sample_level" "level_named sample_policy sample_low"
proof -
  have "clean sample_sens" by (simp add: clean_def sample_sens_def)
  then show "level_named sample_policy sample_level" "level_named sample_policy sample_low"
    using sample_bits sample_level_search
    by (simp_all add: level_named_def sample_cats_named sample_level_def sample_low_def sample_sens_name)
qed

theorem mls_print_parse_witness:
  "\<exists>str h1 c' h2. mls_to_string sample_policy sample_context [] = (Inr str, h1) \<and>
     mls_from_string sample_policy str context_init h1 = (Inr c', h2) \<and> c_range c' = c_range sample_context"
proof (rule mls_print_parse)
  show "mls sample_policy" by (simp add: sample_policy_def)
  show "range_wf (c_range sample_context)" by (simp add: sample_context_def sample_range_valid)
qed (simp_all add: sample_context_def sample_range_def sample_named, simp_all add: sample_level_def sample_low_def)



text \<open>(C25) What follows a dash behind the categories of the high level is ignored: the parser accepts
  \<open>low-high:cats-anything\<close> as \<open>low-high:cats\<close>, whatever the rest is.\<close>

lemma cats_parse_ignores:
  assumes "dash \<notin> set s"
  shows "cats_parse p (s @ dash # junk) e = hbind (cats_parse p s e) (\<lambda>x. hret (fst x, dash, junk))"
  using assms
proof (induction p s e rule: cats_parse.induct)
  case (1 p s e)
  show ?case
  proof (cases "comma \<in> set s")
    case False
    then have "\<forall>c\<in>set s. c \<notin> set [comma, dash]" using "1.prems" by auto
    from next_token_split [OF this] show ?thesis
      unfolding cats_parse.simps [of p "s @ dash # junk" e] cats_parse.simps [of p s e] by (simp add: hbind_assoc)
  next
    case True
    then obtain a b where s: "s = a @ comma # b" "comma \<notin> set a" by (metis split_list_first)
    then have "\<forall>c\<in>set a. c \<notin> set [comma, dash]" using "1.prems" by auto
    note nt = next_token_split(2) [OF this, of comma]
    have "cats_parse p (b @ dash # junk) e' = hbind (cats_parse p b e') (\<lambda>x. hret (fst x, dash, junk))" for e'
      by (rule "1.IH") (use nt s "1.prems" in auto)
    then have "cats_parse p (b @ dash # junk) = (\<lambda>e'. hbind (cats_parse p b e') (\<lambda>x. hret (fst x, dash, junk)))"
      by (rule ext)
    with nt s show ?thesis
      unfolding cats_parse.simps [of p "s @ dash # junk" e] cats_parse.simps [of p s e] by (simp add: hbind_assoc)
  qed
qed

theorem mls_parse_ignores_trailer:
  assumes "colon \<notin> set low" "dash \<notin> set low" "colon \<notin> set high" "dash \<notin> set cats"
  shows "mls_context_to_sid p oldc (low @ dash # high @ colon # cats @ dash # junk) c =
    mls_context_to_sid p oldc (low @ dash # high @ colon # cats) c"
proof -
  have nt: "next_token [colon, dash] (low @ dash # r) = (low, dash, r)" "next_token [colon] (high @ colon # r) = (high, colon, r)" for r
    using next_token_split(2) [of low "[colon, dash]" dash] next_token_split(2) [of high "[colon]" colon] assms by auto
  have "hbind (level_parse p (high, colon, cats @ dash # junk) l) (\<lambda>(l1, d, r). hret (f l1)) =
      hbind (level_parse p (high, colon, cats) l) (\<lambda>(l1, d, r). hret (f l1))" for l and f :: "mls_level \<Rightarrow> context_struct"
    by (auto simp: level_parse_def cats_parse_ignores [OF assms(4)] hbind_assoc split_beta' split: option.splits)
  then show ?thesis by (simp add: mls_context_to_sid_def nt level_parse_def split: option.splits)
qed

theorem mls_parse_ignores_trailer_witness:
  "mls_context_to_sid sample_policy dollar (sample_sens @ dash # sample_sens @ colon # sample_cat 0 @ dash # [0x21]) context_init [] =
   mls_context_to_sid sample_policy dollar (sample_sens @ dash # sample_sens @ colon # sample_cat 0) context_init []"
  by (subst mls_parse_ignores_trailer) (simp_all add: sample_sens_def sample_cat_def)

end
