(* ===== verification/Security_Context.thy ===== *)
theory Security_Context
  imports Mls_Laws
begin

section \<open>Security contexts and their text\<close>

text \<open>
  libsepol/src/context.c and context_record.c: the validity of a context under a policy, the
  record of the four text fields of a context with its parser and printer, and the
  conversions between contexts, records and strings. A string argument with a length is the
  list of its bytes.
\<close>

subsection \<open>Validity\<close>

definition context_is_valid :: "policydb \<Rightarrow> context_struct \<Rightarrow> bool" where
  "context_is_valid p c \<longleftrightarrow>
     (if \<not> value_ok (p_roles p) (c_role c) then False
      else if \<not> value_ok (p_users p) (c_user c) then False
      else if \<not> value_ok (p_types p) (c_type c) then False
      else if c_role c \<noteq> OBJECT_R_VAL \<and>
        (case val_get (role_val_to_struct p) (c_role c) of
           None \<Rightarrow> True
         | Some role \<Rightarrow> \<not> ebitmap_get_bit (role_cache role) (c_type c - 1)) then False
      else if c_role c \<noteq> OBJECT_R_VAL \<and>
        (case val_get (user_val_to_struct p) (c_user c) of
           None \<Rightarrow> True
         | Some usrdatum \<Rightarrow> \<not> ebitmap_get_bit (user_cache usrdatum) (c_role c - 1)) then False
      else mls_context_isvalid p c)"

definition policydb_context_isvalid :: "policydb \<Rightarrow> context_struct \<Rightarrow> bool" where
  "policydb_context_isvalid p c = context_is_valid p c"

subsection \<open>Records\<close>

record sepol_context =
  rec_user :: "cstring option"
  rec_role :: "cstring option"
  rec_type :: "cstring option"
  rec_mls :: "cstring option"

definition sepol_context_create :: "sepol_context hp" where
  "sepol_context_create =
     hbind (hmalloc EFAIL) (\<lambda>_. hret \<lparr>rec_user = None, rec_role = None, rec_type = None, rec_mls = None\<rparr>)"

definition strdup :: "errno \<Rightarrow> cstring \<Rightarrow> cstring hp" where
  "strdup e s = hbind (hmalloc e) (\<lambda>_. hret s)"

definition sepol_context_set_user :: "sepol_context \<Rightarrow> cstring \<Rightarrow> sepol_context hp" where
  "sepol_context_set_user con user = hbind (strdup EFAIL user) (\<lambda>tmp_user. hret (con\<lparr>rec_user := Some tmp_user\<rparr>))"

definition sepol_context_set_role :: "sepol_context \<Rightarrow> cstring \<Rightarrow> sepol_context hp" where
  "sepol_context_set_role con role = hbind (strdup EFAIL role) (\<lambda>tmp_role. hret (con\<lparr>rec_role := Some tmp_role\<rparr>))"

definition sepol_context_set_type :: "sepol_context \<Rightarrow> cstring \<Rightarrow> sepol_context hp" where
  "sepol_context_set_type con type = hbind (strdup EFAIL type) (\<lambda>tmp_type. hret (con\<lparr>rec_type := Some tmp_type\<rparr>))"

definition sepol_context_set_mls :: "sepol_context \<Rightarrow> cstring \<Rightarrow> sepol_context hp" where
  "sepol_context_set_mls con str = hbind (strdup EFAIL str) (\<lambda>tmp_mls. hret (con\<lparr>rec_mls := Some tmp_mls\<rparr>))"

text \<open>\<open>strdup\<close> of a field that was never set reads a null pointer.\<close>

definition dup_field :: "cstring option \<Rightarrow> cstring hp" where
  "dup_field f = (case f of None \<Rightarrow> hfail EFAULT | Some s \<Rightarrow> strdup EFAIL s)"

definition sepol_context_clone :: "sepol_context option \<Rightarrow> sepol_context option hp" where
  "sepol_context_clone con =
     (case con of
        None \<Rightarrow> hret None
      | Some c \<Rightarrow>
          hbind sepol_context_create (\<lambda>new_con.
          hbind (dup_field (rec_user c)) (\<lambda>u.
          hbind (dup_field (rec_role c)) (\<lambda>r.
          hbind (dup_field (rec_type c)) (\<lambda>t.
          hbind (case rec_mls c of None \<Rightarrow> hret None | Some s \<Rightarrow> hbind (strdup EFAIL s) (\<lambda>m. hret (Some m))) (\<lambda>m.
          hret (Some (new_con\<lparr>rec_user := Some u, rec_role := Some r, rec_type := Some t, rec_mls := m\<rparr>))))))))"

text \<open>\<open>strchr(low, ':')\<close>: the text before the colon and behind it.\<close>

definition split_colon :: "cstring \<Rightarrow> (cstring \<times> cstring) option" where
  "split_colon s =
     (case dropWhile (\<lambda>c. c \<noteq> colon) s of [] \<Rightarrow> None | _ # r \<Rightarrow> Some (takeWhile (\<lambda>c. c \<noteq> colon) s, r))"

definition none_string :: cstring where
  \<comment> \<open>the string \<open><<none>>\<close>\<close>
  "none_string = [0x3C, 0x3C, 0x6E, 0x6F, 0x6E, 0x65, 0x3E, 0x3E]"

definition sepol_context_from_string :: "cstring \<Rightarrow> sepol_context option hp" where
  "sepol_context_from_string str =
     (if strcmp str none_string = 0 then hret None
      else
        hbind sepol_context_create (\<lambda>con.
        hbind (strdup EFAIL str) (\<lambda>tmp.
        case split_colon tmp of
          None \<Rightarrow> hfail EFAIL
        | Some (user, low) \<Rightarrow>
            hbind (sepol_context_set_user con user) (\<lambda>con.
            case split_colon low of
              None \<Rightarrow> hfail EFAIL
            | Some (role, low) \<Rightarrow>
                hbind (sepol_context_set_role con role) (\<lambda>con.
                case split_colon low of
                  None \<Rightarrow> hbind (sepol_context_set_type con low) (\<lambda>con. hret (Some con))
                | Some (type, low) \<Rightarrow>
                    hbind (sepol_context_set_type con type) (\<lambda>con.
                    hbind (sepol_context_set_mls con low) (\<lambda>con. hret (Some con))))))))"

text \<open>The sizes are added with a check for overflow of \<open>size_t\<close>; \<open>snprintf\<close> fails when its result
  does not fit an \<open>int\<close>.\<close>

definition sepol_context_to_string :: "sepol_context \<Rightarrow> cstring hp" where
  "sepol_context_to_string con =
     (case (rec_user con, rec_role con, rec_type con) of
        (Some u, Some r, Some t) \<Rightarrow>
          (let total_sz = length u + length r + length t +
             (case rec_mls con of None \<Rightarrow> 3 | Some m \<Rightarrow> length m + 4)
           in if total_sz \<ge> 2 ^ 64 then hfail EFAIL
              else hbind (hmalloc EFAIL) (\<lambda>_.
                if total_sz - 1 \<ge> 2 ^ 31 then hfail EFAIL
                else hret (u @ colon # r @ colon # t @ (case rec_mls con of None \<Rightarrow> [] | Some m \<Rightarrow> colon # m))))
      | _ \<Rightarrow> hfail EFAULT)"

subsection \<open>Contexts and records\<close>

definition TYPE_ATTRIB :: u32 where "TYPE_ATTRIB = 1"

text \<open>The three copies and the context are allocated before any of them is checked.\<close>

definition alloc_all :: "nat \<Rightarrow> errno \<Rightarrow> unit hp" where
  "alloc_all n e h = (if False \<in> set (take n h) then Inl e else Inr (), drop n h)"

definition context_from_record :: "policydb \<Rightarrow> sepol_context option \<Rightarrow> context_struct hp" where
  "context_from_record p rec =
     (case rec of
        None \<Rightarrow> hfail EFAULT
      | Some con \<Rightarrow>
          (case (rec_user con, rec_role con, rec_type con) of
             (Some user, Some role, Some type) \<Rightarrow>
               hbind (alloc_all 4 EFAIL) (\<lambda>_.
               case hashtab_search (table (p_users p)) user of
                 None \<Rightarrow> hfail EINVAL
               | Some usrdatum \<Rightarrow>
                   (case hashtab_search (table (p_roles p)) role of
                      None \<Rightarrow> hfail EINVAL
                    | Some roldatum \<Rightarrow>
                        (case hashtab_search (table (p_types p)) type of
                           None \<Rightarrow> hfail EINVAL
                         | Some typdatum \<Rightarrow>
                             if flavor typdatum = TYPE_ATTRIB then hfail EINVAL
                             else
                               (let scontext = context_init\<lparr>c_user := user_value usrdatum, c_role := role_value roldatum,
                                      c_type := type_value typdatum\<rparr>
                                in if rec_mls con \<noteq> None \<and> \<not> mls p \<or> rec_mls con = None \<and> mls p then hfail EINVAL
                                   else hbind (case rec_mls con of
                                                 None \<Rightarrow> hret scontext
                                               | Some m \<Rightarrow> herr EINVAL (mls_from_string p m scontext)) (\<lambda>scontext.
                                     if \<not> context_is_valid p scontext then hfail EINVAL
                                     else hret scontext)))))
           | _ \<Rightarrow> hfail EFAULT))"

definition context_to_record :: "policydb \<Rightarrow> context_struct \<Rightarrow> sepol_context hp" where
  "context_to_record p c =
     hbind sepol_context_create (\<lambda>r.
     hbind (sepol_context_set_user r (name_of (p_user_val_to_name p) (c_user c))) (\<lambda>r.
     hbind (sepol_context_set_role r (name_of (p_role_val_to_name p) (c_role c))) (\<lambda>r.
     hbind (sepol_context_set_type r (name_of (p_type_val_to_name p) (c_type c))) (\<lambda>r.
     if mls p then hbind (mls_to_string p c) (sepol_context_set_mls r) else hret r))))"

text \<open>\<open>context_to_string\<close> with the length of the buffer it allocates.\<close>

definition context_to_string :: "policydb \<Rightarrow> context_struct \<Rightarrow> (cstring \<times> nat) hp" where
  "context_to_string p c =
     (let u = name_of (p_user_val_to_name p) (c_user c);
          r = name_of (p_role_val_to_name p) (c_role c);
          t = name_of (p_type_val_to_name p) (c_type c);
          scontext_len = length u + 1 + (length r + 1) + length t + unat (mls_compute_context_len p c) + 1
      in hbind (hmalloc EFAIL) (\<lambda>_. hret (u @ colon # r @ colon # t @ mls_sid_to_context p c, scontext_len)))"

definition context_from_string :: "policydb \<Rightarrow> u8 list \<Rightarrow> context_struct hp" where
  "context_from_string p con_str =
     (if con_str = [] then hfail EFAIL
      else hbind (hmalloc EFAIL) (\<lambda>_.
        hbind (sepol_context_from_string (takeWhile (\<lambda>c. c \<noteq> 0) con_str)) (context_from_record p)))"

definition sepol_context_check :: "policydb \<Rightarrow> sepol_context \<Rightarrow> unit hp" where
  "sepol_context_check p con = hbind (context_from_record p (Some con)) (\<lambda>_. hret ())"

subsection \<open>Laws\<close>

lemma hgives_strdup [hgives_intros]: "P s \<Longrightarrow> hgives (strdup e s) P E"
  unfolding strdup_def by (rule hgives_hbind [where Q = "\<lambda>_. True"]) (auto intro: hgives_intros)

lemma hgives_create [hgives_intros]:
  "P \<lparr>rec_user = None, rec_role = None, rec_type = None, rec_mls = None\<rparr> \<Longrightarrow> hgives sepol_context_create P E"
  unfolding sepol_context_create_def by (rule hgives_hbind [where Q = "\<lambda>_. True"]) (auto intro: hgives_intros)

lemma hgives_set_fields [hgives_intros]:
  "P (con\<lparr>rec_user := Some s\<rparr>) \<Longrightarrow> hgives (sepol_context_set_user con s) P E"
  "P (con\<lparr>rec_role := Some s\<rparr>) \<Longrightarrow> hgives (sepol_context_set_role con s) P E"
  "P (con\<lparr>rec_type := Some s\<rparr>) \<Longrightarrow> hgives (sepol_context_set_type con s) P E"
  "P (con\<lparr>rec_mls := Some s\<rparr>) \<Longrightarrow> hgives (sepol_context_set_mls con s) P E"
  unfolding sepol_context_set_user_def sepol_context_set_role_def sepol_context_set_type_def sepol_context_set_mls_def
  by (auto intro!: hgives_hbind [where Q = "\<lambda>x. x = s"] hgives_intros)

lemma hgives_alloc_all [hgives_intros]: "P () \<Longrightarrow> hgives (alloc_all n e) P E"
  unfolding hgives_def alloc_all_def by (auto dest: in_set_takeD in_set_dropD)

lemma split_colon_clean:
  assumes "colon \<notin> set s" shows "split_colon s = None" "split_colon (s @ colon # r) = Some (s, r)"
proof -
  have d: "dropWhile (\<lambda>c. c \<noteq> colon) s = []" using assms by (induction s) auto
  have "dropWhile (\<lambda>c. c \<noteq> colon) (s @ colon # r) = colon # r" "takeWhile (\<lambda>c. c \<noteq> colon) (s @ colon # r) = s"
    using assms by (induction s) auto
  then show "split_colon (s @ colon # r) = Some (s, r)" by (simp add: split_colon_def)
  show "split_colon s = None" unfolding split_colon_def d by simp
qed

lemma hgives_from_string:
  assumes "colon \<notin> set u" "colon \<notin> set r" "colon \<notin> set t"
  shows "hgives (sepol_context_from_string (u @ colon # r @ colon # t @ (case mo of None \<Rightarrow> [] | Some m \<Rightarrow> colon # m)))
    (\<lambda>c. c = Some \<lparr>rec_user = Some u, rec_role = Some r, rec_type = Some t, rec_mls = mo\<rparr>) E"
proof -
  let ?s = "u @ colon # r @ colon # t @ (case mo of None \<Rightarrow> [] | Some m \<Rightarrow> colon # m)"
  have ne: "strcmp ?s none_string \<noteq> 0"
  proof
    assume "strcmp ?s none_string = 0"
    then have "colon \<in> set none_string" unfolding strcmp_eq by (metis in_set_conv_decomp)
    then show False by (simp add: none_string_def)
  qed
  have r1: "split_colon ?s = Some (u, r @ colon # t @ (case mo of None \<Rightarrow> [] | Some m \<Rightarrow> colon # m))"
    and r2: "split_colon (r @ colon # t @ (case mo of None \<Rightarrow> [] | Some m \<Rightarrow> colon # m)) = Some (r, t @ (case mo of None \<Rightarrow> [] | Some m \<Rightarrow> colon # m))"
    using assms by (simp_all add: split_colon_clean(2))
  show ?thesis
    unfolding sepol_context_from_string_def if_not_P [OF ne]
    by (rule hgives_seq, rule hgives_intros, rule refl, rule hgives_seq, rule hgives_intros, rule refl,
        simp only: r1 option.case prod.case, rule hgives_seq, rule hgives_intros, rule refl,
        simp only: r2 option.case prod.case, rule hgives_seq, rule hgives_intros, rule refl)
      (cases mo; simp add: split_colon_clean [OF assms(3)];
       rule hgives_seq, rule hgives_intros, rule refl, (rule hgives_seq, rule hgives_intros, rule refl)?, simp add: hgives_intros)
qed

text \<open>The policy names the user, role and type of a context, and the symbol tables map the names back.\<close>

definition context_named :: "policydb \<Rightarrow> context_struct \<Rightarrow> bool" where
  "context_named p c \<longleftrightarrow>
     colon \<notin> set (name_of (p_user_val_to_name p) (c_user c)) \<and>
     colon \<notin> set (name_of (p_role_val_to_name p) (c_role c)) \<and>
     colon \<notin> set (name_of (p_type_val_to_name p) (c_type c)) \<and>
     (\<exists>u. hashtab_search (table (p_users p)) (name_of (p_user_val_to_name p) (c_user c)) = Some u \<and> user_value u = c_user c) \<and>
     (\<exists>r. hashtab_search (table (p_roles p)) (name_of (p_role_val_to_name p) (c_role c)) = Some r \<and> role_value r = c_role c) \<and>
     (\<exists>t. hashtab_search (table (p_types p)) (name_of (p_type_val_to_name p) (c_type c)) = Some t \<and> type_value t = c_type c \<and>
        flavor t \<noteq> TYPE_ATTRIB) \<and>
     (if mls p then level_named p (level0 (c_range c)) \<and> level_named p (level1 (c_range c)) \<and>
        runs_dense (node (cat (level0 (c_range c)))) \<and> runs_dense (node (cat (level1 (c_range c))))
      else c_range c = mls_range_init)"

definition context_text :: "policydb \<Rightarrow> context_struct \<Rightarrow> cstring" where
  "context_text p c = name_of (p_user_val_to_name p) (c_user c) @ colon # name_of (p_role_val_to_name p) (c_role c) @
     colon # name_of (p_type_val_to_name p) (c_type c) @ mls_sid_to_context p c"

lemma mls_from_string_other:
  assumes "hgives (mls_from_string p str context_init) (\<lambda>c'. c' = context_init\<lparr>c_range := r\<rparr>) (\<lambda>_. False)" "mls p"
    and "c_range c0 = c_range context_init"
  shows "hgives (mls_from_string p str c0) (\<lambda>c'. c' = c0\<lparr>c_range := r\<rparr>) (\<lambda>_. False)"
proof -
  have eq: "mls_from_string p str c0 = hbind (mls_from_string p str context_init) (\<lambda>c'. hret (c0\<lparr>c_range := c_range c'\<rparr>))"
    using assms(2,3)
    by (auto simp: mls_from_string_def mls_context_to_sid_def herr_def hbind_def hret_def fun_eq_iff split: prod.splits sum.splits)
  show ?thesis unfolding eq by (rule hgives_seq [OF assms(1)]) (simp add: hgives_intros)
qed

lemma mls_text_split: "mls p \<Longrightarrow> mls_sid_to_context p c = colon # drop 1 (mls_sid_to_context p c)"
  by (simp add: mls_sid_to_context_def)

lemma hgives_from_record:
  assumes nm: "context_named p c" and wf: "context_wf c" and valid: "context_is_valid p c"
  shows "hgives (context_from_record p (Some \<lparr>rec_user = Some (name_of (p_user_val_to_name p) (c_user c)),
      rec_role = Some (name_of (p_role_val_to_name p) (c_role c)), rec_type = Some (name_of (p_type_val_to_name p) (c_type c)),
      rec_mls = (if mls p then Some (drop 1 (mls_sid_to_context p c)) else None)\<rparr>)) (\<lambda>c'. c' = c) (\<lambda>_. False)"
proof -
  let ?c0 = "context_init\<lparr>c_user := c_user c, c_role := c_role c, c_type := c_type c\<rparr>"
  have c: "?c0\<lparr>c_range := c_range c\<rparr> = c" "\<not> mls p \<Longrightarrow> ?c0 = c"
    using nm by (cases c; simp add: context_init_def context_named_def)+
  have m: "hgives (case if mls p then Some (drop 1 (mls_sid_to_context p c)) else None of
      None \<Rightarrow> hret ?c0 | Some m \<Rightarrow> herr EINVAL (mls_from_string p m ?c0)) (\<lambda>c'. c' = c) (\<lambda>_. False)"
  proof (cases "mls p")
    case True
    with parse_print [of c p] nm wf have "hgives (mls_from_string p (drop 1 (mls_sid_to_context p c)) context_init)
        (\<lambda>c'. c' = context_init\<lparr>c_range := c_range c\<rparr>) (\<lambda>_. False)" by (simp add: context_named_def context_wf_def)
    from mls_from_string_other [OF this True, of ?c0] True c(1) show ?thesis
      by (auto intro: hgives_herr)
  qed (use c(2) in \<open>simp add: hgives_intros\<close>)
  obtain u r t where dat: "hashtab_search (table (p_users p)) (name_of (p_user_val_to_name p) (c_user c)) = Some u"
      "hashtab_search (table (p_roles p)) (name_of (p_role_val_to_name p) (c_role c)) = Some r"
      "hashtab_search (table (p_types p)) (name_of (p_type_val_to_name p) (c_type c)) = Some t"
      "user_value u = c_user c" "role_value r = c_role c" "type_value t = c_type c" "flavor t \<noteq> TYPE_ATTRIB"
    using nm unfolding context_named_def by blast
  let ?mo = "if mls p then Some (drop 1 (mls_sid_to_context p c)) else None"
  have "context_from_record p (Some \<lparr>rec_user = Some (name_of (p_user_val_to_name p) (c_user c)),
      rec_role = Some (name_of (p_role_val_to_name p) (c_role c)), rec_type = Some (name_of (p_type_val_to_name p) (c_type c)),
      rec_mls = ?mo\<rparr>) =
    hbind (alloc_all 4 EFAIL) (\<lambda>_. hbind (case ?mo of None \<Rightarrow> hret ?c0 | Some m \<Rightarrow> herr EINVAL (mls_from_string p m ?c0))
      (\<lambda>sc. if \<not> context_is_valid p sc then hfail EINVAL else hret sc))"
    by (simp add: context_from_record_def dat Let_def)
  moreover have "hgives \<dots> (\<lambda>c'. c' = c) (\<lambda>_. False)"
    by (rule hgives_seq, rule hgives_alloc_all, rule refl, rule hgives_seq [OF m]) (simp add: valid hgives_intros)
  ultimately show ?thesis by simp
qed

text \<open>The text of a valid context, read back, gives the context.\<close>

lemma string_round_trip:
  assumes nm: "context_named p c" and wf: "context_wf c" and valid: "context_is_valid p c"
    and nul: "0 \<notin> set (context_text p c)"
  shows "hgives (context_from_string p (context_text p c @ [0])) (\<lambda>c'. c' = c) (\<lambda>_. False)"
proof -
  let ?mo = "if mls p then Some (drop 1 (mls_sid_to_context p c)) else None"
  have split: "context_text p c = name_of (p_user_val_to_name p) (c_user c) @ colon # name_of (p_role_val_to_name p) (c_role c) @
      colon # name_of (p_type_val_to_name p) (c_type c) @ (case ?mo of None \<Rightarrow> [] | Some m \<Rightarrow> colon # m)"
    by (simp add: context_text_def mls_sid_to_context_def)
  have tw: "takeWhile (\<lambda>c. c \<noteq> 0) (context_text p c @ [0]) = context_text p c" "context_text p c @ [0] \<noteq> []"
    using nul by (simp_all add: takeWhile_append takeWhile_eq_all_conv)
  have clean: "colon \<notin> set (name_of (p_user_val_to_name p) (c_user c))" "colon \<notin> set (name_of (p_role_val_to_name p) (c_role c))"
      "colon \<notin> set (name_of (p_type_val_to_name p) (c_type c))" using nm by (simp_all add: context_named_def)
  note rd = hgives_from_string [of "name_of (p_user_val_to_name p) (c_user c)" "name_of (p_role_val_to_name p) (c_role c)"
      "name_of (p_type_val_to_name p) (c_type c)" ?mo, folded split]
  show ?thesis
    unfolding context_from_string_def tw(1) if_not_P [OF tw(2)]
    by (rule hgives_seq, rule hgives_hmalloc, rule refl, rule hgives_seq, rule rd,
        rule clean, rule clean, rule clean, rule hgives_from_record [OF nm wf valid])
qed

lemma to_string_text:
  assumes "length (mls_sid_to_context p c) < 2 ^ 32"
  shows "hgives (context_to_string p c) (\<lambda>(s, n). s = context_text p c \<and> n = length s + 1) (\<lambda>_. False)"
proof -
  have "unat (mls_compute_context_len p c) = length (mls_sid_to_context p c)"
    using assms by (simp add: context_len_text unsigned_of_nat take_bit_nat_eq_self)
  then show ?thesis
    unfolding context_to_string_def Let_def
    by (intro hgives_seq [OF hgives_hmalloc [OF refl]] hgives_intros) (simp add: context_text_def)
qed

text \<open>Whatever the string, a context that is accepted is valid.\<close>

lemma hbind_Inr: "hbind m f h = (Inr x, h') \<longleftrightarrow> (\<exists>y h1. m h = (Inr y, h1) \<and> f y h1 = (Inr x, h'))"
  by (auto simp: hbind_def split: prod.splits sum.splits)

lemma hret_Inr: "hret y h = (Inr x, h') \<longleftrightarrow> x = y \<and> h' = h"
  by (auto simp: hret_def)

lemma hfail_Inr: "hfail e h = (Inr x, h') \<longleftrightarrow> False"
  by (simp add: hfail_def)

lemmas h_Inr = hbind_Inr hret_Inr hfail_Inr

lemma from_record_valid: "context_from_record p rec h = (Inr c, h') \<Longrightarrow> context_is_valid p c"
  by (auto simp: context_from_record_def h_Inr Let_def split: option.splits if_splits)

lemma from_string_valid: "context_from_string p s h = (Inr c, h') \<Longrightarrow> context_is_valid p c"
  by (auto simp: context_from_string_def h_Inr split: if_splits dest: from_record_valid)

end
