(* ===== verification/Sidtab.thy ===== *)
theory Sidtab
  imports Mls_Types Hashtab_Laws
begin

section \<open>Security identifiers\<close>

text \<open>
  libsepol/src/sidtab.c: the table that numbers the security contexts in use. A slot is the list
  of the nodes of its chain, ordered by identifier; a null table pointer is \<open>None\<close>. The callback
  of the iterators gets the state behind \<open>args\<close> and may change the context it is given.
\<close>

record sidtab_node =
  nsid :: u32
  ncontext :: context_struct

record sidtab =
  shtable :: "sidtab_node list list option"
  snel :: u32
  next_sid :: u32
  shutdown :: bool

definition SIDTAB_SIZE :: nat where "SIDTAB_SIZE = 128"
definition SIDTAB_HASH :: "u32 \<Rightarrow> nat" where "SIDTAB_HASH sid = unat (sid AND 127)"
definition SECINITSID_UNLABELED :: u32 where "SECINITSID_UNLABELED = 3"
definition SEPOL_SECSID_NULL :: u32 where "SEPOL_SECSID_NULL = 0"

definition sepol_sidtab_init :: "heap \<Rightarrow> (errno + sidtab) \<times> heap" where
  "sepol_sidtab_init =
     hbind (hmalloc ENOMEM) (\<lambda>_. hret \<lparr>shtable = Some (replicate SIDTAB_SIZE []), snel = 0, next_sid = 1, shutdown = False\<rparr>)"

text \<open>The walk to the first node whose identifier is not smaller.\<close>

definition sid_before :: "u32 \<Rightarrow> sidtab_node list \<Rightarrow> sidtab_node list" where
  "sid_before sid ch = takeWhile (\<lambda>cur. sid > nsid cur) ch"

definition sid_from :: "u32 \<Rightarrow> sidtab_node list \<Rightarrow> sidtab_node list" where
  "sid_from sid ch = dropWhile (\<lambda>cur. sid > nsid cur) ch"

definition sepol_sidtab_insert :: "sidtab \<Rightarrow> u32 \<Rightarrow> context_struct \<Rightarrow> sidtab hp" where
  "sepol_sidtab_insert s sid context =
     (case shtable s of
        None \<Rightarrow> hfail ENOMEM
      | Some tbl \<Rightarrow>
          (let hvalue = SIDTAB_HASH sid; cur = sid_from sid (tbl ! hvalue)
           in if cur \<noteq> [] \<and> sid = nsid (hd cur) then hfail EEXIST
              else hbind (hmalloc ENOMEM) (\<lambda>_.
                hbind (herr ENOMEM (context_cpy context_init context)) (\<lambda>c.
                hret (s\<lparr>shtable := Some (tbl[hvalue := sid_before sid (tbl ! hvalue) @ \<lparr>nsid = sid, ncontext = c\<rparr> # cur]),
                        snel := snel s + 1,
                        next_sid := (if sid \<ge> next_sid s then sid + 1 else next_sid s)\<rparr>)))))"

definition sid_lookup :: "sidtab_node list list \<Rightarrow> u32 \<Rightarrow> context_struct option" where
  "sid_lookup tbl sid =
     (let cur = sid_from sid (tbl ! SIDTAB_HASH sid)
      in if cur = [] \<or> sid \<noteq> nsid (hd cur) then None else Some (ncontext (hd cur)))"

definition sepol_sidtab_search :: "sidtab \<Rightarrow> u32 \<Rightarrow> context_struct option" where
  "sepol_sidtab_search s sid =
     (case shtable s of
        None \<Rightarrow> None
      | Some tbl \<Rightarrow>
          (case sid_lookup tbl sid of
             Some c \<Rightarrow> Some c
           | None \<Rightarrow> sid_lookup tbl SECINITSID_UNLABELED))"

fun sidtab_map_nodes :: "(u32 \<Rightarrow> context_struct \<Rightarrow> 'a \<Rightarrow> int \<times> context_struct \<times> 'a) \<Rightarrow> sidtab_node list \<Rightarrow> 'a
    \<Rightarrow> int \<times> sidtab_node list \<times> 'a" where
  "sidtab_map_nodes apply_fn [] a = (0, [], a)"
| "sidtab_map_nodes apply_fn (cur # rest) a =
     (case apply_fn (nsid cur) (ncontext cur) a of (ret, c, a1) \<Rightarrow>
        if ret \<noteq> 0 then (ret, cur\<lparr>ncontext := c\<rparr> # rest, a1)
        else (case sidtab_map_nodes apply_fn rest a1 of (ret, rest', a2) \<Rightarrow> (ret, cur\<lparr>ncontext := c\<rparr> # rest', a2)))"

fun sidtab_map_slots :: "(u32 \<Rightarrow> context_struct \<Rightarrow> 'a \<Rightarrow> int \<times> context_struct \<times> 'a) \<Rightarrow> sidtab_node list list \<Rightarrow> 'a
    \<Rightarrow> int \<times> sidtab_node list list \<times> 'a" where
  "sidtab_map_slots apply_fn [] a = (0, [], a)"
| "sidtab_map_slots apply_fn (ch # rest) a =
     (case sidtab_map_nodes apply_fn ch a of (ret, ch', a1) \<Rightarrow>
        if ret \<noteq> 0 then (ret, ch' # rest, a1)
        else (case sidtab_map_slots apply_fn rest a1 of (ret, rest', a2) \<Rightarrow> (ret, ch' # rest', a2)))"

definition sepol_sidtab_map :: "sidtab \<Rightarrow> (u32 \<Rightarrow> context_struct \<Rightarrow> 'a \<Rightarrow> int \<times> context_struct \<times> 'a) \<Rightarrow> 'a
    \<Rightarrow> int \<times> sidtab \<times> 'a" where
  "sepol_sidtab_map s apply_fn a =
     (case shtable s of
        None \<Rightarrow> (0, s, a)
      | Some tbl \<Rightarrow> (case sidtab_map_slots apply_fn tbl a of (ret, tbl', a') \<Rightarrow> (ret, s\<lparr>shtable := Some tbl'\<rparr>, a')))"

text \<open>The chain walk of \<open>sepol_sidtab_map_remove_on_error\<close>, with the number of removed nodes.\<close>

fun sidtab_filter_nodes :: "(u32 \<Rightarrow> context_struct \<Rightarrow> 'a \<Rightarrow> int \<times> context_struct \<times> 'a) \<Rightarrow> sidtab_node list \<Rightarrow> u32 \<Rightarrow> 'a
    \<Rightarrow> sidtab_node list \<times> u32 \<times> 'a" where
  "sidtab_filter_nodes apply_fn [] n a = ([], n, a)"
| "sidtab_filter_nodes apply_fn (cur # rest) n a =
     (case apply_fn (nsid cur) (ncontext cur) a of (ret, c, a1) \<Rightarrow>
        if ret \<noteq> 0 then sidtab_filter_nodes apply_fn rest (n - 1) a1
        else (case sidtab_filter_nodes apply_fn rest n a1 of (rest', n', a2) \<Rightarrow> (cur\<lparr>ncontext := c\<rparr> # rest', n', a2)))"

fun sidtab_filter_slots :: "(u32 \<Rightarrow> context_struct \<Rightarrow> 'a \<Rightarrow> int \<times> context_struct \<times> 'a) \<Rightarrow> sidtab_node list list \<Rightarrow> u32 \<Rightarrow> 'a
    \<Rightarrow> sidtab_node list list \<times> u32 \<times> 'a" where
  "sidtab_filter_slots apply_fn [] n a = ([], n, a)"
| "sidtab_filter_slots apply_fn (ch # rest) n a =
     (case sidtab_filter_nodes apply_fn ch n a of (ch', n1, a1) \<Rightarrow>
        (case sidtab_filter_slots apply_fn rest n1 a1 of (rest', n2, a2) \<Rightarrow> (ch' # rest', n2, a2)))"

definition sepol_sidtab_map_remove_on_error ::
  "sidtab \<Rightarrow> (u32 \<Rightarrow> context_struct \<Rightarrow> 'a \<Rightarrow> int \<times> context_struct \<times> 'a) \<Rightarrow> 'a \<Rightarrow> sidtab \<times> 'a" where
  "sepol_sidtab_map_remove_on_error s apply_fn a =
     (case shtable s of
        None \<Rightarrow> (s, a)
      | Some tbl \<Rightarrow> (case sidtab_filter_slots apply_fn tbl (snel s) a of (tbl', n, a') \<Rightarrow>
          (s\<lparr>shtable := Some tbl', snel := n\<rparr>, a')))"

definition sepol_sidtab_search_context :: "sidtab_node list list \<Rightarrow> context_struct \<Rightarrow> u32" where
  "sepol_sidtab_search_context tbl context =
     (case find (\<lambda>cur. context_cmp (ncontext cur) context) (concat tbl) of Some cur \<Rightarrow> nsid cur | None \<Rightarrow> 0)"

text \<open>On failure \<open>next_sid\<close> is set back; the locks are no-ops in user space.\<close>

definition sepol_sidtab_context_to_sid :: "sidtab \<Rightarrow> context_struct \<Rightarrow> heap \<Rightarrow> (errno + u32) \<times> sidtab \<times> heap" where
  "sepol_sidtab_context_to_sid s context h =
     (case shtable s of
        None \<Rightarrow> (Inl EFAULT, s, h)
      | Some tbl \<Rightarrow>
          (let sid = sepol_sidtab_search_context tbl context in
           if sid \<noteq> 0 then (Inr sid, s, h)
           else if next_sid s = 0xFFFFFFFF \<or> shutdown s then (Inl ENOMEM, s, h)
           else (let sid = next_sid s; s1 = s\<lparr>next_sid := next_sid s + 1\<rparr> in
                 case sepol_sidtab_insert s1 sid context h of
                   (Inl e, h') \<Rightarrow> (Inl e, s1\<lparr>next_sid := next_sid s1 - 1\<rparr>, h')
                 | (Inr s2, h') \<Rightarrow> (Inr sid, s2, h'))))"

definition sepol_sidtab_hash_eval :: "sidtab \<Rightarrow> u32 \<times> nat \<times> nat \<times> nat" where
  \<comment> \<open>the four numbers that are printed\<close>
  "sepol_sidtab_hash_eval s =
     (let tbl = (case shtable s of None \<Rightarrow> [] | Some t \<Rightarrow> t) in
      (snel s, length (filter (\<lambda>ch. ch \<noteq> []) tbl), SIDTAB_SIZE, foldl max 0 (map length tbl)))"

definition sepol_sidtab_destroy :: "sidtab \<Rightarrow> sidtab" where
  "sepol_sidtab_destroy s =
     (case shtable s of None \<Rightarrow> s | Some _ \<Rightarrow> s\<lparr>shtable := None, snel := 0, next_sid := 1\<rparr>)"

definition sepol_sidtab_set :: "sidtab \<Rightarrow> sidtab \<Rightarrow> sidtab" where
  "sepol_sidtab_set dst src =
     dst\<lparr>shtable := shtable src, snel := snel src, next_sid := next_sid src, shutdown := False\<rparr>"

definition sepol_sidtab_shutdown :: "sidtab \<Rightarrow> sidtab" where
  "sepol_sidtab_shutdown s = s\<lparr>shutdown := True\<rparr>"

subsection \<open>The invariant\<close>

definition sid_slots_ok :: "sidtab_node list list \<Rightarrow> bool" where
  "sid_slots_ok tbl \<longleftrightarrow> length tbl = SIDTAB_SIZE \<and>
     (\<forall>i<length tbl. sorted_wrt (\<lambda>a b. nsid a < nsid b) (tbl ! i) \<and> (\<forall>n\<in>set (tbl ! i). SIDTAB_HASH (nsid n) = i))"

definition sidtab_ok :: "sidtab \<Rightarrow> bool" where
  "sidtab_ok s \<longleftrightarrow>
     (case shtable s of
        None \<Rightarrow> False
      | Some tbl \<Rightarrow> sid_slots_ok tbl \<and> (\<forall>n\<in>set (concat tbl). 0 < nsid n \<and> nsid n < next_sid s) \<and>
          snel s = word_of_nat (length (concat tbl)) \<and> 0 < next_sid s)"

text \<open>The finite map a table stands for.\<close>

definition sid_map :: "sidtab \<Rightarrow> u32 \<Rightarrow> context_struct option" where
  "sid_map s sid = (case shtable s of None \<Rightarrow> None | Some tbl \<Rightarrow> sid_lookup tbl sid)"

subsection \<open>Laws\<close>

lemma hash_less: "SIDTAB_HASH sid < SIDTAB_SIZE"
proof -
  have "sid AND 127 \<le> 127" by (rule word_and_le1)
  then show ?thesis by (simp add: SIDTAB_HASH_def SIDTAB_SIZE_def word_le_nat_alt)
qed

lemma node_eta3 [simp]: "\<lparr>nsid = nsid n, ncontext = ncontext n\<rparr> = n"
  by (cases n) simp

lemma sid_cat: "sid_before sid ch @ sid_from sid ch = ch"
  by (simp add: sid_before_def sid_from_def)

lemma sid_from_found:
  assumes "sorted_wrt (\<lambda>a b. nsid a < nsid b) ch" "n \<in> set ch"
  shows "sid_from (nsid n) ch \<noteq> [] \<and> hd (sid_from (nsid n) ch) = n"
  using assms by (induction ch) (auto simp: sid_from_def)

lemma sid_from_sub: "set (sid_from sid ch) \<subseteq> set ch"
  by (auto simp: sid_from_def dest: set_dropWhileD)

lemma lookup_iff:
  assumes ok: "sid_slots_ok tbl"
  shows "sid_lookup tbl sid = Some c \<longleftrightarrow> \<lparr>nsid = sid, ncontext = c\<rparr> \<in> set (concat tbl)"
proof
  let ?cur = "sid_from sid (tbl ! SIDTAB_HASH sid)"
  assume "sid_lookup tbl sid = Some c"
  then obtain r where "?cur = \<lparr>nsid = sid, ncontext = c\<rparr> # r"
    by (cases ?cur) (auto simp: sid_lookup_def split: if_splits)
  then have "\<lparr>nsid = sid, ncontext = c\<rparr> \<in> set (tbl ! SIDTAB_HASH sid)"
    using sid_from_sub [of sid "tbl ! SIDTAB_HASH sid"] by auto
  moreover have "SIDTAB_HASH sid < length tbl" using ok hash_less by (simp add: sid_slots_ok_def)
  ultimately show "\<lparr>nsid = sid, ncontext = c\<rparr> \<in> set (concat tbl)" using nth_mem by fastforce
next
  let ?n = "\<lparr>nsid = sid, ncontext = c\<rparr>"
  assume "?n \<in> set (concat tbl)"
  then obtain i where i: "i < length tbl" "?n \<in> set (tbl ! i)" by (auto simp: set_concat_nth simp del: set_concat)
  have "\<forall>n\<in>set (tbl ! i). SIDTAB_HASH (nsid n) = i" using ok i(1) by (simp add: sid_slots_ok_def)
  from bspec [OF this i(2)] have h: "SIDTAB_HASH sid = i" by simp
  have "sorted_wrt (\<lambda>a b. nsid a < nsid b) (tbl ! i)" using ok i(1) by (simp add: sid_slots_ok_def)
  from sid_from_found [OF this i(2)] show "sid_lookup tbl sid = Some c"
    by (simp add: sid_lookup_def h)
qed

lemma sid_place_sorted:
  assumes ch: "sorted_wrt (\<lambda>a b. nsid a < nsid b) ch" and new: "\<not> (sid_from sid ch \<noteq> [] \<and> sid = nsid (hd (sid_from sid ch)))"
  shows "sorted_wrt (\<lambda>a b. nsid a < nsid b) (sid_before sid ch @ \<lparr>nsid = sid, ncontext = c\<rparr> # sid_from sid ch)"
proof -
  have cat: "sorted_wrt (\<lambda>a b. nsid a < nsid b) (sid_before sid ch @ sid_from sid ch)" using ch by (simp add: sid_cat)
  have low: "\<forall>n\<in>set (sid_before sid ch). nsid n < sid" by (auto simp: sid_before_def dest: set_takeWhileD)
  have "\<forall>n\<in>set (sid_from sid ch). sid < nsid n"
  proof (cases "sid_from sid ch")
    case (Cons a r)
    then have "\<not> sid > nsid a" unfolding sid_from_def by (metis hd_dropWhile list.discI list.sel(1))
    then have "sid < nsid a" using new Cons by auto
    then show ?thesis using cat Cons by (auto simp: sorted_wrt_append)
  qed simp
  with low cat show ?thesis by (fastforce simp: sorted_wrt_append)
qed

lemma sid_set_update:
  assumes "i < length tbl"
  shows "set (concat (tbl[i := sid_before sid (tbl ! i) @ n # sid_from sid (tbl ! i)])) = insert n (set (concat tbl))"
    and "length (concat (tbl[i := sid_before sid (tbl ! i) @ n # sid_from sid (tbl ! i)])) = Suc (length (concat tbl))"
proof -
  have eq: "set (sid_before sid (tbl ! i) @ n # sid_from sid (tbl ! i)) = insert n (set (tbl ! i))"
    using sid_cat [of sid "tbl ! i"] by (metis list.simps(15) set_append Un_insert_right)
  show "set (concat (tbl[i := sid_before sid (tbl ! i) @ n # sid_from sid (tbl ! i)])) = insert n (set (concat tbl))"
    unfolding set_concat_update [OF assms] eq using assms by (auto simp: set_concat_nth simp del: set_concat)
  have "length (sid_before sid (tbl ! i)) + length (sid_from sid (tbl ! i)) = length (tbl ! i)"
    using sid_cat [of sid "tbl ! i"] by (metis length_append)
  with length_concat_update [OF assms, of "sid_before sid (tbl ! i) @ n # sid_from sid (tbl ! i)"]
  show "length (concat (tbl[i := sid_before sid (tbl ! i) @ n # sid_from sid (tbl ! i)])) = Suc (length (concat tbl))"
    by simp
qed

lemma sidtab_okD:
  assumes "sidtab_ok s"
  obtains tbl where "shtable s = Some tbl" "sid_slots_ok tbl" "\<And>n. n \<in> set (concat tbl) \<Longrightarrow> 0 < nsid n \<and> nsid n < next_sid s"
    "snel s = word_of_nat (length (concat tbl))" "0 < next_sid s"
  using assms by (auto simp: sidtab_ok_def split: option.splits)

lemma sid_map_iff:
  assumes "sidtab_ok s" "shtable s = Some tbl"
  shows "sid_map s sid = Some c \<longleftrightarrow> \<lparr>nsid = sid, ncontext = c\<rparr> \<in> set (concat tbl)"
  using assms lookup_iff by (auto simp: sidtab_ok_def sid_map_def simp del: set_concat)

lemma sid_map_bound:
  assumes "sidtab_ok s" "sid_map s sid = Some c" shows "0 < sid \<and> sid < next_sid s"
proof -
  obtain tbl where t: "shtable s = Some tbl" "\<And>n. n \<in> set (concat tbl) \<Longrightarrow> 0 < nsid n \<and> nsid n < next_sid s"
    using assms(1) by (rule sidtab_okD) blast
  from t(2) [OF sid_map_iff [OF assms(1) t(1), THEN iffD1, OF assms(2)]] show ?thesis by simp
qed

text \<open>Insertion of a node for a new identifier; \<open>nxt\<close> is the new \<open>next_sid\<close>.\<close>

lemma sid_place:
  assumes ok: "sid_slots_ok tbl" and none: "sid_lookup tbl sid = None"
    and tbl': "tbl' = tbl[SIDTAB_HASH sid := sid_before sid (tbl ! SIDTAB_HASH sid) @ \<lparr>nsid = sid, ncontext = c\<rparr> # sid_from sid (tbl ! SIDTAB_HASH sid)]"
  shows "sid_slots_ok tbl'" "sid_lookup tbl' = (sid_lookup tbl)(sid \<mapsto> c)"
proof -
  let ?i = "SIDTAB_HASH sid" and ?n = "\<lparr>nsid = sid, ncontext = c\<rparr>"
  have i: "?i < length tbl" using ok hash_less by (simp add: sid_slots_ok_def)
  have new: "\<not> (sid_from sid (tbl ! ?i) \<noteq> [] \<and> sid = nsid (hd (sid_from sid (tbl ! ?i))))"
    using none by (auto simp: sid_lookup_def Let_def split: if_splits)
  have ch: "sorted_wrt (\<lambda>a b. nsid a < nsid b) (tbl ! ?i)" "\<forall>n\<in>set (tbl ! ?i). SIDTAB_HASH (nsid n) = ?i"
    using ok i by (simp_all add: sid_slots_ok_def)
  have "set (sid_before sid (tbl ! ?i)) \<subseteq> set (tbl ! ?i)" by (auto simp: sid_before_def dest: set_takeWhileD)
  then have "\<forall>n\<in>set (sid_before sid (tbl ! ?i) @ ?n # sid_from sid (tbl ! ?i)). SIDTAB_HASH (nsid n) = ?i"
    using ch(2) sid_from_sub [of sid "tbl ! ?i"] by auto
  then show ok': "sid_slots_ok tbl'"
    using ok i sid_place_sorted [OF ch(1) new] by (simp add: tbl' sid_slots_ok_def nth_list_update del: set_append)
  show "sid_lookup tbl' = (sid_lookup tbl)(sid \<mapsto> c)"
  proof
    fix x
    have "sid_lookup tbl' x = Some y \<longleftrightarrow> ((sid_lookup tbl)(sid \<mapsto> c)) x = Some y" for y
      using lookup_iff [OF ok', of x y] lookup_iff [OF ok, of x y] sid_set_update(1) [OF i, of sid ?n] none
      by (auto simp: tbl' simp del: set_concat)
    then show "sid_lookup tbl' x = ((sid_lookup tbl)(sid \<mapsto> c)) x" by (metis option.exhaust)
  qed
qed

lemma insert_gives:
  assumes ok: "sid_slots_ok tbl" "shtable s = Some tbl" "\<And>n. n \<in> set (concat tbl) \<Longrightarrow> 0 < nsid n \<and> nsid n < nx"
    "snel s = word_of_nat (length (concat tbl))" and nx: "nx \<le> next_sid s" and sid: "0 < sid" "sid \<noteq> 0xFFFFFFFF"
  shows "hgives (sepol_sidtab_insert s sid context)
    (\<lambda>s'. sidtab_ok s' \<and> sid_map s sid = None \<and> sid_map s' = (sid_map s)(sid \<mapsto> context) \<and>
       next_sid s' = max (next_sid s) (sid + 1) \<and> shutdown s' = shutdown s)
    (\<lambda>e. e = EEXIST \<and> sid_map s sid \<noteq> None)"
proof (cases "sid_lookup tbl sid")
  case (Some c)
  then show ?thesis
    using ok(2) by (auto simp: sepol_sidtab_insert_def sid_lookup_def sid_map_def Let_def split: if_splits intro!: hgives_intros)
next
  case None
  let ?i = "SIDTAB_HASH sid"
  let ?tbl' = "tbl[?i := sid_before sid (tbl ! ?i) @ \<lparr>nsid = sid, ncontext = context\<rparr> # sid_from sid (tbl ! ?i)]"
  let ?s' = "s\<lparr>shtable := Some ?tbl', snel := snel s + 1, next_sid := (if sid \<ge> next_sid s then sid + 1 else next_sid s)\<rparr>"
  note pl = sid_place [OF ok(1) None refl, of "context"]
  have i: "?i < length tbl" using ok(1) hash_less by (simp add: sid_slots_ok_def)
  have "unat sid < 2 ^ 32 - 1" using sid(2) unat_u32_less [of sid] by (simp add: word_unat_eq_iff)
  then have suc: "unat (sid + 1) = unat sid + 1" by (simp add: unat_word_ariths)
  have mx: "next_sid ?s' = max (next_sid s) (sid + 1)" using suc by (auto simp: max_def word_le_nat_alt word_less_nat_alt word_unat_eq_iff)
  have up: "x < next_sid ?s'" if "x < nx \<or> x = sid" for x
  proof -
    have "unat x < unat (max (next_sid s) (sid + 1))"
      using that nx suc by (auto simp: max_def word_le_nat_alt word_less_nat_alt)
    then show ?thesis using mx by (simp add: word_less_nat_alt)
  qed
  have pos: "0 < next_sid ?s'" using up [of sid] sid(1) by (meson less_trans)
  have "\<forall>n\<in>set (concat ?tbl'). 0 < nsid n \<and> nsid n < next_sid ?s'"
    unfolding sid_set_update(1) [OF i] using ok(3) up sid(1) by (simp del: set_concat)
  then have "sidtab_ok ?s'"
    using pl(1) ok(4) pos sid_set_update(2) [OF i, of sid "\<lparr>nsid = sid, ncontext = context\<rparr>"]
    by (simp add: sidtab_ok_def del: set_concat)
  moreover have "sid_map ?s' = (sid_map s)(sid \<mapsto> context)" using pl(2) ok(2) by (auto simp: sid_map_def fun_eq_iff)
  ultimately have P: "sidtab_ok ?s' \<and> sid_map s sid = None \<and> sid_map ?s' = (sid_map s)(sid \<mapsto> context) \<and>
       next_sid ?s' = max (next_sid s) (sid + 1) \<and> shutdown ?s' = shutdown s"
    using None ok(2) mx by (simp add: sid_map_def)
  have "\<not> (sid_from sid (tbl ! ?i) \<noteq> [] \<and> sid = nsid (hd (sid_from sid (tbl ! ?i))))"
    using None by (auto simp: sid_lookup_def Let_def split: if_splits)
  then have eq: "sepol_sidtab_insert s sid context = hbind (hmalloc ENOMEM) (\<lambda>_.
      hbind (herr ENOMEM (context_cpy context_init context)) (\<lambda>c. hret (s\<lparr>shtable := Some (tbl[?i := sid_before sid (tbl ! ?i) @
        \<lparr>nsid = sid, ncontext = c\<rparr> # sid_from sid (tbl ! ?i)]), snel := snel s + 1,
        next_sid := (if sid \<ge> next_sid s then sid + 1 else next_sid s)\<rparr>)))"
    using ok(2) by (auto simp: sepol_sidtab_insert_def Let_def)
  show ?thesis
    unfolding eq
    by (rule hgives_seq, rule hgives_hmalloc, rule refl, rule hgives_seq, rule hgives_herr, rule context_cpy_gives,
        rule refl, assumption, rule hgives_hret, rule P)
qed

lemma insert_error:
  assumes "sepol_sidtab_insert s sid c h = (Inl e, h')"
  shows "e = ENOMEM \<or> e = EEXIST \<and> sid_map s sid \<noteq> None"
  using assms
  by (auto simp: sepol_sidtab_insert_def Let_def hfail_def hbind_def hmalloc_def hret_def herr_def sid_map_def sid_lookup_def
      split: option.splits if_splits prod.splits sum.splits)

text \<open>The identifier of a context is the one it has, or a new one.\<close>

lemma search_context_spec:
  assumes "sidtab_ok s" "shtable s = Some tbl"
  shows "if sepol_sidtab_search_context tbl c = 0 then c \<notin> ran (sid_map s)
    else sid_map s (sepol_sidtab_search_context tbl c) = Some c"
proof (cases "find (\<lambda>cur. context_cmp (ncontext cur) c) (concat tbl)")
  case None
  then have "\<forall>n\<in>set (concat tbl). ncontext n \<noteq> c" by (auto simp: find_None_iff context_cmp_eq simp del: set_concat)
  moreover have "\<lparr>nsid = sid, ncontext = c\<rparr> \<in> set (concat tbl)" if "sid_map s sid = Some c" for sid
    using sid_map_iff [OF assms] that by blast
  ultimately have "c \<notin> ran (sid_map s)" unfolding ran_def by force
  with None show ?thesis by (simp add: sepol_sidtab_search_context_def)
next
  case (Some n)
  then have n: "n \<in> set (concat tbl)" "ncontext n = c"
    by (auto simp: find_Some_iff context_cmp_eq simp del: set_concat length_concat)
  have m: "sid_map s (nsid n) = Some c" unfolding sid_map_iff [OF assms] using n by (metis node_eta3)
  moreover have "nsid n \<noteq> 0" using sid_map_bound [OF assms(1) m] by auto
  ultimately show ?thesis using Some by (simp add: sepol_sidtab_search_context_def)
qed

lemma context_to_sid_spec:
  assumes ok: "sidtab_ok s" and r: "sepol_sidtab_context_to_sid s c h = (r, s', h')"
  shows "case r of
      Inl e \<Rightarrow> e = ENOMEM \<and> s' = s \<and> c \<notin> ran (sid_map s) \<and> (\<not> mem_ok h \<or> next_sid s = 0xFFFFFFFF \<or> shutdown s)
    | Inr sid \<Rightarrow> sidtab_ok s' \<and> sid_map s' sid = Some c \<and> sid \<noteq> 0 \<and>
        (if c \<in> ran (sid_map s) then s' = s else sid = next_sid s \<and> sid_map s' = (sid_map s)(sid \<mapsto> c) \<and> sid_map s sid = None)"
proof -
  obtain tbl where t: "shtable s = Some tbl" "sid_slots_ok tbl" "0 < next_sid s"
      "\<And>n. n \<in> set (concat tbl) \<Longrightarrow> 0 < nsid n \<and> nsid n < next_sid s" "snel s = word_of_nat (length (concat tbl))"
    using ok by (rule sidtab_okD) blast
  let ?sid = "sepol_sidtab_search_context tbl c"
  note sc = search_context_spec [OF ok t(1), of c]
  show ?thesis
  proof (cases "?sid = 0")
    case False
    then have "r = Inr ?sid" "s' = s" using r t(1) by (simp_all add: sepol_sidtab_context_to_sid_def Let_def)
    with False sc ok show ?thesis by (auto simp: ran_def)
  next
    case True
    then have new: "c \<notin> ran (sid_map s)" using sc by simp
    show ?thesis
    proof (cases "next_sid s = 0xFFFFFFFF \<or> shutdown s")
      case True
      then have "r = Inl ENOMEM" "s' = s"
        using r t(1) \<open>?sid = 0\<close> by (auto simp: sepol_sidtab_context_to_sid_def Let_def)
      with new True show ?thesis by auto
    next
      case False
      let ?s1 = "s\<lparr>next_sid := next_sid s + 1\<rparr>"
      have free: "sid_map s (next_sid s) = None"
        using sid_map_bound [OF ok, of "next_sid s"] by (cases "sid_map s (next_sid s)") auto
      have m1: "sid_map ?s1 = sid_map s" by (simp add: sid_map_def fun_eq_iff)
      have lim: "next_sid s \<noteq> 0xFFFFFFFF" using False by simp
      then have "unat (next_sid s) < 2 ^ 32 - 1" using unat_u32_less [of "next_sid s"] by (simp add: word_unat_eq_iff)
      then have le: "next_sid s \<le> next_sid s + 1" by (simp add: word_le_nat_alt unat_word_ariths)
      have undo: "?s1\<lparr>next_sid := next_sid ?s1 - 1\<rparr> = s" by simp
      obtain q h1 where q: "sepol_sidtab_insert ?s1 (next_sid s) c h = (q, h1)" by fastforce
      have ins: "hgives (sepol_sidtab_insert ?s1 (next_sid s) c)
        (\<lambda>s'. sidtab_ok s' \<and> sid_map s' = (sid_map s)(next_sid s \<mapsto> c)) (\<lambda>_. False)"
        by (rule hgives_weaken [OF insert_gives [of tbl ?s1 "next_sid s" "next_sid s" c]])
          (use t le lim free m1 in auto)
      have rs: "(r, s') = (case q of Inl e \<Rightarrow> (Inl e, s) | Inr s2 \<Rightarrow> (Inr (next_sid s), s2))"
        using r t(1) \<open>?sid = 0\<close> False q undo by (auto simp: sepol_sidtab_context_to_sid_def Let_def split: sum.splits)
      show ?thesis
      proof (cases q)
        case (Inl e)
        have "e = ENOMEM" using insert_error [OF q [unfolded Inl]] m1 free t(1) by auto
        moreover have "\<not> mem_ok h" using hgives_Inl [OF ins q [unfolded Inl]] by blast
        ultimately show ?thesis using rs Inl new by simp
      next
        case (Inr s2)
        then show ?thesis using rs hgives_Inr [OF ins q [unfolded Inr]] new free t(3) by auto
      qed
    qed
  qed
qed

subsection \<open>Sequences of requests\<close>

inductive sid_step :: "sidtab \<Rightarrow> sidtab \<Rightarrow> bool" where
  request: "sepol_sidtab_context_to_sid s c h = (r, s', h') \<Longrightarrow> sid_step s s'"
| stop: "sid_step s (sepol_sidtab_shutdown s)"

definition sids_unique :: "sidtab \<Rightarrow> bool" where
  "sids_unique s \<longleftrightarrow> inj_on (sid_map s) (dom (sid_map s))"

lemma sids_uniqueD: "\<lbrakk>sids_unique s; sid_map s a = Some c; sid_map s b = Some c\<rbrakk> \<Longrightarrow> a = b"
  unfolding sids_unique_def by (metis domI inj_onD)

lemma request_keeps:
  assumes "sidtab_ok s" "sids_unique s" "sepol_sidtab_context_to_sid s c h = (r, s', h')"
  shows "sidtab_ok s' \<and> sids_unique s' \<and> sid_map s \<subseteq>\<^sub>m sid_map s'"
proof (cases r)
  case (Inl e)
  then show ?thesis using context_to_sid_spec [OF assms(1,3)] assms(1,2) by simp
next
  case (Inr sid)
  show ?thesis
  proof (cases "c \<in> ran (sid_map s)")
    case True
    then show ?thesis using context_to_sid_spec [OF assms(1,3)] assms(1,2) Inr by simp
  next
    case False
    from context_to_sid_spec [OF assms(1,3), unfolded Inr sum.case if_not_P [OF False]]
    have m: "sidtab_ok s'" "sid_map s' = (sid_map s)(sid \<mapsto> c)" "sid_map s sid = None" by blast+
    have "sids_unique s'"
      unfolding sids_unique_def m(2)
    proof (rule inj_onI)
      fix a b assume ab: "a \<in> dom ((sid_map s)(sid \<mapsto> c))" "b \<in> dom ((sid_map s)(sid \<mapsto> c))"
        "((sid_map s)(sid \<mapsto> c)) a = ((sid_map s)(sid \<mapsto> c)) b"
      then show "a = b"
        using False sids_uniqueD [OF assms(2)] by (auto simp: ran_def split: if_splits)
    qed
    then show ?thesis using m by (auto simp: map_le_def)
  qed
qed

lemma shutdown_keeps: "sid_map (sepol_sidtab_shutdown s) = sid_map s" "sidtab_ok (sepol_sidtab_shutdown s) = sidtab_ok s"
  unfolding sepol_sidtab_shutdown_def sid_map_def sidtab_ok_def fun_eq_iff by (simp_all cong: option.case_cong)

lemma sid_step_keeps:
  assumes "sid_step s s'" "sidtab_ok s" "sids_unique s"
  shows "sidtab_ok s' \<and> sids_unique s' \<and> sid_map s \<subseteq>\<^sub>m sid_map s'"
  using assms by cases (auto simp: shutdown_keeps sids_unique_def dest: request_keeps)

lemma sid_steps_keep:
  assumes "sid_step\<^sup>*\<^sup>* s s'" "sidtab_ok s" "sids_unique s"
  shows "sidtab_ok s' \<and> sids_unique s' \<and> sid_map s \<subseteq>\<^sub>m sid_map s'"
  using assms
proof (induction rule: rtranclp_induct)
  case (step y z)
  then show ?case using sid_step_keeps [of y z] map_le_trans by blast
qed simp

definition sidtab_empty :: sidtab where
  "sidtab_empty = \<lparr>shtable = Some (replicate SIDTAB_SIZE []), snel = 0, next_sid = 1, shutdown = False\<rparr>"

lemma sidtab_empty: "sepol_sidtab_init [] = (Inr sidtab_empty, [])" "sidtab_ok sidtab_empty" "sid_map sidtab_empty = Map.empty"
    "sids_unique sidtab_empty"
proof -
  show m: "sid_map sidtab_empty = Map.empty"
    by (simp add: sidtab_empty_def sid_map_def sid_lookup_def sid_from_def fun_eq_iff nth_replicate hash_less)
  show "sids_unique sidtab_empty" by (simp add: sids_unique_def m)
qed (simp_all add: sepol_sidtab_init_def hbind_def hmalloc_def hret_def sidtab_ok_def sid_slots_ok_def sidtab_empty_def)

end
