(* ===== verification/Avrule.thy ===== *)
theory Avrule
  imports Policydb Ebitmap_IO
begin

section \<open>Access vector rules of modules\<close>

text \<open>
  libsepol/src/policydb.c: sets of types and roles and the access vector rules of modules, as they
  are read from a policy file, and the combinators for repetition and for several numbers at once
  that all readers of policydb.c share.
\<close>

abbreviation (input) POLICY_KERN :: u32 where "POLICY_KERN \<equiv> 0"
abbreviation (input) POLICY_BASE :: u32 where "POLICY_BASE \<equiv> 1"
abbreviation (input) POLICY_MOD :: u32 where "POLICY_MOD \<equiv> 2"
abbreviation (input) SEPOL_TARGET_SELINUX :: u32 where "SEPOL_TARGET_SELINUX \<equiv> 0"
abbreviation (input) SEPOL_TARGET_XEN :: u32 where "SEPOL_TARGET_XEN \<equiv> 1"
abbreviation (input) MOD_POLICYDB_VERSION_XPERMS_IOCTL :: u32 where "MOD_POLICYDB_VERSION_XPERMS_IOCTL \<equiv> 18"
abbreviation (input) AVRULE_XPERMS :: u32 where "AVRULE_XPERMS \<equiv> 0x0F00"

definition next_words :: "nat \<Rightarrow> u32 list rd" where
  "next_words n = rbind (next_entry (4 * n)) (\<lambda>b. rret (le32s n b))"

text \<open>A loop that reads one element after the other into a list, and one that changes a state.\<close>

fun rlist :: "nat \<Rightarrow> 'a rd \<Rightarrow> 'a list rd" where
  "rlist 0 m = rret []"
| "rlist (Suc n) m = rbind m (\<lambda>x. rbind (rlist n m) (\<lambda>xs. rret (x # xs)))"

fun rtimes :: "nat \<Rightarrow> ('a \<Rightarrow> 'a rd) \<Rightarrow> 'a \<Rightarrow> 'a rd" where
  "rtimes 0 f x = rret x"
| "rtimes (Suc n) f x = rbind (f x) (rtimes n f)"

definition role_set_read :: "role_set rd" where
  "role_set_read = rerr EFAIL (rbind ebitmap_read (\<lambda>r. rbind next_u32 (\<lambda>f. rret \<lparr>rs_roles = r, rs_flags = f\<rparr>)))"

definition type_set_read :: "type_set rd" where
  "type_set_read = rerr EFAIL
     (rbind ebitmap_read (\<lambda>t. rbind ebitmap_read (\<lambda>n. rbind next_u32 (\<lambda>f.
        rret \<lparr>ts_types = t, ts_negset = n, ts_flags = f\<rparr>))))"

definition avrule_init :: avrule where
  "avrule_init = \<lparr>ar_specified = 0, ar_flags = 0, ar_stypes = type_set_init, ar_ttypes = type_set_init, ar_perms = [], ar_xperms = None\<rparr>"

definition avrule_read_xperms :: "policydb \<Rightarrow> av_extended_perms rd" where
  "avrule_read_xperms p =
     (if policyvers p < MOD_POLICYDB_VERSION_XPERMS_IOCTL then rfail EFAIL
      else if target_platform p \<noteq> SEPOL_TARGET_SELINUX then rfail EFAIL
      else rbind (rmalloc EFAIL) (\<lambda>_.
        rbind (next_entry 1) (\<lambda>s. rbind (next_entry 1) (\<lambda>d. rbind (next_words 8) (\<lambda>ps.
        rret \<lparr>xp_specified = hd s, xp_driver = hd d, xp_perms = ps\<rparr>)))))"

definition avrule_read :: "policydb \<Rightarrow> avrule rd" where
  "avrule_read p =
     rerr EFAIL
       (rbind (rmalloc EFAIL) (\<lambda>_. rbind (next_words 2) (\<lambda>buf.
        rbind type_set_read (\<lambda>st. rbind type_set_read (\<lambda>tt.
        rbind next_u32 (\<lambda>len.
        rbind (rlist (unat len)
          (rbind (rmalloc EFAIL) (\<lambda>_. rbind (next_words 2) (\<lambda>b. rret \<lparr>cp_tclass = b ! 0, cp_data = b ! 1\<rparr>)))) (\<lambda>ps.
        let a = avrule_init\<lparr>ar_specified := buf ! 0, ar_flags := buf ! 1, ar_stypes := st, ar_ttypes := tt, ar_perms := ps\<rparr> in
        if buf ! 0 AND AVRULE_XPERMS \<noteq> 0
        then rbind (avrule_read_xperms p) (\<lambda>x. rret (a\<lparr>ar_xperms := Some x\<rparr>))
        else rret a)))))))"

definition avrule_read_list :: "policydb \<Rightarrow> avrule list rd" where
  "avrule_read_list p = rbind next_u32 (\<lambda>len. rlist (unat len) (avrule_read p))"

end
