(* ===== verification/Conditional.thy ===== *)
theory Conditional
  imports Avrule Avtab_IO
begin

section \<open>Conditional policy\<close>

text \<open>
  libsepol/src/conditional.c: conditional expressions in reverse Polish notation over the
  booleans of the policy, their evaluation, the enabling of the rules of the conditional
  table, the precomputed truth tables by which expressions are compared, and the reader of
  the conditional part of a kernel policy. The stack of the evaluator is a list with its top
  first. A rule list holds the addresses of rules in \<open>te_cond_avtab\<close>. A boolean without a
  datum, undefined in C, reads as 0.
\<close>

definition COND_EXPR_MAXDEPTH :: nat where "COND_EXPR_MAXDEPTH = 10"
definition COND_MAX_BOOLS :: u32 where "COND_MAX_BOOLS = 5"
definition COND_BOOL :: u32 where "COND_BOOL = 1"
definition COND_NOT :: u32 where "COND_NOT = 2"
definition COND_OR :: u32 where "COND_OR = 3"
definition COND_AND :: u32 where "COND_AND = 4"
definition COND_XOR :: u32 where "COND_XOR = 5"
definition COND_EQ :: u32 where "COND_EQ = 6"
definition COND_NEQ :: u32 where "COND_NEQ = 7"
definition COND_LAST :: u32 where "COND_LAST = COND_NEQ"

lemmas cond_consts = COND_BOOL_def COND_NOT_def COND_OR_def COND_AND_def COND_XOR_def COND_EQ_def COND_NEQ_def COND_LAST_def

subsection \<open>Ordering the rule lists\<close>

text \<open>\<open>front\<close> is the list from \<open>top\<close> up to \<open>p\<close>, the other argument the list from \<open>cur\<close> on.\<close>

fun cond_optimize_loop :: "(nat \<Rightarrow> bool) \<Rightarrow> nat list \<Rightarrow> nat list \<Rightarrow> nat list" where
  "cond_optimize_loop is_type front [] = front"
| "cond_optimize_loop is_type front (cur # rest) =
     (if is_type cur \<and> front \<noteq> [] then cond_optimize_loop is_type (cur # front) rest
      else cond_optimize_loop is_type (front @ [cur]) rest)"

definition rule_at :: "avtab \<Rightarrow> nat \<Rightarrow> avtab_node option" where
  \<comment> \<open>the node a pointer refers to\<close>
  "rule_at t a = find (\<lambda>n. naddr n = a) (avtab_nodes t)"

definition is_type_rule :: "avtab \<Rightarrow> nat \<Rightarrow> bool" where
  "is_type_rule t a = (case rule_at t a of None \<Rightarrow> False | Some n \<Rightarrow> specified (akey n) AND AVTAB_TYPE \<noteq> 0)"

definition cond_optimize :: "avtab \<Rightarrow> nat list \<Rightarrow> nat list" where
  "cond_optimize t l = cond_optimize_loop (is_type_rule t) [] l"

definition cond_optimize_lists :: "avtab \<Rightarrow> cond_node list \<Rightarrow> cond_node list" where
  "cond_optimize_lists t cl =
     map (\<lambda>n. n\<lparr>true_list := cond_optimize t (true_list n), false_list := cond_optimize t (false_list n)\<rparr>) cl"

subsection \<open>Evaluation\<close>

definition bool_state :: "policydb \<Rightarrow> u32 \<Rightarrow> int" where
  "bool_state p b = (case val_get (bool_val_to_struct p) b of Some d \<Rightarrow> state d | None \<Rightarrow> 0)"

text \<open>One round of the loop: the new stack, or none where the function returns \<open>-1\<close>.\<close>

definition cond_binop :: "u32 \<Rightarrow> int \<Rightarrow> int \<Rightarrow> int" where
  "cond_binop op a b =
     (if op = COND_OR then a OR b else if op = COND_AND then a AND b else if op = COND_XOR then a XOR b
      else if op = COND_EQ then of_bool (a = b) else of_bool (a \<noteq> b))"

definition cond_step :: "policydb \<Rightarrow> cond_expr \<Rightarrow> int list \<Rightarrow> int list option" where
  "cond_step p cur s =
     (if cond_expr_type cur = COND_BOOL then
        (if length s = COND_EXPR_MAXDEPTH then None else Some (bool_state p (cond_bool cur) # s))
      else if cond_expr_type cur = COND_NOT then
        (case s of [] \<Rightarrow> None | a # r \<Rightarrow> Some (of_bool (a = 0) # r))
      else if cond_expr_type cur \<in> {COND_OR, COND_AND, COND_XOR, COND_EQ, COND_NEQ} then
        (case s of b # a # r \<Rightarrow> Some (cond_binop (cond_expr_type cur) a b # r) | _ \<Rightarrow> None)
      else None)"

fun cond_eval_loop :: "policydb \<Rightarrow> cond_expr list \<Rightarrow> int list \<Rightarrow> int" where
  "cond_eval_loop p [] s = (if s = [] then - 1 else last s)"
| "cond_eval_loop p (cur # rest) s = (case cond_step p cur s of None \<Rightarrow> - 1 | Some s' \<Rightarrow> cond_eval_loop p rest s')"

definition cond_evaluate_expr :: "policydb \<Rightarrow> cond_expr list \<Rightarrow> int" where
  "cond_evaluate_expr p e = cond_eval_loop p e []"

definition cond_copy_expr :: "cond_expr list \<Rightarrow> cond_expr list hp" where
  "cond_copy_expr e = (\<lambda>h. malloc_list h e)"

text \<open>Turning the rules at the addresses \<open>l\<close> on or off.\<close>

definition rule_flag :: "bool \<Rightarrow> avtab_node \<Rightarrow> avtab_node" where
  "rule_flag on n = n\<lparr>akey := (akey n)\<lparr>specified :=
     (if on then specified (akey n) OR AVTAB_ENABLED else specified (akey n) AND NOT AVTAB_ENABLED)\<rparr>\<rparr>"

definition set_enabled :: "bool \<Rightarrow> nat list \<Rightarrow> avtab \<Rightarrow> avtab" where
  "set_enabled on l t =
     t\<lparr>ahtable := map_option (map (map (\<lambda>n. if naddr n \<in> set l then rule_flag on n else n))) (ahtable t)\<rparr>"

definition evaluate_cond_node :: "policydb \<Rightarrow> cond_node \<Rightarrow> policydb \<times> cond_node" where
  "evaluate_cond_node p n =
     (let new_state = cond_evaluate_expr p (expr n) in
      if new_state \<noteq> cur_state n
      then (p\<lparr>te_cond_avtab := set_enabled (new_state = 0) (false_list n)
                               (set_enabled (new_state > 0) (true_list n) (te_cond_avtab p))\<rparr>,
            n\<lparr>cur_state := new_state\<rparr>)
      else (p, n))"

fun evaluate_conds_loop :: "policydb \<Rightarrow> cond_node list \<Rightarrow> policydb \<times> cond_node list" where
  "evaluate_conds_loop p [] = (p, [])"
| "evaluate_conds_loop p (cur # rest) =
     (case evaluate_cond_node p cur of (p1, cur') \<Rightarrow>
        (case evaluate_conds_loop p1 rest of (p2, rest') \<Rightarrow> (p2, cur' # rest')))"

definition evaluate_conds :: "policydb \<Rightarrow> policydb" where
  "evaluate_conds p = (case evaluate_conds_loop p (cond_list p) of (p', l) \<Rightarrow> p'\<lparr>cond_list := l\<rparr>)"

subsection \<open>Normal form and comparison\<close>

definition bool_present :: "u32 \<Rightarrow> u32 list \<Rightarrow> u32 \<Rightarrow> bool" where
  "bool_present target bools num_bools \<longleftrightarrow>
     (if num_bools > COND_MAX_BOOLS then False else target \<in> set (take (unat num_bools) bools))"

definition same_bools :: "cond_node \<Rightarrow> cond_node \<Rightarrow> bool" where
  "same_bools a b \<longleftrightarrow>
     (if nbools a \<noteq> nbools b then False
      else list_all (\<lambda>i. bool_present i (bool_ids b) (nbools a)) (take (unat (nbools a)) (bool_ids a)))"

fun cond_same_expr :: "cond_expr list \<Rightarrow> cond_expr list \<Rightarrow> bool" where
  "cond_same_expr [] [] \<longleftrightarrow> True"
| "cond_same_expr (a # as) (b # bs) \<longleftrightarrow>
     (if cond_expr_type a \<noteq> cond_expr_type b then False
      else if cond_expr_type a = COND_BOOL \<and> cond_bool a \<noteq> cond_bool b then False
      else cond_same_expr as bs)"
| "cond_same_expr _ _ \<longleftrightarrow> False"

definition cond_expr_equal :: "cond_node option \<Rightarrow> cond_node option \<Rightarrow> bool" where
  "cond_expr_equal ao bo \<longleftrightarrow>
     (case (ao, bo) of
        (Some a, Some b) \<Rightarrow>
          (if nbools a \<noteq> nbools b then False
           else if nbools a \<le> COND_MAX_BOOLS \<and> nbools b \<le> COND_MAX_BOOLS
           then (if \<not> same_bools a b then False else expr_pre_comp a = expr_pre_comp b)
           else cond_same_expr (expr a) (expr b))
      | _ \<Rightarrow> False)"

definition cond_node_zero :: cond_node where
  "cond_node_zero = \<lparr>cur_state = 0, expr = [], true_list = [], false_list = [], avtrue_list = [], avfalse_list = [], nbools = 0,
     bool_ids = replicate 5 0, expr_pre_comp = 0, cn_flags = 0\<rparr>"

definition cond_node_create :: "policydb \<Rightarrow> cond_node option \<Rightarrow> cond_node hp" where
  "cond_node_create p no =
     hbind (hmalloc ENOMEM) (\<lambda>_.
     case no of
       None \<Rightarrow> hret cond_node_zero
     | Some n \<Rightarrow>
         hbind (cond_copy_expr (expr n)) (\<lambda>e.
         if e = [] then hfail ENOMEM
         else hret (cond_node_zero\<lparr>expr := e, cur_state := cond_evaluate_expr p e, nbools := nbools n,
            bool_ids := take (unat (min (nbools n) COND_MAX_BOOLS)) (bool_ids n) @
                        replicate (5 - unat (min (nbools n) COND_MAX_BOOLS)) 0,
            expr_pre_comp := expr_pre_comp n, cn_flags := cn_flags n\<rparr>)))"

text \<open>The node found, with \<open>was_created\<close>.\<close>

fun cond_node_find :: "policydb \<Rightarrow> cond_node \<Rightarrow> cond_node list \<Rightarrow> (cond_node \<times> bool) hp" where
  "cond_node_find p needle [] = hbind (cond_node_create p (Some needle)) (\<lambda>n. hret (n, True))"
| "cond_node_find p needle (c # haystack) =
     (if cond_expr_equal (Some needle) (Some c) then hret (c, False) else cond_node_find p needle haystack)"

definition cond_node_search :: "policydb \<Rightarrow> cond_node list \<Rightarrow> cond_node \<Rightarrow> (cond_node \<times> policydb) hp" where
  "cond_node_search p list cn =
     hbind (cond_node_find p cn list) (\<lambda>(result, was_created).
     hret (result, if was_created then p\<lparr>cond_list := result # cond_list p\<rparr> else p))"

text \<open>The scan for the booleans of an expression: \<open>nbools\<close> and \<open>bool_ids\<close>, of which the first
  five are recorded.\<close>

definition note_bool :: "cond_expr \<Rightarrow> u32 \<times> u32 list \<Rightarrow> u32 \<times> u32 list" where
  "note_bool e s =
     (case s of (n, ids) \<Rightarrow>
        if cond_expr_type e = COND_BOOL \<and> \<not> bool_present (cond_bool e) ids n
        then (n + 1, if n < COND_MAX_BOOLS then ids[unat n := cond_bool e] else ids)
        else (n, ids))"

definition set_bool_state :: "u32 \<Rightarrow> int \<Rightarrow> policydb \<Rightarrow> policydb" where
  "set_bool_state b v p =
     (case val_get (bool_val_to_struct p) b of
        Some d \<Rightarrow> p\<lparr>bool_val_to_struct := (bool_val_to_struct p)[unat (b - 1) := Some (d\<lparr>state := v\<rparr>)]\<rparr>
      | None \<Rightarrow> p)"

text \<open>The states of the booleans \<open>ids\<close> taken from the bits of \<open>test\<close>.\<close>

definition set_test :: "u32 list \<Rightarrow> u32 \<Rightarrow> policydb \<Rightarrow> policydb" where
  "set_test ids test p = fold (\<lambda>j. set_bool_state (ids ! j) (of_bool (bit test j))) [0..<length ids] p"

text \<open>The loop over the combinations. When the expression is undefined it stops with the states of
  the booleans as they are.\<close>

fun precompute :: "u32 list \<Rightarrow> cond_expr list \<Rightarrow> nat list \<Rightarrow> u32 \<Rightarrow> policydb \<Rightarrow> (errno + u32) \<times> policydb" where
  "precompute ids e [] acc p = (Inr acc, p)"
| "precompute ids e (t # ts) acc p =
     (let p1 = set_test ids (word_of_nat t) p; k = cond_evaluate_expr p1 e in
      if k = - 1 then (Inl EFAIL, p1)
      else precompute ids e ts (if k \<noteq> 0 then acc OR push_bit t 1 else acc) p1)"

definition restore_bools :: "u32 list \<Rightarrow> int list \<Rightarrow> policydb \<Rightarrow> policydb" where
  "restore_bools ids orig p = fold (\<lambda>(b, v). set_bool_state b v) (zip ids orig) p"

definition cond_normalize_expr :: "policydb \<Rightarrow> cond_node \<Rightarrow> (errno + unit) \<times> policydb \<times> cond_node" where
  "cond_normalize_expr p cn0 =
     (let cn = cn0\<lparr>nbools := 0, bool_ids := replicate 5 0, expr_pre_comp := 0\<rparr> in
      if expr cn = [] then (Inl EFAULT, p, cn)
      else if cond_expr_type (last (expr cn)) = COND_NOT \<and> butlast (expr cn) = [] then (Inl EFAIL, p, cn)
      else
        (let cn1 = (if cond_expr_type (last (expr cn)) = COND_NOT
                    then cn\<lparr>expr := butlast (expr cn), true_list := false_list cn, false_list := true_list cn,
                            avtrue_list := avfalse_list cn, avfalse_list := avtrue_list cn\<rparr>
                    else cn);
             (n, ids) = fold note_bool (expr cn1) (0, replicate 5 0);
             cn2 = cn1\<lparr>nbools := n, bool_ids := ids\<rparr>
         in if n \<le> COND_MAX_BOOLS
            then (let used = take (unat n) ids; orig = map (bool_state p) used in
                  case precompute used (expr cn2) [0..<2 ^ unat n] 0 p of
                    (Inl e, p1) \<Rightarrow> (Inl e, p1, cn2)
                  | (Inr t, p1) \<Rightarrow> (Inr (), restore_bools used orig p1, cn2\<lparr>expr_pre_comp := t\<rparr>))
            else (Inr (), p, cn2)))"

subsection \<open>Set-up and indexing\<close>

definition cond_policydb_init :: "policydb \<Rightarrow> policydb" where
  "cond_policydb_init p = p\<lparr>bool_val_to_struct := [], cond_list := [], te_cond_avtab := avtab_init (te_cond_avtab p)\<rparr>"

definition cond_policydb_destroy :: "policydb \<Rightarrow> policydb" where
  "cond_policydb_destroy p = p\<lparr>bool_val_to_struct := [], te_cond_avtab := avtab_destroy (te_cond_avtab p), cond_list := []\<rparr>"

definition cond_init_bool_indexes :: "policydb \<Rightarrow> policydb hp" where
  "cond_init_bool_indexes p =
     hbind (hmalloc EFAIL) (\<lambda>_. hret (p\<lparr>bool_val_to_struct := replicate (unat (nprim (p_bools p))) None\<rparr>))"

definition cond_index_bool :: "cstring \<Rightarrow> cond_bool_datum \<Rightarrow> policydb \<Rightarrow> errno + policydb" where
  "cond_index_bool key booldatum p =
     (if \<not> value_ok (p_bools p) (bool_value booldatum) then Inl EINVAL
      else if val_get (p_bool_val_to_name p) (bool_value booldatum) \<noteq> None then Inl EINVAL
      else Inr (p\<lparr>p_bool_val_to_name := (p_bool_val_to_name p)[unat (bool_value booldatum - 1) := Some key],
                  bool_val_to_struct := (bool_val_to_struct p)[unat (bool_value booldatum - 1) := Some booldatum]\<rparr>))"

subsection \<open>Reading\<close>

definition MOD_POLICYDB_VERSION_TUNABLE_SEP :: u32 where "MOD_POLICYDB_VERSION_TUNABLE_SEP = 14"

definition bool_isvalid :: "cond_bool_datum \<Rightarrow> bool" where
  "bool_isvalid b \<longleftrightarrow> state b = 0 \<or> state b = 1"

definition cond_read_bool :: "policydb \<Rightarrow> (cstring, cond_bool_datum) hashtab \<Rightarrow> (cstring, cond_bool_datum) hashtab rd" where
  "cond_read_bool p t =
     rerr EFAIL
       (rbind (rmalloc EFAIL) (\<lambda>_.
        rbind (next_entry 12) (\<lambda>b.
        let d = \<lparr>bool_value = le32 (take 4 b), state = sint (le32 (take 4 (drop 4 b))), bool_flags = 0\<rparr> in
        if \<not> bool_isvalid d then rfail EFAIL
        else rbind (str_read (ucast (le32 (drop 8 b)))) (\<lambda>key.
          rbind (if policy_type p \<noteq> POLICY_KERN \<and> policyvers p \<ge> MOD_POLICYDB_VERSION_TUNABLE_SEP
                 then rbind next_u32 (\<lambda>f. rret (d\<lparr>bool_flags := f\<rparr>)) else rret d) (\<lambda>d s.
          case hashtab_insert (fst s) t (takeWhile (\<lambda>c. c \<noteq> 0) key) d of
            (Inl e, _, hp) \<Rightarrow> (Inl e, hp, snd s)
          | (Inr _, t', hp) \<Rightarrow> (Inr t', hp, snd s))))))"

text \<open>The insertion of a conditional rule; the state is the policy and the list read so far,
  \<open>other\<close> the true list while the false list is read.\<close>

definition cond_insertf :: "nat list \<Rightarrow> (policydb \<times> nat list) insertf" where
  "cond_insertf other k d ps s =
     (case ps of (p, acc) \<Rightarrow>
      if specified k AND AVTAB_TYPE \<noteq> 0 \<and> avtab_search (te_avtab p) k \<noteq> None then (Inl EFAIL, s)
      else if specified k AND AVTAB_TYPE \<noteq> 0 \<and> other \<noteq> [] \<and>
        (case avtab_search_node (te_cond_avtab p) k of
           [] \<Rightarrow> False
         | n # r \<Rightarrow> avtab_search_node_next (n # r) (specified k) \<noteq> [] \<or> naddr n \<notin> set other) then (Inl EFAIL, s)
      else if specified k AND AVTAB_TYPE \<noteq> 0 \<and> other = [] \<and> avtab_search (te_cond_avtab p) k \<noteq> None then (Inl EFAIL, s)
      else
        (case avtab_insert_nonunique (fst s) (te_cond_avtab p) k d of
           (None, _, hp) \<Rightarrow> (Inl EFAIL, hp, snd s)
         | (Some a, t', hp) \<Rightarrow>
             (case malloc hp of
                (False, hp') \<Rightarrow> (Inl EFAIL, hp', snd s)
              | (True, hp') \<Rightarrow> (Inr (p\<lparr>te_cond_avtab := t'\<rparr>, acc @ [a]), hp', snd s))))"

fun cond_read_items :: "nat list \<Rightarrow> nat \<Rightarrow> policydb \<times> nat list \<Rightarrow> (policydb \<times> nat list) rd" where
  "cond_read_items other 0 ps = rret ps"
| "cond_read_items other (Suc n) ps =
     rbind (avtab_read_item (policyvers (fst ps)) (cond_insertf other) ps) (cond_read_items other n)"

definition cond_read_av_list :: "policydb \<Rightarrow> nat list \<Rightarrow> (policydb \<times> nat list) rd" where
  "cond_read_av_list p other =
     rbind next_u32 (\<lambda>len. if len = 0 then rret (p, []) else cond_read_items other (unat len) (p, []))"

definition expr_isvalid :: "policydb \<Rightarrow> cond_expr \<Rightarrow> bool" where
  "expr_isvalid p e \<longleftrightarrow>
     (if cond_expr_type e = 0 \<or> cond_expr_type e > COND_LAST then False
      else if cond_bool e > nprim (p_bools p) then False
      else True)"

fun cond_read_exprs :: "policydb \<Rightarrow> nat \<Rightarrow> cond_expr list rd" where
  "cond_read_exprs p 0 = rret []"
| "cond_read_exprs p (Suc n) =
     rbind (next_entry 8) (\<lambda>b.
     rbind (rmalloc EFAIL) (\<lambda>_.
     let e = \<lparr>cond_expr_type = le32 (take 4 b), cond_bool = le32 (drop 4 b)\<rparr> in
     if \<not> expr_isvalid p e then rfail EFAIL
     else rbind (cond_read_exprs p n) (\<lambda>es. rret (e # es))))"

text \<open>The rules of a node: lists into the conditional table in a kernel policy, rules of their own and
  flags in a module.\<close>

definition cond_read_rules :: "policydb \<Rightarrow> cond_node \<Rightarrow> (policydb \<times> cond_node) rd" where
  "cond_read_rules p n =
     (if policy_type p = POLICY_KERN
      then rbind (cond_read_av_list p []) (\<lambda>(p1, tr).
           rbind (cond_read_av_list p1 tr) (\<lambda>(p2, fl).
           rret (p2, n\<lparr>true_list := tr, false_list := fl\<rparr>)))
      else rbind (avrule_read_list p) (\<lambda>tr. rbind (avrule_read_list p) (\<lambda>fl.
           let n = n\<lparr>avtrue_list := tr, avfalse_list := fl\<rparr> in
           if policyvers p \<ge> MOD_POLICYDB_VERSION_TUNABLE_SEP
           then rbind next_u32 (\<lambda>f. rret (p, n\<lparr>cn_flags := f\<rparr>)) else rret (p, n))))"

text \<open>The count is an \<open>int\<close>: a negative one reads no expression.\<close>

definition cond_read_node :: "policydb \<Rightarrow> (policydb \<times> cond_node) rd" where
  "cond_read_node p =
     rerr EFAIL
       (rbind next_u32 (\<lambda>st.
        rbind next_u32 (\<lambda>len.
        rbind (cond_read_exprs p (nat (sint len))) (\<lambda>es.
        cond_read_rules p (cond_node_zero\<lparr>cur_state := sint st, expr := es\<rparr>)))))"

fun cond_read_nodes :: "nat \<Rightarrow> policydb \<Rightarrow> (policydb \<times> cond_node list) rd" where
  "cond_read_nodes 0 p = rret (p, [])"
| "cond_read_nodes (Suc n) p =
     rbind (rmalloc EFAIL) (\<lambda>_.
     rbind (cond_read_node p) (\<lambda>(p1, n1).
     rbind (cond_read_nodes n p1) (\<lambda>(p2, ns). rret (p2, n1 # ns))))"

definition cond_read_list :: "policydb \<Rightarrow> (policydb \<times> cond_node list) rd" where
  "cond_read_list p =
     rerr EFAIL
       (rbind next_u32 (\<lambda>len.
        rbind (ralloc (te_cond_avtab p) (anel (te_avtab p))) (\<lambda>t.
        cond_read_nodes (nat (sint len)) (p\<lparr>te_cond_avtab := t\<rparr>))))"

subsection \<open>Access vectors\<close>

record av_decision =
  allowed :: u32
  decided :: u32
  auditallow :: u32
  auditdeny :: u32
  seqno :: u32

definition cond_av_step :: "av_decision \<Rightarrow> avtab_node \<Rightarrow> av_decision" where
  "cond_av_step avd n =
     (let sp = specified (akey n); d = data (adatum n);
          avd = (if AVTAB_ALLOWED OR AVTAB_ENABLED = sp AND (AVTAB_ALLOWED OR AVTAB_ENABLED)
                 then avd\<lparr>allowed := allowed avd OR d\<rparr> else avd);
          avd = (if AVTAB_AUDITDENY OR AVTAB_ENABLED = sp AND (AVTAB_AUDITDENY OR AVTAB_ENABLED)
                 then avd\<lparr>auditdeny := auditdeny avd AND d\<rparr> else avd)
      in if AVTAB_AUDITALLOW OR AVTAB_ENABLED = sp AND (AVTAB_AUDITALLOW OR AVTAB_ENABLED)
         then avd\<lparr>auditallow := auditallow avd OR d\<rparr> else avd)"

definition cond_compute_av :: "avtab \<Rightarrow> avtab_key \<Rightarrow> av_decision \<Rightarrow> av_decision" where
  "cond_compute_av ctab key avd = foldl cond_av_step avd (avtab_visit ctab key)"

definition cond_av_list_search :: "avtab \<Rightarrow> avtab_key \<Rightarrow> nat list \<Rightarrow> avtab_datum option" where
  "cond_av_list_search t key l =
     (case find (\<lambda>n. key_same key (akey n)) (List.map_filter (rule_at t) l) of
        None \<Rightarrow> None | Some n \<Rightarrow> Some (adatum n))"

end
