(* ===== verification/Conditional_Laws.thy ===== *)
theory Conditional_Laws
  imports Conditional
begin

section \<open>Conditional policy: correctness\<close>

text \<open>
  The evaluator computes the value of the expression a reverse Polish list stands for, or
  \<open>-1\<close> exactly when the list needs a deeper stack; the precomputed table of an expression is
  its truth table; evaluation of all conditionals enables exactly the rules that the booleans
  select; the reader builds rule lists that refer to distinct rules of the table.
\<close>

subsection \<open>Expression trees\<close>

datatype cond_op = Op_OR | Op_AND | Op_XOR | Op_EQ | Op_NEQ

datatype bexp = BVar u32 | BNot bexp | BBin cond_op bexp bexp

fun op_code :: "cond_op \<Rightarrow> u32" where
  "op_code Op_OR = COND_OR"
| "op_code Op_AND = COND_AND"
| "op_code Op_XOR = COND_XOR"
| "op_code Op_EQ = COND_EQ"
| "op_code Op_NEQ = COND_NEQ"

fun op_sem :: "cond_op \<Rightarrow> bool \<Rightarrow> bool \<Rightarrow> bool" where
  "op_sem Op_OR a b \<longleftrightarrow> a \<or> b"
| "op_sem Op_AND a b \<longleftrightarrow> a \<and> b"
| "op_sem Op_XOR a b \<longleftrightarrow> a \<noteq> b"
| "op_sem Op_EQ a b \<longleftrightarrow> a = b"
| "op_sem Op_NEQ a b \<longleftrightarrow> a \<noteq> b"

fun rpn :: "bexp \<Rightarrow> cond_expr list" where
  "rpn (BVar b) = [\<lparr>cond_expr_type = COND_BOOL, cond_bool = b\<rparr>]"
| "rpn (BNot e) = rpn e @ [\<lparr>cond_expr_type = COND_NOT, cond_bool = 0\<rparr>]"
| "rpn (BBin f e1 e2) = rpn e1 @ rpn e2 @ [\<lparr>cond_expr_type = op_code f, cond_bool = 0\<rparr>]"

fun bsem :: "(u32 \<Rightarrow> bool) \<Rightarrow> bexp \<Rightarrow> bool" where
  "bsem v (BVar b) \<longleftrightarrow> v b"
| "bsem v (BNot e) \<longleftrightarrow> \<not> bsem v e"
| "bsem v (BBin f e1 e2) \<longleftrightarrow> op_sem f (bsem v e1) (bsem v e2)"

fun bvars :: "bexp \<Rightarrow> u32 set" where
  "bvars (BVar b) = {b}"
| "bvars (BNot e) = bvars e"
| "bvars (BBin f e1 e2) = bvars e1 \<union> bvars e2"

text \<open>The number of stack cells the evaluation needs.\<close>

fun depth :: "bexp \<Rightarrow> nat" where
  "depth (BVar b) = 1"
| "depth (BNot e) = depth e"
| "depth (BBin f e1 e2) = max (depth e1) (Suc (depth e2))"

definition bool_on :: "policydb \<Rightarrow> u32 \<Rightarrow> bool" where
  "bool_on p b \<longleftrightarrow> bool_state p b = 1"

definition bools_ok :: "policydb \<Rightarrow> u32 set \<Rightarrow> bool" where
  "bools_ok p B \<longleftrightarrow> (\<forall>b\<in>B. bool_state p b = 0 \<or> bool_state p b = 1)"

lemma rpn_not_Nil [simp]: "rpn e \<noteq> []"
  by (cases e) auto

lemma depth_pos: "0 < depth e"
  by (induction e) auto

lemma op_code_in: "op_code f \<in> {COND_OR, COND_AND, COND_XOR, COND_EQ, COND_NEQ}" "op_code f \<noteq> COND_BOOL" "op_code f \<noteq> COND_NOT"
  by (cases f; simp add: cond_consts)+

lemma cond_binop_op: "cond_binop (op_code f) (of_bool a) (of_bool b) = of_bool (op_sem f a b)"
  by (cases f; cases a; cases b; simp add: cond_binop_def cond_consts)

lemma step_bool [simp]:
  "cond_step p \<lparr>cond_expr_type = COND_BOOL, cond_bool = b\<rparr> s =
     (if length s = COND_EXPR_MAXDEPTH then None else Some (bool_state p b # s))"
  by (simp add: cond_step_def)

lemma step_not [simp]: "cond_step p \<lparr>cond_expr_type = COND_NOT, cond_bool = b\<rparr> (a # s) = Some (of_bool (a = 0) # s)"
  by (simp add: cond_step_def cond_consts)

lemma step_op [simp]:
  "cond_step p \<lparr>cond_expr_type = op_code f, cond_bool = c\<rparr> (b # a # s) = Some (cond_binop (op_code f) a b # s)"
  using op_code_in [of f] by (simp add: cond_step_def)

lemma eval_rpn:
  "\<lbrakk>bools_ok p (bvars e); length s \<le> COND_EXPR_MAXDEPTH\<rbrakk> \<Longrightarrow>
   cond_eval_loop p (rpn e @ rest) s =
     (if length s + depth e \<le> COND_EXPR_MAXDEPTH then cond_eval_loop p rest (of_bool (bsem (bool_on p) e) # s) else - 1)"
proof (induction e arbitrary: s rest)
  case (BVar b)
  then show ?case by (auto simp: bools_ok_def bool_on_def)
next
  case (BNot e)
  then show ?case by simp
next
  case (BBin f e1 e2)
  have ok: "bools_ok p (bvars e1)" "bools_ok p (bvars e2)" using BBin.prems(1) by (auto simp: bools_ok_def)
  show ?case
  proof (cases "length s + depth e1 \<le> COND_EXPR_MAXDEPTH")
    case True
    then have "length s < COND_EXPR_MAXDEPTH" using depth_pos [of e1] by linarith
    moreover have "length s + depth (BBin f e1 e2) \<le> COND_EXPR_MAXDEPTH \<longleftrightarrow> Suc (length s + depth e2) \<le> COND_EXPR_MAXDEPTH"
      using True by (simp add: nat_add_max_right)
    ultimately show ?thesis using True BBin.IH(1) [OF ok(1) BBin.prems(2)] BBin.IH(2) [OF ok(2)]
      by (simp add: cond_binop_op)
  next
    case False
    then have "\<not> length s + depth (BBin f e1 e2) \<le> COND_EXPR_MAXDEPTH" by (simp add: nat_add_max_right)
    with False show ?thesis using BBin.IH(1) [OF ok(1) BBin.prems(2)] by (simp del: depth.simps)
  qed
qed

lemma cond_evaluate_rpn:
  assumes "bools_ok p (bvars e)"
  shows "cond_evaluate_expr p (rpn e) =
     (if depth e \<le> COND_EXPR_MAXDEPTH then of_bool (bsem (bool_on p) e) else - 1)"
  using eval_rpn [OF assms, of "[]" "[]"] by (simp add: cond_evaluate_expr_def)

lemma bsem_cong: "(\<And>b. b \<in> bvars e \<Longrightarrow> v b = w b) \<Longrightarrow> bsem v e = bsem w e"
  by (induction e) auto

subsection \<open>Booleans changed for a while\<close>

lemma slot_inj [simp]: "unat (b - 1 :: u32) = unat (c - 1) \<longleftrightarrow> b = c"
  by (metis diff_add_cancel word_unat_eq_iff)

lemma val_get_update:
  "val_get arr b = Some d \<Longrightarrow>
   val_get (arr[unat (b - 1) := x]) c = (if c = b then x else val_get arr c)"
  by (auto simp: val_get_def nth_list_update split: if_splits)

lemma set_state_state:
  "val_get (bool_val_to_struct p) b \<noteq> None \<Longrightarrow>
   bool_state (set_bool_state b v p) c = (if c = b then v else bool_state p c)"
  by (auto simp: set_bool_state_def bool_state_def val_get_update)

lemma set_state_defined:
  "val_get (bool_val_to_struct (set_bool_state b v p)) c = None \<longleftrightarrow> val_get (bool_val_to_struct p) c = None"
  by (auto simp: set_bool_state_def val_get_update split: option.splits)

lemma set_state_twice: "set_bool_state b v (set_bool_state b w p) = set_bool_state b v p"
  by (auto simp: set_bool_state_def val_get_update split: option.splits)

lemma set_state_same: "set_bool_state b (bool_state p b) p = p"
  by (auto simp: set_bool_state_def bool_state_def val_get_def list_update_same_conv split: option.splits if_splits)

lemma set_state_commute: "b \<noteq> c \<Longrightarrow> set_bool_state b v (set_bool_state c w p) = set_bool_state c w (set_bool_state b v p)"
  by (auto simp: set_bool_state_def val_get_update list_update_swap split: option.splits)

lemma restore_Cons [simp]: "restore_bools (b # ids) (v # vs) p = restore_bools ids vs (set_bool_state b v p)"
  by (simp add: restore_bools_def)

lemma restore_Nil [simp]: "restore_bools [] vs p = p"
  by (simp add: restore_bools_def)

lemma restore_push:
  "\<lbrakk>b \<notin> set ids; length vs = length ids\<rbrakk> \<Longrightarrow>
   set_bool_state b v (restore_bools ids vs p) = restore_bools ids vs (set_bool_state b v p)"
proof (induction ids arbitrary: vs p)
  case (Cons c ids)
  obtain w ws where "vs = w # ws" using Cons.prems(2) by (cases vs) auto
  with Cons show ?case by (simp add: set_state_commute [of b c])
qed simp

lemma restore_twice:
  "\<lbrakk>distinct ids; length vs = length ids; length ws = length ids\<rbrakk> \<Longrightarrow>
   restore_bools ids vs (restore_bools ids ws p) = restore_bools ids vs p"
proof (induction ids arbitrary: vs ws p)
  case (Cons c ids)
  obtain v vs' w ws' where "vs = v # vs'" "ws = w # ws'" using Cons.prems by (cases vs; cases ws) auto
  with Cons show ?case by (simp add: restore_push set_state_twice)
qed simp

lemma restore_orig: "distinct ids \<Longrightarrow> restore_bools ids (map (bool_state p) ids) p = p"
  by (induction ids) (simp_all add: set_state_same)

lemma restore_defined:
  "val_get (bool_val_to_struct (restore_bools ids vs p)) c = None \<longleftrightarrow> val_get (bool_val_to_struct p) c = None"
proof (induction ids arbitrary: vs p)
  case (Cons b ids)
  then show ?case by (cases vs) (auto simp: set_state_defined restore_bools_def)
qed simp

lemma restore_state:
  "\<lbrakk>distinct ids; length vs = length ids; \<And>b. b \<in> set ids \<Longrightarrow> val_get (bool_val_to_struct p) b \<noteq> None; i < length ids\<rbrakk> \<Longrightarrow>
   bool_state (restore_bools ids vs p) (ids ! i) = vs ! i"
proof (induction ids arbitrary: vs p i)
  case (Cons c ids)
  obtain w ws where vs: "vs = w # ws" using Cons.prems(2) by (cases vs) auto
  show ?case
  proof (cases i)
    case 0
    have "bool_state (restore_bools ids ws (set_bool_state c w p)) c = w"
      using Cons.prems vs restore_push [of c ids ws w p, symmetric]
        set_state_state [of "restore_bools ids ws p" c w c]
      by (simp add: restore_defined)
    then show ?thesis using 0 vs by simp
  next
    case (Suc j)
    have "bool_state (restore_bools ids ws (set_bool_state c w p)) (ids ! j) = ws ! j"
      using Cons.prems vs Suc by (intro Cons.IH) (simp_all add: set_state_defined del: not_None_eq)
    then show ?thesis using Suc vs by simp
  qed
qed simp

subsection \<open>Truth tables\<close>

text \<open>The value of a boolean in the test number \<open>t\<close>, and the number of the test that gives the
  booleans \<open>ids\<close> their values in a policy.\<close>

definition test_val :: "u32 list \<Rightarrow> nat \<Rightarrow> u32 \<Rightarrow> bool" where
  "test_val ids t b \<longleftrightarrow> (\<exists>i<length ids. ids ! i = b \<and> bit (word_of_nat t :: u32) i)"

definition code_of :: "policydb \<Rightarrow> u32 list \<Rightarrow> nat" where
  "code_of p ids = horner_sum of_bool 2 (map (bool_on p) ids)"

lemma set_test_restore: "set_test ids t p = restore_bools ids (map (\<lambda>j. of_bool (bit t j)) [0..<length ids]) p"
proof -
  have "zip ids (map (\<lambda>j. of_bool (bit t j)) [0..<length ids]) = map (\<lambda>j. (ids ! j, of_bool (bit t j) :: int)) [0..<length ids]"
    by (rule nth_equalityI) simp_all
  then show ?thesis by (simp add: set_test_def restore_bools_def fold_map comp_def)
qed

lemma set_test_on:
  assumes "distinct ids" "\<And>b. b \<in> set ids \<Longrightarrow> val_get (bool_val_to_struct p) b \<noteq> None"
  shows "bools_ok (set_test ids (word_of_nat t) p) (set ids)"
    and "b \<in> set ids \<Longrightarrow> bool_on (set_test ids (word_of_nat t) p) b = test_val ids t b"
proof -
  have st: "bool_state (set_test ids (word_of_nat t) p) (ids ! i) = of_bool (bit (word_of_nat t :: u32) i)"
    if "i < length ids" for i
    using restore_state [OF assms(1) _ assms(2) that, of "map (\<lambda>j. of_bool (bit (word_of_nat t :: u32) j)) [0..<length ids]"] that
    unfolding set_test_restore by simp
  then show "bools_ok (set_test ids (word_of_nat t) p) (set ids)"
    by (auto simp: bools_ok_def in_set_conv_nth)
  assume "b \<in> set ids"
  then obtain i where "i < length ids" "b = ids ! i" by (auto simp: in_set_conv_nth)
  then show "bool_on (set_test ids (word_of_nat t) p) b = test_val ids t b"
    using st [of i] assms(1) by (auto simp: bool_on_def test_val_def nth_eq_iff_index_eq)
qed

definition table_of :: "(nat \<Rightarrow> bool) \<Rightarrow> nat list \<Rightarrow> u32 \<Rightarrow> u32" where
  "table_of P ts acc = fold (\<lambda>t acc. if P t then acc OR push_bit t 1 else acc) ts acc"

lemma table_of_bit: "k < 32 \<Longrightarrow> bit (table_of P ts acc) k \<longleftrightarrow> bit acc k \<or> k \<in> set ts \<and> P k"
proof (induction ts arbitrary: acc)
  case (Cons t ts)
  have "bit (push_bit t 1 :: u32) k \<longleftrightarrow> k = t"
    using Cons.prems by (auto simp: bit_exp_iff possible_bit_word)
  then show ?case using Cons unfolding table_of_def by (auto simp: bit_or_iff)
qed (simp add: table_of_def)

lemma precompute_table:
  assumes "distinct ids" "bvars e \<subseteq> set ids" "depth e \<le> COND_EXPR_MAXDEPTH"
  shows "(\<And>b. b \<in> set ids \<Longrightarrow> val_get (bool_val_to_struct p) b \<noteq> None) \<Longrightarrow>
    \<exists>vs. length vs = length ids \<and>
      precompute ids (rpn e) ts acc p = (Inr (table_of (\<lambda>t. bsem (test_val ids t) e) ts acc), restore_bools ids vs p)"
proof (induction ts arbitrary: acc p)
  case Nil
  show ?case
    by (rule exI [of _ "map (bool_state p) ids"]) (simp add: restore_orig [OF assms(1)] table_of_def)
next
  case (Cons t ts)
  let ?p = "set_test ids (word_of_nat t) p"
  have "bools_ok ?p (bvars e)"
    using set_test_on(1) [OF assms(1) Cons.prems, of t] assms(2) by (auto simp: bools_ok_def)
  then have "cond_evaluate_expr ?p (rpn e) = of_bool (bsem (bool_on ?p) e)"
    using cond_evaluate_rpn assms(3) by simp
  also have "bsem (bool_on ?p) e = bsem (test_val ids t) e"
    using set_test_on(2) [OF assms(1) Cons.prems] assms(2) by (intro bsem_cong) blast
  finally have ev: "cond_evaluate_expr ?p (rpn e) = of_bool (bsem (test_val ids t) e)" .
  have "\<And>b. b \<in> set ids \<Longrightarrow> val_get (bool_val_to_struct ?p) b \<noteq> None"
    using Cons.prems unfolding set_test_restore restore_defined by blast
  from Cons.IH [OF this] obtain vs where "length vs = length ids"
    "precompute ids (rpn e) ts (if bsem (test_val ids t) e then acc OR push_bit t 1 else acc) ?p
       = (Inr (table_of (\<lambda>t. bsem (test_val ids t) e) (t # ts) acc), restore_bools ids vs ?p)"
    by (auto simp: table_of_def)
  moreover from this have "restore_bools ids vs ?p = restore_bools ids vs p"
    unfolding set_test_restore by (intro restore_twice [OF assms(1)]) simp_all
  moreover have "precompute ids (rpn e) (t # ts) acc p =
      precompute ids (rpn e) ts (if bsem (test_val ids t) e then acc OR push_bit t 1 else acc) ?p"
    using ev by (simp add: Let_def)
  ultimately show ?case by auto
qed

lemma code_of_less: "code_of p ids < 2 ^ length ids"
  using horner_sum_of_bool_2_less [of "map (bool_on p) ids"] by (simp add: code_of_def)

lemma test_val_code:
  assumes "distinct ids" "length ids \<le> 5" "b \<in> set ids"
  shows "test_val ids (code_of p ids) b = bool_on p b"
proof -
  have "bit (word_of_nat (code_of p ids) :: u32) i = bool_on p (ids ! i)" if "i < length ids" for i
    using that assms(2) by (simp add: code_of_def bit_of_nat_iff possible_bit_word bit_horner_sum_bit_iff)
  then show ?thesis
    using assms by (auto simp: test_val_def in_set_conv_nth nth_eq_iff_index_eq)
qed

subsection \<open>Normal form\<close>

definition expr_bools :: "cond_expr list \<Rightarrow> u32 set" where
  "expr_bools es = cond_bool ` {e \<in> set es. cond_expr_type e = COND_BOOL}"

lemma expr_bools_Cons:
  "expr_bools (e # es) = (if cond_expr_type e = COND_BOOL then insert (cond_bool e) (expr_bools es) else expr_bools es)"
  by (auto simp: expr_bools_def)

lemma expr_bools_append: "expr_bools (es @ fs) = expr_bools es \<union> expr_bools fs"
  by (auto simp: expr_bools_def)

lemma expr_bools_rpn: "expr_bools (rpn e) = bvars e"
proof (induction e)
  case (BBin f e1 e2)
  then show ?case using op_code_in(2) [of f] by (simp add: expr_bools_append expr_bools_Cons) (simp add: expr_bools_def)
qed (simp_all add: expr_bools_append expr_bools_Cons, simp_all add: expr_bools_def cond_consts)

lemma note_bools:
  assumes "length ids = 5" "distinct (take (unat n) ids)" "card (set (take (unat n) ids) \<union> expr_bools es) \<le> 5"
    "unat n \<le> 5" "fold note_bool es (n, ids) = (n', ids')"
  shows "length ids' = 5 \<and> unat n' \<le> 5 \<and> distinct (take (unat n') ids') \<and>
    set (take (unat n') ids') = set (take (unat n) ids) \<union> expr_bools es"
  using assms
proof (induction es arbitrary: n ids)
  case Nil
  then show ?case by (simp add: expr_bools_def)
next
  case (Cons e es)
  let ?seen = "take (unat n) ids"
  have lim: "n \<le> COND_MAX_BOOLS" using Cons.prems(4) by (simp add: COND_MAX_BOOLS_def word_le_nat_alt)
  show ?case
  proof (cases "cond_expr_type e = COND_BOOL \<and> cond_bool e \<notin> set ?seen")
    case False
    then have same: "note_bool e (n, ids) = (n, ids)" "set ?seen \<union> expr_bools (e # es) = set ?seen \<union> expr_bools es"
      using lim by (auto simp: note_bool_def bool_present_def expr_bools_Cons)
    then show ?thesis using Cons.IH [of ids n] Cons.prems by simp
  next
    case True
    have fin: "finite (set ?seen \<union> expr_bools (e # es))" by (simp add: expr_bools_def)
    have "card (insert (cond_bool e) (set ?seen)) \<le> card (set ?seen \<union> expr_bools (e # es))"
      using True by (intro card_mono [OF fin]) (auto simp: expr_bools_Cons)
    then have "Suc (unat n) \<le> 5"
      using Cons.prems(1-4) True by (simp add: distinct_card)
    then have lt: "unat n < 5" and un: "unat (n + 1) = Suc (unat n)"
      by (simp_all add: unat_word_ariths)
    then have tk: "take (unat (n + 1)) (ids[unat n := cond_bool e]) = ?seen @ [cond_bool e]"
      using Cons.prems(1) by (simp add: take_Suc_conv_app_nth)
    have "note_bool e (n, ids) = (n + 1, ids[unat n := cond_bool e])"
      using True lim lt by (simp add: note_bool_def bool_present_def COND_MAX_BOOLS_def word_less_nat_alt)
    then have "fold note_bool es (n + 1, ids[unat n := cond_bool e]) = (n', ids')"
      using Cons.prems(5) by simp
    moreover have un_eq: "set (?seen @ [cond_bool e]) \<union> expr_bools es = set ?seen \<union> expr_bools (e # es)"
      using True by (auto simp: expr_bools_Cons)
    ultimately show ?thesis
      using Cons.IH [of "ids[unat n := cond_bool e]" "n + 1", unfolded tk un_eq] Cons.prems True lt un by simp
  qed
qed

fun strip_not :: "bexp \<Rightarrow> bexp" where
  "strip_not (BNot e) = e"
| "strip_not e = e"

fun is_not :: "bexp \<Rightarrow> bool" where
  "is_not (BNot e) \<longleftrightarrow> True"
| "is_not _ \<longleftrightarrow> False"

lemma strip_not: "bvars (strip_not e) = bvars e" "depth (strip_not e) = depth e" "bsem v (strip_not e) = (bsem v e \<noteq> is_not e)"
  by (cases e; simp)+

lemma last_rpn: "cond_expr_type (last (rpn e)) = COND_NOT \<longleftrightarrow> is_not e"
  using op_code_in(3) by (cases e) (auto simp: cond_consts)

lemma finite_bvars [simp]: "finite (bvars e)"
  by (induction e) auto

text \<open>The table is right: the entry numbered by the values the booleans have in a policy is the
  value of the expression there.\<close>

definition table_ok_for :: "cond_node \<Rightarrow> bexp \<Rightarrow> bool" where
  "table_ok_for cn e \<longleftrightarrow> expr cn = rpn e \<and>
     (let ids = take (unat (nbools cn)) (bool_ids cn) in
        length (bool_ids cn) = 5 \<and> unat (nbools cn) \<le> 5 \<and> distinct ids \<and> set ids = bvars e \<and>
        (\<forall>q. bools_ok q (bvars e) \<longrightarrow> bit (expr_pre_comp cn) (code_of q ids) = bsem (bool_on q) e))"

lemma table_right:
  assumes "distinct ids" "length ids \<le> 5" "set ids = bvars e"
  shows "bit (table_of (\<lambda>t. bsem (test_val ids t) e) [0..<2 ^ length ids] 0) (code_of q ids) = bsem (bool_on q) e"
proof -
  have "code_of q ids < 2 ^ 5"
    using code_of_less [of q ids] power_increasing [OF assms(2), of "2 :: nat"] by simp
  moreover have "bsem (test_val ids (code_of q ids)) e = bsem (bool_on q) e"
    using test_val_code [OF assms(1,2)] assms(3) by (intro bsem_cong) blast
  ultimately show ?thesis
    using code_of_less [of q ids] by (simp add: table_of_bit)
qed

lemma normalize_spec:
  assumes e: "expr cn = rpn e" "card (bvars e) \<le> 5" "depth e \<le> COND_EXPR_MAXDEPTH"
    and def: "\<And>b. b \<in> bvars e \<Longrightarrow> val_get (bool_val_to_struct p) b \<noteq> None"
  shows "\<exists>cn'. cond_normalize_expr p cn = (Inr (), p, cn') \<and> table_ok_for cn' (strip_not e) \<and>
    true_list cn' = (if is_not e then false_list cn else true_list cn) \<and>
    false_list cn' = (if is_not e then true_list cn else false_list cn) \<and>
    fold note_bool (rpn (strip_not e)) (0, replicate 5 0) = (nbools cn', bool_ids cn') \<and>
    expr_pre_comp cn' = table_of (\<lambda>t. bsem (test_val (take (unat (nbools cn')) (bool_ids cn')) t) (strip_not e)) [0..<2 ^ unat (nbools cn')] 0"
proof -
  let ?cn = "cn\<lparr>nbools := 0, bool_ids := replicate 5 0, expr_pre_comp := 0\<rparr>"
  let ?cn1 = "if is_not e then ?cn\<lparr>expr := butlast (rpn e), true_list := false_list cn, false_list := true_list cn,
    avtrue_list := avfalse_list cn, avfalse_list := avtrue_list cn\<rparr> else ?cn"
  obtain n ids where nb: "fold note_bool (rpn (strip_not e)) (0, replicate 5 0) = (n, ids)" by fastforce
  have ids: "length ids = 5" "unat n \<le> 5" "distinct (take (unat n) ids)" "set (take (unat n) ids) = bvars e"
    using note_bools [OF _ _ _ _ nb] e(2) by (simp_all add: expr_bools_rpn strip_not)
  let ?ids = "take (unat n) ids"
  have len: "length ?ids = unat n" using ids by simp
  have cut: "is_not e \<Longrightarrow> butlast (rpn e) = rpn (strip_not e)" "\<not> is_not e \<Longrightarrow> rpn (strip_not e) = rpn e"
    by (cases e; simp)+
  then have ex: "expr ?cn1 = rpn (strip_not e)" using e(1) by simp
  have bl: "is_not e \<Longrightarrow> butlast (rpn e) \<noteq> []" by (cases e) simp_all
  have lim: "n \<le> COND_MAX_BOOLS" using ids(2) by (simp add: COND_MAX_BOOLS_def word_le_nat_alt)
  let ?t = "table_of (\<lambda>t. bsem (test_val ?ids t) (strip_not e)) [0..<2 ^ unat n] 0"
  have df: "\<And>b. b \<in> set ?ids \<Longrightarrow> val_get (bool_val_to_struct p) b \<noteq> None" using def ids(4) by blast
  obtain vs where vs: "length vs = length ?ids"
    "precompute ?ids (rpn (strip_not e)) [0..<2 ^ unat n] 0 p = (Inr ?t, restore_bools ?ids vs p)"
    using precompute_table [OF ids(3) _ _ df, of "strip_not e" "[0..<2 ^ unat n]" 0] ids(4) e(3) by (auto simp: strip_not)
  have rst: "restore_bools ?ids (map (bool_state p) ?ids) (restore_bools ?ids vs p) = p"
    using restore_twice [OF ids(3), of "map (bool_state p) ?ids" vs p] restore_orig [OF ids(3)] vs(1) by simp
  have "cond_normalize_expr p cn = (Inr (), p, ?cn1\<lparr>nbools := n, bool_ids := ids, expr_pre_comp := ?t\<rparr>)"
    unfolding cond_normalize_expr_def
    using e(1) last_rpn [of e] cut bl nb lim vs(2) rst by (cases "is_not e") (simp_all add: Let_def)
  moreover have "table_ok_for (?cn1\<lparr>nbools := n, bool_ids := ids, expr_pre_comp := ?t\<rparr>) (strip_not e)"
    using ex ids table_right [of ?ids "strip_not e"] len by (simp add: table_ok_for_def Let_def strip_not)
  ultimately show ?thesis using nb
    by (intro exI [of _ "?cn1\<lparr>nbools := n, bool_ids := ids, expr_pre_comp := ?t\<rparr>"]) simp
qed

text \<open>Nodes whose tables number the booleans the same way compare as equal only if their
  expressions have the same value in every policy.\<close>

lemma expr_equal_sound:
  assumes "table_ok_for a ea" "table_ok_for b eb" "cond_expr_equal (Some a) (Some b)"
    "take (unat (nbools a)) (bool_ids a) = take (unat (nbools b)) (bool_ids b)" "bools_ok q (bvars ea)"
  shows "bsem (bool_on q) ea = bsem (bool_on q) eb"
proof -
  have "nbools a \<le> COND_MAX_BOOLS" "nbools b \<le> COND_MAX_BOOLS"
    using assms(1,2) by (simp_all add: table_ok_for_def Let_def COND_MAX_BOOLS_def word_le_nat_alt)
  then have "expr_pre_comp a = expr_pre_comp b"
    using assms(3) by (auto simp: cond_expr_equal_def split: if_splits)
  moreover have "bvars ea = bvars eb" using assms(1,2,4) by (simp add: table_ok_for_def Let_def)
  ultimately show ?thesis using assms by (simp add: table_ok_for_def Let_def)
qed

subsection \<open>Enabling rules\<close>

definition enabled :: "avtab_node \<Rightarrow> bool" where
  "enabled n \<longleftrightarrow> specified (akey n) AND AVTAB_ENABLED \<noteq> 0"

lemma AVTAB_ENABLED_bit: "bit AVTAB_ENABLED i \<longleftrightarrow> i = 15"
proof -
  have *: "AVTAB_ENABLED = 2 ^ 15" by (simp add: AVTAB_ENABLED_def)
  have "bit (2 ^ 15 :: u16) i \<longleftrightarrow> possible_bit TYPE(u16) i \<and> i = 15" by (rule bit_exp_iff)
  moreover have "15 < LENGTH(16)" by simp
  ultimately show ?thesis unfolding * by (auto simp only: possible_bit_word)
qed

lemma enabled_bit: "enabled n \<longleftrightarrow> bit (specified (akey n)) 15"
proof -
  have "specified (akey n) AND AVTAB_ENABLED = 0 \<longleftrightarrow> \<not> bit (specified (akey n)) 15"
    by (subst bit_eq_iff) (auto simp: bit_and_iff AVTAB_ENABLED_bit possible_bit_word dest: spec [of _ 15])
  then show ?thesis by (simp add: enabled_def)
qed

lemma enabled_flag [simp]: "enabled (rule_flag on n) = on"
  by (auto simp: enabled_bit rule_flag_def bit_or_iff bit_and_iff bit_not_iff AVTAB_ENABLED_bit)

lemma rule_flag_same: "rule_flag (enabled n) n = n"
proof -
  have "(if enabled n then specified (akey n) OR AVTAB_ENABLED else specified (akey n) AND NOT AVTAB_ENABLED) = specified (akey n)"
    by (rule bit_eqI) (auto simp: enabled_bit bit_or_iff bit_and_iff bit_not_iff AVTAB_ENABLED_bit possible_bit_word)
  then show ?thesis by (simp add: rule_flag_def)
qed

lemma rule_flag_keeps [simp]:
  "naddr (rule_flag on n) = naddr n" "adatum (rule_flag on n) = adatum n" "key_same k (akey (rule_flag on n)) = key_same k (akey n)"
  "spec_mask (specified (akey (rule_flag on n))) = spec_mask (specified (akey n))"
  by (auto simp: rule_flag_def key_same_def spec_mask_def intro!: bit_eqI simp: bit_or_iff bit_and_iff bit_not_iff)

lemma flag_key_less: "key_less (akey (rule_flag on n)) k = key_less (akey n) k" "key_less k (akey (rule_flag on n)) = key_less k (akey n)"
  by (auto simp: rule_flag_def key_less_def)

lemma flag_hash: "avtab_hash (akey (rule_flag on n)) m = avtab_hash (akey n) m"
  by (simp add: rule_flag_def avtab_hash_def)

lemma set_enabled_nodes:
  "avtab_nodes (set_enabled on l t) = map (\<lambda>n. if naddr n \<in> set l then rule_flag on n else n) (avtab_nodes t)"
  by (auto simp: set_enabled_def avtab_nodes_def map_concat split: option.splits)

lemma set_enabled_addrs [simp]: "map naddr (avtab_nodes (set_enabled on l t)) = map naddr (avtab_nodes t)"
  by (simp add: set_enabled_nodes)

lemma set_enabled_ok: assumes "avtab_ok t" shows "avtab_ok (set_enabled on l t)"
proof -
  let ?f = "\<lambda>n. if naddr n \<in> set l then rule_flag on n else n"
  have le: "key_le (?f a) (?f b) = key_le a b" for a b by (simp add: key_le_def flag_key_less)
  have "slots_sorted m (map (map ?f) tbl)" if "slots_sorted m tbl" for m tbl
    using that unfolding slots_sorted_def by (auto simp: sorted_wrt_map le flag_hash)
  moreover have "distinct (map naddr (avtab_nodes (set_enabled on l t)))" using assms by (simp add: avtab_ok_def)
  moreover have "\<forall>n\<in>set (avtab_nodes (set_enabled on l t)). naddr n < anext t"
    using assms by (auto simp: avtab_ok_def set_enabled_nodes)
  ultimately show ?thesis
    using assms by (auto simp: avtab_ok_def set_enabled_def split: option.splits)
qed

lemma set_enabled_same:
  assumes "\<And>r. r \<in> set (avtab_nodes t) \<Longrightarrow> naddr r \<in> set l \<Longrightarrow> enabled r = on"
  shows "set_enabled on l t = t"
proof (cases "ahtable t")
  case None
  then show ?thesis by (simp add: set_enabled_def)
next
  case (Some tbl)
  have "map (map (\<lambda>n. if naddr n \<in> set l then rule_flag on n else n)) tbl = tbl"
  proof (rule map_idI, rule map_idI)
    fix ch n assume "ch \<in> set tbl" "n \<in> set ch"
    then have "n \<in> set (avtab_nodes t)" using Some by (auto simp: avtab_nodes_def)
    then show "(if naddr n \<in> set l then rule_flag on n else n) = n"
      using assms rule_flag_same [of n] by auto
  qed
  then show ?thesis using Some by (simp add: set_enabled_def)
qed

lemma eval_bools: "bool_val_to_struct p = bool_val_to_struct q \<Longrightarrow> cond_evaluate_expr p es = cond_evaluate_expr q es"
proof -
  assume "bool_val_to_struct p = bool_val_to_struct q"
  then have st: "cond_step p = cond_step q" by (intro ext) (simp add: cond_step_def bool_state_def)
  have "cond_eval_loop p es s = cond_eval_loop q es s" for s
    by (induction es arbitrary: s) (simp_all add: st split: option.splits)
  then show ?thesis by (simp add: cond_evaluate_expr_def)
qed

text \<open>The rules of a conditional are enabled as its recorded state says.\<close>

definition node_right :: "avtab \<Rightarrow> cond_node \<Rightarrow> bool" where
  "node_right t n \<longleftrightarrow> (\<forall>r\<in>set (avtab_nodes t).
     (naddr r \<in> set (true_list n) \<longrightarrow> enabled r = (cur_state n > 0)) \<and>
     (naddr r \<in> set (false_list n) \<longrightarrow> enabled r = (cur_state n = 0)))"

definition rules_of :: "cond_node list \<Rightarrow> nat list" where
  "rules_of ns = concat (map (\<lambda>n. true_list n @ false_list n) ns)"

lemma rules_of_simps [simp]: "rules_of [] = []" "rules_of (n # ns) = true_list n @ false_list n @ rules_of ns"
  by (simp_all add: rules_of_def)

definition switch :: "cond_node \<Rightarrow> int \<Rightarrow> avtab \<Rightarrow> avtab" where
  "switch n v t = set_enabled (v = 0) (false_list n) (set_enabled (v > 0) (true_list n) t)"

lemma switch_nodes:
  "avtab_nodes (switch n v t) = map (\<lambda>r. if naddr r \<in> set (false_list n) then rule_flag (v = 0) (if naddr r \<in> set (true_list n) then rule_flag (v > 0) r else r)
     else if naddr r \<in> set (true_list n) then rule_flag (v > 0) r else r) (avtab_nodes t)"
  by (simp add: switch_def set_enabled_nodes)

lemma switch_right:
  assumes "distinct (true_list n @ false_list n)"
  shows "node_right (switch n v t) (n\<lparr>cur_state := v\<rparr>)"
  using assms by (auto simp: node_right_def switch_nodes)

lemma switch_other:
  assumes "node_right t m" "set (true_list m @ false_list m) \<inter> set (true_list n @ false_list n) = {}"
  shows "node_right (switch n v t) m"
  unfolding node_right_def
proof
  fix r' assume "r' \<in> set (avtab_nodes (switch n v t))"
  then obtain r where r: "r \<in> set (avtab_nodes t)"
      "naddr r' = naddr r \<and> (naddr r \<notin> set (true_list n @ false_list n) \<longrightarrow> r' = r)"
    unfolding switch_nodes by fastforce
  then show "(naddr r' \<in> set (true_list m) \<longrightarrow> enabled r' = (0 < cur_state m)) \<and>
      (naddr r' \<in> set (false_list m) \<longrightarrow> enabled r' = (cur_state m = 0))"
    using assms unfolding node_right_def by (cases "naddr r \<in> set (true_list n @ false_list n)") auto
qed

lemma evaluate_node:
  assumes "node_right (te_cond_avtab p) n"
  shows "evaluate_cond_node p n =
    (p\<lparr>te_cond_avtab := switch n (cond_evaluate_expr p (expr n)) (te_cond_avtab p)\<rparr>, n\<lparr>cur_state := cond_evaluate_expr p (expr n)\<rparr>)"
proof (cases "cond_evaluate_expr p (expr n) = cur_state n")
  case True
  have "set_enabled (cur_state n > 0) (true_list n) (te_cond_avtab p) = te_cond_avtab p"
    using assms by (intro set_enabled_same) (auto simp: node_right_def)
  moreover have "set_enabled (cur_state n = 0) (false_list n) (te_cond_avtab p) = te_cond_avtab p"
    using assms by (intro set_enabled_same) (auto simp: node_right_def)
  ultimately show ?thesis using True by (simp add: evaluate_cond_node_def switch_def)
qed (simp add: evaluate_cond_node_def switch_def Let_def)

lemma evaluate_loop:
  assumes "\<And>n. n \<in> set ns \<Longrightarrow> node_right (te_cond_avtab p) n" "distinct (rules_of ns)"
  shows "evaluate_conds_loop p ns =
    (p\<lparr>te_cond_avtab := fold (\<lambda>n. switch n (cond_evaluate_expr p (expr n))) ns (te_cond_avtab p)\<rparr>,
     map (\<lambda>n. n\<lparr>cur_state := cond_evaluate_expr p (expr n)\<rparr>) ns)"
  using assms
proof (induction ns arbitrary: p)
  case (Cons n ns)
  let ?p = "p\<lparr>te_cond_avtab := switch n (cond_evaluate_expr p (expr n)) (te_cond_avtab p)\<rparr>"
  have ev: "cond_evaluate_expr ?p es = cond_evaluate_expr p es" for es by (rule eval_bools) simp
  have "node_right (te_cond_avtab ?p) m" if "m \<in> set ns" for m
  proof -
    have "set (true_list m @ false_list m) \<subseteq> set (rules_of ns)" using that by (auto simp: rules_of_def)
    then have "set (true_list m @ false_list m) \<inter> set (true_list n @ false_list n) = {}"
      using Cons.prems(2) by fastforce
    then show ?thesis using switch_other Cons.prems(1) that by simp
  qed
  then show ?case using Cons.IH [of ?p] Cons.prems evaluate_node [of p n] by (simp add: ev)
qed simp

lemma switch_addrs [simp]: "map naddr (avtab_nodes (switch n v t)) = map naddr (avtab_nodes t)"
  by (simp add: switch_def)

lemma switch_ok: "avtab_ok t \<Longrightarrow> avtab_ok (switch n v t)"
  by (simp add: switch_def set_enabled_ok)

lemma switch_all:
  assumes "distinct (rules_of ns)"
  shows "avtab_ok t \<Longrightarrow> avtab_ok (fold (\<lambda>n. switch n (v n)) ns t)"
    and "map naddr (avtab_nodes (fold (\<lambda>n. switch n (v n)) ns t)) = map naddr (avtab_nodes t)"
    and "n \<in> set ns \<Longrightarrow> node_right (fold (\<lambda>n. switch n (v n)) ns t) (n\<lparr>cur_state := v n\<rparr>)"
proof -
  show "avtab_ok t \<Longrightarrow> avtab_ok (fold (\<lambda>n. switch n (v n)) ns t)"
    by (induction ns arbitrary: t) (simp_all add: switch_ok)
  show "map naddr (avtab_nodes (fold (\<lambda>n. switch n (v n)) ns t)) = map naddr (avtab_nodes t)"
    by (induction ns arbitrary: t) simp_all
  show "n \<in> set ns \<Longrightarrow> node_right (fold (\<lambda>n. switch n (v n)) ns t) (n\<lparr>cur_state := v n\<rparr>)"
    using assms
  proof (induction ns arbitrary: t rule: rev_induct)
    case (snoc m ns)
    have d: "distinct (rules_of ns)" "distinct (true_list m @ false_list m)"
        "set (rules_of ns) \<inter> set (true_list m @ false_list m) = {}"
      using snoc.prems(2) by (auto simp: rules_of_def)
    show ?case
    proof (cases "n = m")
      case True
      then show ?thesis using switch_right [OF d(2)] by simp
    next
      case False
      then have n: "n \<in> set ns" using snoc.prems(1) by simp
      then have "set (true_list n @ false_list n) \<subseteq> set (rules_of ns)" by (auto simp: rules_of_def)
      then have "set (true_list n @ false_list n) \<inter> set (true_list m @ false_list m) = {}" using d(3) by blast
      then show ?thesis using switch_other [OF snoc.IH [OF n d(1), of t], of m "v m"] by simp
    qed
  qed simp
qed

lemma switch_none:
  "\<lbrakk>r \<in> set (avtab_nodes t); naddr r \<notin> set (rules_of ns)\<rbrakk> \<Longrightarrow> r \<in> set (avtab_nodes (fold (\<lambda>n. switch n (v n)) ns t))"
proof (induction ns arbitrary: t)
  case (Cons n ns)
  then have "r \<in> set (avtab_nodes (switch n (v n) t))" unfolding switch_nodes by (auto simp: image_iff)
  then show ?case using Cons by simp
qed simp

subsection \<open>The order of the rule lists\<close>

lemma optimize_loop:
  "front \<noteq> [] \<Longrightarrow> cond_optimize_loop f front l = rev (filter f l) @ front @ filter (\<lambda>x. \<not> f x) l"
  by (induction l arbitrary: front) simp_all

lemma optimize_list:
  "cond_optimize t l = (case l of [] \<Rightarrow> [] | x # xs \<Rightarrow>
     rev (filter (is_type_rule t) xs) @ x # filter (\<lambda>y. \<not> is_type_rule t y) xs)"
  by (cases l) (simp_all add: cond_optimize_def optimize_loop)

lemma optimize_parts:
  "\<exists>ts os. cond_optimize t l = ts @ os \<and> list_all (is_type_rule t) ts \<and> list_all (\<lambda>a. \<not> is_type_rule t a) os \<and>
     mset ts + mset os = mset l"
proof (cases l)
  case (Cons x xs)
  let ?f = "is_type_rule t"
  have ms: "mset (rev (filter ?f xs)) + mset (filter (\<lambda>y. \<not> ?f y) xs) = mset xs" by (simp add: multiset_partition [symmetric])
  show ?thesis
  proof (cases "?f x")
    case True
    then show ?thesis using ms Cons
      by (intro exI [of _ "rev (filter ?f xs) @ [x]"] exI [of _ "filter (\<lambda>y. \<not> ?f y) xs"]) (simp add: optimize_list list_all_iff)
  next
    case False
    then show ?thesis using ms Cons
      by (intro exI [of _ "rev (filter ?f xs)"] exI [of _ "x # filter (\<lambda>y. \<not> ?f y) xs"]) (simp add: optimize_list list_all_iff)
  qed
qed (simp add: optimize_list)

subsection \<open>Reading\<close>

text \<open>While a list is read, the addresses of the table's rules are those of the lists read
  before and of the list so far; nothing but the table of the policy changes.\<close>

definition cond_reading :: "policydb \<Rightarrow> nat list \<Rightarrow> policydb \<times> nat list \<Rightarrow> bool" where
  "cond_reading p0 prev ps \<longleftrightarrow> (case ps of (p, acc) \<Rightarrow>
     p = p0\<lparr>te_cond_avtab := te_cond_avtab p\<rparr> \<and> avtab_ok (te_cond_avtab p) \<and>
     mset (map naddr (avtab_nodes (te_cond_avtab p))) = mset (prev @ acc))"

lemma reading_policy: "cond_reading p0 prev (p, acc) \<Longrightarrow> p = p0\<lparr>te_cond_avtab := te_cond_avtab p\<rparr>"
  unfolding cond_reading_def prod.case by (rule conjunct1)

lemma insert_nonunique_Some:
  assumes "avtab_insert_nonunique hp t k d = (Some a, t', hp')" "avtab_ok t"
  shows "avtab_ok t'" "mset (map naddr (avtab_nodes t')) = add_mset a (mset (map naddr (avtab_nodes t)))"
proof -
  have "ahtable t \<noteq> None" using assms(1) by (auto simp: avtab_insert_nonunique_def split: option.splits)
  note * = avtab_insert_nonunique_spec [OF assms(2) this, of hp k d, unfolded assms(1), simplified]
  show "avtab_ok t'" "mset (map naddr (avtab_nodes t')) = add_mset a (mset (map naddr (avtab_nodes t)))"
    using * by (simp_all add: new_node_def)
qed

lemma cond_insertf_keeps:
  assumes "cond_insertf other k d ps s = (Inr ps', s')" "cond_reading p0 prev ps"
  shows "cond_reading p0 prev ps'"
proof -
  obtain p acc where ps: "ps = (p, acc)" by fastforce
  obtain a t' hp where i: "avtab_insert_nonunique (fst s) (te_cond_avtab p) k d = (Some a, t', hp)"
      "ps' = (p\<lparr>te_cond_avtab := t'\<rparr>, acc @ [a])"
    using assms(1) unfolding ps cond_insertf_def
    by (auto split: if_splits option.splits prod.splits bool.splits list.splits)
  have r: "p = p0\<lparr>te_cond_avtab := te_cond_avtab p\<rparr>" "avtab_ok (te_cond_avtab p)"
      "mset (map naddr (avtab_nodes (te_cond_avtab p))) = mset (prev @ acc)"
    using assms(2) ps by (simp_all add: cond_reading_def)
  have "p\<lparr>te_cond_avtab := t'\<rparr> = p0\<lparr>te_cond_avtab := t'\<rparr>" by (subst r(1)) simp
  then show ?thesis
    using insert_nonunique_Some [OF i(1) r(2)] r(3) i(2) by (simp add: cond_reading_def)
qed

lemma cond_items_keeps:
  "\<lbrakk>cond_read_items other n ps s = (Inr ps', s'); cond_reading p0 prev ps\<rbrakk> \<Longrightarrow> cond_reading p0 prev ps'"
proof (induction n arbitrary: ps s)
  case (Suc n)
  obtain q s1 where "avtab_read_item (policyvers (fst ps)) (cond_insertf other) ps s = (Inr q, s1)"
      "cond_read_items other n q s1 = (Inr ps', s')"
    using Suc.prems(1) by (auto simp: rd_Inr)
  moreover from this(1) have "cond_reading p0 prev q"
    by (rule read_item_keeps [where I = "cond_reading p0 prev" and insertf = "cond_insertf other", rotated])
      (use Suc.prems(2) cond_insertf_keeps in blast)+
  ultimately show ?case using Suc.IH by blast
qed (simp add: rd_Inr)

lemma av_list_keeps:
  "\<lbrakk>cond_read_av_list p other s = (Inr ps', s'); cond_reading p0 prev (p, [])\<rbrakk> \<Longrightarrow> cond_reading p0 prev ps'"
  by (auto simp: cond_read_av_list_def rd_Inr dest: cond_items_keeps split: if_splits)

lemma cond_reading_next: "cond_reading p0 prev (p, acc) \<longleftrightarrow> cond_reading p0 (prev @ acc) (p, [])"
  by (simp add: cond_reading_def)

lemma exprs_valid: "cond_read_exprs p n s = (Inr es, s') \<Longrightarrow> length es = n \<and> list_all (expr_isvalid p) es"
  by (induction n arbitrary: s es) (auto simp: rd_Inr Let_def)

lemma expr_isvalid_iff:
  "expr_isvalid p e \<longleftrightarrow> 0 < cond_expr_type e \<and> cond_expr_type e \<le> COND_LAST \<and> cond_bool e \<le> nprim (p_bools p)"
  by (auto simp: expr_isvalid_def word_gt_0 not_less)

lemma expr_isvalid_table: "p = p0\<lparr>te_cond_avtab := t\<rparr> \<Longrightarrow> expr_isvalid p e = expr_isvalid p0 e"
  by (simp add: expr_isvalid_def)

lemma rules_keeps:
  assumes "cond_read_rules p n s = (Inr (p', n'), s')" "cond_reading p0 prev (p, [])" "true_list n = []" "false_list n = []"
  shows "cond_reading p0 (prev @ true_list n' @ false_list n') (p', []) \<and> expr n' = expr n"
proof (cases "policy_type p = POLICY_KERN")
  case False
  then show ?thesis
    using assms by (auto simp: cond_read_rules_def rd_Inr Let_def split: if_splits)
next
  case True
  obtain s1 q1 q2 where q: "cond_read_av_list p [] s = (Inr q1, s1)" "cond_read_av_list (fst q1) (snd q1) s1 = (Inr q2, s')"
      "p' = fst q2" "n' = n\<lparr>true_list := snd q1, false_list := snd q2\<rparr>"
    using assms(1) unfolding cond_read_rules_def if_P [OF True] rd_Inr case_prod_beta by fastforce
  obtain p1 tr fl where r: "cond_read_av_list p [] s = (Inr (p1, tr), s1)" "cond_read_av_list p1 tr s1 = (Inr (p', fl), s')"
      "n' = n\<lparr>true_list := tr, false_list := fl\<rparr>"
    using q by (cases q1; cases q2) simp
  have "cond_reading p0 (prev @ tr) (p1, [])"
    using av_list_keeps [OF r(1) assms(2)] cond_reading_next by blast
  then have "cond_reading p0 (prev @ tr @ fl) (p', [])"
    using av_list_keeps [OF r(2)] cond_reading_next [of p0 "prev @ tr"] by (metis append.assoc)
  then show ?thesis using r(3) by simp
qed

lemma node_keeps:
  assumes "cond_read_node p s = (Inr (p', n), s')" "cond_reading p0 prev (p, [])"
  shows "cond_reading p0 (prev @ true_list n @ false_list n) (p', []) \<and> list_all (expr_isvalid p0) (expr n)"
proof -
  obtain k s1 es s2 m where q: "cond_read_exprs p k s1 = (Inr es, s2)" "cond_read_rules p m s2 = (Inr (p', n), s')"
      "true_list m = []" "false_list m = []" "expr m = es"
    using assms(1) unfolding cond_read_node_def rd_Inr by (fastforce simp: cond_node_zero_def)
  have "list_all (expr_isvalid p0) es"
    using exprs_valid [OF q(1)] expr_isvalid_table [OF reading_policy [OF assms(2)]] by (simp add: list_all_iff)
  then show ?thesis using rules_keeps [OF q(2) assms(2) q(3,4)] q(5) by simp
qed

lemma nodes_keeps:
  "\<lbrakk>cond_read_nodes k p s = (Inr (p', ns), s'); cond_reading p0 prev (p, [])\<rbrakk> \<Longrightarrow>
   cond_reading p0 (prev @ rules_of ns) (p', []) \<and> list_all (\<lambda>n. list_all (expr_isvalid p0) (expr n)) ns"
proof (induction k arbitrary: p s ns prev)
  case (Suc k)
  obtain s1 p1 n s2 ns1 where r: "cond_read_node p s1 = (Inr (p1, n), s2)"
      "cond_read_nodes k p1 s2 = (Inr (p', ns1), s')" "ns = n # ns1"
    using Suc.prems(1) by (auto simp: rd_Inr)
  show ?case
    using node_keeps [OF r(1) Suc.prems(2)] Suc.IH [OF r(2), of "prev @ true_list n @ false_list n"] r(3) by simp
qed (simp add: rd_Inr)

lemma cond_read_list_spec:
  assumes r: "cond_read_list p s = (Inr (p', ns), s')" and none: "ahtable (te_cond_avtab p) = None"
  shows "p' = p\<lparr>te_cond_avtab := te_cond_avtab p'\<rparr> \<and> avtab_ok (te_cond_avtab p') \<and>
    mset (map naddr (avtab_nodes (te_cond_avtab p'))) = mset (rules_of ns) \<and>
    list_all (\<lambda>n. list_all (expr_isvalid p) (expr n)) ns"
proof -
  obtain k t s1 s2 where a: "ralloc (te_cond_avtab p) (anel (te_avtab p)) s1 = (Inr t, s2)"
      "cond_read_nodes k (p\<lparr>te_cond_avtab := t\<rparr>) s2 = (Inr (p', ns), s')"
    using r unfolding cond_read_list_def rd_Inr by blast
  have "avtab_ok t \<and> avtab_nodes t = []"
  proof (cases "anel (te_avtab p) = 0")
    case True
    then show ?thesis using a(1) none by (auto simp: ralloc_def avtab_alloc_def avtab_ok_def avtab_nodes_def)
  next
    case False
    then show ?thesis using ralloc_wf [OF a(1)] by (simp add: avtab_wf_def)
  qed
  then have "cond_reading p [] (p\<lparr>te_cond_avtab := t\<rparr>, [])" by (simp add: cond_reading_def)
  from nodes_keeps [OF a(2) this] show ?thesis by (simp add: cond_reading_def)
qed

end
