(* ===== verification/Policy_Props.thy ===== *)
theory Policy_Props
  imports Mls_Props Security_Context Sidtab Conditional_Laws
begin

section \<open>Properties of contexts, identifiers and conditionals\<close>

text \<open>
  The properties of libsepol/src/context.c, context_record.c, sidtab.c and conditional.c:
  which contexts are accepted, the round trip between contexts and strings, the numbering of
  contexts over every sequence of requests, the evaluation and comparison of conditional
  expressions, and the state of the conditional rules.
\<close>

subsection \<open>Samples\<close>

definition sample_role :: role_datum where
  "sample_role = \<lparr>role_value = 1, dominates = \<lparr>node = [], highbit = 0\<rparr>, role_types = type_set_init, role_cache = \<lparr>node = [], highbit = 0\<rparr>,
     role_bounds = 0, role_flavor = 0, role_roles = ebitmap_init\<rparr>"

definition sample_type :: type_datum where
  "sample_type = \<lparr>type_value = 1, primary = 1, flavor = 0, type_types = ebitmap_init, type_flags = 0, type_bounds = 0\<rparr>"

definition plain_level :: mls_level where
  "plain_level = \<lparr>sens = 1, cat = \<lparr>node = [], highbit = 0\<rparr>\<rparr>"

definition plain_context :: context_struct where
  "plain_context = \<lparr>c_user = 1, c_role = 1, c_type = 1, c_range = \<lparr>level0 = plain_level, level1 = plain_level\<rparr>\<rparr>"

definition full_policy :: policydb where
  "full_policy = sample_policy\<lparr>p_roles := one_slot [\<lparr>hkey = [0x72], hdatum = sample_role\<rparr>],
     p_types := one_slot [\<lparr>hkey = [0x74], hdatum = sample_type\<rparr>],
     p_role_val_to_name := [Some [0x72]], p_type_val_to_name := [Some [0x74]],
     role_val_to_struct := [Some sample_role], type_val_to_struct := [Some sample_type]\<rparr>"

lemma full_policy_same:
  "p_levels full_policy = p_levels sample_policy" "p_cats full_policy = p_cats sample_policy"
  "p_sens_val_to_name full_policy = p_sens_val_to_name sample_policy" "p_cat_val_to_name full_policy = p_cat_val_to_name sample_policy"
  "mls full_policy"
  by (simp_all add: full_policy_def) (simp add: sample_policy_def)

lemma one_slot_search: "symcmp k (hkey n) = 0 \<Longrightarrow> hashtab_search (table (one_slot [n])) k = Some (hdatum n)"
  by (simp add: one_slot_def hashtab_search_def symhash_def chain_from_def)

lemma full_policy_levels: "level_isvalid full_policy plain_level" "level_named full_policy plain_level"
proof -
  have n: "val_get (p_sens_val_to_name sample_policy) 1 = Some sample_sens" "value_ok (p_levels sample_policy) 1"
    by (simp_all add: val_get_def sample_policy_def value_ok_def one_slot_def)
  have "sens plain_level = 1" "ebitmap_positive_bits (cat plain_level) = []"
    by (simp_all add: plain_level_def ebitmap_positive_bits_def ebitmap_length_def ebitmap_startbit_def ebitmap_positive_bits_from.simps)
  moreover have "clean sample_sens" "sens sample_level = 1" by (simp_all add: clean_def sample_sens_def sample_level_def)
  ultimately show "level_isvalid full_policy plain_level" "level_named full_policy plain_level"
    by (simp_all add: level_isvalid_def level_named_def full_policy_same n sample_level_search name_of_def)
qed

lemma plain_level_print: "level_print full_policy plain_level = sample_sens"
  by (simp add: level_print_def plain_level_def ebitmap_each_bit_def ebitmap_length_def ebitmap_startbit_def
      ebitmap_each_bit_from.simps close_range_def name_of_def val_get_def full_policy_same)
    (simp add: sample_policy_def)

lemma plain_dom: "mls_level_dom plain_level plain_level" "level_wf plain_level"
  by (simp_all add: mls_level_dom_def plain_level_def ebitmap_contains_def level_wf_def ebitmap_wf_def nodes_ok_def highbit_of_prev_def)

lemma full_policy_valid: "context_is_valid full_policy plain_context"
  using full_policy_levels
  by (simp add: context_is_valid_def mls_context_isvalid_def plain_context_def plain_dom OBJECT_R_VAL_def value_ok_def)
    (simp add: full_policy_def sample_policy_def one_slot_def)

lemma full_policy_names:
  "name_of (p_user_val_to_name full_policy) 1 = [0x75]" "name_of (p_role_val_to_name full_policy) 1 = [0x72]"
  "name_of (p_type_val_to_name full_policy) 1 = [0x74]"
  by (simp_all add: name_of_def val_get_def full_policy_def sample_policy_def)

lemma full_policy_data:
  "hashtab_search (table (p_users full_policy)) [0x75] = Some sample_user"
  "hashtab_search (table (p_roles full_policy)) [0x72] = Some sample_role"
  "hashtab_search (table (p_types full_policy)) [0x74] = Some sample_type"
  by (simp_all add: full_policy_def sample_policy_def one_slot_search symcmp_def)

lemma plain_context_named: "context_named full_policy plain_context"
  using full_policy_levels
  by (simp add: context_named_def plain_context_def full_policy_names full_policy_data)
    (simp add: sample_user_def sample_role_def sample_type_def TYPE_ATTRIB_def plain_level_def full_policy_same)

lemma plain_context_wf: "context_wf plain_context"
  by (simp add: context_wf_def range_wf_def plain_context_def plain_dom)

lemma plain_context_text:
  "0 \<notin> set (context_text full_policy plain_context)" "length (mls_sid_to_context full_policy plain_context) < 2 ^ 32"
  by (simp_all add: context_text_def plain_context_def full_policy_names mls_sid_to_context_def plain_level_print sample_sens_def)

subsection \<open>Contexts and strings\<close>

text \<open>(C11) Whatever the policy and the string, a context that \<open>context_from_string\<close> accepts has a user,
  role and type of the policy; unless its role is \<open>object_r\<close>, the role is authorised for the type
  and the user for the role, and under MLS the range lies in the user's range; its high
  level dominates its low level.\<close>

theorem context_accepted_authorised:
  assumes "context_from_string p str h = (Inr c, h')"
  shows "value_ok (p_users p) (c_user c) \<and> value_ok (p_roles p) (c_role c) \<and> value_ok (p_types p) (c_type c) \<and>
    (mls p \<longrightarrow> mls_level_dom (level1 (c_range c)) (level0 (c_range c))) \<and>
    (c_role c \<noteq> OBJECT_R_VAL \<longrightarrow>
      (\<exists>role user. val_get (role_val_to_struct p) (c_role c) = Some role \<and> ebitmap_get_bit (role_cache role) (c_type c - 1) \<and>
         val_get (user_val_to_struct p) (c_user c) = Some user \<and> ebitmap_get_bit (user_cache user) (c_role c - 1) \<and>
         (mls p \<longrightarrow> mls_range_contains (exp_range user) (c_range c))))"
  using from_string_valid [OF assms]
  by (auto simp: context_is_valid_def mls_context_isvalid_def split: if_splits option.splits)

theorem context_accepted_authorised_witness:
  "\<exists>c h'. context_from_string full_policy (context_text full_policy plain_context @ [0]) [] = (Inr c, h') \<and>
     value_ok (p_types full_policy) (c_type c)"
proof -
  have "mem_ok []" by simp
  from hgives_returns [OF string_round_trip [OF plain_context_named plain_context_wf full_policy_valid plain_context_text(1)] this]
  obtain c h' where r: "context_from_string full_policy (context_text full_policy plain_context @ [0]) [] = (Inr c, h')" .
  from context_accepted_authorised [OF r] r show ?thesis by blast
qed

text \<open>(C12) Round trip: the string \<open>context_to_string\<close> makes of a valid context that the policy names
  fills the buffer it allocates exactly, with its terminating zero, and \<open>context_from_string\<close> turns
  it back into the same context.\<close>

theorem context_string_round_trip:
  assumes "context_named p c" "context_wf c" "context_is_valid p c" "0 \<notin> set (context_text p c)"
    and "length (mls_sid_to_context p c) < 2 ^ 32" "mem_ok h"
  shows "\<exists>str len h1 h2. context_to_string p c h = (Inr (str, len), h1) \<and> len = length (str @ [0]) \<and>
    context_from_string p (str @ [0]) h1 = (Inr c, h2)"
proof -
  from hgives_returns [OF to_string_text [OF assms(5)] assms(6)] obtain sl h1 where
    1: "context_to_string p c h = (Inr sl, h1)" "case sl of (s, n) \<Rightarrow> s = context_text p c \<and> n = length s + 1" "mem_ok h1" .
  obtain s n where sl: "sl = (s, n)" by fastforce
  from hgives_returns [OF string_round_trip [OF assms(1-4)] 1(3)] obtain c' h2 where
    2: "context_from_string p (context_text p c @ [0]) h1 = (Inr c', h2)" "c' = c" .
  show ?thesis using 1 2 sl by auto
qed

theorem context_string_round_trip_witness:
  "\<exists>str len h1 h2. context_to_string full_policy plain_context [] = (Inr (str, len), h1) \<and> len = length (str @ [0]) \<and>
     context_from_string full_policy (str @ [0]) h1 = (Inr plain_context, h2)"
  by (rule context_string_round_trip [OF plain_context_named plain_context_wf full_policy_valid plain_context_text]) simp

text \<open>(C13) The string \<open><<none>>\<close>, for which \<open>sepol_context_from_string\<close> returns success with a null record,
  makes \<open>context_from_string\<close> read that null pointer, whatever the policy.\<close>

theorem context_from_none_string_faults:
  assumes "mem_ok h"
  shows "fst (context_from_string p (none_string @ [0]) h) = Inl EFAULT"
proof -
  obtain h' where "malloc h = (True, h')" using malloc_mem_ok [OF assms] by blast
  then show ?thesis
    by (simp add: context_from_string_def sepol_context_from_string_def none_string_def hbind_def hmalloc_def hret_def
        context_from_record_def hfail_def)
qed

theorem context_from_none_string_faults_witness:
  "fst (context_from_string full_policy (none_string @ [0]) []) = Inl EFAULT"
  using context_from_none_string_faults [of "[]" full_policy] by simp

subsection \<open>Security identifiers\<close>

text \<open>(C14) Over every sequence of requests, successful or not, and shutdowns, the table stays well-formed and
  the numbering is one to one: if a request for context \<open>c\<close> is answered with \<open>sid\<close> and a later one for
  \<open>d\<close> with \<open>sid'\<close>, then the identifiers are equal exactly when the contexts are, and \<open>sid\<close> still
  stands for \<open>c\<close>.\<close>

theorem sidtab_numbering:
  assumes "sidtab_ok s" "sids_unique s" "sid_step\<^sup>*\<^sup>* s s1" "sepol_sidtab_context_to_sid s1 c h = (Inr sid, s2, h')"
    and "sid_step\<^sup>*\<^sup>* s2 s3" "sepol_sidtab_context_to_sid s3 d k = (Inr sid', s4, k')"
  shows "sidtab_ok s4 \<and> (sid = sid' \<longleftrightarrow> c = d) \<and> sid_map s4 sid = Some c \<and> sepol_sidtab_search s4 sid = Some c"
proof -
  note 1 = sid_steps_keep [OF assms(3,1,2)]
  have 2: "sidtab_ok s2" "sids_unique s2" "sid_map s2 sid = Some c"
    using 1 request_keeps [OF _ _ assms(4)] context_to_sid_spec [OF _ assms(4)] by auto
  note 3 = sid_steps_keep [OF assms(5) 2(1,2)]
  have 4: "sidtab_ok s4" "sids_unique s4" "sid_map s3 \<subseteq>\<^sub>m sid_map s4" "sid_map s4 sid' = Some d"
    using 3 request_keeps [OF _ _ assms(6)] context_to_sid_spec [OF _ assms(6)] by auto
  have c: "sid_map s4 sid = Some c" using 2(3) 3 4(3) by (metis domI map_le_def)
  then have "sid = sid' \<longleftrightarrow> c = d" using 4(4) sids_uniqueD [OF 4(2)] by auto
  then show ?thesis using 4(1) c by (auto simp: sepol_sidtab_search_def sid_map_def split: option.splits)
qed

lemma request_answered:
  assumes "sidtab_ok s" "next_sid s \<noteq> 0xFFFFFFFF" "\<not> shutdown s"
  shows "\<exists>sid s' h'. sepol_sidtab_context_to_sid s c [] = (Inr sid, s', h')"
proof -
  obtain r s' h' where r: "sepol_sidtab_context_to_sid s c [] = (r, s', h')" by (metis prod_cases3)
  then show ?thesis using context_to_sid_spec [OF assms(1) r] assms(2,3) by (cases r) auto
qed

theorem sidtab_numbering_witness:
  "\<exists>sid s1 h1 s2 h2. sepol_sidtab_context_to_sid sidtab_empty plain_context [] = (Inr sid, s1, h1) \<and>
     sepol_sidtab_context_to_sid s1 plain_context [] = (Inr sid, s2, h2)"
proof -
  have "next_sid sidtab_empty \<noteq> 0xFFFFFFFF" "\<not> shutdown sidtab_empty" by (simp_all add: sidtab_empty_def)
  from request_answered [OF sidtab_empty(2) this]
  obtain sid s1 h1 where 1: "sepol_sidtab_context_to_sid sidtab_empty plain_context [] = (Inr sid, s1, h1)" by blast
  then have "plain_context \<in> ran (sid_map s1)" "sidtab_ok s1"
    using context_to_sid_spec [OF sidtab_empty(2) 1] by (auto simp: ran_def)
  then obtain sid' s2 h2 where 2: "sepol_sidtab_context_to_sid s1 plain_context [] = (Inr sid', s2, h2)"
    using context_to_sid_spec [of s1 plain_context "[]"] by (cases "sepol_sidtab_context_to_sid s1 plain_context []") (auto split: sum.splits)
  show ?thesis
    using sidtab_numbering [OF sidtab_empty(2,4) rtranclp.rtrancl_refl 1 rtranclp.rtrancl_refl 2] 1 2 by blast
qed

subsection \<open>Conditional expressions\<close>

text \<open>(C15) The evaluator agrees with the meaning of the expression tree a list in reverse Polish
  notation stands for, and returns \<open>-1\<close> exactly for the expressions that need more than
  \<open>COND_EXPR_MAXDEPTH\<close> stack cells.\<close>

theorem cond_evaluate_meaning:
  assumes "bools_ok p (bvars e)"
  shows "cond_evaluate_expr p (rpn e) = (if depth e \<le> COND_EXPR_MAXDEPTH then of_bool (bsem (bool_on p) e) else - 1)"
  by (rule cond_evaluate_rpn [OF assms])

definition two_bools :: policydb where
  "two_bools = full_policy\<lparr>bool_val_to_struct := [Some \<lparr>bool_value = 1, state = 1, bool_flags = 0\<rparr>,
     Some \<lparr>bool_value = 2, state = 0, bool_flags = 0\<rparr>]\<rparr>"

lemma two_bools: "bool_state two_bools 1 = 1" "bool_state two_bools 2 = 0"
    "val_get (bool_val_to_struct two_bools) 1 \<noteq> None" "val_get (bool_val_to_struct two_bools) 2 \<noteq> None"
  by (simp_all add: bool_state_def val_get_def two_bools_def)

definition and_not :: "u32 \<Rightarrow> u32 \<Rightarrow> bexp" where
  "and_not a b = BBin Op_AND (BVar a) (BNot (BVar b))"

theorem cond_evaluate_meaning_witness: "cond_evaluate_expr two_bools (rpn (and_not 1 2)) = 1"
proof -
  have "bools_ok two_bools (bvars (and_not 1 2))" by (auto simp: bools_ok_def and_not_def two_bools)
  from cond_evaluate_meaning [OF this] show ?thesis
    by (simp add: and_not_def COND_EXPR_MAXDEPTH_def bool_on_def two_bools)
qed

text \<open>(C16) \<open>cond_normalize_expr\<close> on an expression of at most five booleans succeeds, leaves the policy as
  it was, keeps in every policy which of the two rule lists is selected although it may drop
  a final negation and swap the lists, and computes the truth table: the bit numbered by
  the values of the booleans, in the order of \<open>bool_ids\<close>, is the value of the expression.\<close>

theorem cond_normalize_truth_table:
  assumes "expr cn = rpn e" "card (bvars e) \<le> 5" "depth e \<le> COND_EXPR_MAXDEPTH"
    and "\<And>b. b \<in> bvars e \<Longrightarrow> val_get (bool_val_to_struct p) b \<noteq> None"
  shows "\<exists>cn'. cond_normalize_expr p cn = (Inr (), p, cn') \<and>
    (\<forall>q. bools_ok q (bvars e) \<longrightarrow>
       (let before = cond_evaluate_expr q (expr cn); after = cond_evaluate_expr q (expr cn') in
          (if before = 1 then true_list cn else false_list cn) = (if after = 1 then true_list cn' else false_list cn') \<and>
          (if before = 1 then false_list cn else true_list cn) = (if after = 1 then false_list cn' else true_list cn') \<and>
          after \<in> {0, 1} \<and>
          bit (expr_pre_comp cn') (code_of q (take (unat (nbools cn')) (bool_ids cn'))) = (after = 1)))"
proof -
  obtain cn' where n: "cond_normalize_expr p cn = (Inr (), p, cn')" "table_ok_for cn' (strip_not e)"
    "true_list cn' = (if is_not e then false_list cn else true_list cn)"
    "false_list cn' = (if is_not e then true_list cn else false_list cn)"
    using normalize_spec [OF assms] by blast
  have "let before = cond_evaluate_expr q (expr cn); after = cond_evaluate_expr q (expr cn') in
      (if before = 1 then true_list cn else false_list cn) = (if after = 1 then true_list cn' else false_list cn') \<and>
      (if before = 1 then false_list cn else true_list cn) = (if after = 1 then false_list cn' else true_list cn') \<and>
      after \<in> {0, 1} \<and> bit (expr_pre_comp cn') (code_of q (take (unat (nbools cn')) (bool_ids cn'))) = (after = 1)"
    if q: "bools_ok q (bvars e)" for q
  proof -
    have "cond_evaluate_expr q (expr cn) = of_bool (bsem (bool_on q) e)"
      using cond_evaluate_rpn [OF q] assms(1,3) by simp
    moreover have "cond_evaluate_expr q (expr cn') = of_bool (bsem (bool_on q) (strip_not e))"
      using cond_evaluate_rpn [of q "strip_not e"] n(2) assms(3) q by (simp add: table_ok_for_def strip_not)
    ultimately show ?thesis
      using n q by (auto simp: table_ok_for_def Let_def strip_not)
  qed
  then show ?thesis using n(1) by blast
qed

theorem cond_normalize_truth_table_witness:
  "\<exists>cn'. cond_normalize_expr two_bools (cond_node_zero\<lparr>expr := rpn (BNot (and_not 1 2))\<rparr>) = (Inr (), two_bools, cn')"
proof -
  let ?e = "BNot (and_not 1 2)"
  have "card (bvars ?e) \<le> 5" "depth ?e \<le> COND_EXPR_MAXDEPTH" by (simp_all add: and_not_def COND_EXPR_MAXDEPTH_def)
  moreover have "\<And>b. b \<in> bvars ?e \<Longrightarrow> val_get (bool_val_to_struct two_bools) b \<noteq> None" using two_bools by (auto simp: and_not_def)
  ultimately show ?thesis
    using cond_normalize_truth_table [of "cond_node_zero\<lparr>expr := rpn ?e\<rparr>" ?e two_bools] by (auto simp del: rpn.simps)
qed

lemma note_and_not:
  assumes "a \<noteq> b" shows "fold note_bool (rpn (and_not a b)) (0, replicate 5 0) = (2, [a, b, 0, 0, 0])"
proof -
  have r: "replicate 5 (0 :: u32) = [0, 0, 0, 0, 0]" by (simp add: numeral_eq_Suc)
  show ?thesis unfolding r using assms by (simp add: and_not_def note_bool_def bool_present_def COND_MAX_BOOLS_def cond_consts)
qed

lemma normalize_and_not:
  assumes "a \<noteq> b" "val_get (bool_val_to_struct p) a \<noteq> None" "val_get (bool_val_to_struct p) b \<noteq> None"
  shows "\<exists>m. cond_normalize_expr p (cond_node_zero\<lparr>expr := rpn (and_not a b)\<rparr>) = (Inr (), p, m) \<and> expr m = rpn (and_not a b) \<and>
    nbools m = 2 \<and> bool_ids m = [a, b, 0, 0, 0] \<and>
    expr_pre_comp m = table_of (\<lambda>t. bit (word_of_nat t :: u32) 0 \<and> \<not> bit (word_of_nat t :: u32) 1) [0..<4] 0"
proof -
  let ?e = "and_not a b"
  have e: "strip_not ?e = ?e" "card (bvars ?e) \<le> 5" "depth ?e \<le> COND_EXPR_MAXDEPTH"
    using assms(1) by (simp_all add: and_not_def COND_EXPR_MAXDEPTH_def)
  have "\<And>c. c \<in> bvars ?e \<Longrightarrow> val_get (bool_val_to_struct p) c \<noteq> None" using assms by (auto simp: and_not_def)
  from normalize_spec [OF _ e(2,3) this, of "cond_node_zero\<lparr>expr := rpn ?e\<rparr>"] obtain m where
    m: "cond_normalize_expr p (cond_node_zero\<lparr>expr := rpn ?e\<rparr>) = (Inr (), p, m)" "table_ok_for m ?e"
      "fold note_bool (rpn ?e) (0, replicate 5 0) = (nbools m, bool_ids m)"
      "expr_pre_comp m = table_of (\<lambda>t. bsem (test_val (take (unat (nbools m)) (bool_ids m)) t) ?e) [0..<2 ^ unat (nbools m)] 0"
    unfolding e(1) by auto
  have ids: "nbools m = 2" "bool_ids m = [a, b, 0, 0, 0]" using m(3) note_and_not [OF assms(1)] by simp_all
  have two: "(\<exists>i<length [a, b]. Q i) \<longleftrightarrow> Q 0 \<or> Q 1" for Q by (auto simp: less_Suc_eq)
  have "bsem (test_val [a, b] t) ?e \<longleftrightarrow> bit (word_of_nat t :: u32) 0 \<and> \<not> bit (word_of_nat t :: u32) 1" for t
    using assms(1) unfolding and_not_def bsem.simps op_sem.simps test_val_def two by auto
  then show ?thesis using m ids by (auto simp: table_ok_for_def)
qed

text \<open>(C17) The comparison of expressions confuses \<open>a && !b\<close> with \<open>b && !a\<close>: both have the same set of
  booleans and, because each numbers its own first boolean first, the same truth table, so
  \<open>cond_expr_equal\<close> holds, while under a policy with \<open>a\<close> on and \<open>b\<close> off the first is true
  and the second false.\<close>

theorem cond_expr_equal_confuses:
  assumes "a \<noteq> b" "val_get (bool_val_to_struct p) a = Some d" "state d = 1" "val_get (bool_val_to_struct p) b = Some d'" "state d' = 0"
  shows "\<exists>m n. cond_normalize_expr p (cond_node_zero\<lparr>expr := rpn (and_not a b)\<rparr>) = (Inr (), p, m) \<and>
     cond_normalize_expr p (cond_node_zero\<lparr>expr := rpn (and_not b a)\<rparr>) = (Inr (), p, n) \<and>
     cond_expr_equal (Some m) (Some n) \<and> cond_evaluate_expr p (expr m) = 1 \<and> cond_evaluate_expr p (expr n) = 0"
proof -
  have st: "bool_state p a = 1" "bool_state p b = 0" using assms by (simp_all add: bool_state_def)
  then have ok: "bools_ok p (bvars (and_not a b))" "bools_ok p (bvars (and_not b a))" by (auto simp: bools_ok_def and_not_def)
  have ev: "cond_evaluate_expr p (rpn (and_not a b)) = 1" "cond_evaluate_expr p (rpn (and_not b a)) = 0"
    using cond_evaluate_rpn [OF ok(1)] cond_evaluate_rpn [OF ok(2)] st
    by (simp_all add: and_not_def COND_EXPR_MAXDEPTH_def bool_on_def)
  obtain m n where m: "cond_normalize_expr p (cond_node_zero\<lparr>expr := rpn (and_not a b)\<rparr>) = (Inr (), p, m)"
      "expr m = rpn (and_not a b)" "nbools m = 2" "bool_ids m = [a, b, 0, 0, 0]"
    and n: "cond_normalize_expr p (cond_node_zero\<lparr>expr := rpn (and_not b a)\<rparr>) = (Inr (), p, n)"
      "expr n = rpn (and_not b a)" "nbools n = 2" "bool_ids n = [b, a, 0, 0, 0]" "expr_pre_comp m = expr_pre_comp n"
    using normalize_and_not [of a b p] normalize_and_not [of b a p] assms by fastforce
  have "cond_expr_equal (Some m) (Some n)"
    using m n by (simp add: cond_expr_equal_def same_bools_def bool_present_def COND_MAX_BOOLS_def)
  then show ?thesis using m(1,2) n(1,2) ev by auto
qed

theorem cond_expr_equal_confuses_witness:
  "\<exists>m n. cond_normalize_expr two_bools (cond_node_zero\<lparr>expr := rpn (and_not 1 2)\<rparr>) = (Inr (), two_bools, m) \<and>
     cond_normalize_expr two_bools (cond_node_zero\<lparr>expr := rpn (and_not 2 1)\<rparr>) = (Inr (), two_bools, n) \<and>
     cond_expr_equal (Some m) (Some n) \<and> cond_evaluate_expr two_bools (expr m) = 1 \<and> cond_evaluate_expr two_bools (expr n) = 0"
  by (rule cond_expr_equal_confuses) (simp_all add: val_get_def two_bools_def, simp_all)

text \<open>When two normalised nodes number their booleans in the same order, the comparison is sound:
  nodes that compare as equal have the same value in every policy.\<close>

lemma cond_expr_equal_sound:
  assumes "cond_normalize_expr p cm = (Inr (), p, m)" "cond_normalize_expr p cn = (Inr (), p, n)"
    and "expr cm = rpn e" "card (bvars e) \<le> 5" "depth e \<le> COND_EXPR_MAXDEPTH"
    and "expr cn = rpn f" "card (bvars f) \<le> 5" "depth f \<le> COND_EXPR_MAXDEPTH"
    and "\<And>b. b \<in> bvars e \<union> bvars f \<Longrightarrow> val_get (bool_val_to_struct p) b \<noteq> None"
    and "cond_expr_equal (Some m) (Some n)"
    and "take (unat (nbools m)) (bool_ids m) = take (unat (nbools n)) (bool_ids n)"
    and "bools_ok q (bvars e)"
  shows "cond_evaluate_expr q (expr m) = cond_evaluate_expr q (expr n)"
proof -
  have m: "table_ok_for m (strip_not e)" using normalize_spec [OF assms(3-5), of p] assms(1,9) by auto
  have n: "table_ok_for n (strip_not f)" using normalize_spec [OF assms(6-8), of p] assms(2,9) by auto
  have "bsem (bool_on q) (strip_not e) = bsem (bool_on q) (strip_not f)"
    using expr_equal_sound [OF m n assms(10,11)] assms(12) by (simp add: strip_not)
  moreover have "bvars e = bvars f" using m n assms(11) by (simp add: table_ok_for_def Let_def strip_not)
  ultimately show ?thesis
    using cond_evaluate_rpn [of q "strip_not e"] cond_evaluate_rpn [of q "strip_not f"] m n assms(5,8,12)
    by (simp add: table_ok_for_def strip_not)
qed

lemma note_op:
  assumes "a \<noteq> b" shows "fold note_bool (rpn (BBin f (BVar a) (BVar b))) (0, replicate 5 0) = (2, [a, b, 0, 0, 0])"
proof -
  have r: "replicate 5 (0 :: u32) = [0, 0, 0, 0, 0]" by (simp add: numeral_eq_Suc)
  show ?thesis unfolding r using assms op_code_in(2) [of f] by (simp add: note_bool_def bool_present_def COND_MAX_BOOLS_def)
qed

lemma cond_expr_equal_sound_example:
  "\<exists>m n. cond_normalize_expr two_bools (cond_node_zero\<lparr>expr := rpn (BBin Op_XOR (BVar 1) (BVar 2))\<rparr>) = (Inr (), two_bools, m) \<and>
     cond_normalize_expr two_bools (cond_node_zero\<lparr>expr := rpn (BBin Op_NEQ (BVar 1) (BVar 2))\<rparr>) = (Inr (), two_bools, n) \<and>
     cond_evaluate_expr two_bools (expr m) = cond_evaluate_expr two_bools (expr n)"
proof -
  let ?e = "\<lambda>f. BBin f (BVar 1) (BVar 2)"
  have e: "strip_not (?e f) = ?e f" "card (bvars (?e f)) \<le> 5" "depth (?e f) \<le> COND_EXPR_MAXDEPTH" for f
    by (simp_all add: COND_EXPR_MAXDEPTH_def)
  have df: "\<And>c. c \<in> bvars (?e f) \<Longrightarrow> val_get (bool_val_to_struct two_bools) c \<noteq> None" for f
    using two_bools by auto
  have "\<exists>m. cond_normalize_expr two_bools (cond_node_zero\<lparr>expr := rpn (?e f)\<rparr>) = (Inr (), two_bools, m) \<and> nbools m = 2 \<and>
      bool_ids m = [1, 2, 0, 0, 0] \<and> expr_pre_comp m = table_of (\<lambda>t. bsem (test_val [1, 2] t) (?e f)) [0..<4] 0" for f
  proof -
    have "expr (cond_node_zero\<lparr>expr := rpn (?e f)\<rparr>) = rpn (?e f)" by simp
    from normalize_spec [OF this e(2,3) df] obtain m where
      m: "cond_normalize_expr two_bools (cond_node_zero\<lparr>expr := rpn (?e f)\<rparr>) = (Inr (), two_bools, m)"
        "fold note_bool (rpn (?e f)) (0, replicate 5 0) = (nbools m, bool_ids m)"
        "expr_pre_comp m = table_of (\<lambda>t. bsem (test_val (take (unat (nbools m)) (bool_ids m)) t) (?e f)) [0..<2 ^ unat (nbools m)] 0"
      unfolding e(1) by auto
    have ids: "nbools m = 2" "bool_ids m = [1, 2, 0, 0, 0]" using m(2) note_op [of 1 2 f] by (simp_all del: rpn.simps)
    show ?thesis using m ids by (auto simp del: rpn.simps bsem.simps)
  qed
  from this [of Op_XOR] this [of Op_NEQ] obtain m n where
    m: "cond_normalize_expr two_bools (cond_node_zero\<lparr>expr := rpn (?e Op_XOR)\<rparr>) = (Inr (), two_bools, m)" "nbools m = 2" "bool_ids m = [1, 2, 0, 0, 0]"
    and n: "cond_normalize_expr two_bools (cond_node_zero\<lparr>expr := rpn (?e Op_NEQ)\<rparr>) = (Inr (), two_bools, n)" "nbools n = 2" "bool_ids n = [1, 2, 0, 0, 0]"
    and t: "expr_pre_comp m = expr_pre_comp n" by auto
  have "cond_expr_equal (Some m) (Some n)"
    using m n t by (simp add: cond_expr_equal_def same_bools_def bool_present_def COND_MAX_BOOLS_def)
  moreover have "bools_ok two_bools (bvars (?e Op_XOR))" by (auto simp: bools_ok_def two_bools)
  ultimately show ?thesis
    using cond_expr_equal_sound [OF m(1) n(1) _ e(2,3) _ e(2,3), where q = two_bools] df m n by (auto simp del: rpn.simps)
qed

subsection \<open>The state of the conditional rules\<close>

text \<open>(C18) \<open>evaluate_conds\<close>, on a policy whose rule lists share no rule and whose rules are enabled as the
  recorded states say, makes every rule of a true list enabled exactly when its expression is
  true and every rule of a false list exactly when it is false (neither, if it is
  undefined), records the new states, and changes no other rule.\<close>

theorem evaluate_conds_enables:
  assumes "avtab_ok (te_cond_avtab p)" "distinct (rules_of (cond_list p))"
    and "\<And>n. n \<in> set (cond_list p) \<Longrightarrow> node_right (te_cond_avtab p) n"
  shows "avtab_ok (te_cond_avtab (evaluate_conds p)) \<and>
    map naddr (avtab_nodes (te_cond_avtab (evaluate_conds p))) = map naddr (avtab_nodes (te_cond_avtab p)) \<and>
    cond_list (evaluate_conds p) = map (\<lambda>n. n\<lparr>cur_state := cond_evaluate_expr p (expr n)\<rparr>) (cond_list p) \<and>
    (\<forall>n\<in>set (cond_list p). \<forall>r\<in>set (avtab_nodes (te_cond_avtab (evaluate_conds p))).
       (naddr r \<in> set (true_list n) \<longrightarrow> enabled r = (cond_evaluate_expr p (expr n) > 0)) \<and>
       (naddr r \<in> set (false_list n) \<longrightarrow> enabled r = (cond_evaluate_expr p (expr n) = 0))) \<and>
    (\<forall>r\<in>set (avtab_nodes (te_cond_avtab p)). naddr r \<notin> set (rules_of (cond_list p)) \<longrightarrow>
       r \<in> set (avtab_nodes (te_cond_avtab (evaluate_conds p))))"
proof -
  let ?v = "\<lambda>n. cond_evaluate_expr p (expr n)"
  let ?t = "fold (\<lambda>n. switch n (?v n)) (cond_list p) (te_cond_avtab p)"
  have p': "te_cond_avtab (evaluate_conds p) = ?t" "cond_list (evaluate_conds p) = map (\<lambda>n. n\<lparr>cur_state := ?v n\<rparr>) (cond_list p)"
    using evaluate_loop [OF assms(3,2)] by (simp_all add: evaluate_conds_def)
  show ?thesis
    unfolding p'
    using switch_all [OF assms(2), where t = "te_cond_avtab p" and v = ?v] assms(1)
      switch_none [where t = "te_cond_avtab p" and ns = "cond_list p" and v = ?v]
    by (auto simp: node_right_def)
qed

definition sample_rule :: avtab_node where
  "sample_rule = \<lparr>akey = \<lparr>source_type = 1, target_type = 1, target_class = 1, specified = AVTAB_ALLOWED\<rparr>,
     adatum = \<lparr>data = 1, xperms = None\<rparr>, naddr = 0\<rparr>"

definition rule_policy :: policydb where
  "rule_policy = two_bools\<lparr>te_cond_avtab := \<lparr>ahtable = Some [[sample_rule]], anel = 1, nslot = 1, amask = 0, anext = 1\<rparr>,
     cond_list := [cond_node_zero\<lparr>expr := rpn (BVar 1), true_list := [0]\<rparr>]\<rparr>"

theorem evaluate_conds_enables_witness:
  "list_all enabled (avtab_nodes (te_cond_avtab (evaluate_conds rule_policy)))"
proof -
  let ?n = "cond_node_zero\<lparr>expr := rpn (BVar 1), true_list := [0]\<rparr>"
  have nodes: "avtab_nodes (te_cond_avtab rule_policy) = [sample_rule]" "cond_list rule_policy = [?n]"
    by (simp_all add: avtab_nodes_def rule_policy_def)
  have "unat (avtab_hash k 0) = 0" for k by (simp add: avtab_hash_def)
  then have 1: "avtab_ok (te_cond_avtab rule_policy)"
    by (simp add: avtab_ok_def nodes sample_rule_def) (simp add: rule_policy_def MAX_AVTAB_HASH_BUCKETS_def slots_sorted_def)
  have 2: "distinct (rules_of (cond_list rule_policy))" by (simp add: nodes cond_node_zero_def)
  have 3: "\<And>n. n \<in> set (cond_list rule_policy) \<Longrightarrow> node_right (te_cond_avtab rule_policy) n"
    by (simp add: nodes node_right_def cond_node_zero_def enabled_def sample_rule_def AVTAB_ALLOWED_def AVTAB_ENABLED_def)
  have "cond_evaluate_expr rule_policy es = cond_evaluate_expr two_bools es" for es
    by (rule eval_bools) (simp add: rule_policy_def)
  then have "cond_evaluate_expr rule_policy (expr ?n) = 1"
    using cond_evaluate_rpn [of two_bools "BVar 1"] by (simp add: bools_ok_def bool_on_def two_bools COND_EXPR_MAXDEPTH_def)
  moreover have "set (map naddr (avtab_nodes (te_cond_avtab (evaluate_conds rule_policy)))) = {0}"
    using evaluate_conds_enables [OF 1 2 3] by (simp add: nodes sample_rule_def)
  ultimately show ?thesis
    using evaluate_conds_enables [OF 1 2 3] by (auto simp: nodes list_all_iff)
qed

text \<open>(C19) The conditional part of a kernel policy that \<open>cond_read_list\<close> accepts: the table is well-formed,
  every rule of it is in exactly one rule list of one conditional, the expressions use known
  operators and booleans, and nothing else of the policy has changed.\<close>

theorem cond_read_list_accepts:
  assumes "cond_read_list p s = (Inr (p', ns), s')" "ahtable (te_cond_avtab p) = None"
  shows "p' = p\<lparr>te_cond_avtab := te_cond_avtab p'\<rparr> \<and> avtab_ok (te_cond_avtab p') \<and>
    mset (map naddr (avtab_nodes (te_cond_avtab p'))) = mset (rules_of ns) \<and> distinct (rules_of ns) \<and>
    (\<forall>n\<in>set ns. \<forall>e\<in>set (expr n). 0 < cond_expr_type e \<and> cond_expr_type e \<le> COND_LAST \<and> cond_bool e \<le> nprim (p_bools p))"
proof -
  note r = cond_read_list_spec [OF assms]
  have "distinct (map naddr (avtab_nodes (te_cond_avtab p')))" using r by (simp add: avtab_ok_def)
  then have "distinct (rules_of ns)" using r mset_eq_imp_distinct_iff by blast
  moreover have "\<forall>n\<in>set ns. \<forall>e\<in>set (expr n). 0 < cond_expr_type e \<and> cond_expr_type e \<le> COND_LAST \<and> cond_bool e \<le> nprim (p_bools p)"
    using r unfolding list_all_iff expr_isvalid_iff by blast
  ultimately show ?thesis using r by blast
qed

definition mem_file :: "u8 list \<Rightarrow> policy_file" where
  "mem_file d = \<lparr>pf_type = PF_USE_MEMORY, pf_data = d, pf_out = [], pf_len = 0\<rparr>"

lemma mem_file_entry: "length b = n \<Longrightarrow> next_entry n (h, mem_file (b @ r)) = (Inr b, h, mem_file r)"
  by (simp add: next_entry_def mem_file_def)

lemma mem_file_u32: "next_u32 (h, mem_file (put32 w @ r)) = (Inr w, h, mem_file r)"
  by (simp add: next_u32_def rbind_def rret_def mem_file_entry)

definition one_bool :: policydb where
  "one_bool = full_policy\<lparr>p_bools := one_slot [\<lparr>hkey = [0x62], hdatum = \<lparr>bool_value = 1, state = 0, bool_flags = 0\<rparr>\<rparr>]\<rparr>"

theorem cond_read_list_accepts_witness:
  "\<exists>p' n s'. cond_read_list one_bool ([], mem_file (concat (map put32 [1, 0, 1, 1, 1, 0, 0]))) = (Inr (p', [n]), s') \<and>
     expr n = rpn (BVar 1) \<and> distinct (rules_of [n])"
proof -
  have t: "te_cond_avtab one_bool = empty_avtab" "anel (te_avtab one_bool) = 0" "nprim (p_bools one_bool) = 1"
    by (simp_all add: one_bool_def full_policy_def sample_policy_def empty_avtab_def one_slot_def)
  have kern: "policy_type one_bool = POLICY_KERN"
    by (simp add: one_bool_def full_policy_def sample_policy_def)
  have "next_entry 8 (h, mem_file (put32 a @ put32 b @ r)) = (Inr (put32 a @ put32 b), h, mem_file r)" for h a b r
    using mem_file_entry [of "put32 a @ put32 b" 8 h r] by simp
  then obtain p' s' where r: "cond_read_list one_bool ([], mem_file (concat (map put32 [1, 0, 1, 1, 1, 0, 0]))) =
      (Inr (p', [cond_node_zero\<lparr>expr := rpn (BVar 1)\<rparr>]), s')"
    by (simp add: cond_read_list_def rerr_def rbind_def mem_file_u32 mem_file_u32 [of _ _ "[]", simplified] ralloc_def avtab_alloc_def t cond_read_node_def rmalloc_def
        cond_read_av_list_def cond_read_rules_def kern rret_def Let_def expr_isvalid_def cond_consts cond_node_zero_def)
  have "ahtable (te_cond_avtab one_bool) = None" by (simp add: t empty_avtab_def)
  from cond_read_list_accepts [OF r this] r show ?thesis by auto
qed

text \<open>\<open>cond_optimize\<close> only reorders a rule list, and moves all type rules before all others.\<close>

lemma cond_optimize_partitions:
  "\<exists>types others. cond_optimize t l = types @ others \<and> mset (types @ others) = mset l \<and>
     list_all (is_type_rule t) types \<and> list_all (\<lambda>a. \<not> is_type_rule t a) others"
  using optimize_parts [of t l] by auto

end
