(* ===== verification/Constraint.thy ===== *)
theory Constraint
  imports Policydb
begin

section \<open>Constraint expressions\<close>

text \<open>
  \<open>constraint_expr_eval_reason\<close> of libsepol/src/services.c with the expressions of
  sepol/policydb/constraint.h. The function evaluates a constraint in reverse Polish notation
  on a stack of \<open>CEXPR_MAXDEPTH\<close> cells and builds a text for the reason buffer on the way. The
  model has the evaluation, with every allocation whose failure changes the returned
  value; the text itself is left out, and an allocation that only lengthens a text draws nothing
  from the schedule. The stack is a list with its top first.
\<close>

definition CEXPR_MAXDEPTH :: nat where "CEXPR_MAXDEPTH = 5"
definition CEXPR_NOT :: u32 where "CEXPR_NOT = 1"
definition CEXPR_AND :: u32 where "CEXPR_AND = 2"
definition CEXPR_OR :: u32 where "CEXPR_OR = 3"
definition CEXPR_ATTR :: u32 where "CEXPR_ATTR = 4"
definition CEXPR_NAMES :: u32 where "CEXPR_NAMES = 5"
definition CEXPR_USER :: u32 where "CEXPR_USER = 1"
definition CEXPR_ROLE :: u32 where "CEXPR_ROLE = 2"
definition CEXPR_TYPE :: u32 where "CEXPR_TYPE = 4"
definition CEXPR_TARGET :: u32 where "CEXPR_TARGET = 8"
definition CEXPR_XTARGET :: u32 where "CEXPR_XTARGET = 16"
definition CEXPR_L1L2 :: u32 where "CEXPR_L1L2 = 32"
definition CEXPR_L1H2 :: u32 where "CEXPR_L1H2 = 64"
definition CEXPR_H1L2 :: u32 where "CEXPR_H1L2 = 128"
definition CEXPR_H1H2 :: u32 where "CEXPR_H1H2 = 256"
definition CEXPR_L1H1 :: u32 where "CEXPR_L1H1 = 512"
definition CEXPR_L2H2 :: u32 where "CEXPR_L2H2 = 1024"
definition CEXPR_EQ :: u32 where "CEXPR_EQ = 1"
definition CEXPR_NEQ :: u32 where "CEXPR_NEQ = 2"
definition CEXPR_DOM :: u32 where "CEXPR_DOM = 3"
definition CEXPR_DOMBY :: u32 where "CEXPR_DOMBY = 4"
definition CEXPR_INCOMP :: u32 where "CEXPR_INCOMP = 5"
definition STACK_LEN :: nat where "STACK_LEN = 32"

lemmas cexpr_consts = CEXPR_NOT_def CEXPR_AND_def CEXPR_OR_def CEXPR_ATTR_def CEXPR_NAMES_def
  CEXPR_USER_def CEXPR_ROLE_def CEXPR_TYPE_def CEXPR_TARGET_def CEXPR_XTARGET_def
  CEXPR_L1L2_def CEXPR_L1H2_def CEXPR_H1L2_def CEXPR_H1H2_def CEXPR_L1H1_def CEXPR_L2H2_def
  CEXPR_EQ_def CEXPR_NEQ_def CEXPR_DOM_def CEXPR_DOMBY_def CEXPR_INCOMP_def

text \<open>What one expression does: push a value, leave the function with a value of \<open>rc\<close>, or read a null
  pointer.\<close>

datatype cexpr_act = Push bool | Leave int | Crash

definition rc_ENOMEM :: int where "rc_ENOMEM = - 12"
definition rc_EINVAL :: int where "rc_EINVAL = - 22"

subsection \<open>One expression\<close>

text \<open>The comparisons of roles: \<open>r1\<close> and \<open>r2\<close> are followed only by the dominance operators.\<close>

definition cexpr_role :: "policydb \<Rightarrow> u32 \<Rightarrow> u32 \<Rightarrow> u32 \<Rightarrow> cexpr_act option" where
  "cexpr_role p val1 val2 op =
     (let r1 = val_get (role_val_to_struct p) val1; r2 = val_get (role_val_to_struct p) val2 in
      if op = CEXPR_DOM then
        Some (case r1 of None \<Rightarrow> Crash | Some d \<Rightarrow> Push (ebitmap_get_bit (dominates d) (val2 - 1)))
      else if op = CEXPR_DOMBY then
        Some (case r2 of None \<Rightarrow> Crash | Some d \<Rightarrow> Push (ebitmap_get_bit (dominates d) (val1 - 1)))
      else if op = CEXPR_INCOMP then
        Some (case r1 of
                None \<Rightarrow> Crash
              | Some d1 \<Rightarrow>
                  if ebitmap_get_bit (dominates d1) (val2 - 1) then Push False
                  else (case r2 of None \<Rightarrow> Crash | Some d2 \<Rightarrow> Push (\<not> ebitmap_get_bit (dominates d2) (val1 - 1))))
      else None)"

definition cexpr_values :: "u32 \<Rightarrow> u32 \<Rightarrow> u32 \<Rightarrow> cexpr_act" where
  "cexpr_values val1 val2 op =
     (if op = CEXPR_EQ then Push (val1 = val2) else if op = CEXPR_NEQ then Push (val1 \<noteq> val2) else Leave 0)"

definition cexpr_levels :: "mls_level \<Rightarrow> mls_level \<Rightarrow> u32 \<Rightarrow> cexpr_act" where
  "cexpr_levels l1 l2 op =
     (if op = CEXPR_EQ then Push (mls_level_eq l1 l2)
      else if op = CEXPR_NEQ then Push (\<not> mls_level_eq l1 l2)
      else if op = CEXPR_DOM then Push (mls_level_dom l1 l2)
      else if op = CEXPR_DOMBY then Push (mls_level_dom l2 l1)
      else if op = CEXPR_INCOMP then Push (mls_level_incomp l2 l1)
      else Leave 0)"

definition cexpr_attr :: "policydb \<Rightarrow> context_struct \<Rightarrow> context_struct \<Rightarrow> constraint_expr \<Rightarrow> cexpr_act" where
  "cexpr_attr p scontext tcontext e =
     (let s0 = level0 (c_range scontext); s1 = level1 (c_range scontext);
          t0 = level0 (c_range tcontext); t1 = level1 (c_range tcontext)
      in if attr e = CEXPR_USER then cexpr_values (c_user scontext) (c_user tcontext) (cop e)
         else if attr e = CEXPR_TYPE then cexpr_values (c_type scontext) (c_type tcontext) (cop e)
         else if attr e = CEXPR_ROLE then
           (case cexpr_role p (c_role scontext) (c_role tcontext) (cop e) of
              Some a \<Rightarrow> a
            | None \<Rightarrow> cexpr_values (c_role scontext) (c_role tcontext) (cop e))
         else if attr e = CEXPR_L1L2 then cexpr_levels s0 t0 (cop e)
         else if attr e = CEXPR_L1H2 then cexpr_levels s0 t1 (cop e)
         else if attr e = CEXPR_H1L2 then cexpr_levels s1 t0 (cop e)
         else if attr e = CEXPR_H1H2 then cexpr_levels s1 t1 (cop e)
         else if attr e = CEXPR_L1H1 then cexpr_levels s0 s1 (cop e)
         else if attr e = CEXPR_L2H2 then cexpr_levels t0 t1 (cop e)
         else Leave 0)"

definition cexpr_names :: "context_struct \<Rightarrow> context_struct \<Rightarrow> context_struct option \<Rightarrow> constraint_expr \<Rightarrow> cexpr_act" where
  "cexpr_names scontext tcontext xcontext e =
     (let c = (if attr e AND CEXPR_TARGET \<noteq> 0 then Some tcontext
               else if attr e AND CEXPR_XTARGET \<noteq> 0 then xcontext else Some scontext)
      in case c of
           None \<Rightarrow> Leave 0
         | Some c \<Rightarrow>
             (case (if attr e AND CEXPR_USER \<noteq> 0 then Some (c_user c)
                    else if attr e AND CEXPR_ROLE \<noteq> 0 then Some (c_role c)
                    else if attr e AND CEXPR_TYPE \<noteq> 0 then Some (c_type c) else None) of
                None \<Rightarrow> Leave 0
              | Some val1 \<Rightarrow>
                  if cop e = CEXPR_EQ then Push (ebitmap_get_bit (names e) (val1 - 1))
                  else if cop e = CEXPR_NEQ then Push (\<not> ebitmap_get_bit (names e) (val1 - 1))
                  else Leave 0))"

text \<open>One round of the evaluation: the new stack, or the value of \<open>rc\<close> with which the function is
  left; a null pointer access ends the program.\<close>

definition cexpr_step :: "policydb \<Rightarrow> context_struct \<Rightarrow> context_struct \<Rightarrow> context_struct option
    \<Rightarrow> constraint_expr \<Rightarrow> int list \<Rightarrow> errno + (int + int list)" where
  "cexpr_step p scontext tcontext xcontext e s =
     (let push = (\<lambda>a. case a of Push b \<Rightarrow> Inr (Inr (of_bool b # s)) | Leave rc \<Rightarrow> Inr (Inl rc) | Crash \<Rightarrow> Inl EFAULT) in
      if expr_type e = CEXPR_NOT then
        (case s of [] \<Rightarrow> Inr (Inl rc_EINVAL) | a # r \<Rightarrow> Inr (Inr (of_bool (a = 0) # r)))
      else if expr_type e = CEXPR_AND then
        (case s of b # a # r \<Rightarrow> Inr (Inr ((a AND b) # r)) | _ \<Rightarrow> Inr (Inl rc_EINVAL))
      else if expr_type e = CEXPR_OR then
        (case s of b # a # r \<Rightarrow> Inr (Inr ((a OR b) # r)) | _ \<Rightarrow> Inr (Inl rc_EINVAL))
      else if expr_type e = CEXPR_ATTR then
        (if length s = CEXPR_MAXDEPTH then Inr (Inl 0) else push (cexpr_attr p scontext tcontext e))
      else if expr_type e = CEXPR_NAMES then
        (if length s = CEXPR_MAXDEPTH then Inr (Inl 0) else push (cexpr_names scontext tcontext xcontext e))
      else Inr (Inl 0))"

subsection \<open>The whole constraint\<close>

text \<open>An allocation whose failure ends the function with \<open>-ENOMEM\<close>.\<close>

definition calloc_rc :: "(int + unit) hp" where
  "calloc_rc h = (case malloc h of (ok, h') \<Rightarrow> (Inr (if ok then Inr () else Inl rc_ENOMEM), h'))"

definition rc_bind :: "(int + 'a) hp \<Rightarrow> ('a \<Rightarrow> (int + 'b) hp) \<Rightarrow> (int + 'b) hp" where
  "rc_bind m f = hbind m (\<lambda>r. case r of Inl rc \<Rightarrow> hret (Inl rc) | Inr x \<Rightarrow> f x)"

text \<open>The loop over the expressions: \<open>n\<close> is \<open>expr_counter\<close>, \<open>len\<close> the length of \<open>expr_list\<close>, which is
  enlarged when it is full; every expression gets a text buffer.\<close>

fun cexpr_loop :: "policydb \<Rightarrow> context_struct \<Rightarrow> context_struct \<Rightarrow> context_struct option
    \<Rightarrow> constraint_expr list \<Rightarrow> nat \<Rightarrow> nat \<Rightarrow> int list \<Rightarrow> (int + int list) hp" where
  "cexpr_loop p scontext tcontext xcontext [] n len s = hret (Inr s)"
| "cexpr_loop p scontext tcontext xcontext (e # es) n len s =
     rc_bind (if n \<ge> len then calloc_rc else hret (Inr ())) (\<lambda>_.
     rc_bind calloc_rc (\<lambda>_.
     case cexpr_step p scontext tcontext xcontext e s of
       Inl err \<Rightarrow> hfail err
     | Inr (Inl rc) \<Rightarrow> hret (Inl rc)
     | Inr (Inr s') \<Rightarrow>
         cexpr_loop p scontext tcontext xcontext es (Suc n)
           (if n \<ge> len then (if len = 0 then STACK_LEN else len * 2) else len) s'))"

text \<open>The conversion to infix notation: a buffer for the list of answers and one for each operator.\<close>

fun cexpr_answers :: "constraint_expr list \<Rightarrow> (int + unit) hp" where
  "cexpr_answers [] = hret (Inr ())"
| "cexpr_answers (e # es) =
     rc_bind (if expr_type e \<in> {CEXPR_NOT, CEXPR_AND, CEXPR_OR} then calloc_rc else hret (Inr ()))
       (\<lambda>_. cexpr_answers es)"

definition constraint_expr_eval_reason :: "policydb \<Rightarrow> context_struct \<Rightarrow> context_struct \<Rightarrow> context_struct option
    \<Rightarrow> constraint_node \<Rightarrow> int hp" where
  "constraint_expr_eval_reason p scontext tcontext xcontext constraint =
     hbind (rc_bind calloc_rc (\<lambda>_.
            rc_bind (cexpr_loop p scontext tcontext xcontext (cexpr constraint) 0 0 []) (\<lambda>s.
            rc_bind calloc_rc (\<lambda>_.
            rc_bind (cexpr_answers (cexpr constraint)) (\<lambda>_.
            hret (Inr (if s = [] then 0 else last s)))))))
       (\<lambda>r. hret (case r of Inl rc \<Rightarrow> rc | Inr v \<Rightarrow> v))"

subsection \<open>Meaning\<close>

text \<open>A constraint as a tree. The atoms are the expressions that compare attributes or names; the
  flag of a binary node tells a conjunction from a disjunction.\<close>

datatype ctree = CAtom constraint_expr | CNot ctree | CBin bool ctree ctree

definition cexpr_op :: "u32 \<Rightarrow> constraint_expr" where
  "cexpr_op t = \<lparr>expr_type = t, attr = 0, cop = 0, names = ebitmap_init, type_names = type_set_init\<rparr>"

fun crpn :: "ctree \<Rightarrow> constraint_expr list" where
  "crpn (CAtom e) = [e]"
| "crpn (CNot t) = crpn t @ [cexpr_op CEXPR_NOT]"
| "crpn (CBin c t u) = crpn t @ crpn u @ [cexpr_op (if c then CEXPR_AND else CEXPR_OR)]"

fun csem :: "(constraint_expr \<Rightarrow> bool) \<Rightarrow> ctree \<Rightarrow> bool" where
  "csem v (CAtom e) \<longleftrightarrow> v e"
| "csem v (CNot t) \<longleftrightarrow> \<not> csem v t"
| "csem v (CBin c t u) \<longleftrightarrow> (if c then csem v t \<and> csem v u else csem v t \<or> csem v u)"

fun catoms :: "ctree \<Rightarrow> constraint_expr set" where
  "catoms (CAtom e) = {e}"
| "catoms (CNot t) = catoms t"
| "catoms (CBin c t u) = catoms t \<union> catoms u"

fun cdepth :: "ctree \<Rightarrow> nat" where
  "cdepth (CAtom e) = 1"
| "cdepth (CNot t) = cdepth t"
| "cdepth (CBin c t u) = max (cdepth t) (Suc (cdepth u))"

definition atom_act :: "policydb \<Rightarrow> context_struct \<Rightarrow> context_struct \<Rightarrow> context_struct option \<Rightarrow> constraint_expr \<Rightarrow> cexpr_act" where
  "atom_act p s t x e = (if expr_type e = CEXPR_ATTR then cexpr_attr p s t e
     else if expr_type e = CEXPR_NAMES then cexpr_names s t x e else Leave 0)"

text \<open>An atom with a defined value.\<close>

definition atom_ok :: "policydb \<Rightarrow> context_struct \<Rightarrow> context_struct \<Rightarrow> context_struct option \<Rightarrow> constraint_expr \<Rightarrow> bool" where
  "atom_ok p s t x e \<longleftrightarrow> (expr_type e = CEXPR_ATTR \<or> expr_type e = CEXPR_NAMES) \<and>
     (case atom_act p s t x e of Push _ \<Rightarrow> True | _ \<Rightarrow> False)"

definition atom_val :: "policydb \<Rightarrow> context_struct \<Rightarrow> context_struct \<Rightarrow> context_struct option \<Rightarrow> constraint_expr \<Rightarrow> bool" where
  "atom_val p s t x e = (case atom_act p s t x e of Push b \<Rightarrow> b | _ \<Rightarrow> False)"

lemma cdepth_pos: "0 < cdepth t"
  by (induction t) auto

lemma step_atom:
  assumes "atom_ok p s t x e"
  shows "cexpr_step p s t x e st =
    (if length st = CEXPR_MAXDEPTH then Inr (Inl 0) else Inr (Inr (of_bool (atom_val p s t x e) # st)))"
  using assms
  by (auto simp: atom_ok_def atom_val_def atom_act_def cexpr_step_def Let_def cexpr_consts split: cexpr_act.splits)

lemma step_cop [simp]:
  "cexpr_step p s t x (cexpr_op CEXPR_NOT) (a # st) = Inr (Inr (of_bool (a = 0) # st))"
  "cexpr_step p s t x (cexpr_op CEXPR_AND) (b # a # st) = Inr (Inr ((a AND b) # st))"
  "cexpr_step p s t x (cexpr_op CEXPR_OR) (b # a # st) = Inr (Inr ((a OR b) # st))"
  by (simp_all add: cexpr_step_def cexpr_op_def cexpr_consts)

text \<open>The value loop without the allocations.\<close>

fun cexpr_pure :: "policydb \<Rightarrow> context_struct \<Rightarrow> context_struct \<Rightarrow> context_struct option
    \<Rightarrow> constraint_expr list \<Rightarrow> int list \<Rightarrow> errno + (int + int list)" where
  "cexpr_pure p s t x [] st = Inr (Inr st)"
| "cexpr_pure p s t x (e # es) st =
     (case cexpr_step p s t x e st of Inr (Inr st') \<Rightarrow> cexpr_pure p s t x es st' | r \<Rightarrow> r)"

lemma pure_crpn:
  "\<lbrakk>\<forall>e\<in>catoms ct. atom_ok p s t x e; length st \<le> CEXPR_MAXDEPTH\<rbrakk> \<Longrightarrow>
   cexpr_pure p s t x (crpn ct @ rest) st =
     (if length st + cdepth ct \<le> CEXPR_MAXDEPTH
      then cexpr_pure p s t x rest (of_bool (csem (atom_val p s t x) ct) # st) else Inr (Inl 0))"
proof (induction ct arbitrary: st rest)
  case (CAtom e)
  then show ?case by (simp add: step_atom)
next
  case (CNot ct)
  then show ?case by simp
next
  case (CBin c c1 c2)
  have IH1: "cexpr_pure p s t x (crpn c1 @ r) st = (if length st + cdepth c1 \<le> CEXPR_MAXDEPTH
      then cexpr_pure p s t x r (of_bool (csem (atom_val p s t x) c1) # st) else Inr (Inl 0))" for r
    using CBin by simp
  show ?case
  proof (cases "length st + cdepth c1 \<le> CEXPR_MAXDEPTH")
    case True
    moreover have "length st < CEXPR_MAXDEPTH" using True cdepth_pos [of c1] by linarith
    moreover have "length st + cdepth (CBin c c1 c2) \<le> CEXPR_MAXDEPTH \<longleftrightarrow> Suc (length st + cdepth c2) \<le> CEXPR_MAXDEPTH"
      using True by (simp add: nat_add_max_right)
    ultimately show ?thesis using IH1 CBin.IH(2) CBin.prems by (cases c) simp_all
  next
    case False
    then have "\<not> length st + cdepth (CBin c c1 c2) \<le> CEXPR_MAXDEPTH" by (simp add: nat_add_max_right)
    with False show ?thesis using IH1 by (simp del: cdepth.simps)
  qed
qed

subsection \<open>Memory\<close>

text \<open>The value of a constraint when memory lasts.\<close>

definition cexpr_value :: "policydb \<Rightarrow> context_struct \<Rightarrow> context_struct \<Rightarrow> context_struct option \<Rightarrow> constraint_expr list \<Rightarrow> errno + int" where
  "cexpr_value p s t x es =
     (case cexpr_pure p s t x es [] of
        Inl e \<Rightarrow> Inl e | Inr (Inl rc) \<Rightarrow> Inr rc | Inr (Inr st) \<Rightarrow> Inr (if st = [] then 0 else last st))"

lemma calloc_ok: "mem_ok h \<Longrightarrow> \<exists>h'. calloc_rc h = (Inr (Inr ()), h') \<and> mem_ok h'"
  using malloc_mem_ok [of h] by (auto simp: calloc_rc_def)

lemma calloc_cases: "(\<exists>h'. calloc_rc h = (Inr (Inr ()), h')) \<or> (\<exists>h'. calloc_rc h = (Inr (Inl rc_ENOMEM), h')) \<and> \<not> mem_ok h"
  using malloc_fail_not_ok [of h "snd (malloc h)"] by (cases "malloc h"; cases "fst (malloc h)") (simp_all add: calloc_rc_def)

lemma rc_bind_apply:
  "rc_bind m f h = (case m h of (Inl e, h') \<Rightarrow> (Inl e, h') | (Inr (Inl rc), h') \<Rightarrow> (Inr (Inl rc), h') | (Inr (Inr x), h') \<Rightarrow> f x h')"
  by (simp add: rc_bind_def hbind_def hret_def split: prod.splits sum.splits)

text \<open>\<open>rc_runs m r\<close>: with memory \<open>m\<close> gives \<open>r\<close>; without, \<open>r\<close> or \<open>-ENOMEM\<close>.\<close>

definition rc_runs :: "(int + 'a) hp \<Rightarrow> errno + (int + 'a) \<Rightarrow> bool" where
  "rc_runs m r \<longleftrightarrow> (\<forall>h. \<exists>h'. (mem_ok h \<longrightarrow> mem_ok h') \<and> (m h = (r, h') \<or> m h = (Inr (Inl rc_ENOMEM), h') \<and> \<not> mem_ok h))"

lemma rc_runs_hret: "rc_runs (hret r) (Inr r)"
  by (auto simp: rc_runs_def hret_def)

lemma rc_runs_hfail: "rc_runs (hfail e) (Inl e)"
  by (auto simp: rc_runs_def hfail_def)

lemma rc_runs_calloc: "rc_runs calloc_rc (Inr (Inr ()))"
  unfolding rc_runs_def using calloc_ok calloc_cases by metis

lemma rc_runs_bind:
  assumes m: "rc_runs m r" and f: "\<And>x. r = Inr (Inr x) \<Longrightarrow> rc_runs (f x) r'"
    and other: "\<And>e. r = Inl e \<Longrightarrow> r' = Inl e" "\<And>rc. r = Inr (Inl rc) \<Longrightarrow> r' = Inr (Inl rc)"
  shows "rc_runs (rc_bind m f) r'"
  unfolding rc_runs_def
proof
  fix h
  obtain h' where h': "mem_ok h \<longrightarrow> mem_ok h'" "m h = (r, h') \<or> m h = (Inr (Inl rc_ENOMEM), h') \<and> \<not> mem_ok h"
    using m unfolding rc_runs_def by blast
  show "\<exists>h'. (mem_ok h \<longrightarrow> mem_ok h') \<and> (rc_bind m f h = (r', h') \<or> rc_bind m f h = (Inr (Inl rc_ENOMEM), h') \<and> \<not> mem_ok h)"
  proof (cases "m h = (r, h')")
    case False
    then show ?thesis using h' by (auto simp: rc_bind_apply)
  next
    case True
    then show ?thesis
    proof (cases "\<exists>x. r = Inr (Inr x)")
      case True
      then obtain x where r: "r = Inr (Inr x)" by blast
      obtain h'' where "mem_ok h' \<longrightarrow> mem_ok h''" "f x h' = (r', h'') \<or> f x h' = (Inr (Inl rc_ENOMEM), h'') \<and> \<not> mem_ok h'"
        using f [OF r] unfolding rc_runs_def by blast
      then show ?thesis using \<open>m h = (r, h')\<close> r h'(1) by (auto simp: rc_bind_apply)
    next
      case False
      then show ?thesis using \<open>m h = (r, h')\<close> h'(1) other by (cases r) (auto simp: rc_bind_apply split: sum.splits)
    qed
  qed
qed

lemma rc_runs_seq: "\<lbrakk>rc_runs m (Inr (Inr x)); rc_runs (f x) r\<rbrakk> \<Longrightarrow> rc_runs (rc_bind m f) r"
  by (rule rc_runs_bind) auto

lemma rc_runs_maybe: "rc_runs (if b then calloc_rc else hret (Inr ())) (Inr (Inr ()))"
  using rc_runs_calloc rc_runs_hret by auto

lemma loop_runs: "rc_runs (cexpr_loop p s t x es n len st) (cexpr_pure p s t x es st)"
proof (induction es arbitrary: n len st)
  case Nil
  then show ?case by (simp add: rc_runs_hret)
next
  case (Cons e es)
  have "rc_runs (case cexpr_step p s t x e st of
       Inl err \<Rightarrow> hfail err
     | Inr (Inl rc) \<Rightarrow> hret (Inl rc)
     | Inr (Inr s') \<Rightarrow> cexpr_loop p s t x es (Suc n) (if n \<ge> len then (if len = 0 then STACK_LEN else len * 2) else len) s')
     (cexpr_pure p s t x (e # es) st)"
    using Cons.IH by (auto simp: rc_runs_hret rc_runs_hfail split: sum.splits)
  then show ?case
    unfolding cexpr_loop.simps by (intro rc_runs_seq [OF rc_runs_maybe] rc_runs_seq [OF rc_runs_calloc])
qed

lemma answers_run: "rc_runs (cexpr_answers es) (Inr (Inr ()))"
proof (induction es)
  case (Cons e es)
  then show ?case unfolding cexpr_answers.simps by (intro rc_runs_seq [OF rc_runs_maybe])
qed (simp add: rc_runs_hret)

lemma eval_reason_runs:
  "\<exists>h'. (mem_ok h \<longrightarrow> mem_ok h') \<and>
     (constraint_expr_eval_reason p s t x con h = (cexpr_value p s t x (cexpr con), h') \<or>
      constraint_expr_eval_reason p s t x con h = (Inr rc_ENOMEM, h') \<and> \<not> mem_ok h)"
proof -
  let ?m = "rc_bind calloc_rc (\<lambda>_. rc_bind (cexpr_loop p s t x (cexpr con) 0 0 []) (\<lambda>st.
      rc_bind calloc_rc (\<lambda>_. rc_bind (cexpr_answers (cexpr con)) (\<lambda>_. hret (Inr (if st = [] then 0 else last st))))))"
  let ?r = "case cexpr_pure p s t x (cexpr con) [] of
      Inl e \<Rightarrow> Inl e | Inr (Inl rc) \<Rightarrow> Inr (Inl rc) | Inr (Inr st) \<Rightarrow> Inr (Inr (if st = [] then 0 else last st))"
  have "rc_runs (rc_bind (cexpr_loop p s t x (cexpr con) 0 0 []) (\<lambda>st.
      rc_bind calloc_rc (\<lambda>_. rc_bind (cexpr_answers (cexpr con)) (\<lambda>_. hret (Inr (if st = [] then 0 else last st)))))) ?r"
    by (rule rc_runs_bind [OF loop_runs])
      (simp_all only: sum.case, intro rc_runs_seq [OF rc_runs_calloc] rc_runs_seq [OF answers_run] rc_runs_hret)
  then have "rc_runs ?m ?r" by (rule rc_runs_seq [OF rc_runs_calloc])
  then obtain h' where h': "mem_ok h \<longrightarrow> mem_ok h'" "?m h = (?r, h') \<or> ?m h = (Inr (Inl rc_ENOMEM), h') \<and> \<not> mem_ok h"
    unfolding rc_runs_def by blast
  show ?thesis
  proof (intro exI [of _ h'] conjI h'(1))
    show "constraint_expr_eval_reason p s t x con h = (cexpr_value p s t x (cexpr con), h') \<or>
        constraint_expr_eval_reason p s t x con h = (Inr rc_ENOMEM, h') \<and> \<not> mem_ok h"
      using h'(2) unfolding constraint_expr_eval_reason_def cexpr_value_def
      by (auto simp: hbind_def hret_def split: sum.splits)
  qed
qed

end
