(* ===== verification/Services.thy ===== *)
theory Services
  imports Constraint Conditional Security_Context Sidtab
begin

section \<open>The security server\<close>

text \<open>
  The access decisions of libsepol/src/services.c: access vectors with constraints, role
  allow rules and type bounds, validation of transitions, the contexts of new objects, the
  conversions of names, and the switch to a new policy. The static variables of the file are
  the record \<open>services\<close>. A context in use has a type of the policy; the access to an array
  outside its bounds, undefined in C, counts as a null pointer access. Messages and the
  reason buffer are not modelled.
\<close>

record services =
  sv_policydb :: policydb
  sv_sidtab :: sidtab
  latest_granting :: u32

text \<open>\<open>static int selinux_enforcing = 1\<close>, which no function of the file changes.\<close>

definition selinux_enforcing :: bool where "selinux_enforcing = True"

definition SEPOL_COMPUTEAV_TE :: u32 where "SEPOL_COMPUTEAV_TE = 1"
definition SEPOL_COMPUTEAV_CONS :: u32 where "SEPOL_COMPUTEAV_CONS = 2"
definition SEPOL_COMPUTEAV_RBAC :: u32 where "SEPOL_COMPUTEAV_RBAC = 4"
definition SEPOL_COMPUTEAV_BOUNDS :: u32 where "SEPOL_COMPUTEAV_BOUNDS = 8"

definition sepol_set_sidtab :: "services \<Rightarrow> sidtab \<Rightarrow> services" where
  "sepol_set_sidtab sv s = sv\<lparr>sv_sidtab := s\<rparr>"

definition sepol_set_policydb :: "services \<Rightarrow> policydb \<Rightarrow> services" where
  "sepol_set_policydb sv p = sv\<lparr>sv_policydb := p\<rparr>"

subsection \<open>Access vectors\<close>

definition attr_map_get :: "policydb \<Rightarrow> u32 \<Rightarrow> ebitmap option" where
  \<comment> \<open>\<open>&policydb->type_attr_map[v - 1]\<close>\<close>
  "attr_map_get p v = (if unat (v - 1) < length (type_attr_map p) then Some (type_attr_map p ! unat (v - 1)) else None)"

definition te_av_step :: "av_decision \<Rightarrow> avtab_node \<Rightarrow> av_decision" where
  "te_av_step avd n =
     (let sp = specified (akey n); d = data (adatum n) in
      if sp = AVTAB_ALLOWED then avd\<lparr>allowed := allowed avd OR d\<rparr>
      else if sp = AVTAB_AUDITALLOW then avd\<lparr>auditallow := auditallow avd OR d\<rparr>
      else if sp = AVTAB_AUDITDENY then avd\<lparr>auditdeny := auditdeny avd AND d\<rparr>
      else avd)"

definition av_key :: "u16 \<Rightarrow> u32 \<Rightarrow> u32 \<Rightarrow> avtab_key" where
  "av_key tclass i j = \<lparr>source_type = ucast (i + 1), target_type = ucast (j + 1), target_class = tclass, specified = AVTAB_AV\<rparr>"

text \<open>The body of the two loops over the attributes of the types.\<close>

definition av_pair :: "policydb \<Rightarrow> u16 \<Rightarrow> u32 \<Rightarrow> av_decision \<Rightarrow> u32 \<Rightarrow> av_decision" where
  "av_pair p tclass i avd j =
     cond_compute_av (te_cond_avtab p) (av_key tclass i j)
       (foldl te_av_step avd (avtab_visit (te_avtab p) (av_key tclass i j)))"

definition te_decision :: "policydb \<Rightarrow> u16 \<Rightarrow> ebitmap \<Rightarrow> ebitmap \<Rightarrow> av_decision \<Rightarrow> av_decision" where
  "te_decision p tclass sattr tattr avd =
     foldl (\<lambda>avd i. foldl (av_pair p tclass i) avd (ebitmap_positive_bits tattr)) avd (ebitmap_positive_bits sattr)"

fun av_constraints :: "policydb \<Rightarrow> context_struct \<Rightarrow> context_struct \<Rightarrow> constraint_node list \<Rightarrow> u32 \<Rightarrow> u32 hp" where
  "av_constraints p scontext tcontext [] al = hret al"
| "av_constraints p scontext tcontext (con # cons) al =
     (if cpermissions con AND al \<noteq> 0
      then hbind (constraint_expr_eval_reason p scontext tcontext None con) (\<lambda>rc.
             av_constraints p scontext tcontext cons (if rc = 0 then al AND NOT (cpermissions con) else al))
      else av_constraints p scontext tcontext cons al)"

definition role_allowed :: "policydb \<Rightarrow> u32 \<Rightarrow> u32 \<Rightarrow> bool" where
  "role_allowed p r1 r2 \<longleftrightarrow> list_ex (\<lambda>ra. r1 = ra_role ra \<and> r2 = ra_new_role ra) (role_allows p)"

definition av_rbac :: "policydb \<Rightarrow> context_struct \<Rightarrow> context_struct \<Rightarrow> u16 \<Rightarrow> u32 \<Rightarrow> u32" where
  "av_rbac p scontext tcontext tclass al =
     (if tclass = process_class p \<and> al AND process_trans_dyntrans p \<noteq> 0 \<and> c_role scontext \<noteq> c_role tcontext \<and>
         \<not> role_allowed p (c_role scontext) (c_role tcontext)
      then al AND NOT (process_trans_dyntrans p) else al)"

text \<open>\<open>if (requested & ~avd->allowed) { if (reason) *reason |= flag; requested &= avd->allowed; }\<close>\<close>

definition note_reason :: "u32 \<Rightarrow> u32 \<Rightarrow> u32 \<times> u32 option \<Rightarrow> u32 \<times> u32 option" where
  "note_reason flag al rq =
     (case rq of (requested, reason) \<Rightarrow>
        if requested AND NOT al \<noteq> 0 then (requested AND al, map_option (\<lambda>r. r OR flag) reason) else rq)"

text \<open>\<open>context_struct_compute_av\<close> up to the call for the bounds: the decision, with the permissions
  still requested and the reason, if the caller wants one.\<close>

definition compute_av_direct :: "policydb \<Rightarrow> u32 \<Rightarrow> context_struct \<Rightarrow> context_struct \<Rightarrow> u16 \<Rightarrow> u32 \<Rightarrow> bool
    \<Rightarrow> (av_decision \<times> u32 \<times> u32 option) hp" where
  "compute_av_direct p seq scontext tcontext tclass requested want =
     (if \<not> value_ok (p_classes p) (ucast tclass) then hfail EINVAL
      else
        (case (val_get (class_val_to_struct p) (ucast tclass), attr_map_get p (c_type scontext), attr_map_get p (c_type tcontext)) of
           (Some tclass_datum, Some sattr, Some tattr) \<Rightarrow>
             (let avd = te_decision p tclass sattr tattr
                    \<lparr>allowed = 0, decided = 0xFFFFFFFF, auditallow = 0, auditdeny = 0xFFFFFFFF, seqno = seq\<rparr>;
                  rq = note_reason SEPOL_COMPUTEAV_TE (allowed avd) (requested, if want then Some 0 else None)
              in hbind (av_constraints p scontext tcontext (constraints tclass_datum) (allowed avd)) (\<lambda>al.
                 (let rq = note_reason SEPOL_COMPUTEAV_CONS al rq;
                      al' = av_rbac p scontext tcontext tclass al;
                      rq = note_reason SEPOL_COMPUTEAV_RBAC al' rq
                  in hret (avd\<lparr>allowed := al'\<rparr>, rq))))
         | _ \<Rightarrow> hfail EFAULT))"

text \<open>The contexts whose decision bounds this one: none if the source type has no bound.\<close>

definition bounding_contexts :: "policydb \<Rightarrow> context_struct \<Rightarrow> context_struct \<Rightarrow> errno + (context_struct \<times> context_struct) option" where
  "bounding_contexts p scontext tcontext =
     (case val_get (type_val_to_struct p) (c_type scontext) of
        None \<Rightarrow> Inl EFAULT
      | Some source \<Rightarrow>
          if type_bounds source = 0 then Inr None
          else
            (case val_get (type_val_to_struct p) (c_type tcontext) of
               None \<Rightarrow> Inl EFAULT
             | Some target \<Rightarrow>
                 Inr (Some (scontext\<lparr>c_type := type_bounds source\<rparr>,
                   if type_bounds target \<noteq> 0 then tcontext\<lparr>c_type := type_bounds target\<rparr> else tcontext))))"

text \<open>\<open>masked = ~lo_avd.allowed & avd->allowed\<close> is taken away.\<close>

definition mask_bounds :: "u32 \<Rightarrow> av_decision \<Rightarrow> u32 option \<Rightarrow> av_decision \<times> u32 option" where
  "mask_bounds lo_allowed avd reason =
     (let masked = NOT lo_allowed AND allowed avd in
      if masked = 0 then (avd, reason)
      else (avd\<lparr>allowed := allowed avd AND NOT masked\<rparr>, map_option (\<lambda>r. r OR SEPOL_COMPUTEAV_BOUNDS) reason))"

text \<open>The whole function with \<open>type_attribute_bounds_av\<close>, which calls it again; not returning is
  \<open>None\<close>. The caller for the bounds starts from a zero decision and ignores an error return.\<close>

partial_function (option) context_struct_compute_av ::
  "policydb \<Rightarrow> u32 \<Rightarrow> context_struct \<Rightarrow> context_struct \<Rightarrow> u16 \<Rightarrow> u32 \<Rightarrow> bool \<Rightarrow> heap
   \<Rightarrow> ((errno + av_decision \<times> u32 option) \<times> heap) option" where
  "context_struct_compute_av p seq scontext tcontext tclass requested want h =
     (case compute_av_direct p seq scontext tcontext tclass requested want h of
        (Inl e, h1) \<Rightarrow> Some (Inl e, h1)
      | (Inr (avd, requested', reason), h1) \<Rightarrow>
          (case bounding_contexts p scontext tcontext of
             Inl e \<Rightarrow> Some (Inl e, h1)
           | Inr None \<Rightarrow> Some (Inr (avd, reason), h1)
           | Inr (Some (lo_scontext, lo_tcontext)) \<Rightarrow>
               Option.bind (context_struct_compute_av p seq lo_scontext lo_tcontext tclass requested' False h1) (\<lambda>(r, h2).
               Some (case r of
                       Inl e \<Rightarrow> if e = EFAULT then Inl EFAULT else Inr (mask_bounds 0 avd reason)
                     | Inr (lo_avd, _) \<Rightarrow> Inr (mask_bounds (allowed lo_avd) avd reason), h2))))"

definition sepol_compute_av_reason :: "services \<Rightarrow> u32 \<Rightarrow> u32 \<Rightarrow> u16 \<Rightarrow> u32 \<Rightarrow> heap
    \<Rightarrow> ((errno + av_decision \<times> u32 option) \<times> heap) option" where
  "sepol_compute_av_reason sv ssid tsid tclass requested h =
     (case sepol_sidtab_search (sv_sidtab sv) ssid of
        None \<Rightarrow> Some (Inl EINVAL, h)
      | Some scontext \<Rightarrow>
          (case sepol_sidtab_search (sv_sidtab sv) tsid of
             None \<Rightarrow> Some (Inl EINVAL, h)
           | Some tcontext \<Rightarrow>
               context_struct_compute_av (sv_policydb sv) (latest_granting sv) scontext tcontext tclass requested True h))"

definition sepol_compute_av :: "services \<Rightarrow> u32 \<Rightarrow> u32 \<Rightarrow> u16 \<Rightarrow> u32 \<Rightarrow> heap \<Rightarrow> ((errno + av_decision) \<times> heap) option" where
  "sepol_compute_av sv ssid tsid tclass requested h =
     map_option (\<lambda>(r, h'). (map_sum id fst r, h')) (sepol_compute_av_reason sv ssid tsid tclass requested h)"

subsection \<open>Validation of transitions\<close>

fun vt_loop :: "policydb \<Rightarrow> context_struct \<Rightarrow> context_struct \<Rightarrow> context_struct \<Rightarrow> constraint_node list \<Rightarrow> unit hp" where
  "vt_loop p ocon ncon tcon [] = hret ()"
| "vt_loop p ocon ncon tcon (con # cons) =
     hbind (constraint_expr_eval_reason p ocon ncon (Some tcon) con) (\<lambda>rc.
       if rc = 0 then hfail EPERM else vt_loop p ocon ncon tcon cons)"

definition sepol_validate_transition_reason_buffer :: "services \<Rightarrow> u32 \<Rightarrow> u32 \<Rightarrow> u32 \<Rightarrow> u16 \<Rightarrow> unit hp" where
  "sepol_validate_transition_reason_buffer sv oldsid newsid tasksid tclass =
     (if \<not> value_ok (p_classes (sv_policydb sv)) (ucast tclass) then hfail EINVAL
      else
        (case sepol_sidtab_search (sv_sidtab sv) oldsid of
           None \<Rightarrow> hfail EINVAL
         | Some ocon \<Rightarrow>
             (case sepol_sidtab_search (sv_sidtab sv) newsid of
                None \<Rightarrow> hfail EINVAL
              | Some ncon \<Rightarrow>
                  (case sepol_sidtab_search (sv_sidtab sv) tasksid of
                     None \<Rightarrow> hfail EINVAL
                   | Some tcon \<Rightarrow>
                       (case val_get (class_val_to_struct (sv_policydb sv)) (ucast tclass) of
                          None \<Rightarrow> hfail EFAULT
                        | Some tclass_datum \<Rightarrow> vt_loop (sv_policydb sv) ocon ncon tcon (validatetrans tclass_datum))))))"

subsection \<open>Names\<close>

definition sepol_string_to_security_class :: "policydb \<Rightarrow> cstring \<Rightarrow> errno + u16" where
  "sepol_string_to_security_class p class_name =
     (case hashtab_search (table (p_classes p)) class_name of
        None \<Rightarrow> Inl EFAIL | Some d \<Rightarrow> Inr (ucast (class_value d)))"

definition sepol_string_to_av_perm :: "policydb \<Rightarrow> u16 \<Rightarrow> cstring \<Rightarrow> errno + u32" where
  "sepol_string_to_av_perm p tclass perm_name =
     (if \<not> value_ok (p_classes p) (ucast tclass) then Inl EINVAL
      else
        (case val_get (class_val_to_struct p) (ucast tclass) of
           None \<Rightarrow> Inl EFAULT
         | Some tclass_datum \<Rightarrow>
             (case hashtab_search (table (permissions tclass_datum)) perm_name of
                Some d \<Rightarrow> Inr (push_bit (unat (perm_value d - 1)) 1)
              | None \<Rightarrow>
                  (case comdatum tclass_datum of
                     None \<Rightarrow> Inl EFAIL
                   | Some com \<Rightarrow>
                       (case hashtab_search (table (common_permissions com)) perm_name of
                          Some d \<Rightarrow> Inr (push_bit (unat (perm_value d - 1)) 1)
                        | None \<Rightarrow> Inl EFAIL)))))"

definition sepol_sid_to_context :: "services \<Rightarrow> u32 \<Rightarrow> (cstring \<times> nat) hp" where
  "sepol_sid_to_context sv sid =
     (case sepol_sidtab_search (sv_sidtab sv) sid of
        None \<Rightarrow> hfail EINVAL | Some c \<Rightarrow> context_to_string (sv_policydb sv) c)"

text \<open>\<open>want\<close>: the caller passes a pointer for the identifier.\<close>

definition sepol_context_to_sid :: "services \<Rightarrow> u8 list \<Rightarrow> bool \<Rightarrow> heap \<Rightarrow> (errno + u32 option) \<times> services \<times> heap" where
  "sepol_context_to_sid sv str want h =
     (case context_from_string (sv_policydb sv) str h of
        (Inl e, h1) \<Rightarrow> (Inl (if e = EFAULT then EFAULT else EFAIL), sv, h1)
      | (Inr c, h1) \<Rightarrow>
          if \<not> want then (Inr None, sv, h1)
          else (case sepol_sidtab_context_to_sid (sv_sidtab sv) c h1 of
                  (Inl e, st, h2) \<Rightarrow> (Inl EFAIL, sv\<lparr>sv_sidtab := st\<rparr>, h2)
                | (Inr sid, st, h2) \<Rightarrow> (Inr (Some sid), sv\<lparr>sv_sidtab := st\<rparr>, h2)))"

subsection \<open>Contexts of new objects\<close>

definition compute_sid_handle_invalid_context :: "errno + unit" where
  "compute_sid_handle_invalid_context = (if selinux_enforcing then Inl EACCES else Inr ())"

definition default_context :: "policydb \<Rightarrow> class_datum option \<Rightarrow> context_struct \<Rightarrow> context_struct \<Rightarrow> u16 \<Rightarrow> u32 \<Rightarrow> context_struct" where
  \<comment> \<open>the user, role and type before the rules\<close>
  "default_context p cladatum scontext tcontext tclass spec =
     (let user = (if spec = ucast AVTAB_TRANSITION \<or> spec = ucast AVTAB_CHANGE then
                    (case cladatum of
                       Some d \<Rightarrow> if default_user d = DEFAULT_TARGET then c_user tcontext else c_user scontext
                     | None \<Rightarrow> c_user scontext)
                  else if spec = ucast AVTAB_MEMBER then c_user tcontext else 0);
          dr = (case cladatum of Some d \<Rightarrow> default_role d | None \<Rightarrow> 0);
          dt = (case cladatum of Some d \<Rightarrow> default_type d | None \<Rightarrow> 0);
          role = (if dr = DEFAULT_SOURCE then c_role scontext
                  else if dr = DEFAULT_TARGET then c_role tcontext
                  else if tclass = process_class p then c_role scontext else OBJECT_R_VAL);
          type = (if dt = DEFAULT_SOURCE then c_type scontext
                  else if dt = DEFAULT_TARGET then c_type tcontext
                  else if tclass = process_class p then c_type scontext else c_type tcontext)
      in context_init\<lparr>c_user := user, c_role := role, c_type := type\<rparr>)"

text \<open>The type rule: a permanent one, or else the first enabled conditional one.\<close>

definition type_rule :: "policydb \<Rightarrow> context_struct \<Rightarrow> context_struct \<Rightarrow> u16 \<Rightarrow> u32 \<Rightarrow> avtab_datum option" where
  "type_rule p scontext tcontext tclass spec =
     (let avkey = \<lparr>source_type = ucast (c_type scontext), target_type = ucast (c_type tcontext), target_class = tclass,
                   specified = ucast spec\<rparr>
      in case avtab_search (te_avtab p) avkey of
           Some d \<Rightarrow> Some d
         | None \<Rightarrow> map_option adatum (find (\<lambda>n. specified (akey n) AND AVTAB_ENABLED \<noteq> 0) (avtab_visit (te_cond_avtab p) avkey)))"

definition role_rule :: "policydb \<Rightarrow> context_struct \<Rightarrow> context_struct \<Rightarrow> u16 \<Rightarrow> u32 option" where
  "role_rule p scontext tcontext tclass =
     map_option rt_new_role (find (\<lambda>r. rt_role r = c_role scontext \<and> rt_type r = c_type tcontext \<and> rt_tclass r = ucast tclass) (role_tr p))"

definition new_context :: "policydb \<Rightarrow> context_struct \<Rightarrow> context_struct \<Rightarrow> u16 \<Rightarrow> u32 \<Rightarrow> context_struct" where
  \<comment> \<open>the user, role and type of the new context\<close>
  "new_context p scontext tcontext tclass spec =
     (let cladatum = (if value_ok (p_classes p) (ucast tclass) then val_get (class_val_to_struct p) (ucast tclass) else None);
          c = default_context p cladatum scontext tcontext tclass spec;
          c = (case type_rule p scontext tcontext tclass spec of Some d \<Rightarrow> c\<lparr>c_type := data d\<rparr> | None \<Rightarrow> c)
      in if spec AND ucast AVTAB_TRANSITION \<noteq> 0
         then (case role_rule p scontext tcontext tclass of Some r \<Rightarrow> c\<lparr>c_role := r\<rparr> | None \<Rightarrow> c)
         else c)"

definition sepol_compute_sid :: "services \<Rightarrow> u32 \<Rightarrow> u32 \<Rightarrow> u16 \<Rightarrow> u32 \<Rightarrow> heap \<Rightarrow> (errno + u32) \<times> services \<times> heap" where
  "sepol_compute_sid sv ssid tsid tclass spec h =
     (let p = sv_policydb sv in
      case sepol_sidtab_search (sv_sidtab sv) ssid of
        None \<Rightarrow> (Inl EINVAL, sv, h)
      | Some scontext \<Rightarrow>
          (case sepol_sidtab_search (sv_sidtab sv) tsid of
             None \<Rightarrow> (Inl EINVAL, sv, h)
           | Some tcontext \<Rightarrow>
               (case mls_compute_sid p scontext tcontext tclass spec (new_context p scontext tcontext tclass spec) h of
                  (Inl e, h1) \<Rightarrow> (Inl e, sv, h1)
                | (Inr c, h1) \<Rightarrow>
                    (case (if policydb_context_isvalid p c then Inr () else compute_sid_handle_invalid_context) of
                       Inl e \<Rightarrow> (Inl e, sv, h1)
                     | Inr _ \<Rightarrow>
                         (case sepol_sidtab_context_to_sid (sv_sidtab sv) c h1 of
                            (r, st, h2) \<Rightarrow> (r, sv\<lparr>sv_sidtab := st\<rparr>, h2))))))"

definition sepol_transition_sid :: "services \<Rightarrow> u32 \<Rightarrow> u32 \<Rightarrow> u16 \<Rightarrow> heap \<Rightarrow> (errno + u32) \<times> services \<times> heap" where
  "sepol_transition_sid sv ssid tsid tclass = sepol_compute_sid sv ssid tsid tclass (ucast AVTAB_TRANSITION)"

definition sepol_member_sid :: "services \<Rightarrow> u32 \<Rightarrow> u32 \<Rightarrow> u16 \<Rightarrow> heap \<Rightarrow> (errno + u32) \<times> services \<times> heap" where
  "sepol_member_sid sv ssid tsid tclass = sepol_compute_sid sv ssid tsid tclass (ucast AVTAB_MEMBER)"

definition sepol_change_sid :: "services \<Rightarrow> u32 \<Rightarrow> u32 \<Rightarrow> u16 \<Rightarrow> heap \<Rightarrow> (errno + u32) \<times> services \<times> heap" where
  "sepol_change_sid sv ssid tsid tclass = sepol_compute_sid sv ssid tsid tclass (ucast AVTAB_CHANGE)"

end
