(* ===== verification/Services_Laws.thy ===== *)
theory Services_Laws
  imports Services Conditional_Laws
begin

section \<open>The security server: correctness\<close>

text \<open>
  A permission is granted exactly if a rule between attributes of the two types grants it, the
  constraints that cover it hold, the change of role is allowed, and the types that bound
  source and target have it too. The computation ends if the bounds have no cycle, and only
  then.
\<close>

subsection \<open>Type enforcement\<close>

lemma foldl_allowed:
  assumes "\<And>avd n. allowed (f avd n) = allowed avd OR g n"
  shows "bit (allowed (foldl f avd ns)) b \<longleftrightarrow> bit (allowed avd) b \<or> (\<exists>n\<in>set ns. bit (g n) b)"
  by (induction ns arbitrary: avd) (auto simp: assms bit_or_iff)

definition te_grant :: "avtab_node \<Rightarrow> u32" where
  "te_grant n = (if specified (akey n) = AVTAB_ALLOWED then data (adatum n) else 0)"

definition cond_grant :: "avtab_node \<Rightarrow> u32" where
  "cond_grant n = (if specified (akey n) AND (AVTAB_ALLOWED OR AVTAB_ENABLED) = AVTAB_ALLOWED OR AVTAB_ENABLED
     then data (adatum n) else 0)"

lemma te_av_step_allowed: "allowed (te_av_step avd n) = allowed avd OR te_grant n"
  by (simp add: te_av_step_def te_grant_def Let_def)

lemma cond_av_step_allowed: "allowed (cond_av_step avd n) = allowed avd OR cond_grant n"
  by (simp add: cond_av_step_def cond_grant_def Let_def)

text \<open>The rules between two types of attributes, in the whole tables.\<close>

definition pair_grants :: "policydb \<Rightarrow> u16 \<Rightarrow> nat \<Rightarrow> u32 \<Rightarrow> u32 \<Rightarrow> bool" where
  "pair_grants p tclass b i j \<longleftrightarrow>
     (\<exists>n\<in>set (avtab_nodes (te_avtab p)). key_same (av_key tclass i j) (akey n) \<and>
        specified (akey n) = AVTAB_ALLOWED \<and> bit (data (adatum n)) b) \<or>
     (\<exists>n\<in>set (avtab_nodes (te_cond_avtab p)). key_same (av_key tclass i j) (akey n) \<and>
        specified (akey n) AND (AVTAB_ALLOWED OR AVTAB_ENABLED) = AVTAB_ALLOWED OR AVTAB_ENABLED \<and> bit (data (adatum n)) b)"

definition tables_ok :: "policydb \<Rightarrow> bool" where
  "tables_ok p \<longleftrightarrow> avtab_ok (te_avtab p) \<and> avtab_ok (te_cond_avtab p)"

lemma AV_mask: "spec_mask AVTAB_AV = AVTAB_AV"
  by (simp add: spec_mask_def AVTAB_AV_def AVTAB_ENABLED_def)

lemma AV_and_allowed: "AVTAB_AV AND AVTAB_ALLOWED \<noteq> 0"
  by (simp add: AVTAB_AV_def AVTAB_ALLOWED_def)

lemma AV_and_cond:
  assumes "sp AND (AVTAB_ALLOWED OR AVTAB_ENABLED) = AVTAB_ALLOWED OR AVTAB_ENABLED"
  shows "AVTAB_AV AND sp \<noteq> 0"
proof -
  have e: "AVTAB_AV = 7" "AVTAB_ALLOWED OR AVTAB_ENABLED = 0x8001" by (simp_all add: AVTAB_AV_def AVTAB_ALLOWED_def AVTAB_ENABLED_def)
  have "bit (AVTAB_ALLOWED OR AVTAB_ENABLED) 0" unfolding e by simp
  then have "bit sp 0" using assms by (metis bit_and_iff)
  then have "bit (AVTAB_AV AND sp) 0" unfolding e bit_and_iff by simp
  then show ?thesis by auto
qed

lemma av_pair_allowed:
  assumes "tables_ok p"
  shows "bit (allowed (av_pair p tclass i avd j)) b \<longleftrightarrow> bit (allowed avd) b \<or> pair_grants p tclass b i j"
proof -
  have v: "avtab_visit (te_avtab p) (av_key tclass i j) = filter (node_match (av_key tclass i j) AVTAB_AV) (avtab_nodes (te_avtab p))"
      "avtab_visit (te_cond_avtab p) (av_key tclass i j) = filter (node_match (av_key tclass i j) AVTAB_AV) (avtab_nodes (te_cond_avtab p))"
    using assms by (simp_all add: tables_ok_def avtab_visit_spec av_key_def AV_mask)
  have 1: "(\<exists>n\<in>set (avtab_visit (te_avtab p) (av_key tclass i j)). bit (te_grant n) b) \<longleftrightarrow>
      (\<exists>n\<in>set (avtab_nodes (te_avtab p)). key_same (av_key tclass i j) (akey n) \<and> specified (akey n) = AVTAB_ALLOWED \<and> bit (data (adatum n)) b)"
    unfolding v using AV_and_allowed by (auto simp: te_grant_def node_match_def split: if_splits)
  have 2: "(\<exists>n\<in>set (avtab_visit (te_cond_avtab p) (av_key tclass i j)). bit (cond_grant n) b) \<longleftrightarrow>
      (\<exists>n\<in>set (avtab_nodes (te_cond_avtab p)). key_same (av_key tclass i j) (akey n) \<and>
        specified (akey n) AND (AVTAB_ALLOWED OR AVTAB_ENABLED) = AVTAB_ALLOWED OR AVTAB_ENABLED \<and> bit (data (adatum n)) b)"
    unfolding v using AV_and_cond by (fastforce simp: cond_grant_def node_match_def split: if_splits)
  show ?thesis
    unfolding av_pair_def cond_compute_av_def pair_grants_def
      foldl_allowed [of cond_av_step cond_grant, OF cond_av_step_allowed] foldl_allowed [of te_av_step te_grant, OF te_av_step_allowed] 1 2
    by blast
qed

lemma te_decision_allowed:
  assumes "tables_ok p"
  shows "bit (allowed (te_decision p tclass sattr tattr avd)) b \<longleftrightarrow> bit (allowed avd) b \<or>
    (\<exists>i\<in>set (ebitmap_positive_bits sattr). \<exists>j\<in>set (ebitmap_positive_bits tattr). pair_grants p tclass b i j)"
proof -
  have inner: "bit (allowed (foldl (av_pair p tclass i) avd js)) b \<longleftrightarrow> bit (allowed avd) b \<or> (\<exists>j\<in>set js. pair_grants p tclass b i j)" for i js avd
    by (induction js arbitrary: avd) (auto simp: av_pair_allowed [OF assms])
  have "bit (allowed (foldl (\<lambda>avd i. foldl (av_pair p tclass i) avd js) avd is)) b \<longleftrightarrow>
      bit (allowed avd) b \<or> (\<exists>i\<in>set is. \<exists>j\<in>set js. pair_grants p tclass b i j)" for js "is"
    by (induction "is" arbitrary: avd) (auto simp: inner)
  then show ?thesis by (simp add: te_decision_def)
qed

subsection \<open>Constraints\<close>

definition constraint_holds :: "policydb \<Rightarrow> context_struct \<Rightarrow> context_struct \<Rightarrow> context_struct option \<Rightarrow> constraint_node \<Rightarrow> bool" where
  "constraint_holds p s t x con \<longleftrightarrow> cexpr_value p s t x (cexpr con) \<noteq> Inr 0"

lemma eval_reason_mem:
  assumes "mem_ok h"
  obtains h' where "constraint_expr_eval_reason p s t x con h = (cexpr_value p s t x (cexpr con), h')" "mem_ok h'"
  using eval_reason_runs [of h p s t x con] assms by auto

lemma cexpr_value_error: "cexpr_value p s t x es = Inl e \<Longrightarrow> e = EFAULT"
proof -
  have step: "cexpr_step p s t x e' st = Inl e \<Longrightarrow> e = EFAULT" for e' st
    by (auto simp: cexpr_step_def Let_def split: if_splits list.splits cexpr_act.splits)
  have "cexpr_pure p s t x es st = Inl e \<Longrightarrow> e = EFAULT" for st
    by (induction es arbitrary: st) (auto split: sum.splits dest: step)
  then show "cexpr_value p s t x es = Inl e \<Longrightarrow> e = EFAULT" by (auto simp: cexpr_value_def split: sum.splits)
qed

lemma and_not_bit: "bit (al AND NOT m) b \<longleftrightarrow> bit al b \<and> \<not> bit m b" for al m :: u32
  by (auto simp: bit_and_iff bit_not_iff_eq dest: bit_imp_possible_bit)

lemma av_constraints_bits:
  assumes "mem_ok h"
  shows "case av_constraints p s t cons al h of
      (Inl e, h') \<Rightarrow> e = EFAULT
    | (Inr al', h') \<Rightarrow> mem_ok h' \<and> (\<forall>b. bit al' b \<longleftrightarrow> bit al b \<and>
        (\<forall>con\<in>set cons. bit (cpermissions con) b \<longrightarrow> constraint_holds p s t None con))"
  using assms
proof (induction cons arbitrary: al h)
  case Nil
  then show ?case by (simp add: hret_def)
next
  case (Cons con cons)
  show ?case
  proof (cases "cpermissions con AND al = 0")
    case True
    then have no: "\<not> (bit (cpermissions con) b \<and> bit al b)" for b by (metis bit_0_eq bit_and_iff bot_apply bot_bool_def)
    show ?thesis using Cons.IH [OF Cons.prems, of al] True no by (auto split: prod.splits sum.splits)
  next
    case False
    obtain h1 where ev: "constraint_expr_eval_reason p s t None con h = (cexpr_value p s t None (cexpr con), h1)" "mem_ok h1"
      using eval_reason_mem [OF Cons.prems] .
    show ?thesis
    proof (cases "cexpr_value p s t None (cexpr con)")
      case (Inl e)
      then show ?thesis using False ev cexpr_value_error by (auto simp: hbind_def)
    next
      case (Inr rc)
      then have "constraint_holds p s t None con \<longleftrightarrow> rc \<noteq> 0" by (simp add: constraint_holds_def)
      then show ?thesis
        using Cons.IH [OF ev(2), of "if rc = 0 then al AND NOT (cpermissions con) else al"] False ev(1) Inr
        by (auto simp: hbind_def and_not_bit split: prod.splits sum.splits if_splits)
    qed
  qed
qed

subsection \<open>What is permitted\<close>

text \<open>The rules, constraints and role changes that decide one permission, without the bounds.\<close>

definition rbac_permits :: "policydb \<Rightarrow> context_struct \<Rightarrow> context_struct \<Rightarrow> u16 \<Rightarrow> nat \<Rightarrow> bool" where
  "rbac_permits p s t tclass b \<longleftrightarrow>
     \<not> (tclass = process_class p \<and> bit (process_trans_dyntrans p) b \<and> c_role s \<noteq> c_role t \<and>
        \<not> (\<exists>ra\<in>set (role_allows p). ra_role ra = c_role s \<and> ra_new_role ra = c_role t))"

definition direct_permits :: "policydb \<Rightarrow> u16 \<Rightarrow> nat \<Rightarrow> context_struct \<Rightarrow> context_struct \<Rightarrow> bool" where
  "direct_permits p tclass b s t \<longleftrightarrow>
     (\<exists>cl sattr tattr. val_get (class_val_to_struct p) (ucast tclass) = Some cl \<and>
        attr_map_get p (c_type s) = Some sattr \<and> attr_map_get p (c_type t) = Some tattr \<and>
        (\<exists>i\<in>set (ebitmap_positive_bits sattr). \<exists>j\<in>set (ebitmap_positive_bits tattr). pair_grants p tclass b i j) \<and>
        (\<forall>con\<in>set (constraints cl). bit (cpermissions con) b \<longrightarrow> constraint_holds p s t None con) \<and>
        rbac_permits p s t tclass b)"

inductive permitted :: "policydb \<Rightarrow> u16 \<Rightarrow> nat \<Rightarrow> context_struct \<Rightarrow> context_struct \<Rightarrow> bool" for p tclass b where
  unbounded: "\<lbrakk>direct_permits p tclass b s t; bounding_contexts p s t = Inr None\<rbrakk> \<Longrightarrow> permitted p tclass b s t"
| bounded: "\<lbrakk>direct_permits p tclass b s t; bounding_contexts p s t = Inr (Some (s', t')); permitted p tclass b s' t'\<rbrakk>
    \<Longrightarrow> permitted p tclass b s t"

inductive_simps permitted_iff: "permitted p tclass b s t"

lemma av_rbac_bits: "bit (av_rbac p s t tclass al) b \<longleftrightarrow> bit al b \<and> rbac_permits p s t tclass b"
proof (cases "al AND process_trans_dyntrans p = 0")
  case True
  then have "\<not> (bit al b \<and> bit (process_trans_dyntrans p) b)" by (metis bit_0_eq bit_and_iff bot_apply bot_bool_def)
  then show ?thesis using True by (auto simp: av_rbac_def rbac_permits_def)
next
  case False
  then show ?thesis
    by (auto simp: av_rbac_def rbac_permits_def role_allowed_def list_ex_iff and_not_bit)
qed

lemma compute_av_direct_bits:
  assumes "mem_ok h" "tables_ok p"
  shows "case compute_av_direct p seq s t tclass requested want h of
      (Inl e, h') \<Rightarrow> e = EFAULT \<or> e = EINVAL \<and> \<not> value_ok (p_classes p) (ucast tclass)
    | (Inr (avd, _), h') \<Rightarrow> mem_ok h' \<and> value_ok (p_classes p) (ucast tclass) \<and>
        (\<forall>b. bit (allowed avd) b \<longleftrightarrow> direct_permits p tclass b s t)"
proof (cases "value_ok (p_classes p) (ucast tclass)")
  case False
  then show ?thesis by (simp add: compute_av_direct_def hfail_def)
next
  case ok: True
  show ?thesis
  proof (cases "\<exists>cl sattr tattr. val_get (class_val_to_struct p) (ucast tclass) = Some cl \<and>
      attr_map_get p (c_type s) = Some sattr \<and> attr_map_get p (c_type t) = Some tattr")
    case False
    then show ?thesis using ok by (auto simp: compute_av_direct_def hfail_def split: option.splits)
  next
    case True
    then obtain cl sattr tattr where d: "val_get (class_val_to_struct p) (ucast tclass) = Some cl"
      "attr_map_get p (c_type s) = Some sattr" "attr_map_get p (c_type t) = Some tattr" by blast
    define avd where "avd = te_decision p tclass sattr tattr
      \<lparr>allowed = 0, decided = 0xFFFFFFFF, auditallow = 0, auditdeny = 0xFFFFFFFF, seqno = seq\<rparr>"
    have te: "bit (allowed avd) b \<longleftrightarrow>
        (\<exists>i\<in>set (ebitmap_positive_bits sattr). \<exists>j\<in>set (ebitmap_positive_bits tattr). pair_grants p tclass b i j)" for b
      unfolding avd_def te_decision_allowed [OF assms(2)] by simp
    show ?thesis
      using av_constraints_bits [OF assms(1), where p = p and s = s and t = t and cons = "constraints cl" and al = "allowed avd"] ok
      by (auto simp: compute_av_direct_def Let_def d hbind_def hret_def av_rbac_bits direct_permits_def te
          simp flip: avd_def split: prod.splits sum.splits)
  qed
qed

lemma mask_bounds_bits: "bit (allowed (fst (mask_bounds lo avd reason))) b \<longleftrightarrow> bit (allowed avd) b \<and> bit lo b"
proof (cases "NOT lo AND allowed avd = 0")
  case True
  then have "\<not> bit (allowed avd AND NOT lo) b" by (simp add: and.commute)
  then show ?thesis using True by (auto simp: mask_bounds_def Let_def and_not_bit)
next
  case False
  have "bit (allowed avd AND NOT (allowed avd AND NOT lo)) b \<longleftrightarrow> bit (allowed avd) b \<and> bit lo b"
    unfolding and_not_bit by blast
  then show ?thesis using False by (simp add: mask_bounds_def Let_def and.commute)
qed

lemma compute_av_bits:
  assumes "context_struct_compute_av p seq s t tclass requested want h = Some r" "mem_ok h" "tables_ok p"
  shows "case r of
      (Inl e, h') \<Rightarrow> e = EFAULT \<or> e = EINVAL \<and> \<not> value_ok (p_classes p) (ucast tclass)
    | (Inr (avd, _), h') \<Rightarrow> mem_ok h' \<and> (\<forall>b. bit (allowed avd) b \<longleftrightarrow> permitted p tclass b s t)"
  using assms(2,3)
proof (induction rule: context_struct_compute_av.raw_induct [OF _ assms(1)])
  case (1 rec p seq s t tclass requested want h y)
  note D = compute_av_direct_bits [OF 1(3,4), where seq = seq and s = s and t = t and tclass = tclass and requested = requested and want = want]
  show ?case
  proof (cases "compute_av_direct p seq s t tclass requested want h")
    case (Pair res h1)
    show ?thesis
    proof (cases res)
      case (Inl e)
      then show ?thesis using 1(2) D Pair by auto
    next
      case (Inr a)
      obtain avd rq rs where a: "a = (avd, rq, rs)" by (cases a)
      have P: "mem_ok h1" "value_ok (p_classes p) (ucast tclass)" "\<And>b. bit (allowed avd) b \<longleftrightarrow> direct_permits p tclass b s t"
        using D Pair Inr a by auto
      show ?thesis
      proof (cases "bounding_contexts p s t")
        case (Inl e)
        then show ?thesis using 1(2) Pair Inr a \<open>res = Inr a\<close> by (auto simp: bounding_contexts_def split: option.splits if_splits)
      next
        case B: (Inr bo)
        show ?thesis
        proof (cases bo)
          case None
          then show ?thesis using 1(2) Pair Inr a B P by (auto simp: permitted_iff [of p tclass _ s t])
        next
          case (Some st)
          obtain s' t' where st: "st = (s', t')" by (cases st)
          obtain r2 h2 where rec: "rec p seq s' t' tclass rq False h1 = Some (r2, h2)"
            and y: "y = (case r2 of Inl e \<Rightarrow> if e = EFAULT then Inl EFAULT else Inr (mask_bounds 0 avd rs)
               | Inr (lo_avd, _) \<Rightarrow> Inr (mask_bounds (allowed lo_avd) avd rs), h2)"
            using 1(2) Pair Inr a B Some st by (auto simp: bind_eq_Some_conv)
          note IH = 1(1) [OF rec P(1) 1(4)]
          show ?thesis
          proof (cases r2)
            case (Inl e)
            then show ?thesis using IH P(2) y by simp
          next
            case (Inr lo)
            obtain la lr where lo: "lo = (la, lr)" by (cases lo)
            have "bit (allowed (fst (mask_bounds (allowed la) avd rs))) b \<longleftrightarrow> permitted p tclass b s t" for b
              using IH Inr lo by (auto simp: mask_bounds_bits P(3) permitted_iff [of p tclass _ s t] B Some st)
            then show ?thesis using IH Inr lo y by (auto split: prod.splits)
          qed
        qed
      qed
    qed
  qed
qed

subsection \<open>Termination\<close>

lemma bounding_type:
  "bounding_contexts p s t = Inr (Some (s', t')) \<Longrightarrow>
   \<exists>d. val_get (type_val_to_struct p) (c_type s) = Some d \<and> type_bounds d \<noteq> 0 \<and> c_type s' = type_bounds d"
  by (auto simp: bounding_contexts_def split: option.splits if_splits)

lemma compute_av_returns:
  fixes rank :: "u32 \<Rightarrow> nat"
  assumes "\<And>ty d. \<lbrakk>val_get (type_val_to_struct p) ty = Some d; type_bounds d \<noteq> 0\<rbrakk> \<Longrightarrow> rank (type_bounds d) < rank ty"
  shows "\<exists>r. context_struct_compute_av p seq s t tclass requested want h = Some r"
proof (induction "rank (c_type s)" arbitrary: s t requested want h rule: less_induct)
  case less
  have IH: "\<exists>r. context_struct_compute_av p seq s' t' tclass requested' want' h' = Some r"
    if "bounding_contexts p s t = Inr (Some (s', t'))" for s' t' requested' want' h'
    using less bounding_type [OF that] assms by metis
  show ?case
    by (subst context_struct_compute_av.simps)
      (auto split: prod.splits sum.splits option.splits simp: bind_eq_Some_conv dest!: IH)
qed

text \<open>A set of pairs of contexts that the bounds do not leave is never decided.\<close>

lemma compute_av_cycle:
  assumes "(s, t) \<in> S"
    and "\<And>s t. (s, t) \<in> S \<Longrightarrow> \<exists>s' t'. bounding_contexts p s t = Inr (Some (s', t')) \<and> (s', t') \<in> S"
    and "\<And>s t requested want h. (s, t) \<in> S \<Longrightarrow> \<exists>a h'. compute_av_direct p seq s t tclass requested want h = (Inr a, h')"
  shows "context_struct_compute_av p seq s t tclass requested want h = None"
proof (rule ccontr)
  assume "context_struct_compute_av p seq s t tclass requested want h \<noteq> None"
  then obtain y where y: "context_struct_compute_av p seq s t tclass requested want h = Some y" by blast
  have "\<not> (p' = p \<and> seq' = seq \<and> tclass' = tclass \<and> (s', t') \<in> S)"
    if "context_struct_compute_av p' seq' s' t' tclass' requested' want' h' = Some y'" for p' seq' s' t' tclass' requested' want' h' y'
  proof (rule context_struct_compute_av.raw_induct [OF _ that], intro notI, elim conjE)
    fix rec q sq u v c rq w k z
    assume IH: "\<And>q sq u v c rq w k z. rec q sq u v c rq w k = Some z \<Longrightarrow> \<not> (q = p \<and> sq = seq \<and> c = tclass \<and> (u, v) \<in> S)"
      and eq: "(case compute_av_direct q sq u v c rq w k of
          (Inl e, h1) \<Rightarrow> Some (Inl e, h1)
        | (Inr (avd, requested', reason), h1) \<Rightarrow>
            (case bounding_contexts q u v of
               Inl e \<Rightarrow> Some (Inl e, h1)
             | Inr None \<Rightarrow> Some (Inr (avd, reason), h1)
             | Inr (Some (lo_scontext, lo_tcontext)) \<Rightarrow>
                 Option.bind (rec q sq lo_scontext lo_tcontext c requested' False h1) (\<lambda>(r, h2).
                 Some (case r of
                       Inl e \<Rightarrow> if e = EFAULT then Inl EFAULT else Inr (mask_bounds 0 avd reason)
                     | Inr (lo_avd, _) \<Rightarrow> Inr (mask_bounds (allowed lo_avd) avd reason), h2)))) = Some z"
      and *: "q = p" "sq = seq" "c = tclass" "(u, v) \<in> S"
    show False
      using assms(2) [OF *(4)] assms(3) [OF *(4), of rq w k] eq IH
      by (auto simp: * bind_eq_Some_conv split: prod.splits)
  qed
  with y assms(1) show False by blast
qed

lemma av_constraints_Inr:
  assumes "\<And>con. con \<in> set cons \<Longrightarrow> cexpr_value p s t None (cexpr con) \<noteq> Inl EFAULT"
  shows "\<exists>al' h'. av_constraints p s t cons al h = (Inr al', h')"
  using assms
proof (induction cons arbitrary: al h)
  case Nil
  then show ?case by (simp add: hret_def)
next
  case (Cons con cons)
  obtain rc h1 where "constraint_expr_eval_reason p s t None con h = (Inr rc, h1)"
    using eval_reason_runs [of h p s t None con] Cons.prems [of con] cexpr_value_error [of p s t None "cexpr con"]
    by (cases "cexpr_value p s t None (cexpr con)") auto
  then show ?case using Cons by (auto simp: hbind_def)
qed

lemma compute_av_direct_Inr:
  assumes "value_ok (p_classes p) (ucast tclass)" "val_get (class_val_to_struct p) (ucast tclass) = Some cl"
    "attr_map_get p (c_type s) \<noteq> None" "attr_map_get p (c_type t) \<noteq> None"
    "\<And>con. con \<in> set (constraints cl) \<Longrightarrow> cexpr_value p s t None (cexpr con) \<noteq> Inl EFAULT"
  shows "\<exists>a h'. compute_av_direct p seq s t tclass requested want h = (Inr a, h')"
proof -
  obtain sattr tattr where a: "attr_map_get p (c_type s) = Some sattr" "attr_map_get p (c_type t) = Some tattr" using assms(3,4) by blast
  let ?al = "allowed (te_decision p tclass sattr tattr \<lparr>allowed = 0, decided = 0xFFFFFFFF, auditallow = 0, auditdeny = 0xFFFFFFFF, seqno = seq\<rparr>)"
  obtain al' h' where "av_constraints p s t (constraints cl) ?al h = (Inr al', h')"
    using av_constraints_Inr [OF assms(5)] by blast
  then show ?thesis using assms(1,2) a by (auto simp: compute_av_direct_def Let_def hbind_def hret_def)
qed

subsection \<open>Constraints without memory\<close>

lemma eval_reason_no_memory:
  "constraint_expr_eval_reason p s t x con (False # h) = (Inr rc_ENOMEM, h)"
  by (simp add: constraint_expr_eval_reason_def rc_bind_def hbind_def hret_def calloc_rc_def malloc_def)

lemma constraints_ignored:
  "length cons \<le> n \<Longrightarrow> \<exists>m. av_constraints p s t cons al (replicate n False) = (Inr al, replicate m False)"
proof (induction cons arbitrary: n)
  case Nil
  then show ?case by (auto simp: hret_def)
next
  case (Cons con cons)
  then obtain k where n: "n = Suc k" "length cons \<le> k" by (cases n) auto
  show ?case
    using Cons.IH [of k] Cons.IH [of n] n Cons.prems
    by (auto simp: hbind_def eval_reason_no_memory rc_ENOMEM_def)
qed

lemma compute_av_no_memory:
  assumes "value_ok (p_classes p) (ucast tclass)" "val_get (class_val_to_struct p) (ucast tclass) = Some cl"
    "attr_map_get p (c_type s) = Some sattr" "attr_map_get p (c_type t) = Some tattr"
    "bounding_contexts p s t = Inr None" "tables_ok p" "length (constraints cl) \<le> n"
  shows "\<exists>avd reason h'. context_struct_compute_av p seq s t tclass requested want (replicate n False) = Some (Inr (avd, reason), h') \<and>
    (\<forall>b. bit (allowed avd) b \<longleftrightarrow> rbac_permits p s t tclass b \<and>
      (\<exists>i\<in>set (ebitmap_positive_bits sattr). \<exists>j\<in>set (ebitmap_positive_bits tattr). pair_grants p tclass b i j))"
proof -
  define avd where "avd = te_decision p tclass sattr tattr
      \<lparr>allowed = 0, decided = 0xFFFFFFFF, auditallow = 0, auditdeny = 0xFFFFFFFF, seqno = seq\<rparr>"
  obtain m where m: "av_constraints p s t (constraints cl) (allowed avd) (replicate n False) = (Inr (allowed avd), replicate m False)"
    using constraints_ignored [OF assms(7)] by blast
  obtain rq rs where d: "compute_av_direct p seq s t tclass requested want (replicate n False) =
      (Inr (avd\<lparr>allowed := av_rbac p s t tclass (allowed avd)\<rparr>, rq, rs), replicate m False)"
    using assms(1-4) m by (auto simp: compute_av_direct_def Let_def hbind_def hret_def simp flip: avd_def) (metis surj_pair)
  have "bit (av_rbac p s t tclass (allowed avd)) b \<longleftrightarrow> rbac_permits p s t tclass b \<and>
      (\<exists>i\<in>set (ebitmap_positive_bits sattr). \<exists>j\<in>set (ebitmap_positive_bits tattr). pair_grants p tclass b i j)" for b
    unfolding av_rbac_bits avd_def te_decision_allowed [OF assms(6)] by auto
  then show ?thesis by (subst context_struct_compute_av.simps) (simp add: d assms(5))
qed

subsection \<open>New contexts\<close>

lemma set_range_names: "set_range l0 l1 c h = (Inr c', h') \<Longrightarrow> c' = c\<lparr>c_range := c_range c'\<rparr>"
  by (auto simp: set_range_def hbind_def hret_def split: prod.splits sum.splits)

lemma range_names:
  "hbind m (\<lambda>r. hret (c\<lparr>c_range := r\<rparr>)) h = (Inr c', h') \<Longrightarrow> c' = c\<lparr>c_range := c_range c'\<rparr>"
  by (auto simp: hbind_def hret_def split: prod.splits sum.splits)

lemma mls_compute_sid_names:
  assumes "mls_compute_sid p s t tclass spec c h = (Inr c', h')"
  shows "c' = c\<lparr>c_range := c_range c'\<rparr>"
  using assms
  unfolding mls_compute_sid_def mls_range_set_def mls_change_range_def mls_copy_context_def mls_scopy_context_def
    mls_context_cpy_def mls_context_cpy_low_def mls_context_cpy_high_def mls_context_glblub_def Let_def
  by (auto split: if_splits option.splits simp: hfail_def hret_def dest!: set_range_names range_names)

end
