(* ===== verification/Ocontexts.thy ===== *)
theory Ocontexts
  imports Services
begin

section \<open>Labels of objects without a context of their own\<close>

text \<open>
  libsepol/src/services.c, from \<open>sepol_fs_sid\<close> to \<open>sepol_fs_use\<close>: the security identifiers of
  file systems, ports, network interfaces, nodes, Infiniband keys and end ports. The first entry
  of the list that matches has the context; its identifier is kept in the entry, so the
  functions change the policy database and the table of identifiers. The laws at the end say
  what every one of these functions does in terms of the entry it finds.
\<close>

definition OCON_ISID :: nat where "OCON_ISID = 0"
definition OCON_FS :: nat where "OCON_FS = 1"
definition OCON_PORT :: nat where "OCON_PORT = 2"
definition OCON_NETIF :: nat where "OCON_NETIF = 3"
definition OCON_NODE :: nat where "OCON_NODE = 4"
definition OCON_FSUSE :: nat where "OCON_FSUSE = 5"
definition OCON_NODE6 :: nat where "OCON_NODE6 = 6"
definition OCON_IBPKEY :: nat where "OCON_IBPKEY = 7"
definition OCON_IBENDPORT :: nat where "OCON_IBENDPORT = 8"
definition OCON_NUM :: nat where "OCON_NUM = 9"

definition SECINITSID_FS :: u32 where "SECINITSID_FS = 4"
definition SECINITSID_FILE :: u32 where "SECINITSID_FILE = 5"
definition SECINITSID_PORT :: u32 where "SECINITSID_PORT = 9"
definition SECINITSID_NETIF :: u32 where "SECINITSID_NETIF = 10"
definition SECINITSID_NETMSG :: u32 where "SECINITSID_NETMSG = 11"
definition SECINITSID_NODE :: u32 where "SECINITSID_NODE = 12"

definition SECURITY_FS_USE_GENFS :: u32 where "SECURITY_FS_USE_GENFS = 4"
definition SECURITY_FS_USE_NONE :: u32 where "SECURITY_FS_USE_NONE = 5"

definition AF_INET :: u16 where "AF_INET = 2"
definition AF_INET6 :: u16 where "AF_INET6 = 10"

text \<open>The name of an entry whose union holds one.\<close>

definition oc_name :: "ocontext \<Rightarrow> cstring" where
  "oc_name c = (case oc_u c of U_name n \<Rightarrow> n | _ \<Rightarrow> [])"

text \<open>The walk to the first entry that matches: its position, the length of the list if there
  is none.\<close>

definition oc_pos :: "(ocontext \<Rightarrow> bool) \<Rightarrow> ocontext list \<Rightarrow> nat" where
  "oc_pos match cs = length (takeWhile (\<lambda>c. \<not> match c) cs)"

text \<open>\<open>if (!c->sid[0]) { rc = sepol_sidtab_context_to_sid(...) }\<close>\<close>

definition entry_sid :: "sidtab \<Rightarrow> ocontext \<Rightarrow> heap \<Rightarrow> (errno + u32) \<times> ocontext \<times> sidtab \<times> heap" where
  "entry_sid st c h =
     (if oc_sid0 c \<noteq> 0 then (Inr (oc_sid0 c), c, st, h)
      else (case sepol_sidtab_context_to_sid st (oc_context0 c) h of
              (Inl e, st', h') \<Rightarrow> (Inl e, c, st', h')
            | (Inr sid, st', h') \<Rightarrow> (Inr sid, c\<lparr>oc_sid0 := sid\<rparr>, st', h')))"

text \<open>The same for an entry with two contexts.\<close>

definition entry_sids :: "sidtab \<Rightarrow> ocontext \<Rightarrow> heap \<Rightarrow> (errno + u32 \<times> u32) \<times> ocontext \<times> sidtab \<times> heap" where
  "entry_sids st c h =
     (if oc_sid0 c \<noteq> 0 \<and> oc_sid1 c \<noteq> 0 then (Inr (oc_sid0 c, oc_sid1 c), c, st, h)
      else (case sepol_sidtab_context_to_sid st (oc_context0 c) h of
              (Inl e, st', h') \<Rightarrow> (Inl e, c, st', h')
            | (Inr sid0, st', h') \<Rightarrow>
                (case sepol_sidtab_context_to_sid st' (oc_context1 c) h' of
                   (Inl e, st'', h'') \<Rightarrow> (Inl e, c\<lparr>oc_sid0 := sid0\<rparr>, st'', h'')
                 | (Inr sid1, st'', h'') \<Rightarrow> (Inr (sid0, sid1), c\<lparr>oc_sid0 := sid0, oc_sid1 := sid1\<rparr>, st'', h''))))"

definition put_entry_at :: "services \<Rightarrow> nat \<Rightarrow> nat \<Rightarrow> ocontext \<Rightarrow> sidtab \<Rightarrow> services" where
  "put_entry_at sv k i c st =
     sv\<lparr>sv_policydb := (sv_policydb sv)\<lparr>ocontexts := (ocontexts (sv_policydb sv))[k := (ocontexts (sv_policydb sv) ! k)[i := c]]\<rparr>,
        sv_sidtab := st\<rparr>"

definition label_sid :: "services \<Rightarrow> nat \<Rightarrow> (ocontext \<Rightarrow> bool) \<Rightarrow> u32 \<Rightarrow> heap \<Rightarrow> (errno + u32) \<times> services \<times> heap" where
  \<comment> \<open>the common body of the functions with one identifier\<close>
  "label_sid sv k match dflt h =
     (let cs = ocontexts (sv_policydb sv) ! k; i = oc_pos match cs in
      if i < length cs
      then (case entry_sid (sv_sidtab sv) (cs ! i) h of (r, c, st, h') \<Rightarrow> (r, put_entry_at sv k i c st, h'))
      else (Inr dflt, sv, h))"

definition label_sids :: "services \<Rightarrow> nat \<Rightarrow> (ocontext \<Rightarrow> bool) \<Rightarrow> u32 \<times> u32 \<Rightarrow> heap \<Rightarrow> (errno + u32 \<times> u32) \<times> services \<times> heap" where
  "label_sids sv k match dflt h =
     (let cs = ocontexts (sv_policydb sv) ! k; i = oc_pos match cs in
      if i < length cs
      then (case entry_sids (sv_sidtab sv) (cs ! i) h of (r, c, st, h') \<Rightarrow> (r, put_entry_at sv k i c st, h'))
      else (Inr dflt, sv, h))"

definition sepol_fs_sid :: "services \<Rightarrow> cstring \<Rightarrow> heap \<Rightarrow> (errno + u32 \<times> u32) \<times> services \<times> heap" where
  "sepol_fs_sid sv name = label_sids sv OCON_FS (\<lambda>c. strcmp (oc_name c) name = 0) (SECINITSID_FS, SECINITSID_FILE)"

definition ibpkey_match :: "u64 \<Rightarrow> u16 \<Rightarrow> ocontext \<Rightarrow> bool" where
  "ibpkey_match subnet_prefix pkey c =
     (case oc_u c of U_ibpkey prefix low high \<Rightarrow> low \<le> pkey \<and> high \<ge> pkey \<and> subnet_prefix = prefix | _ \<Rightarrow> False)"

definition sepol_ibpkey_sid :: "services \<Rightarrow> u64 \<Rightarrow> u16 \<Rightarrow> heap \<Rightarrow> (errno + u32) \<times> services \<times> heap" where
  "sepol_ibpkey_sid sv subnet_prefix pkey = label_sid sv OCON_IBPKEY (ibpkey_match subnet_prefix pkey) SECINITSID_UNLABELED"

definition ibendport_match :: "cstring \<Rightarrow> u8 \<Rightarrow> ocontext \<Rightarrow> bool" where
  "ibendport_match dev_name port c =
     (case oc_u c of U_ibendport dev pt \<Rightarrow> pt = port \<and> strcmp dev_name dev = 0 | _ \<Rightarrow> False)"

definition sepol_ibendport_sid :: "services \<Rightarrow> cstring \<Rightarrow> u8 \<Rightarrow> heap \<Rightarrow> (errno + u32) \<times> services \<times> heap" where
  "sepol_ibendport_sid sv dev_name port = label_sid sv OCON_IBENDPORT (ibendport_match dev_name port) SECINITSID_UNLABELED"

definition port_match :: "u8 \<Rightarrow> u16 \<Rightarrow> ocontext \<Rightarrow> bool" where
  "port_match protocol port c =
     (case oc_u c of U_port prot low high \<Rightarrow> prot = protocol \<and> low \<le> port \<and> high \<ge> port | _ \<Rightarrow> False)"

definition sepol_port_sid :: "services \<Rightarrow> u8 \<Rightarrow> u16 \<Rightarrow> heap \<Rightarrow> (errno + u32) \<times> services \<times> heap" where
  "sepol_port_sid sv protocol port = label_sid sv OCON_PORT (port_match protocol port) SECINITSID_PORT"

definition sepol_netif_sid :: "services \<Rightarrow> cstring \<Rightarrow> heap \<Rightarrow> (errno + u32 \<times> u32) \<times> services \<times> heap" where
  "sepol_netif_sid sv name = label_sids sv OCON_NETIF (\<lambda>c. strcmp name (oc_name c) = 0) (SECINITSID_NETIF, SECINITSID_NETMSG)"

definition match_ipv6_addrmask :: "u32 list \<Rightarrow> u32 list \<Rightarrow> u32 list \<Rightarrow> bool" where
  "match_ipv6_addrmask inp adr msk \<longleftrightarrow> list_all (\<lambda>i. adr ! i = inp ! i AND msk ! i) [0, 1, 2, 3]"

definition node_match4 :: "u32 \<Rightarrow> ocontext \<Rightarrow> bool" where
  "node_match4 addr c = (case oc_u c of U_node a m \<Rightarrow> a = addr AND m | _ \<Rightarrow> False)"

definition node_match6 :: "u32 list \<Rightarrow> ocontext \<Rightarrow> bool" where
  "node_match6 addrp c = (case oc_u c of U_node6 a m \<Rightarrow> match_ipv6_addrmask addrp a m | _ \<Rightarrow> False)"

text \<open>The address is the list of its 32-bit words, of \<open>addrlen\<close> bytes.\<close>

definition sepol_node_sid :: "services \<Rightarrow> u16 \<Rightarrow> u32 list \<Rightarrow> heap \<Rightarrow> (errno + u32) \<times> services \<times> heap" where
  "sepol_node_sid sv domain addrp h =
     (if domain = AF_INET then
        (if 4 * length addrp \<noteq> 4 then (Inl EINVAL, sv, h)
         else label_sid sv OCON_NODE (node_match4 (hd addrp)) SECINITSID_NODE h)
      else if domain = AF_INET6 then
        (if 4 * length addrp \<noteq> 16 then (Inl EINVAL, sv, h)
         else label_sid sv OCON_NODE6 (node_match6 addrp) SECINITSID_NODE h)
      else (Inr SECINITSID_NODE, sv, h))"

text \<open>\<open>strncmp\<close>, as \<open>strcmp\<close> on at most \<open>n\<close> bytes.\<close>

definition strncmp :: "cstring \<Rightarrow> cstring \<Rightarrow> nat \<Rightarrow> int" where
  "strncmp a b n = strcmp (take n a) (take n b)"

definition genfs_match :: "cstring \<Rightarrow> u16 \<Rightarrow> ocontext \<Rightarrow> bool" where
  "genfs_match path sclass c \<longleftrightarrow>
     (let len = length (oc_name c) in (oc_v c = 0 \<or> ucast sclass = oc_v c) \<and> strncmp (oc_name c) path len = 0)"

text \<open>The return value (\<open>None\<close> is 0) and what is stored in \<open>*sid\<close>, if anything.\<close>

definition sepol_genfs_sid :: "services \<Rightarrow> cstring \<Rightarrow> cstring \<Rightarrow> u16 \<Rightarrow> heap \<Rightarrow> (errno option \<times> u32 option) \<times> services \<times> heap" where
  "sepol_genfs_sid sv fstype path sclass h =
     (let p = sv_policydb sv; gs = genfs_list p;
          k = length (takeWhile (\<lambda>g. strcmp fstype (genfs_fstype g) > 0) gs) in
      if k \<ge> length gs \<or> strcmp fstype (genfs_fstype (gs ! k)) \<noteq> 0 then ((Some ENOENT, Some SECINITSID_UNLABELED), sv, h)
      else (let cs = genfs_head (gs ! k); i = oc_pos (genfs_match path sclass) cs in
            if i \<ge> length cs then ((Some ENOENT, Some SECINITSID_UNLABELED), sv, h)
            else (case entry_sid (sv_sidtab sv) (cs ! i) h of (r, c, st, h') \<Rightarrow>
                    (case r of Inl e \<Rightarrow> (Some e, None) | Inr sid \<Rightarrow> (None, Some sid),
                     sv\<lparr>sv_policydb := p\<lparr>genfs_list := gs[k := (gs ! k)\<lparr>genfs_head := cs[i := c]\<rparr>]\<rparr>, sv_sidtab := st\<rparr>, h'))))"

text \<open>The return value, \<open>*behavior\<close>, and what is stored in \<open>*sid\<close>, if anything.\<close>

definition sepol_fs_use :: "services \<Rightarrow> cstring \<Rightarrow> heap \<Rightarrow> (errno option \<times> u32 \<times> u32 option) \<times> services \<times> heap" where
  "sepol_fs_use sv fstype h =
     (let cs = ocontexts (sv_policydb sv) ! OCON_FSUSE; i = oc_pos (\<lambda>c. strcmp fstype (oc_name c) = 0) cs in
      if i < length cs
      then (case entry_sid (sv_sidtab sv) (cs ! i) h of (r, c, st, h') \<Rightarrow>
              (case r of Inl e \<Rightarrow> (Some e, oc_v (cs ! i), None) | Inr sid \<Rightarrow> (None, oc_v (cs ! i), Some sid),
               put_entry_at sv OCON_FSUSE i c st, h'))
      else (case sepol_genfs_sid sv fstype [47] (dir_class (sv_policydb sv)) h of ((rc, sid), sv', h') \<Rightarrow>
              ((None, if rc \<noteq> None then SECURITY_FS_USE_NONE else SECURITY_FS_USE_GENFS, sid), sv', h')))"

subsection \<open>The state the functions keep\<close>

text \<open>An identifier kept in an entry stands for the context of the entry.\<close>

definition entry_ok :: "sidtab \<Rightarrow> ocontext \<Rightarrow> bool" where
  "entry_ok st c \<longleftrightarrow>
     (oc_sid0 c \<noteq> 0 \<longrightarrow> sid_map st (oc_sid0 c) = Some (oc_context0 c)) \<and>
     (oc_sid1 c \<noteq> 0 \<longrightarrow> sid_map st (oc_sid1 c) = Some (oc_context1 c))"

definition labels_ok :: "services \<Rightarrow> bool" where
  "labels_ok sv \<longleftrightarrow> sidtab_ok (sv_sidtab sv) \<and> length (ocontexts (sv_policydb sv)) = OCON_NUM \<and>
     (\<forall>cs\<in>set (ocontexts (sv_policydb sv)). \<forall>c\<in>set cs. entry_ok (sv_sidtab sv) c) \<and>
     (\<forall>g\<in>set (genfs_list (sv_policydb sv)). \<forall>c\<in>set (genfs_head g). entry_ok (sv_sidtab sv) c)"

lemma entry_ok_mono: "\<lbrakk>entry_ok st c; sid_map st \<subseteq>\<^sub>m sid_map st'\<rbrakk> \<Longrightarrow> entry_ok st' c"
  unfolding entry_ok_def map_le_def by (metis domI)

lemma request_spec:
  assumes "sidtab_ok s" "sepol_sidtab_context_to_sid s c h = (r, s', h')"
  shows "sidtab_ok s' \<and> sid_map s \<subseteq>\<^sub>m sid_map s' \<and> (case r of Inl e \<Rightarrow> e = ENOMEM \<and> s' = s | Inr sid \<Rightarrow> sid_map s' sid = Some c \<and> sid \<noteq> 0)"
  using context_to_sid_spec [OF assms] assms(1) by (cases r) (auto split: if_splits simp: map_le_def)

lemma entry_sid_spec:
  assumes "sidtab_ok st" "entry_ok st c" "entry_sid st c h = (r, c', st', h')"
  shows "sidtab_ok st' \<and> sid_map st \<subseteq>\<^sub>m sid_map st' \<and> entry_ok st' c' \<and> c' = c\<lparr>oc_sid0 := oc_sid0 c'\<rparr> \<and>
    (case r of Inl e \<Rightarrow> e = ENOMEM \<and> c' = c \<and> st' = st | Inr sid \<Rightarrow> sid_map st' sid = Some (oc_context0 c) \<and> sid \<noteq> 0 \<and> oc_sid0 c' = sid)"
proof (cases "oc_sid0 c = 0")
  case False
  then show ?thesis using assms by (auto simp: entry_sid_def entry_ok_def)
next
  case True
  obtain r1 s1 h1 where q: "sepol_sidtab_context_to_sid st (oc_context0 c) h = (r1, s1, h1)" by (metis prod_cases3)
  show ?thesis
    using request_spec [OF assms(1) q] assms(2,3) True q entry_ok_mono [OF assms(2), of s1]
    by (cases r1) (auto simp: entry_sid_def entry_ok_def)
qed

lemma oc_pos_find:
  "find match cs = (if oc_pos match cs < length cs then Some (cs ! oc_pos match cs) else None)"
  by (induction cs) (auto simp: oc_pos_def)

lemma find_update:
  assumes "oc_pos match cs < length cs" "match c" "match (cs ! oc_pos match cs)"
  shows "oc_pos match (cs[oc_pos match cs := c]) = oc_pos match cs"
  using assms by (induction cs) (auto simp: oc_pos_def)

lemma oc_pos_match: "oc_pos match cs < length cs \<Longrightarrow> match (cs ! oc_pos match cs)"
  unfolding oc_pos_def using nth_length_takeWhile by metis

text \<open>A test that does not read the identifiers kept in the entry.\<close>

definition label_test :: "(ocontext \<Rightarrow> bool) \<Rightarrow> bool" where
  "label_test match \<longleftrightarrow> (\<forall>c sid. match (c\<lparr>oc_sid0 := sid\<rparr>) = match c)"

definition first_entry :: "nat \<Rightarrow> (ocontext \<Rightarrow> bool) \<Rightarrow> services \<Rightarrow> ocontext option" where
  "first_entry k match sv = find match (ocontexts (sv_policydb sv) ! k)"

lemma put_entry_ok:
  assumes "labels_ok sv" "sidtab_ok st" "sid_map (sv_sidtab sv) \<subseteq>\<^sub>m sid_map st" "entry_ok st c" "k < OCON_NUM"
  shows "labels_ok (put_entry_at sv k i c st)"
proof -
  have "entry_ok st c'" if "cs \<in> set ((ocontexts (sv_policydb sv))[k := (ocontexts (sv_policydb sv) ! k)[i := c]])" "c' \<in> set cs" for cs c'
  proof -
    have "cs \<in> insert ((ocontexts (sv_policydb sv) ! k)[i := c]) (set (ocontexts (sv_policydb sv)))"
      using that(1) set_update_subset_insert by fastforce
    moreover have "set ((ocontexts (sv_policydb sv) ! k)[i := c]) \<subseteq> insert c (set (ocontexts (sv_policydb sv) ! k))"
      by (rule set_update_subset_insert)
    moreover have "ocontexts (sv_policydb sv) ! k \<in> set (ocontexts (sv_policydb sv))"
      using assms(1,5) by (simp add: labels_ok_def)
    ultimately show ?thesis
      using that(2) assms(1,4) entry_ok_mono [OF _ assms(3)] unfolding labels_ok_def by blast
  qed
  then show ?thesis
    using assms entry_ok_mono unfolding labels_ok_def put_entry_at_def by fastforce
qed

lemma label_sid_spec:
  assumes "labels_ok sv" "k < OCON_NUM" "label_test match" "first_entry k match sv = Some c" "label_sid sv k match dflt h = (r, sv', h')"
  shows "labels_ok sv' \<and> sid_map (sv_sidtab sv) \<subseteq>\<^sub>m sid_map (sv_sidtab sv') \<and>
    (case r of Inl e \<Rightarrow> e = ENOMEM \<and> sid_map (sv_sidtab sv') = sid_map (sv_sidtab sv)
     | Inr sid \<Rightarrow> sid_map (sv_sidtab sv') sid = Some (oc_context0 c) \<and> first_entry k match sv' = Some (c\<lparr>oc_sid0 := sid\<rparr>) \<and> sid \<noteq> 0)"
proof -
  let ?cs = "ocontexts (sv_policydb sv) ! k"
  let ?i = "oc_pos match ?cs"
  have i: "?i < length ?cs" "?cs ! ?i = c" using assms(4) by (auto simp: first_entry_def oc_pos_find split: if_splits)
  obtain c' st where e: "entry_sid (sv_sidtab sv) c h = (r, c', st, h')" and sv': "sv' = put_entry_at sv k ?i c' st"
    using assms(5) i by (auto simp: label_sid_def Let_def split: prod.splits)
  have "k < length (ocontexts (sv_policydb sv))" using assms(1,2) by (simp add: labels_ok_def)
  then have c: "?cs \<in> set (ocontexts (sv_policydb sv))" by simp
  have "entry_ok (sv_sidtab sv) c" "sidtab_ok (sv_sidtab sv)"
    using assms(1) c i nth_mem [OF i(1)] unfolding labels_ok_def by auto
  note S = entry_sid_spec [OF this(2,1) e]
  have m: "match c" "match c'" using oc_pos_match [OF i(1)] i(2) S assms(3) unfolding label_test_def by metis+
  have "first_entry k match sv' = Some c'"
    using \<open>k < length (ocontexts (sv_policydb sv))\<close> i find_update [OF i(1) m(2)] m(1)
    by (simp add: first_entry_def sv' put_entry_at_def oc_pos_find)
  moreover have "c' = c\<lparr>oc_sid0 := sid\<rparr>" if "r = Inr sid" for sid using S that by auto
  moreover have "sv_sidtab sv' = st" by (simp add: sv' put_entry_at_def)
  moreover have "labels_ok sv'" unfolding sv' using S put_entry_ok [OF assms(1) _ _ _ assms(2)] by blast
  ultimately show ?thesis using S by (cases r) auto
qed

lemma label_sid_none:
  "first_entry k match sv = None \<Longrightarrow> label_sid sv k match dflt h = (Inr dflt, sv, h)"
  by (simp add: label_sid_def first_entry_def oc_pos_find Let_def split: if_splits)

lemma label_sid_kept:
  assumes "first_entry k match sv = Some c" "oc_sid0 c \<noteq> 0"
  shows "label_sid sv k match dflt h = (Inr (oc_sid0 c), sv, h)"
  using assms by (auto simp: label_sid_def first_entry_def oc_pos_find Let_def entry_sid_def put_entry_at_def split: if_splits)

subsection \<open>The contract of a lookup\<close>

locale label_lookup =
  fixes look :: "services \<Rightarrow> heap \<Rightarrow> (errno + u32) \<times> services \<times> heap"
    and entry_of :: "services \<Rightarrow> ocontext option"
    and dflt :: u32
  assumes look_none: "entry_of sv = None \<Longrightarrow> look sv h = (Inr dflt, sv, h)"
    and look_kept: "\<lbrakk>entry_of sv = Some c; oc_sid0 c \<noteq> 0\<rbrakk> \<Longrightarrow> look sv h = (Inr (oc_sid0 c), sv, h)"
    and look_some: "\<lbrakk>labels_ok sv; entry_of sv = Some c; look sv h = (r, sv', h')\<rbrakk> \<Longrightarrow>
      labels_ok sv' \<and> sid_map (sv_sidtab sv) \<subseteq>\<^sub>m sid_map (sv_sidtab sv') \<and>
      (case r of Inl e \<Rightarrow> e = ENOMEM \<and> sid_map (sv_sidtab sv') = sid_map (sv_sidtab sv)
       | Inr sid \<Rightarrow> sid_map (sv_sidtab sv') sid = Some (oc_context0 c) \<and> entry_of sv' = Some (c\<lparr>oc_sid0 := sid\<rparr>) \<and> sid \<noteq> 0)"
begin

lemma look_keeps:
  assumes "labels_ok sv" "look sv h = (r, sv', h')"
  shows "labels_ok sv' \<and> sid_map (sv_sidtab sv) \<subseteq>\<^sub>m sid_map (sv_sidtab sv')"
proof (cases "entry_of sv")
  case None
  then show ?thesis using assms look_none by simp
next
  case (Some c)
  then show ?thesis using look_some [OF assms(1) Some assms(2)] by blast
qed

text \<open>Asking again gives the same identifier and changes nothing, whatever the memory.\<close>

lemma look_again:
  assumes "labels_ok sv" "look sv h = (Inr sid, sv', h')"
  shows "look sv' h2 = (Inr sid, sv', h2)"
proof (cases "entry_of sv")
  case None
  then show ?thesis using assms look_none by simp
next
  case (Some c)
  have "entry_of sv' = Some (c\<lparr>oc_sid0 := sid\<rparr>)" "sid \<noteq> 0" using look_some [OF assms(1) Some assms(2)] by simp_all
  then show ?thesis using look_kept [of sv' "c\<lparr>oc_sid0 := sid\<rparr>"] by simp
qed

lemma look_labels:
  assumes "labels_ok sv" "look sv h = (Inr sid, sv', h')"
  shows "case entry_of sv of None \<Rightarrow> sid = dflt | Some c \<Rightarrow> sid_map (sv_sidtab sv') sid = Some (oc_context0 c)"
proof (cases "entry_of sv")
  case None
  then show ?thesis using assms look_none [of sv h] by simp
next
  case (Some c)
  then show ?thesis using look_some [OF assms(1) Some assms(2)] by simp
qed

end

lemmas label_sid_laws = label_sid_none label_sid_kept label_sid_spec

lemma label_tests:
  "label_test (port_match protocol port)" "label_test (ibpkey_match prefix pkey)" "label_test (ibendport_match dev port8)"
  "label_test (node_match4 adr)" "label_test (node_match6 adrs)"
  by (simp_all add: label_test_def port_match_def ibpkey_match_def ibendport_match_def node_match4_def node_match6_def)

interpretation port: label_lookup "\<lambda>sv. sepol_port_sid sv protocol pt" "first_entry OCON_PORT (port_match protocol pt)" SECINITSID_PORT
  for protocol pt
  by unfold_locales
    (simp_all add: sepol_port_sid_def label_sid_none label_sid_kept,
     rule label_sid_spec, simp_all add: label_tests OCON_PORT_def OCON_NUM_def)

interpretation ibpkey: label_lookup "\<lambda>sv. sepol_ibpkey_sid sv prefix pkey" "first_entry OCON_IBPKEY (ibpkey_match prefix pkey)" SECINITSID_UNLABELED
  for prefix pkey
  by unfold_locales
    (simp_all add: sepol_ibpkey_sid_def label_sid_none label_sid_kept,
     rule label_sid_spec, simp_all add: label_tests OCON_IBPKEY_def OCON_NUM_def)

interpretation ibend: label_lookup "\<lambda>sv. sepol_ibendport_sid sv dev pt" "first_entry OCON_IBENDPORT (ibendport_match dev pt)" SECINITSID_UNLABELED
  for dev pt
  by unfold_locales
    (simp_all add: sepol_ibendport_sid_def label_sid_none label_sid_kept,
     rule label_sid_spec, simp_all add: label_tests OCON_IBENDPORT_def OCON_NUM_def)

interpretation inet: label_lookup "\<lambda>sv. sepol_node_sid sv AF_INET [adr]" "first_entry OCON_NODE (node_match4 adr)" SECINITSID_NODE
  for adr
  by unfold_locales
    (simp_all add: sepol_node_sid_def label_sid_none label_sid_kept,
     rule label_sid_spec, simp_all add: label_tests OCON_NODE_def OCON_NUM_def)

end
