(* ===== verification/Reload.thy ===== *)
theory Reload
  imports Services
begin

section \<open>A new policy\<close>

text \<open>
  libsepol/src/services.c: the checks and conversions of \<open>sepol_load_policy\<close> once the new policy
  has been read, and \<open>sepol_get_user_sids\<close>. The return value of a callback is the code of the
  source; the state behind its argument is passed along.
\<close>

definition rc_of :: "errno \<Rightarrow> int" where
  "rc_of e = (case e of EFAIL \<Rightarrow> - 1 | EPERM \<Rightarrow> - 1 | ENOENT \<Rightarrow> - 2 | ENOMEM \<Rightarrow> - 12 | EACCES \<Rightarrow> - 13 | EFAULT \<Rightarrow> - 14
     | EEXIST \<Rightarrow> - 17 | EINVAL \<Rightarrow> - 22 | EOVERFLOW \<Rightarrow> - 75)"

subsection \<open>Classes and permissions stay\<close>

definition validate_perm :: "(cstring, perm_datum) hashtab \<Rightarrow> cstring \<Rightarrow> perm_datum \<Rightarrow> unit \<Rightarrow> int \<times> unit" where
  "validate_perm h key perdatum u =
     (case hashtab_search h key of
        None \<Rightarrow> (- 1, ())
      | Some perdatum2 \<Rightarrow> if perm_value perdatum \<noteq> perm_value perdatum2 then (- 1, ()) else (0, ()))"

definition validate_class :: "policydb \<Rightarrow> cstring \<Rightarrow> class_datum \<Rightarrow> unit \<Rightarrow> int \<times> unit" where
  "validate_class newp key cladatum u =
     (case hashtab_search (table (p_classes newp)) key of
        None \<Rightarrow> (- 1, ())
      | Some cladatum2 \<Rightarrow>
          if class_value cladatum \<noteq> class_value cladatum2 then (- 1, ())
          else if comdatum cladatum \<noteq> None \<and> comdatum cladatum2 = None \<or> comdatum cladatum = None \<and> comdatum cladatum2 \<noteq> None
          then (- 1, ())
          else if (case (comdatum cladatum, comdatum cladatum2) of
                     (Some com, Some com2) \<Rightarrow>
                       fst (hashtab_map (table (common_permissions com)) (validate_perm (table (common_permissions com2))) ()) \<noteq> 0
                   | _ \<Rightarrow> False)
          then (- 1, ())
          else if fst (hashtab_map (table (permissions cladatum)) (validate_perm (table (permissions cladatum2))) ()) \<noteq> 0
          then (- 1, ())
          else (0, ()))"

subsection \<open>The identifiers\<close>

definition clone_sid :: "u32 \<Rightarrow> context_struct \<Rightarrow> sidtab \<times> heap \<Rightarrow> int \<times> context_struct \<times> sidtab \<times> heap" where
  "clone_sid sid c sh =
     (case sepol_sidtab_insert (fst sh) sid c (snd sh) of
        (Inl e, h') \<Rightarrow> (rc_of e, c, fst sh, h')
      | (Inr s', h') \<Rightarrow> (0, c, s', h'))"

definition convert_context_handle_invalid_context :: "errno + unit" where
  "convert_context_handle_invalid_context = (if selinux_enforcing then Inl EINVAL else Inr ())"

text \<open>The conversion without the copy of the old context that the message needs.\<close>

definition convert_values :: "policydb \<Rightarrow> policydb \<Rightarrow> context_struct \<Rightarrow> context_struct hp" where
  "convert_values oldp newp c =
     (case hashtab_search (table (p_users newp)) (name_of (p_user_val_to_name oldp) (c_user c)) of
        None \<Rightarrow> hfail EINVAL
      | Some usrdatum \<Rightarrow>
          (case hashtab_search (table (p_roles newp)) (name_of (p_role_val_to_name oldp) (c_role c)) of
             None \<Rightarrow> hfail EINVAL
           | Some role \<Rightarrow>
               (case hashtab_search (table (p_types newp)) (name_of (p_type_val_to_name oldp) (c_type c)) of
                  None \<Rightarrow> hfail EINVAL
                | Some typdatum \<Rightarrow>
                    hbind (mls_convert_context oldp newp
                      (c\<lparr>c_user := user_value usrdatum, c_role := role_value role, c_type := type_value typdatum\<rparr>)) (\<lambda>c'.
                    if \<not> policydb_context_isvalid newp c'
                    then (case convert_context_handle_invalid_context of Inl e \<Rightarrow> hfail e | Inr _ \<Rightarrow> hret c')
                    else hret c'))))"

text \<open>On failure the old context is printed, which allocates, and the entry is dropped by the
  caller, so the half converted context is of no interest.\<close>

definition convert_context :: "policydb \<Rightarrow> policydb \<Rightarrow> u32 \<Rightarrow> context_struct \<Rightarrow> heap \<Rightarrow> int \<times> context_struct \<times> heap" where
  "convert_context oldp newp key c h =
     (case herr ENOMEM (context_cpy context_init c) h of
        (Inl e, h1) \<Rightarrow> (rc_of ENOMEM, c, h1)
      | (Inr oldc, h1) \<Rightarrow>
          (case convert_values oldp newp c h1 of
             (Inr c', h2) \<Rightarrow> (0, c', h2)
           | (Inl e, h2) \<Rightarrow> (rc_of e, c, snd (context_to_string oldp oldc h2))))"

text \<open>\<open>sepol_load_policy\<close> after \<open>policydb_read\<close>. The result of \<open>sepol_sidtab_init\<close> is not tested: if it
  fails there is no table.\<close>

definition new_sidtab :: "heap \<Rightarrow> sidtab \<times> heap" where
  "new_sidtab h =
     (case sepol_sidtab_init h of
        (Inl e, h') \<Rightarrow> (\<lparr>shtable = None, snel = 0, next_sid = 0, shutdown = False\<rparr>, h')
      | (Inr s, h') \<Rightarrow> (s, h'))"

definition install_policy :: "services \<Rightarrow> policydb \<Rightarrow> heap \<Rightarrow> (errno + unit) \<times> services \<times> heap" where
  "install_policy sv newp h =
     (let oldp = sv_policydb sv in
      case new_sidtab h of (newsidtab, h1) \<Rightarrow>
        if fst (hashtab_map (table (p_classes oldp)) (validate_class newp) ()) \<noteq> 0 then (Inl EINVAL, sv, h1)
        else (let sv1 = sv\<lparr>sv_sidtab := sepol_sidtab_shutdown (sv_sidtab sv)\<rparr> in
              case sepol_sidtab_map (sv_sidtab sv1) clone_sid (newsidtab, h1) of (rc, st, newsidtab', h2) \<Rightarrow>
                if rc \<noteq> 0 then (Inl ENOMEM, sv1\<lparr>sv_sidtab := st\<rparr>, h2)
                else (case sepol_sidtab_map_remove_on_error newsidtab' (convert_context oldp newp) h2 of (newsidtab'', h3) \<Rightarrow>
                        (Inr (), sv1\<lparr>sv_policydb := newp, sv_sidtab := sepol_sidtab_set st newsidtab''\<rparr>, h3))))"

subsection \<open>The contexts a user can reach\<close>

definition SIDS_NEL :: nat where "SIDS_NEL = 25"

text \<open>What the nested loops of \<open>sepol_get_user_sids\<close> carry: the return code of the last decision, the
  context under construction, the identifiers found and the capacity of their array, the table
  and the memory.\<close>

record user_sids =
  us_rc :: "errno option"
  us_con :: context_struct
  mysids :: "u32 list"
  maxnel :: nat
  us_sidtab :: sidtab
  us_heap :: heap

definition add_sid :: "user_sids \<Rightarrow> u32 \<Rightarrow> errno + user_sids" where
  "add_sid st sid =
     (if length (mysids st) < maxnel st then Inr (st\<lparr>mysids := mysids st @ [sid]\<rparr>)
      else (case malloc (us_heap st) of (ok, h') \<Rightarrow>
              if ok then Inr (st\<lparr>maxnel := maxnel st + SIDS_NEL, mysids := mysids st @ [sid], us_heap := h'\<rparr>) else Inl ENOMEM))"

text \<open>One type of one role: \<open>None\<close> if the decision does not return; on an error the sidtab and the
  memory are kept with it.\<close>

definition user_type :: "services \<Rightarrow> context_struct \<Rightarrow> user_datum \<Rightarrow> u32 \<Rightarrow> user_sids \<Rightarrow> (errno \<times> user_sids + user_sids) option" where
  "user_type sv fromcon user j st =
     (let p = sv_policydb sv; st = st\<lparr>us_con := (us_con st)\<lparr>c_type := j + 1\<rparr>\<rparr> in
      if c_type (us_con st) = c_type fromcon then Some (Inr st)
      else (case mls_setup_user_range fromcon user (us_con st) (mls p) of
              Inl _ \<Rightarrow> Some (Inr st)
            | Inr usercon \<Rightarrow>
                Option.bind (context_struct_compute_av p (latest_granting sv) fromcon usercon (process_class p) (process_trans p) True (us_heap st)) (\<lambda>(r, h1).
                let st = st\<lparr>us_con := usercon, us_heap := h1\<rparr> in
                Some (case r of
                  Inl e \<Rightarrow> if e = EFAULT then Inl (e, st) else Inr (st\<lparr>us_rc := Some e\<rparr>)
                | Inr (avd, _) \<Rightarrow>
                    if allowed avd AND process_trans p = 0 then Inr (st\<lparr>us_rc := None\<rparr>)
                    else (case sepol_sidtab_context_to_sid (us_sidtab st) usercon h1 of
                            (Inl e, s', h2) \<Rightarrow> Inl (e, st\<lparr>us_sidtab := s', us_heap := h2\<rparr>)
                          | (Inr sid, s', h2) \<Rightarrow>
                              (let st = st\<lparr>us_rc := None, us_sidtab := s', us_heap := h2\<rparr> in
                               case add_sid st sid of Inl e \<Rightarrow> Inl (e, st) | Inr st' \<Rightarrow> Inr st'))))))"

fun user_types :: "services \<Rightarrow> context_struct \<Rightarrow> user_datum \<Rightarrow> u32 list \<Rightarrow> user_sids \<Rightarrow> (errno \<times> user_sids + user_sids) option" where
  "user_types sv fromcon user [] st = Some (Inr st)"
| "user_types sv fromcon user (j # js) st =
     Option.bind (user_type sv fromcon user j st) (\<lambda>r.
       case r of Inl e \<Rightarrow> Some (Inl e) | Inr st' \<Rightarrow> user_types sv fromcon user js st')"

fun user_roles_loop :: "services \<Rightarrow> context_struct \<Rightarrow> user_datum \<Rightarrow> u32 list \<Rightarrow> user_sids \<Rightarrow> (errno \<times> user_sids + user_sids) option" where
  "user_roles_loop sv fromcon user [] st = Some (Inr st)"
| "user_roles_loop sv fromcon user (i # is) st =
     (case val_get (role_val_to_struct (sv_policydb sv)) (i + 1) of
        None \<Rightarrow> Some (Inl (EFAULT, st))
      | Some role \<Rightarrow>
          Option.bind (user_types sv fromcon user (ebitmap_positive_bits (ts_types (role_types role))) (st\<lparr>us_con := (us_con st)\<lparr>c_role := i + 1\<rparr>\<rparr>)) (\<lambda>r.
            case r of Inl e \<Rightarrow> Some (Inl e) | Inr st' \<Rightarrow> user_roles_loop sv fromcon user is st'))"

text \<open>The return value, and the identifiers if they are stored.\<close>

definition sepol_get_user_sids :: "services \<Rightarrow> u32 \<Rightarrow> cstring \<Rightarrow> heap \<Rightarrow> ((errno option \<times> u32 list option) \<times> services \<times> heap) option" where
  "sepol_get_user_sids sv fromsid username h =
     (case sepol_sidtab_search (sv_sidtab sv) fromsid of
        None \<Rightarrow> Some ((Some EINVAL, None), sv, h)
      | Some fromcon \<Rightarrow>
          (case hashtab_search (table (p_users (sv_policydb sv))) username of
             None \<Rightarrow> Some ((Some EINVAL, None), sv, h)
           | Some user \<Rightarrow>
               (case malloc h of (ok, h1) \<Rightarrow>
                  if \<not> ok then Some ((Some ENOMEM, None), sv, h1)
                  else map_option (\<lambda>r. case r of
                           Inl (e, st) \<Rightarrow> ((Some e, None), sv\<lparr>sv_sidtab := us_sidtab st\<rparr>, us_heap st)
                         | Inr st \<Rightarrow> ((us_rc st, Some (mysids st)), sv\<lparr>sv_sidtab := us_sidtab st\<rparr>, us_heap st))
                       (user_roles_loop sv fromcon user (ebitmap_positive_bits (rs_roles (user_roles user)))
                         \<lparr>us_rc = None, us_con = context_init\<lparr>c_user := user_value user\<rparr>, mysids = [], maxnel = SIDS_NEL,
                          us_sidtab = sv_sidtab sv, us_heap = h1\<rparr>))))"

end
