(* ===== verification/Reload_Laws.thy ===== *)
theory Reload_Laws
  imports Reload "HOL-Library.Sublist"
begin

section \<open>A new policy: correctness\<close>

text \<open>
  A policy that is installed has every class and permission of the old one with its old value,
  and an identifier that survives stands for a context of the same names that the new policy
  accepts. A policy that is refused leaves policy and identifiers as they were, except that no
  context can get a new identifier any more if the refusal is for want of memory.
\<close>

subsection \<open>Walks with a test\<close>

lemma map_nodes_test:
  "fst (hashtab_map_nodes f ns ()) = 0 \<longleftrightarrow> (\<forall>n\<in>set ns. fst (f (hkey n) (hdatum n) ()) = 0)"
  by (induction ns) (auto split: prod.splits)

lemma map_test:
  assumes "fst (hashtab_map ho f ()) = 0" "ho = Some t" "table_ok symhash symcmp t" "hashtab_search ho k = Some d"
  shows "fst (f k d ()) = 0"
proof -
  have "\<lparr>hkey = k, hdatum = d\<rparr> \<in> set (concat (htable t))"
    using assms(2-4) sym.search_abs [OF assms(3), of k] sym.abs_iff [OF assms(3), of k d] by simp
  then show ?thesis
    using assms(1,2) unfolding hashtab_map_def by (simp add: map_nodes_test del: set_concat) force
qed

definition symbols_ok :: "'d symtab \<Rightarrow> bool" where
  "symbols_ok s \<longleftrightarrow> (\<exists>t. table s = Some t \<and> table_ok symhash symcmp t)"

text \<open>Every symbol of a table of permissions is in the other one, with the same value.\<close>

definition same_perms :: "perm_datum symtab \<Rightarrow> perm_datum symtab \<Rightarrow> bool" where
  "same_perms a b \<longleftrightarrow> (\<forall>name d. hashtab_search (table a) name = Some d \<longrightarrow>
     (\<exists>d2. hashtab_search (table b) name = Some d2 \<and> perm_value d2 = perm_value d))"

lemma validate_perm_same:
  assumes "fst (hashtab_map (table a) (validate_perm (table b)) ()) = 0" "symbols_ok a"
  shows "same_perms a b"
proof -
  obtain t where t: "table a = Some t" "table_ok symhash symcmp t" using assms(2) by (auto simp: symbols_ok_def)
  have "\<exists>d2. hashtab_search (table b) name = Some d2 \<and> perm_value d2 = perm_value d" if "hashtab_search (table a) name = Some d" for name d
    using map_test [OF assms(1) t that] by (auto simp: validate_perm_def split: option.splits if_splits)
  then show ?thesis by (simp add: same_perms_def)
qed

definition classes_ok :: "policydb \<Rightarrow> bool" where
  "classes_ok p \<longleftrightarrow> symbols_ok (p_classes p) \<and>
     (\<forall>name d. hashtab_search (table (p_classes p)) name = Some d \<longrightarrow>
        symbols_ok (permissions d) \<and> (\<forall>com. comdatum d = Some com \<longrightarrow> symbols_ok (common_permissions com)))"

lemma validate_class_same:
  assumes "fst (validate_class newp name d u) = 0" "symbols_ok (permissions d)" "\<And>com. comdatum d = Some com \<Longrightarrow> symbols_ok (common_permissions com)"
  shows "\<exists>d2. hashtab_search (table (p_classes newp)) name = Some d2 \<and> class_value d2 = class_value d \<and>
    same_perms (permissions d) (permissions d2) \<and>
    rel_option (\<lambda>com com2. same_perms (common_permissions com) (common_permissions com2)) (comdatum d) (comdatum d2)"
proof -
  obtain d2 where d2: "hashtab_search (table (p_classes newp)) name = Some d2" "class_value d2 = class_value d"
      "comdatum d = None \<longleftrightarrow> comdatum d2 = None"
      "fst (hashtab_map (table (permissions d)) (validate_perm (table (permissions d2))) ()) = 0"
      "\<forall>com com2. comdatum d = Some com \<longrightarrow> comdatum d2 = Some com2 \<longrightarrow>
        fst (hashtab_map (table (common_permissions com)) (validate_perm (table (common_permissions com2))) ()) = 0"
    using assms(1) by (cases "comdatum d") (auto simp: validate_class_def split: option.splits if_splits)
  have "rel_option (\<lambda>com com2. same_perms (common_permissions com) (common_permissions com2)) (comdatum d) (comdatum d2)"
    using d2(3,5) assms(3) validate_perm_same by (cases "comdatum d"; cases "comdatum d2") auto
  with d2 validate_perm_same [OF d2(4) assms(2)] show ?thesis by blast
qed

lemma classes_same:
  assumes "fst (hashtab_map (table (p_classes oldp)) (validate_class newp) ()) = 0" "classes_ok oldp"
    "hashtab_search (table (p_classes oldp)) name = Some d"
  shows "\<exists>d2. hashtab_search (table (p_classes newp)) name = Some d2 \<and> class_value d2 = class_value d \<and>
    same_perms (permissions d) (permissions d2) \<and>
    rel_option (\<lambda>com com2. same_perms (common_permissions com) (common_permissions com2)) (comdatum d) (comdatum d2)"
proof -
  obtain t where t: "table (p_classes oldp) = Some t" "table_ok symhash symcmp t" using assms(2) by (auto simp: classes_ok_def symbols_ok_def)
  show ?thesis
    using validate_class_same [OF map_test [OF assms(1) t assms(3)]] assms(2,3) unfolding classes_ok_def by blast
qed

subsection \<open>The copy of the table of identifiers\<close>

text \<open>The contexts of the nodes in order, as a map.\<close>

definition nodes_map :: "sidtab_node list \<Rightarrow> u32 \<Rightarrow> context_struct option" where
  "nodes_map ns = map_of (map (\<lambda>n. (nsid n, ncontext n)) ns)"

lemma insert_ok:
  assumes "sidtab_ok s" "0 < sid" "sid \<noteq> 0xFFFFFFFF" "sepol_sidtab_insert s sid c h = (Inr s', h')"
  shows "sidtab_ok s' \<and> sid_map s sid = None \<and> sid_map s' = (sid_map s)(sid \<mapsto> c)"
proof -
  obtain tbl where t: "shtable s = Some tbl" "sid_slots_ok tbl" "0 < next_sid s"
      "\<And>n. n \<in> set (concat tbl) \<Longrightarrow> 0 < nsid n \<and> nsid n < next_sid s" "snel s = word_of_nat (length (concat tbl))"
    using assms(1) by (rule sidtab_okD) blast
  show ?thesis using hgives_Inr [OF insert_gives [OF t(2,1,4,5) order.refl assms(2,3)] assms(4)] by blast
qed

lemma clone_same: "fst (snd (sidtab_map_nodes clone_sid ns sh)) = ns" "fst (snd (sidtab_map_slots clone_sid tbl sh)) = tbl"
proof -
  have c: "fst (snd (clone_sid sid c sh)) = c" for sid c sh
    by (simp add: clone_sid_def split: prod.splits sum.splits)
  show n: "fst (snd (sidtab_map_nodes clone_sid ns sh)) = ns" for ns sh
  proof (induction ns arbitrary: sh)
    case (Cons n ns)
    then show ?case using c [of "nsid n" "ncontext n" sh] by (cases "clone_sid (nsid n) (ncontext n) sh") (auto split: prod.splits, metis fst_conv snd_conv)
  qed simp
  show "fst (snd (sidtab_map_slots clone_sid tbl sh)) = tbl"
  proof (induction tbl arbitrary: sh)
    case (Cons ch tbl)
    then show ?case using n [of ch sh] by (cases "sidtab_map_nodes clone_sid ch sh") (auto split: prod.splits, metis fst_conv snd_conv)
  qed simp
qed

lemma clone_nodes:
  assumes "sidtab_map_nodes clone_sid ns (s, h) = (0, ns', s', h')" "\<forall>n\<in>set ns. 0 < nsid n \<and> nsid n \<noteq> 0xFFFFFFFF"
    "distinct (map nsid ns)"
  shows "(sidtab_ok s \<longrightarrow> sidtab_ok s' \<and> sid_map s' = sid_map s ++ nodes_map ns) \<and> (ns \<noteq> [] \<longrightarrow> shtable s \<noteq> None)"
  using assms
proof (induction ns arbitrary: s h ns')
  case Nil
  then show ?case by (simp add: nodes_map_def)
next
  case (Cons n ns)
  obtain r h1 where Pair: "sepol_sidtab_insert s (nsid n) (ncontext n) h = (r, h1)" by fastforce
  show ?case
  proof (cases r)
    case (Inl e)
    then have "rc_of e \<noteq> 0" by (cases e) (simp_all add: rc_of_def)
    then show ?thesis using Cons.prems(1) Pair Inl by (simp add: clone_sid_def)
  next
    case (Inr s1)
    obtain ns1 where r: "sidtab_map_nodes clone_sid ns (s1, h1) = (0, ns1, s', h')"
      using Cons.prems(1) Pair Inr by (auto simp: clone_sid_def [of "nsid n"] split: prod.splits)
    have some: "shtable s \<noteq> None" using Pair Inr by (cases "shtable s") (simp_all add: sepol_sidtab_insert_def hfail_def)
    note IH = Cons.IH [OF r]
    have "sidtab_ok s' \<and> sid_map s' = sid_map s ++ nodes_map (n # ns)" if ok: "sidtab_ok s"
    proof -
      have i: "sidtab_ok s1" "sid_map s1 = (sid_map s)(nsid n \<mapsto> ncontext n)"
        using insert_ok [OF ok _ _ Pair [unfolded Inr]] Cons.prems(2) by auto
      have new: "nsid n \<notin> dom (map_of (map (\<lambda>n. (nsid n, ncontext n)) ns))"
        using Cons.prems(3) by (auto simp: dom_map_of_conv_image_fst)
      have "sid_map s1 ++ nodes_map ns = sid_map s ++ nodes_map (n # ns)"
        unfolding i(2) nodes_map_def by (simp add: map_add_upd_left [OF new])
      then show ?thesis using IH i(1) Cons.prems(2,3) by simp
    qed
    then show ?thesis using some by simp
  qed
qed

lemma map_nodes_append:
  "sidtab_map_nodes f (xs @ ys) a =
     (case sidtab_map_nodes f xs a of (ret, xs', a1) \<Rightarrow>
        if ret \<noteq> 0 then (ret, xs' @ ys, a1)
        else (case sidtab_map_nodes f ys a1 of (ret, ys', a2) \<Rightarrow> (ret, xs' @ ys', a2)))"
  by (induction xs arbitrary: a) (auto split: prod.splits)

lemma map_slots_concat:
  "sidtab_map_nodes f (concat tbl) a = (case sidtab_map_slots f tbl a of (ret, tbl', a') \<Rightarrow> (ret, concat tbl', a'))"
  by (induction tbl arbitrary: a) (auto simp: map_nodes_append split: prod.splits)

lemma slots_distinct_sids:
  assumes "sid_slots_ok tbl" shows "distinct (map nsid (concat tbl))"
proof (rule distinct_concat_blocks [where g = SIDTAB_HASH and c = 0])
  fix i assume i: "i < length tbl"
  have "sorted_wrt (\<lambda>a b. nsid a < nsid b) ch \<Longrightarrow> distinct (map nsid ch)" for ch :: "sidtab_node list" by (induction ch) auto
  then show "distinct (map nsid (tbl ! i)) \<and> (\<forall>n\<in>set (tbl ! i). SIDTAB_HASH (nsid n) = i + 0)"
    using assms i by (simp add: sid_slots_ok_def)
qed

lemma node_pair: "(sid, c) \<in> (\<lambda>n. (nsid n, ncontext n)) ` N \<longleftrightarrow> \<lparr>nsid = sid, ncontext = c\<rparr> \<in> N"
proof
  assume "(sid, c) \<in> (\<lambda>n. (nsid n, ncontext n)) ` N"
  then obtain n where "n \<in> N" "sid = nsid n" "c = ncontext n" by blast
  then show "\<lparr>nsid = sid, ncontext = c\<rparr> \<in> N" by simp
next
  assume "\<lparr>nsid = sid, ncontext = c\<rparr> \<in> N"
  from imageI [OF this, of "\<lambda>n. (nsid n, ncontext n)"] show "(sid, c) \<in> (\<lambda>n. (nsid n, ncontext n)) ` N" by simp
qed

lemma nodes_map_sids:
  assumes "sidtab_ok s" "shtable s = Some tbl" shows "nodes_map (concat tbl) = sid_map s"
proof
  fix sid
  have d: "distinct (map fst (map (\<lambda>n. (nsid n, ncontext n)) (concat tbl)))"
    using slots_distinct_sids [of tbl] assms by (simp add: sidtab_ok_def comp_def)
  have "nodes_map (concat tbl) sid = Some c \<longleftrightarrow> sid_map s sid = Some c" for c
    unfolding sid_map_iff [OF assms] nodes_map_def map_of_eq_Some_iff [OF d] set_map by (rule node_pair)
  then show "nodes_map (concat tbl) sid = sid_map s sid" by (metis option.exhaust)
qed

lemma clone_all:
  assumes "sidtab_ok st" "sepol_sidtab_map st clone_sid (new, h) = (rc, st', new', h')"
  shows "st' = st" "\<lbrakk>rc = 0; sidtab_ok new; sid_map new = Map.empty\<rbrakk> \<Longrightarrow> sidtab_ok new' \<and> sid_map new' = sid_map st"
    "\<lbrakk>rc = 0; sid_map st \<noteq> Map.empty\<rbrakk> \<Longrightarrow> shtable new \<noteq> None"
proof -
  obtain tbl where t: "shtable st = Some tbl" "sid_slots_ok tbl" "\<And>n. n \<in> set (concat tbl) \<Longrightarrow> 0 < nsid n \<and> nsid n < next_sid st"
    using assms(1) by (rule sidtab_okD) blast
  have m: "sidtab_map_slots clone_sid tbl (new, h) = (rc, tbl, new', h')" "st' = st\<lparr>shtable := Some tbl\<rparr>"
    using assms(2) t(1) clone_same(2) [of tbl "(new, h)"] by (auto simp: sepol_sidtab_map_def split: prod.splits)
  show "st' = st" using m(2) t(1) by simp
  have "\<forall>n\<in>set (concat tbl). 0 < nsid n \<and> nsid n \<noteq> 0xFFFFFFFF"
  proof
    fix n assume "n \<in> set (concat tbl)"
    from t(3) [OF this] show "0 < nsid n \<and> nsid n \<noteq> 0xFFFFFFFF"
      using unat_u32_less [of "next_sid st"] by (auto simp: word_less_nat_alt)
  qed
  then have c: "rc = 0 \<Longrightarrow> (sidtab_ok new \<longrightarrow> sidtab_ok new' \<and> sid_map new' = sid_map new ++ nodes_map (concat tbl)) \<and> (concat tbl \<noteq> [] \<longrightarrow> shtable new \<noteq> None)"
    using clone_nodes [of "concat tbl" new h "concat tbl" new' h'] slots_distinct_sids [OF t(2)] m(1) by (simp add: map_slots_concat del: set_concat)
  then show "\<lbrakk>rc = 0; sidtab_ok new; sid_map new = Map.empty\<rbrakk> \<Longrightarrow> sidtab_ok new' \<and> sid_map new' = sid_map st"
    using nodes_map_sids [OF assms(1) t(1)] by simp
  show "\<lbrakk>rc = 0; sid_map st \<noteq> Map.empty\<rbrakk> \<Longrightarrow> shtable new \<noteq> None"
    using c nodes_map_sids [OF assms(1) t(1)] by (auto simp: nodes_map_def simp del: concat_eq_Nil_conv)
qed

subsection \<open>The conversion of the table\<close>

text \<open>A node after a callback that returned 0.\<close>

definition node_kept :: "(u32 \<Rightarrow> context_struct \<Rightarrow> 'a \<Rightarrow> int \<times> context_struct \<times> 'a) \<Rightarrow> sidtab_node \<Rightarrow> sidtab_node \<Rightarrow> bool" where
  "node_kept f n n' \<longleftrightarrow> nsid n' = nsid n \<and> (\<exists>a a'. f (nsid n) (ncontext n) a = (0, ncontext n', a'))"

lemma filter_nodes_spec:
  assumes "sidtab_filter_nodes f ns k a = (ns', k', a')"
  shows "subseq (map nsid ns') (map nsid ns)" "\<forall>n'\<in>set ns'. \<exists>n\<in>set ns. node_kept f n n'"
    "k' + word_of_nat (length ns) = k + word_of_nat (length ns')"
proof -
  have "subseq (map nsid ns') (map nsid ns) \<and> (\<forall>n'\<in>set ns'. \<exists>n\<in>set ns. node_kept f n n') \<and>
      k' + word_of_nat (length ns) = k + word_of_nat (length ns')"
    using assms
  proof (induction ns arbitrary: k a ns' k' a')
    case (Cons n ns)
    obtain ret c a1 where f: "f (nsid n) (ncontext n) a = (ret, c, a1)" by (metis prod_cases3)
    show ?case
    proof (cases "ret = 0")
      case True
      then obtain ns1 where r: "sidtab_filter_nodes f ns k a1 = (ns1, k', a')" "ns' = n\<lparr>ncontext := c\<rparr> # ns1"
        using Cons.prems f by (auto split: prod.splits)
      have "node_kept f n (n\<lparr>ncontext := c\<rparr>)" unfolding node_kept_def using f True by auto
      with Cons.IH [OF r(1)] r(2) show ?thesis by (auto simp: algebra_simps)
    next
      case False
      then have r: "sidtab_filter_nodes f ns (k - 1) a1 = (ns', k', a')" using Cons.prems f by simp
      from Cons.IH [OF r] show ?thesis by (auto simp: algebra_simps)
    qed
  qed simp
  then show "subseq (map nsid ns') (map nsid ns)" "\<forall>n'\<in>set ns'. \<exists>n\<in>set ns. node_kept f n n'"
    "k' + word_of_nat (length ns) = k + word_of_nat (length ns')" by blast+
qed

lemma add_swap: "\<lbrakk>k' + b = k1 + b'; k1 + a = k + a'\<rbrakk> \<Longrightarrow> k' + a + b = k + a' + (b' :: u32)"
  by (simp add: algebra_simps)

lemma filter_slots_spec:
  assumes "sidtab_filter_slots f tbl k a = (tbl', k', a')"
  shows "list_all2 (\<lambda>ch ch'. subseq (map nsid ch') (map nsid ch) \<and> (\<forall>n'\<in>set ch'. \<exists>n\<in>set ch. node_kept f n n')) tbl tbl' \<and>
    k' + word_of_nat (length (concat tbl)) = k + word_of_nat (length (concat tbl'))"
  using assms
proof (induction tbl arbitrary: k a tbl' k' a')
  case (Cons ch tbl)
  obtain ch' k1 a1 where n: "sidtab_filter_nodes f ch k a = (ch', k1, a1)" by (metis prod_cases3)
  obtain tbl1 where r: "sidtab_filter_slots f tbl k1 a1 = (tbl1, k', a')" "tbl' = ch' # tbl1"
    using Cons.prems n by (auto split: prod.splits)
  have "k' + word_of_nat (length ch) + word_of_nat (length (concat tbl)) = k + word_of_nat (length ch') + word_of_nat (length (concat tbl1))"
    by (rule add_swap) (use Cons.IH [OF r(1)] filter_nodes_spec(3) [OF n] in blast)+
  then show ?case using Cons.IH [OF r(1)] filter_nodes_spec(1,2) [OF n] r(2) by (simp add: add.assoc)
qed simp

lemma subseq_sorted: "\<lbrakk>subseq xs ys; sorted_wrt R ys\<rbrakk> \<Longrightarrow> sorted_wrt R xs"
proof (induction rule: list_emb.induct)
  case (list_emb_Cons2 x y xs ys)
  then show ?case by (auto dest: list_emb_set)
qed auto

lemma subseq_sorted_sids:
  assumes "subseq (map nsid ch') (map nsid ch)" "sorted_wrt (\<lambda>a b. nsid a < nsid b) (ch :: sidtab_node list)"
  shows "sorted_wrt (\<lambda>a b. nsid a < nsid b) (ch' :: sidtab_node list)"
proof -
  have "sorted_wrt (<) (map nsid ch)" using assms(2) by (simp add: sorted_wrt_map)
  then have "sorted_wrt (<) (map nsid ch')" using subseq_sorted [OF assms(1)] by blast
  then show ?thesis by (simp add: sorted_wrt_map)
qed

lemma remove_on_error_spec:
  assumes ok: "sidtab_ok s" and r: "sepol_sidtab_map_remove_on_error s f a = (s', a')"
  shows "sidtab_ok s'" "sid_map s' sid = Some c' \<Longrightarrow> \<exists>c a1 a2. sid_map s sid = Some c \<and> f sid c a1 = (0, c', a2)"
proof -
  obtain tbl where t: "shtable s = Some tbl" "sid_slots_ok tbl" "\<And>n. n \<in> set (concat tbl) \<Longrightarrow> 0 < nsid n \<and> nsid n < next_sid s"
      "snel s = word_of_nat (length (concat tbl))" "0 < next_sid s"
    using ok by (rule sidtab_okD) blast
  obtain tbl' k' where F: "sidtab_filter_slots f tbl (snel s) a = (tbl', k', a')" and s': "s' = s\<lparr>shtable := Some tbl', snel := k'\<rparr>"
    using r t(1) by (auto simp: sepol_sidtab_map_remove_on_error_def split: prod.splits)
  note S = filter_slots_spec [OF F]
  have len: "length tbl' = length tbl" using S by (auto simp: list_all2_lengthD)
  have slot: "subseq (map nsid (tbl' ! i)) (map nsid (tbl ! i))" "\<forall>n'\<in>set (tbl' ! i). \<exists>n\<in>set (tbl ! i). node_kept f n n'"
    if "i < length tbl" for i using S that by (auto simp: list_all2_conv_all_nth)
  have kept: "\<exists>n\<in>set (concat tbl). node_kept f n n'" if n': "n' \<in> set (concat tbl')" for n'
  proof -
    obtain i where i: "i < length tbl" "n' \<in> set (tbl' ! i)" using n' len unfolding set_concat_nth by auto
    from bspec [OF slot(2) [OF i(1)] i(2)] obtain n where n: "n \<in> set (tbl ! i)" "node_kept f n n'" by (rule bexE)
    have "n \<in> set (concat tbl)" using n(1) i(1) nth_mem by fastforce
    with n(2) show ?thesis by (rule bexI)
  qed
  have "\<forall>n'\<in>set (tbl' ! i). SIDTAB_HASH (nsid n') = i" if i: "i < length tbl" for i
    using slot(2) [OF i] t(2) i by (auto simp: sid_slots_ok_def node_kept_def)
  moreover have "sorted_wrt (\<lambda>a b. nsid a < nsid b) (tbl' ! i)" if i: "i < length tbl" for i
    using subseq_sorted_sids [OF slot(1) [OF i]] t(2) i by (simp add: sid_slots_ok_def)
  ultimately have slots: "sid_slots_ok tbl'" using t(2) len by (simp add: sid_slots_ok_def)
  have "\<forall>n'\<in>set (concat tbl'). 0 < nsid n' \<and> nsid n' < next_sid s"
    using kept t(3) by (fastforce simp: node_kept_def simp del: set_concat)
  moreover have "k' = word_of_nat (length (concat tbl'))" using S t(4) by (simp add: add.commute)
  ultimately show ok': "sidtab_ok s'" using slots t(5) by (simp add: s' sidtab_ok_def del: set_concat)
  show "\<exists>c a1 a2. sid_map s sid = Some c \<and> f sid c a1 = (0, c', a2)" if m: "sid_map s' sid = Some c'"
  proof -
    have "\<lparr>nsid = sid, ncontext = c'\<rparr> \<in> set (concat tbl')" using m sid_map_iff [OF ok', of tbl' sid c'] by (simp add: s' del: set_concat)
    from kept [OF this] obtain n where n: "n \<in> set (concat tbl)" "node_kept f n \<lparr>nsid = sid, ncontext = c'\<rparr>" by blast
    have "sid_map s sid = Some (ncontext n)" unfolding sid_map_iff [OF ok t(1)] using n by (auto simp: node_kept_def simp del: set_concat)
    with n(2) show ?thesis unfolding node_kept_def by auto
  qed
qed

subsection \<open>The converted contexts\<close>

text \<open>The same user, role and type by name, in the numbers of the new policy.\<close>

definition same_names :: "policydb \<Rightarrow> policydb \<Rightarrow> context_struct \<Rightarrow> context_struct \<Rightarrow> bool" where
  "same_names oldp newp c c' \<longleftrightarrow>
     map_option user_value (hashtab_search (table (p_users newp)) (name_of (p_user_val_to_name oldp) (c_user c))) = Some (c_user c') \<and>
     map_option role_value (hashtab_search (table (p_roles newp)) (name_of (p_role_val_to_name oldp) (c_role c))) = Some (c_role c') \<and>
     map_option type_value (hashtab_search (table (p_types newp)) (name_of (p_type_val_to_name oldp) (c_type c))) = Some (c_type c')"

lemma mls_convert_keeps:
  assumes "mls_convert_context oldp newp c h = (Inr c', h')"
  shows "c_user c' = c_user c" "c_role c' = c_role c" "c_type c' = c_type c"
  using assms by (auto simp: mls_convert_context_def hbind_def hret_def split: if_splits prod.splits sum.splits)

lemma convert_values_Inr:
  assumes "convert_values oldp newp c h = (Inr c', h')"
  shows "same_names oldp newp c c' \<and> context_is_valid newp c'"
proof -
  obtain u r t where d: "hashtab_search (table (p_users newp)) (name_of (p_user_val_to_name oldp) (c_user c)) = Some u"
      "hashtab_search (table (p_roles newp)) (name_of (p_role_val_to_name oldp) (c_role c)) = Some r"
      "hashtab_search (table (p_types newp)) (name_of (p_type_val_to_name oldp) (c_type c)) = Some t"
    using assms by (auto simp: convert_values_def hfail_def split: option.splits)
  let ?c = "c\<lparr>c_user := user_value u, c_role := role_value r, c_type := type_value t\<rparr>"
  obtain c1 h1 where m: "mls_convert_context oldp newp ?c h = (Inr c1, h1)"
      and v: "(if \<not> policydb_context_isvalid newp c1 then (case convert_context_handle_invalid_context of Inl e \<Rightarrow> hfail e | Inr _ \<Rightarrow> hret c1) else hret c1) h1 = (Inr c', h')"
    using assms d by (auto simp: convert_values_def hbind_def split: prod.splits sum.splits)
  have "policydb_context_isvalid newp c1" "c1 = c'"
    using v by (auto simp: convert_context_handle_invalid_context_def selinux_enforcing_def hfail_def hret_def split: if_splits)
  then show ?thesis using mls_convert_keeps [OF m] d by (simp add: same_names_def policydb_context_isvalid_def)
qed

lemma convert_context_0:
  assumes "convert_context oldp newp key c h = (0, c', h')"
  shows "same_names oldp newp c c' \<and> context_is_valid newp c'"
proof -
  have "rc_of e \<noteq> 0" for e by (cases e) (simp_all add: rc_of_def)
  then show ?thesis
    using assms convert_values_Inr by (auto simp: convert_context_def split: prod.splits sum.splits)
qed

subsection \<open>Installation\<close>

lemma new_sidtab_cases: "fst (new_sidtab h) = sidtab_empty \<or> shtable (fst (new_sidtab h)) = None"
  by (auto simp: new_sidtab_def sepol_sidtab_init_def sidtab_empty_def hbind_def hret_def hmalloc_def split: prod.splits sum.splits if_splits)

lemma set_keeps: "sid_map (sepol_sidtab_set a b) = sid_map b" "sidtab_ok (sepol_sidtab_set a b) = sidtab_ok b"
  unfolding sepol_sidtab_set_def sid_map_def sidtab_ok_def fun_eq_iff by (simp_all cong: option.case_cong)

lemma install_Inr:
  assumes ok: "sidtab_ok (sv_sidtab sv)" "sid_map (sv_sidtab sv) \<noteq> Map.empty" and r: "install_policy sv newp h = (Inr (), sv', h')"
  shows "fst (hashtab_map (table (p_classes (sv_policydb sv))) (validate_class newp) ()) = 0"
    "sv_policydb sv' = newp" "sidtab_ok (sv_sidtab sv')"
    "sid_map (sv_sidtab sv') sid = Some c' \<Longrightarrow>
       \<exists>c. sid_map (sv_sidtab sv) sid = Some c \<and> same_names (sv_policydb sv) newp c c' \<and> context_is_valid newp c'"
proof -
  obtain new h1 where n: "new_sidtab h = (new, h1)" by fastforce
  let ?st = "sepol_sidtab_shutdown (sv_sidtab sv)"
  obtain rc st new' h2 where m: "sepol_sidtab_map ?st clone_sid (new, h1) = (rc, st, new', h2)" by (metis prod_cases4)
  obtain new'' h3 where f: "sepol_sidtab_map_remove_on_error new' (convert_context (sv_policydb sv) newp) h2 = (new'', h3)" by fastforce
  show v: "fst (hashtab_map (table (p_classes (sv_policydb sv))) (validate_class newp) ()) = 0"
    using r n by (auto simp: install_policy_def Let_def split: if_splits)
  have s: "rc = 0" "sv_policydb sv' = newp" "sv_sidtab sv' = sepol_sidtab_set st new''"
    using r n v m f by (auto simp: install_policy_def Let_def split: if_splits)
  have st: "sidtab_ok ?st" "sid_map ?st = sid_map (sv_sidtab sv)" using ok by (simp_all add: shutdown_keeps)
  have "shtable new \<noteq> None" using clone_all(3) [OF st(1) m s(1)] ok(2) st(2) by simp
  then have "new = sidtab_empty" using new_sidtab_cases [of h] n by auto
  then have c: "sidtab_ok new'" "sid_map new' = sid_map (sv_sidtab sv)"
    using clone_all(2) [OF st(1) m s(1)] st(2) by (simp_all add: sidtab_empty)
  note R = remove_on_error_spec [OF c(1) f]
  show "sv_policydb sv' = newp" "sidtab_ok (sv_sidtab sv')" using s R(1) by (simp_all add: set_keeps)
  show "\<exists>c. sid_map (sv_sidtab sv) sid = Some c \<and> same_names (sv_policydb sv) newp c c' \<and> context_is_valid newp c'"
    if "sid_map (sv_sidtab sv') sid = Some c'"
    using R(2) [of sid c'] that s(3) c(2) convert_context_0 by (fastforce simp: set_keeps)
qed

lemma install_Inl:
  assumes ok: "sidtab_ok (sv_sidtab sv)" and r: "install_policy sv newp h = (Inl e, sv', h')"
  shows "e = EINVAL \<and> sv' = sv \<or> e = ENOMEM \<and> sv' = sv\<lparr>sv_sidtab := sepol_sidtab_shutdown (sv_sidtab sv)\<rparr>"
proof -
  obtain new h1 where n: "new_sidtab h = (new, h1)" by fastforce
  let ?st = "sepol_sidtab_shutdown (sv_sidtab sv)"
  obtain rc st new' h2 where m: "sepol_sidtab_map ?st clone_sid (new, h1) = (rc, st, new', h2)" by (metis prod_cases4)
  have "st = ?st" using clone_all(1) [OF _ m] ok by (simp add: shutdown_keeps)
  then show ?thesis using r n m by (auto simp: install_policy_def Let_def split: if_splits prod.splits)
qed

lemma shutdown_refuses:
  assumes "sidtab_ok s" "c \<notin> ran (sid_map s)"
  shows "sepol_sidtab_context_to_sid (sepol_sidtab_shutdown s) c h = (Inl ENOMEM, sepol_sidtab_shutdown s, h)"
proof -
  obtain tbl where t: "shtable s = Some tbl" using assms(1) by (rule sidtab_okD) blast
  have "sepol_sidtab_search_context tbl c = 0"
    using search_context_spec [OF assms(1) t, of c] assms(2) by (auto simp: ran_def split: if_splits)
  then show ?thesis using t by (simp add: sepol_sidtab_context_to_sid_def sepol_sidtab_shutdown_def)
qed

end
