(* ===== verification/Access_Props.thy ===== *)
theory Access_Props
  imports Policy_Props Services_Laws Ocontexts Reload_Laws
begin

section \<open>Properties of the security server\<close>

text \<open>
  Decisions, constraints, contexts of new objects, labels of objects and the change of policy,
  over the whole policy database. The sample policy has one class with one permission, one type
  and one rule, which grants the permission.
\<close>

subsection \<open>Samples\<close>

definition file_class :: class_datum where
  "file_class = \<lparr>class_value = 1, comdatum = None, permissions = one_slot [\<lparr>hkey = [0x72], hdatum = \<lparr>perm_value = 1\<rparr>\<rparr>],
     constraints = [], validatetrans = [], default_user = 0, default_role = 0, default_type = 0, default_range = 0\<rparr>"

definition own_attr :: ebitmap where
  "own_attr = \<lparr>node = [\<lparr>startbit = 0, emap = 1\<rparr>], highbit = 64\<rparr>"

definition av_policy :: policydb where
  "av_policy = full_policy\<lparr>p_classes := one_slot [\<lparr>hkey = [0x66], hdatum = file_class\<rparr>], class_val_to_struct := [Some file_class],
     te_avtab := \<lparr>ahtable = Some [[sample_rule]], anel = 1, nslot = 1, amask = 0, anext = 1\<rparr>, type_attr_map := [own_attr]\<rparr>"

definition one_sid :: sidtab where
  "one_sid = fst (snd (sepol_sidtab_context_to_sid sidtab_empty plain_context []))"

definition av_services :: services where
  "av_services = \<lparr>sv_policydb = av_policy, sv_sidtab = one_sid, latest_granting = 0\<rparr>"

lemma one_sid: "sidtab_ok one_sid" "sid_map one_sid = [1 \<mapsto> plain_context]"
proof -
  obtain sid h where r: "sepol_sidtab_context_to_sid sidtab_empty plain_context [] = (Inr sid, one_sid, h)"
    using request_answered [OF sidtab_empty(2), of plain_context] unfolding one_sid_def by (auto simp: sidtab_empty_def)
  have "plain_context \<notin> ran (sid_map sidtab_empty)" "next_sid sidtab_empty = 1"
    by (simp_all add: sidtab_empty(3)) (simp add: sidtab_empty_def)
  then show "sidtab_ok one_sid" "sid_map one_sid = [1 \<mapsto> plain_context]"
    using context_to_sid_spec [OF sidtab_empty(2) r] by (simp_all add: sidtab_empty(3))
qed

lemma sid_map_search: "sid_map s sid = Some c \<Longrightarrow> sepol_sidtab_search s sid = Some c"
  by (auto simp: sid_map_def sepol_sidtab_search_def split: option.splits)

lemma av_services: "sepol_sidtab_search (sv_sidtab av_services) 1 = Some plain_context" "sv_policydb av_services = av_policy"
  by (simp_all add: av_services_def sid_map_search one_sid(2))

lemma sample_table_ok: "avtab_ok \<lparr>ahtable = Some [[sample_rule]], anel = 1, nslot = 1, amask = 0, anext = 1\<rparr>" "avtab_ok empty_avtab"
proof -
  have "unat (avtab_hash k 0) = 0" for k by (simp add: avtab_hash_def)
  then show "avtab_ok \<lparr>ahtable = Some [[sample_rule]], anel = 1, nslot = 1, amask = 0, anext = 1\<rparr>" "avtab_ok empty_avtab"
    by (simp_all add: avtab_ok_def avtab_nodes_def sample_rule_def MAX_AVTAB_HASH_BUCKETS_def slots_sorted_def empty_avtab_def)
qed

lemma av_policy:
  "tables_ok av_policy" "value_ok (p_classes av_policy) 1" "val_get (class_val_to_struct av_policy) 1 = Some file_class"
  "attr_map_get av_policy 1 = Some own_attr" "val_get (type_val_to_struct av_policy) 1 = Some sample_type" "process_class av_policy = 2"
  using sample_table_ok
  by (simp_all add: tables_ok_def av_policy_def full_policy_def sample_policy_def value_ok_def val_get_def attr_map_get_def one_slot_def)

lemma av_policy_other [simp]:
  "attr_map_get (p\<lparr>type_val_to_struct := x\<rparr>) v = attr_map_get p v" "attr_map_get (p\<lparr>class_val_to_struct := y\<rparr>) v = attr_map_get p v"
  "bounding_contexts (p\<lparr>class_val_to_struct := y\<rparr>) s t = bounding_contexts p s t" "pair_grants (p\<lparr>class_val_to_struct := y\<rparr>) c b i j = pair_grants p c b i j"
  "tables_ok (p\<lparr>class_val_to_struct := y\<rparr>) = tables_ok p"
  by (simp_all add: attr_map_get_def bounding_contexts_def pair_grants_def tables_ok_def cong: option.case_cong if_cong)

lemma own_attr: "0 \<in> set (ebitmap_positive_bits own_attr)"
proof -
  have wf: "ebitmap_wf own_attr" and m: "0 \<in> ebitmap_bits own_attr"
    by (simp_all add: own_attr_def ebitmap_wf_def nodes_ok_def node_ok_def highbit_of_prev_def ebitmap_bits_def nodes_bits_def)
  have "0 \<in> set (map unat (ebitmap_positive_bits own_attr))"
    unfolding ebitmap_positive_bits_spec [OF wf] using m by simp
  then show ?thesis by (auto simp: unat_eq_0)
qed

lemma av_policy_grants: "pair_grants av_policy 1 0 0 0"
proof -
  have "sample_rule \<in> set (avtab_nodes (te_avtab av_policy))" by (simp add: av_policy_def avtab_nodes_def)
  then show ?thesis unfolding pair_grants_def by (intro disjI1 bexI) (auto simp: sample_rule_def av_key_def key_same_def)
qed

subsection \<open>Decisions\<close>

text \<open>(C1) With memory available, \<open>sepol_compute_av\<close> grants a permission exactly if it is permitted: a rule,
  or an enabled conditional rule, between an attribute of the source type and one of the target
  type allows it, every constraint of the class that covers it holds, a change of role that the
  permission needs is allowed, and the contexts with the bounding types have it, all the way up.\<close>

theorem access_decision:
  assumes "sepol_compute_av sv ssid tsid tclass requested h = Some (Inr avd, h')" "mem_ok h" "tables_ok (sv_policydb sv)"
    and "sepol_sidtab_search (sv_sidtab sv) ssid = Some s" "sepol_sidtab_search (sv_sidtab sv) tsid = Some t"
  shows "bit (allowed avd) b \<longleftrightarrow> permitted (sv_policydb sv) tclass b s t"
proof -
  obtain r where r: "context_struct_compute_av (sv_policydb sv) (latest_granting sv) s t tclass requested True h = Some (r, h')" "map_sum id fst r = Inr avd"
    using assms(1,4,5) by (auto simp: sepol_compute_av_def sepol_compute_av_reason_def)
  then obtain reason where "context_struct_compute_av (sv_policydb sv) (latest_granting sv) s t tclass requested True h = Some (Inr (avd, reason), h')"
    by (cases r) auto
  from compute_av_bits [OF this assms(2,3)] show ?thesis by simp
qed

lemma av_policy_unbounded: "bounding_contexts av_policy plain_context plain_context = Inr None"
  by (simp add: bounding_contexts_def plain_context_def av_policy sample_type_def)

lemma av_policy_direct: "\<exists>a h'. compute_av_direct av_policy seq plain_context plain_context 1 requested want h = (Inr a, h')"
  by (rule compute_av_direct_Inr [of _ _ file_class]) (simp_all add: av_policy plain_context_def file_class_def)

theorem access_decision_witness:
  "\<exists>avd h'. sepol_compute_av av_services 1 1 1 1 [] = Some (Inr avd, h') \<and> bit (allowed avd) 0"
proof -
  obtain avd rq rs h' where d: "compute_av_direct av_policy 0 plain_context plain_context 1 1 True [] = (Inr (avd, rq, rs), h')"
    using av_policy_direct by fastforce
  have "context_struct_compute_av av_policy 0 plain_context plain_context 1 1 True [] = Some (Inr (avd, rs), h')"
    by (subst context_struct_compute_av.simps) (simp add: d av_policy_unbounded)
  then have r: "sepol_compute_av av_services 1 1 1 1 [] = Some (Inr avd, h')"
    by (simp add: sepol_compute_av_def sepol_compute_av_reason_def av_services) (simp add: av_services_def)
  have "direct_permits av_policy 1 0 plain_context plain_context"
    unfolding direct_permits_def using own_attr av_policy_grants
    by (auto simp: av_policy plain_context_def file_class_def rbac_permits_def)
  then have "permitted av_policy 1 0 plain_context plain_context" using av_policy_unbounded by (rule permitted.unbounded)
  with access_decision [OF r] r show ?thesis by (simp add: av_services av_policy)
qed

text \<open>(C6) The computation of a decision returns if the bounds of the types have no cycle, that is, if
  the types can be ranked so that the bound of a type has a lower rank.\<close>

theorem access_decision_returns:
  assumes "\<And>ty d. \<lbrakk>val_get (type_val_to_struct p) ty = Some d; type_bounds d \<noteq> 0\<rbrakk> \<Longrightarrow> rank (type_bounds d) < (rank ty :: nat)"
  shows "\<exists>r h'. context_struct_compute_av p seq s t tclass requested want h = Some (r, h')"
proof -
  have "\<exists>r. context_struct_compute_av p seq s t tclass requested want h = Some r" by (rule compute_av_returns [where rank = rank]) (rule assms)
  then show ?thesis by auto
qed

definition child_type :: type_datum where
  "child_type = \<lparr>type_value = 2, primary = 1, flavor = 0, type_types = ebitmap_init, type_flags = 0, type_bounds = 1\<rparr>"

definition bounds_policy :: policydb where
  "bounds_policy = av_policy\<lparr>type_val_to_struct := [Some sample_type, Some child_type], type_attr_map := [own_attr, own_attr]\<rparr>"

theorem access_decision_returns_witness:
  "\<exists>r h'. context_struct_compute_av bounds_policy 0 (plain_context\<lparr>c_type := 2\<rparr>) plain_context 1 1 True [] = Some (r, h')"
proof (rule access_decision_returns [of _ unat])
  fix ty d assume d: "val_get (type_val_to_struct bounds_policy) ty = Some d" "type_bounds d \<noteq> 0"
  then have "unat (ty - 1) = 1 \<and> d = child_type"
    by (auto simp: val_get_def bounds_policy_def sample_type_def less_Suc_eq split: if_splits)
  then have "ty - 1 = 1" "d = child_type" by (simp_all add: word_unat_eq_iff)
  then have "ty = 2" by (simp add: diff_eq_eq)
  then show "unat (type_bounds d) < unat ty" using \<open>d = child_type\<close> by (simp add: child_type_def)
qed

text \<open>(C7) If a type is its own bound, the decision for a source of that type is never made: the
  computation does not return, whatever the memory, for every target whose type has no bound
  or is its own bound too.\<close>

theorem access_decision_self_bound:
  assumes "value_ok (p_classes p) (ucast tclass)" "val_get (class_val_to_struct p) (ucast tclass) = Some cl"
    and "attr_map_get p (c_type s) \<noteq> None" "attr_map_get p (c_type t) \<noteq> None"
    and "list_all (\<lambda>con. cexpr_value p s t None (cexpr con) \<noteq> Inl EFAULT) (constraints cl)"
    and "val_get (type_val_to_struct p) (c_type s) = Some sd" "type_bounds sd = c_type s" "c_type s \<noteq> 0"
    and "val_get (type_val_to_struct p) (c_type t) = Some td" "type_bounds td = 0 \<or> type_bounds td = c_type t"
  shows "context_struct_compute_av p seq s t tclass requested want h = None"
proof (rule compute_av_cycle [of s t "{(s, t)}"])
  show "\<exists>s' t'. bounding_contexts p u v = Inr (Some (s', t')) \<and> (s', t') \<in> {(s, t)}" if "(u, v) \<in> {(s, t)}" for u v
    using that assms(6-10) by (auto simp: bounding_contexts_def)
  show "\<exists>a h'. compute_av_direct p seq u v tclass rq w k = (Inr a, h')" if "(u, v) \<in> {(s, t)}" for u v rq w k
    using that compute_av_direct_Inr [OF assms(1-4)] assms(5) by (simp add: list_all_iff)
qed simp

definition self_policy :: policydb where
  "self_policy = av_policy\<lparr>type_val_to_struct := [Some (sample_type\<lparr>type_bounds := 1\<rparr>)]\<rparr>"

theorem access_decision_self_bound_witness:
  "context_struct_compute_av self_policy 0 plain_context plain_context 1 1 True [] = None"
proof -
  have "val_get (type_val_to_struct self_policy) 1 = Some (sample_type\<lparr>type_bounds := 1\<rparr>)"
      "value_ok (p_classes self_policy) 1" "val_get (class_val_to_struct self_policy) 1 = Some file_class" "attr_map_get self_policy 1 = Some own_attr"
    using av_policy by (simp_all add: self_policy_def) (simp add: val_get_def)
  then show ?thesis
    by (intro access_decision_self_bound [where cl = file_class and sd = "sample_type\<lparr>type_bounds := 1\<rparr>" and td = "sample_type\<lparr>type_bounds := 1\<rparr>"])
      (simp_all add: plain_context_def file_class_def)
qed

subsection \<open>Constraints\<close>

text \<open>(C2) For an expression of at most five stack cells whose comparisons are well-formed, the stack
  evaluator of constraints gives the value of the expression tree, with memory available.\<close>

theorem constraint_meaning:
  assumes "cexpr con = crpn ct" "\<And>e. e \<in> catoms ct \<Longrightarrow> atom_ok p s t x e" "cdepth ct \<le> CEXPR_MAXDEPTH" "mem_ok h"
  shows "fst (constraint_expr_eval_reason p s t x con h) = Inr (of_bool (csem (atom_val p s t x) ct))"
proof -
  obtain h' where e: "constraint_expr_eval_reason p s t x con h = (cexpr_value p s t x (cexpr con), h')"
    using eval_reason_mem [OF assms(4)] by blast
  show ?thesis using pure_crpn [of ct p s t x "[]" "[]"] assms(2,3) by (simp add: e assms(1) cexpr_value_def)
qed

definition same_user :: constraint_expr where
  "same_user = \<lparr>expr_type = CEXPR_ATTR, attr = CEXPR_USER, cop = CEXPR_EQ, names = ebitmap_init, type_names = type_set_init\<rparr>"

theorem constraint_meaning_witness:
  "fst (constraint_expr_eval_reason av_policy plain_context plain_context None \<lparr>cpermissions = 1, cexpr = crpn (CNot (CAtom same_user))\<rparr> []) = Inr 0"
proof -
  have a: "atom_act av_policy plain_context plain_context None same_user = Push True"
    by (simp add: atom_act_def same_user_def cexpr_attr_def cexpr_values_def)
  then have "atom_ok av_policy plain_context plain_context None same_user" by (simp add: atom_ok_def) (simp add: same_user_def)
  then show ?thesis
    using constraint_meaning [of "\<lparr>cpermissions = 1, cexpr = crpn (CNot (CAtom same_user))\<rparr>" "CNot (CAtom same_user)" av_policy plain_context plain_context None "[]"] a
    by (simp add: atom_val_def CEXPR_MAXDEPTH_def)
qed

text \<open>(C8) Without memory the constraints are not enforced: if the allocations of the evaluator fail, the
  decision for types without bounds has every permission the rules and the changes of role
  grant, whatever the constraints of the class say.\<close>

theorem constraints_fail_open:
  assumes "value_ok (p_classes p) (ucast tclass)" "val_get (class_val_to_struct p) (ucast tclass) = Some cl"
    and "attr_map_get p (c_type s) = Some sattr" "attr_map_get p (c_type t) = Some tattr"
    and "bounding_contexts p s t = Inr None" "tables_ok p" "length (constraints cl) \<le> n"
  shows "\<exists>avd reason h'. context_struct_compute_av p seq s t tclass requested want (replicate n False) = Some (Inr (avd, reason), h') \<and>
    (\<forall>b. bit (allowed avd) b \<longleftrightarrow> rbac_permits p s t tclass b \<and>
      (\<exists>i\<in>set (ebitmap_positive_bits sattr). \<exists>j\<in>set (ebitmap_positive_bits tattr). pair_grants p tclass b i j))"
  by (rule compute_av_no_memory [OF assms])

definition never :: constraint_node where
  "never = \<lparr>cpermissions = 1, cexpr = crpn (CNot (CAtom same_user))\<rparr>"

definition strict_class :: class_datum where
  "strict_class = file_class\<lparr>constraints := [never]\<rparr>"

definition strict_policy :: policydb where
  "strict_policy = av_policy\<lparr>class_val_to_struct := [Some strict_class]\<rparr>"

theorem constraints_fail_open_witness:
  "\<exists>avd reason h'. context_struct_compute_av strict_policy 0 plain_context plain_context 1 1 True [False] = Some (Inr (avd, reason), h') \<and>
     bit (allowed avd) 0"
proof -
  have p: "tables_ok strict_policy" "value_ok (p_classes strict_policy) 1" "attr_map_get strict_policy 1 = Some own_attr"
    "val_get (class_val_to_struct strict_policy) 1 = Some strict_class" "process_class strict_policy = 2"
    "bounding_contexts strict_policy plain_context plain_context = Inr None" "pair_grants strict_policy 1 0 0 0"
    using av_policy av_policy_unbounded av_policy_grants
    by (simp_all add: strict_policy_def val_get_def [of "[_]"])
  have "\<exists>avd reason h'. context_struct_compute_av strict_policy 0 plain_context plain_context 1 1 True (replicate 1 False) = Some (Inr (avd, reason), h') \<and>
     (\<forall>b. bit (allowed avd) b \<longleftrightarrow> rbac_permits strict_policy plain_context plain_context 1 b \<and>
      (\<exists>i\<in>set (ebitmap_positive_bits own_attr). \<exists>j\<in>set (ebitmap_positive_bits own_attr). pair_grants strict_policy 1 b i j))"
    by (rule constraints_fail_open [where cl = strict_class]) (simp_all add: p plain_context_def [symmetric], simp_all add: plain_context_def p strict_class_def)
  moreover have "rbac_permits strict_policy plain_context plain_context 1 0" by (simp add: rbac_permits_def p)
  ultimately show ?thesis using own_attr p(7) by fastforce
qed

subsection \<open>Contexts of new objects\<close>

text \<open>(C4) The identifier \<open>sepol_compute_sid\<close> returns stands for a context that the policy accepts, with the
  user, role and type that the defaults of the class and the transition rules give; the policy
  and the identifiers in use are unchanged.\<close>

theorem compute_sid_accepted:
  assumes "sepol_compute_sid sv ssid tsid tclass spec h = (Inr sid, sv', h')" "sidtab_ok (sv_sidtab sv)"
    and "sepol_sidtab_search (sv_sidtab sv) ssid = Some s" "sepol_sidtab_search (sv_sidtab sv) tsid = Some t"
  shows "sv_policydb sv' = sv_policydb sv \<and> sidtab_ok (sv_sidtab sv') \<and> sid_map (sv_sidtab sv) \<subseteq>\<^sub>m sid_map (sv_sidtab sv') \<and>
    (\<exists>c. sid_map (sv_sidtab sv') sid = Some c \<and> context_is_valid (sv_policydb sv) c \<and>
       c = (new_context (sv_policydb sv) s t tclass spec)\<lparr>c_range := c_range c\<rparr>)"
proof -
  let ?p = "sv_policydb sv"
  obtain c h1 st where c: "mls_compute_sid ?p s t tclass spec (new_context ?p s t tclass spec) h = (Inr c, h1)" "policydb_context_isvalid ?p c"
      and r: "sepol_sidtab_context_to_sid (sv_sidtab sv) c h1 = (Inr sid, st, h')" and sv': "sv' = sv\<lparr>sv_sidtab := st\<rparr>"
    using assms(1,3,4)
    by (auto simp: sepol_compute_sid_def Let_def compute_sid_handle_invalid_context_def selinux_enforcing_def
        split: prod.splits sum.splits if_splits)
  show ?thesis
    using request_spec [OF assms(2) r] mls_compute_sid_names [OF c(1)] c(2) by (auto simp: sv' policydb_context_isvalid_def)
qed

theorem compute_sid_accepted_witness:
  "\<exists>sid sv' h' c. sepol_transition_sid av_services 1 1 1 [] = (Inr sid, sv', h') \<and> sid_map (sv_sidtab sv') sid = Some c \<and>
     context_is_valid av_policy c \<and> c_type c = 1"
proof -
  have "fst (sepol_transition_sid av_services 1 1 1 []) = Inr 1" by code_simp
  then obtain sv' h' where r: "sepol_transition_sid av_services 1 1 1 [] = (Inr 1, sv', h')" by (metis surjective_pairing)
  have "new_context av_policy plain_context plain_context 1 (ucast AVTAB_TRANSITION) = plain_context\<lparr>c_range := c_range context_init\<rparr>"
    by code_simp
  with compute_sid_accepted [OF r [unfolded sepol_transition_sid_def]] r show ?thesis
    by (auto simp: av_services) (simp add: av_services_def one_sid, metis context_struct.select_convs(3) context_struct.surjective context_struct.update_convs(4) plain_context_def)
qed

subsection \<open>Labels\<close>

text \<open>(C5) The identifier of a port stands for the context of the first entry for its protocol whose range
  has the port, and is the initial identifier for ports if there is none. The lookup keeps the
  identifiers in use and the invariant of the entries, and asking again gives the same
  identifier without any change, whatever the memory.\<close>

theorem port_label:
  assumes "labels_ok sv" "sepol_port_sid sv protocol pt h = (Inr sid, sv', h')"
  shows "(case find (port_match protocol pt) (ocontexts (sv_policydb sv) ! OCON_PORT) of
       None \<Rightarrow> sid = SECINITSID_PORT | Some c \<Rightarrow> sid_map (sv_sidtab sv') sid = Some (oc_context0 c)) \<and>
    labels_ok sv' \<and> sid_map (sv_sidtab sv) \<subseteq>\<^sub>m sid_map (sv_sidtab sv') \<and> sepol_port_sid sv' protocol pt h2 = (Inr sid, sv', h2)"
  using port.look_labels [OF assms] port.look_keeps [OF assms] port.look_again [OF assms, of h2] unfolding first_entry_def by blast

definition http_port :: ocontext where
  "http_port = \<lparr>oc_u = U_port 6 80 443, oc_v = 0, oc_context0 = plain_context, oc_context1 = context_init, oc_sid0 = 0, oc_sid1 = 0\<rparr>"

definition port_services :: services where
  "port_services = av_services\<lparr>sv_policydb := av_policy\<lparr>ocontexts := [[], [], [http_port], [], [], [], [], [], []]\<rparr>\<rparr>"

theorem port_label_witness:
  "\<exists>sid sv' h'. sepol_port_sid port_services 6 80 [] = (Inr sid, sv', h') \<and> sid_map (sv_sidtab sv') sid = Some plain_context"
proof -
  have "labels_ok port_services"
    using one_sid(1)
    by (simp add: labels_ok_def port_services_def av_services_def entry_ok_def http_port_def OCON_NUM_def)
      (simp add: av_policy_def full_policy_def sample_policy_def)
  moreover have "fst (sepol_port_sid port_services 6 80 []) = Inr 1" by code_simp
  then obtain sv' h' where r: "sepol_port_sid port_services 6 80 [] = (Inr 1, sv', h')" by (metis surjective_pairing)
  moreover have "find (port_match 6 80) (ocontexts (sv_policydb port_services) ! OCON_PORT) = Some http_port" by code_simp
  ultimately show ?thesis using port_label [of port_services 6 80 "[]" 1 sv' h'] by (simp add: http_port_def)
qed

text \<open>(C9) \<open>sepol_fs_use\<close> reports success without storing an identifier: for a file system without a
  labelling rule whose root has an entry in the list of generated file systems, a failure to
  number the context of that entry is dropped, with the behaviour of no labelling.\<close>

theorem fs_use_drops_error:
  assumes "find (\<lambda>c. strcmp fstype (oc_name c) = 0) (ocontexts (sv_policydb sv) ! OCON_FSUSE) = None"
    and "genfs_list (sv_policydb sv) = pre @ g # post" "list_all (\<lambda>g. strcmp fstype (genfs_fstype g) > 0) pre" "genfs_fstype g = fstype"
    and "find (genfs_match [47] (dir_class (sv_policydb sv))) (genfs_head g) = Some c" "oc_sid0 c = 0"
    and "sepol_sidtab_context_to_sid (sv_sidtab sv) (oc_context0 c) h = (Inl e, st, h')"
  shows "fst (sepol_fs_use sv fstype h) = (None, SECURITY_FS_USE_NONE, None)"
proof -
  let ?cs = "genfs_head g"
  let ?i = "oc_pos (genfs_match [47] (dir_class (sv_policydb sv))) ?cs"
  have self: "strcmp fstype fstype = 0" by (simp add: strcmp_eq)
  have k: "length (takeWhile (\<lambda>g. strcmp fstype (genfs_fstype g) > 0) (genfs_list (sv_policydb sv))) = length pre"
    using assms(2-4) self by (simp add: list_all_iff takeWhile_append)
  have i: "?i < length ?cs" "?cs ! ?i = c" using assms(5) by (auto simp: oc_pos_find split: if_splits)
  have "fst (sepol_genfs_sid sv fstype [47] (dir_class (sv_policydb sv)) h) = (Some e, None)"
    using assms(2,4,6,7) self i by (simp add: sepol_genfs_sid_def Let_def k [unfolded assms(2)] entry_sid_def)
  moreover have "\<not> oc_pos (\<lambda>c. strcmp fstype (oc_name c) = 0) (ocontexts (sv_policydb sv) ! OCON_FSUSE) < length (ocontexts (sv_policydb sv) ! OCON_FSUSE)"
    using assms(1) by (simp add: oc_pos_find split: if_splits)
  ultimately show ?thesis by (auto simp: sepol_fs_use_def Let_def split: prod.splits)
qed

definition proc_root :: ocontext where
  "proc_root = \<lparr>oc_u = U_name [47], oc_v = 0, oc_context0 = plain_context, oc_context1 = context_init, oc_sid0 = 0, oc_sid1 = 0\<rparr>"

definition proc_services :: services where
  "proc_services = \<lparr>sv_policydb = av_policy\<lparr>genfs_list := [\<lparr>genfs_fstype = [0x70], genfs_head = [proc_root]\<rparr>]\<rparr>,
     sv_sidtab = sidtab_empty, latest_granting = 0\<rparr>"

theorem fs_use_drops_error_witness: "fst (sepol_fs_use proc_services [0x70] [False]) = (None, SECURITY_FS_USE_NONE, None)"
proof -
  have "fst (sepol_sidtab_context_to_sid (sv_sidtab proc_services) (oc_context0 proc_root) [False]) = Inl ENOMEM" by code_simp
  then obtain st h' where r: "sepol_sidtab_context_to_sid (sv_sidtab proc_services) (oc_context0 proc_root) [False] = (Inl ENOMEM, st, h')"
    by (metis surjective_pairing)
  have f: "find (\<lambda>c. strcmp [0x70] (oc_name c) = 0) (ocontexts (sv_policydb proc_services) ! OCON_FSUSE) = None"
    "find (genfs_match [47] (dir_class (sv_policydb proc_services))) [proc_root] = Some proc_root" by code_simp+
  show ?thesis
    by (rule fs_use_drops_error [OF f(1) _ _ _ _ _ r, where pre = "[]" and post = "[]" and g = "\<lparr>genfs_fstype = [0x70], genfs_head = [proc_root]\<rparr>"])
      (use f(2) in \<open>simp_all add: proc_services_def proc_root_def\<close>)
qed

subsection \<open>A new policy\<close>

text \<open>(C3) After a successful change of policy every class of the old policy is in the new one with the
  same value, and so is every permission of the class and of its common; and an identifier that
  still has a context had one before, and its new context has the same user, role and type by
  name and is accepted by the new policy.\<close>

theorem reload_keeps_meaning:
  assumes "install_policy sv newp h = (Inr (), sv', h')" "sidtab_ok (sv_sidtab sv)" "sid_map (sv_sidtab sv) \<noteq> Map.empty"
    and "classes_ok (sv_policydb sv)" "hashtab_search (table (p_classes (sv_policydb sv))) name = Some d"
    and "sid_map (sv_sidtab sv') sid = Some c'"
  shows "sv_policydb sv' = newp \<and> sidtab_ok (sv_sidtab sv') \<and>
    (\<exists>d2. hashtab_search (table (p_classes newp)) name = Some d2 \<and> class_value d2 = class_value d \<and>
       same_perms (permissions d) (permissions d2) \<and>
       rel_option (\<lambda>com com2. same_perms (common_permissions com) (common_permissions com2)) (comdatum d) (comdatum d2)) \<and>
    (\<exists>c. sid_map (sv_sidtab sv) sid = Some c \<and> same_names (sv_policydb sv) newp c c' \<and> context_is_valid newp c')"
  using install_Inr [OF assms(2,3,1)] classes_same [OF _ assms(4,5)] assms(6) by blast

lemma one_slot_ok: "symbols_ok (one_slot [n])"
  unfolding symbols_ok_def one_slot_def table_ok_def hashtab_ok_def slots_ok_def pow2_size_def
  by (auto simp: symhash_def chain_sorted_def intro: exI [of _ 0])

lemma av_classes_ok: "classes_ok av_policy"
proof -
  have c: "p_classes av_policy = one_slot [\<lparr>hkey = [0x66], hdatum = file_class\<rparr>]" by (simp add: av_policy_def)
  have f: "symbols_ok (permissions file_class)" "comdatum file_class = None" by (simp_all add: file_class_def one_slot_ok)
  have "d = file_class" if "hashtab_search (table (p_classes av_policy)) name = Some d" for name d
    using that by (auto simp: c one_slot_def hashtab_search_def Let_def symhash_def chain_from_def split: if_splits)
  then show ?thesis unfolding classes_ok_def using f by (fastforce simp: c one_slot_ok)
qed

theorem reload_keeps_meaning_witness:
  "\<exists>sv' h'. install_policy av_services av_policy [] = (Inr (), sv', h') \<and> sid_map (sv_sidtab sv') 1 = Some plain_context \<and>
     same_names av_policy av_policy plain_context plain_context"
proof -
  have "fst (install_policy av_services av_policy []) = Inr ()"
    "sid_map (sv_sidtab (fst (snd (install_policy av_services av_policy [])))) 1 = Some plain_context" by code_simp+
  then obtain sv' h' where r: "install_policy av_services av_policy [] = (Inr (), sv', h')" "sid_map (sv_sidtab sv') 1 = Some plain_context"
    by (cases "install_policy av_services av_policy []") auto
  have "hashtab_search (table (p_classes av_policy)) [0x66] = Some file_class" by (simp add: av_policy_def one_slot_search symcmp_def)
  from reload_keeps_meaning [OF r(1) _ _ _ _ r(2), of "[0x66]" file_class] this r show ?thesis
    by (auto simp: av_services av_classes_ok) (auto simp: av_services_def one_sid)
qed

text \<open>(C10) A change of policy that fails leaves the policy and the identifiers in use as they were; but
  if it fails for want of memory, the table stays shut down, and from then on every context
  that has no identifier is refused one, however much memory there is.\<close>

theorem reload_failure_shuts_down:
  assumes "install_policy sv newp h = (Inl e, sv', h')" "sidtab_ok (sv_sidtab sv)" "c \<notin> ran (sid_map (sv_sidtab sv))"
  shows "sv_policydb sv' = sv_policydb sv \<and> sid_map (sv_sidtab sv') = sid_map (sv_sidtab sv) \<and>
    (e = EINVAL \<and> sv' = sv \<or>
     e = ENOMEM \<and> (\<forall>h2. sepol_sidtab_context_to_sid (sv_sidtab sv') c h2 = (Inl ENOMEM, sv_sidtab sv', h2)))"
  using install_Inl [OF assms(2,1)] shutdown_refuses [OF assms(2,3)] by (auto simp: shutdown_keeps)

theorem reload_failure_shuts_down_witness:
  "\<exists>sv' h'. install_policy av_services av_policy [False] = (Inl ENOMEM, sv', h') \<and>
     fst (sepol_sidtab_context_to_sid (sv_sidtab sv') context_init []) = Inl ENOMEM"
proof -
  have "fst (install_policy av_services av_policy [False]) = Inl ENOMEM" by code_simp
  then obtain sv' h' where r: "install_policy av_services av_policy [False] = (Inl ENOMEM, sv', h')" by (metis surjective_pairing)
  have "context_init \<noteq> plain_context" by code_simp
  then have "context_init \<notin> ran (sid_map (sv_sidtab av_services))" by (simp add: av_services_def one_sid(2))
  from reload_failure_shuts_down [OF r _ this] one_sid(1) r show ?thesis by (auto simp: av_services_def)
qed

end
