(* ===== verification/Symbols_Read.thy ===== *)
theory Symbols_Read
  imports Conditional Security_Context Constraint Mls
begin

section \<open>Reading the symbol tables\<close>

text \<open>
  libsepol/src/policydb.c, the functions that read one symbol each: permissions, commons, classes
  with their constraints, roles, types, users, sensitivities and categories, of kernel policies
  and of modules. Every one returns the table with the symbol added, or fails with -1.
\<close>

abbreviation (input) POLICYDB_VERSION_VALIDATETRANS :: u32 where "POLICYDB_VERSION_VALIDATETRANS \<equiv> 19"
abbreviation (input) POLICYDB_VERSION_MLS :: u32 where "POLICYDB_VERSION_MLS \<equiv> 19"
abbreviation (input) POLICYDB_VERSION_BOUNDARY :: u32 where "POLICYDB_VERSION_BOUNDARY \<equiv> 24"
abbreviation (input) POLICYDB_VERSION_NEW_OBJECT_DEFAULTS :: u32 where "POLICYDB_VERSION_NEW_OBJECT_DEFAULTS \<equiv> 27"
abbreviation (input) POLICYDB_VERSION_DEFAULT_TYPE :: u32 where "POLICYDB_VERSION_DEFAULT_TYPE \<equiv> 28"
abbreviation (input) POLICYDB_VERSION_CONSTRAINT_NAMES :: u32 where "POLICYDB_VERSION_CONSTRAINT_NAMES \<equiv> 29"
abbreviation (input) MOD_POLICYDB_VERSION_VALIDATETRANS :: u32 where "MOD_POLICYDB_VERSION_VALIDATETRANS \<equiv> 5"
abbreviation (input) MOD_POLICYDB_VERSION_MLS :: u32 where "MOD_POLICYDB_VERSION_MLS \<equiv> 5"
abbreviation (input) MOD_POLICYDB_VERSION_MLS_USERS :: u32 where "MOD_POLICYDB_VERSION_MLS_USERS \<equiv> 6"
abbreviation (input) MOD_POLICYDB_VERSION_PERMISSIVE :: u32 where "MOD_POLICYDB_VERSION_PERMISSIVE \<equiv> 8"
abbreviation (input) MOD_POLICYDB_VERSION_BOUNDARY :: u32 where "MOD_POLICYDB_VERSION_BOUNDARY \<equiv> 9"
abbreviation (input) MOD_POLICYDB_VERSION_BOUNDARY_ALIAS :: u32 where "MOD_POLICYDB_VERSION_BOUNDARY_ALIAS \<equiv> 10"
abbreviation (input) MOD_POLICYDB_VERSION_ROLEATTRIB :: u32 where "MOD_POLICYDB_VERSION_ROLEATTRIB \<equiv> 13"
abbreviation (input) MOD_POLICYDB_VERSION_NEW_OBJECT_DEFAULTS :: u32 where "MOD_POLICYDB_VERSION_NEW_OBJECT_DEFAULTS \<equiv> 15"
abbreviation (input) MOD_POLICYDB_VERSION_DEFAULT_TYPE :: u32 where "MOD_POLICYDB_VERSION_DEFAULT_TYPE \<equiv> 16"
abbreviation (input) TYPEDATUM_PROPERTY_PRIMARY :: u32 where "TYPEDATUM_PROPERTY_PRIMARY \<equiv> 1"
abbreviation (input) TYPEDATUM_PROPERTY_ATTRIBUTE :: u32 where "TYPEDATUM_PROPERTY_ATTRIBUTE \<equiv> 2"
abbreviation (input) TYPEDATUM_PROPERTY_ALIAS :: u32 where "TYPEDATUM_PROPERTY_ALIAS \<equiv> 4"
abbreviation (input) TYPEDATUM_PROPERTY_PERMISSIVE :: u32 where "TYPEDATUM_PROPERTY_PERMISSIVE \<equiv> 8"
abbreviation (input) TYPE_ALIAS :: u32 where "TYPE_ALIAS \<equiv> 2"
abbreviation (input) TYPE_FLAGS_PERMISSIVE :: u32 where "TYPE_FLAGS_PERMISSIVE \<equiv> 1"
abbreviation (input) PERM_SYMTAB_SIZE :: u32 where "PERM_SYMTAB_SIZE \<equiv> 32"
abbreviation (input) OBJECT_R :: cstring where "OBJECT_R \<equiv> [0x6F, 0x62, 0x6A, 0x65, 0x63, 0x74, 0x5F, 0x72]"

definition policydb_has_boundary_feature :: "policydb \<Rightarrow> bool" where
  "policydb_has_boundary_feature p \<longleftrightarrow>
     policy_type p = POLICY_KERN \<and> policyvers p \<ge> POLICYDB_VERSION_BOUNDARY \<or>
     policy_type p \<noteq> POLICY_KERN \<and> policyvers p \<ge> MOD_POLICYDB_VERSION_BOUNDARY"

definition value_isvalid :: "u32 \<Rightarrow> u32 \<Rightarrow> bool" where
  "value_isvalid v n \<longleftrightarrow> \<not> (v = 0 \<or> v > n)"

text \<open>The macro compares at the type of its argument: for a \<open>size_t\<close> that was read as 32 bits the
  second comparison never holds.\<close>

definition zero_or_saturated :: "'a::len word \<Rightarrow> bool" where
  "zero_or_saturated x \<longleftrightarrow> x = 0 \<or> x = - 1"

subsection \<open>Building blocks\<close>

text \<open>A name of \<open>len\<close> bytes, which a zero byte may cut short.\<close>

definition name_read :: "u32 \<Rightarrow> cstring rd" where
  "name_read len = rbind (rmalloc EFAIL) (\<lambda>_. rbind (next_entry (unat len)) (\<lambda>b. rret (takeWhile (\<lambda>c. c \<noteq> 0) b)))"

definition rhp :: "'a hp \<Rightarrow> 'a rd" where
  "rhp m s = (case m (fst s) of (r, h) \<Rightarrow> (r, h, snd s))"

definition rinsert :: "('k, 'd) hashtab \<Rightarrow> 'k \<Rightarrow> 'd \<Rightarrow> ('k, 'd) hashtab rd" where
  "rinsert t key d s =
     (case hashtab_insert (fst s) t key d of
        (Inl e, _, hp) \<Rightarrow> (Inl e, hp, snd s)
      | (Inr _, t', hp) \<Rightarrow> (Inr t', hp, snd s))"

subsection \<open>Levels and contexts\<close>

text \<open>With no items the buffer still holds their number, 0.\<close>

definition mls_read_range_helper :: "mls_range rd" where
  "mls_read_range_helper =
     rbind next_u32 (\<lambda>items.
       if items > 2 then rfail EINVAL
       else rbind (next_words (unat items)) (\<lambda>buf.
         let s0 = (if items = 0 then 0 else buf ! 0); s1 = (if items > 1 then buf ! 1 else s0) in
         rbind ebitmap_read (\<lambda>c0.
         rbind (if items > 1 then ebitmap_read else rhp (\<lambda>h. ebitmap_cpy h c0)) (\<lambda>c1.
         rret \<lparr>level0 = \<lparr>sens = s0, cat = c0\<rparr>, level1 = \<lparr>sens = s1, cat = c1\<rparr>\<rparr>))))"

text \<open>The list of categories is built from its end.\<close>

definition mls_read_semantic_level_helper :: "mls_semantic_level rd" where
  "mls_read_semantic_level_helper =
     rerr EINVAL
       (rbind (next_words 2) (\<lambda>buf.
        rtimes (unat (buf ! 1))
          (\<lambda>l. rbind (rmalloc ENOMEM) (\<lambda>_. rbind (next_words 2) (\<lambda>b.
             rret (l\<lparr>scat := \<lparr>cat_low = b ! 0, cat_high = b ! 1\<rparr> # scat l\<rparr>))))
          (mls_semantic_level_init\<lparr>ssens := buf ! 0\<rparr>)))"

definition mls_read_semantic_range_helper :: "mls_semantic_range rd" where
  "mls_read_semantic_range_helper =
     rbind mls_read_semantic_level_helper (\<lambda>l0. rbind mls_read_semantic_level_helper (\<lambda>l1.
       rret \<lparr>slevel0 = l0, slevel1 = l1\<rparr>))"

text \<open>The walk over the bits: \<open>open_cat\<close> is the first category of the list while the flag is set.\<close>

fun semantic_cats :: "(u32 \<times> bool) list \<Rightarrow> bool \<Rightarrow> mls_semantic_cat list \<Rightarrow> (bool \<times> mls_semantic_cat list) hp" where
  "semantic_cats [] op cs = hret (op, cs)"
| "semantic_cats ((i, b) # bs) op cs =
     (if b then
        (if op then semantic_cats bs op cs
         else hbind (hmalloc EFAIL) (\<lambda>_. semantic_cats bs True (mls_semantic_cat_init\<lparr>cat_low := i + 1\<rparr> # cs)))
      else
        (if \<not> op then semantic_cats bs op cs
         else semantic_cats bs False ((hd cs)\<lparr>cat_high := i\<rparr> # tl cs)))"

definition mls_level_to_semantic :: "mls_level \<Rightarrow> mls_semantic_level hp" where
  "mls_level_to_semantic l =
     (case ebitmap_each_bit (cat l) of (bs, i) \<Rightarrow>
        hbind (semantic_cats bs False []) (\<lambda>(op, cs).
        hret \<lparr>ssens = sens l, scat = (if op then (hd cs)\<lparr>cat_high := i\<rparr> # tl cs else cs)\<rparr>))"

definition mls_range_to_semantic :: "mls_range \<Rightarrow> mls_semantic_range hp" where
  "mls_range_to_semantic r =
     hbind (mls_level_to_semantic (level0 r)) (\<lambda>l0. hbind (mls_level_to_semantic (level1 r)) (\<lambda>l1.
       hret \<lparr>slevel0 = l0, slevel1 = l1\<rparr>))"

definition context_read_and_validate :: "policydb \<Rightarrow> context_struct rd" where
  "context_read_and_validate p =
     rerr EFAIL
       (rbind (next_words 3) (\<lambda>buf.
        let c = context_init\<lparr>c_user := buf ! 0, c_role := buf ! 1, c_type := buf ! 2\<rparr> in
        rbind (if policy_type p = POLICY_KERN \<and> policyvers p \<ge> POLICYDB_VERSION_MLS \<or>
                  policy_type p = POLICY_BASE \<and> policyvers p \<ge> MOD_POLICYDB_VERSION_MLS
               then rbind mls_read_range_helper (\<lambda>r. rret (c\<lparr>c_range := r\<rparr>)) else rret c) (\<lambda>c.
        if \<not> policydb_context_isvalid p c then rfail EFAIL else rret c)))"

subsection \<open>Permissions, commons and classes\<close>

definition perm_read :: "u32 \<Rightarrow> (cstring, perm_datum) hashtab \<Rightarrow> (cstring, perm_datum) hashtab rd" where
  "perm_read np h =
     rerr EFAIL
       (rbind (rmalloc EFAIL) (\<lambda>_. rbind (next_words 2) (\<lambda>buf.
        rbind (str_read (ucast (buf ! 0))) (\<lambda>key.
        if \<not> value_isvalid (buf ! 1) np then rfail EFAIL
        else rinsert h (takeWhile (\<lambda>c. c \<noteq> 0) key) \<lparr>perm_value = buf ! 1\<rparr>))))"

definition perms_read :: "u32 \<Rightarrow> nat \<Rightarrow> perm_datum symtab \<Rightarrow> perm_datum symtab rd" where
  "perms_read np n s = rbind (rtimes n (perm_read np) (table s)) (\<lambda>t. rret (s\<lparr>table := t\<rparr>))"

text \<open>The table for permissions, with the number of primary names that the file gives.\<close>

definition perm_symtab :: "u32 \<Rightarrow> perm_datum symtab rd" where
  "perm_symtab np =
     rbind (rhp (\<lambda>h. symtab_init h PERM_SYMTAB_SIZE)) (\<lambda>s.
       if np > PERM_SYMTAB_SIZE then rfail EFAIL else rret (s\<lparr>nprim := np\<rparr>))"

definition common_read :: "policydb \<Rightarrow> (cstring, common_datum) hashtab \<Rightarrow> (cstring, common_datum) hashtab rd" where
  "common_read p h =
     rerr EFAIL
       (rbind (rmalloc EFAIL) (\<lambda>_. rbind (next_words 4) (\<lambda>buf.
        if zero_or_saturated (ucast (buf ! 0) :: u64) then rfail EFAIL
        else rbind (perm_symtab (buf ! 2)) (\<lambda>perms0.
          rbind (name_read (buf ! 0)) (\<lambda>key.
          rbind (perms_read (buf ! 2) (unat (buf ! 3)) perms0) (\<lambda>perms1.
          rinsert h key \<lparr>common_value = buf ! 1, common_permissions = perms1\<rparr>))))))"

text \<open>The expressions of a constraint; \<open>depth\<close> is the index of the top of the stack after them. Each
  one takes an allocation for itself and one for its type set.\<close>

fun cons_exprs :: "policydb \<Rightarrow> bool \<Rightarrow> nat \<Rightarrow> int \<Rightarrow> (int \<times> constraint_expr list) rd" where
  "cons_exprs p allowxtarget 0 depth = rret (depth, [])"
| "cons_exprs p allowxtarget (Suc n) depth =
     rbind (rmalloc EFAIL) (\<lambda>_. rbind (rmalloc EFAIL) (\<lambda>_.
     rbind (next_words 3) (\<lambda>buf.
     let e = \<lparr>expr_type = buf ! 0, attr = buf ! 1, cop = buf ! 2, names = ebitmap_init, type_names = type_set_init\<rparr>;
         rest = (\<lambda>depth e. rbind (cons_exprs p allowxtarget n depth) (\<lambda>(d, es). rret (d, e # es)))
     in if expr_type e = CEXPR_NOT then (if depth < 0 then rfail EFAIL else rest depth e)
        else if expr_type e = CEXPR_AND \<or> expr_type e = CEXPR_OR then
          (if depth < 1 then rfail EFAIL else rest (depth - 1) e)
        else if expr_type e = CEXPR_ATTR then
          (if depth = int CEXPR_MAXDEPTH - 1 then rfail EFAIL else rest (depth + 1) e)
        else if expr_type e = CEXPR_NAMES then
          (if \<not> allowxtarget \<and> attr e AND CEXPR_XTARGET \<noteq> 0 then rfail EFAIL
           else if depth = int CEXPR_MAXDEPTH - 1 then rfail EFAIL
           else rbind ebitmap_read (\<lambda>ns.
             rbind (if policy_type p \<noteq> POLICY_KERN \<or> policyvers p \<ge> POLICYDB_VERSION_CONSTRAINT_NAMES
                    then type_set_read else rret (type_names e)) (\<lambda>ts.
             rest (depth + 1) (e\<lparr>names := ns, type_names := ts\<rparr>))))
        else rfail EFAIL)))"

fun read_cons_helper :: "policydb \<Rightarrow> nat \<Rightarrow> bool \<Rightarrow> constraint_node list rd" where
  "read_cons_helper p 0 allowxtarget = rret []"
| "read_cons_helper p (Suc n) allowxtarget =
     rbind (rmalloc EFAIL) (\<lambda>_. rbind (next_words 2) (\<lambda>buf.
     rbind (cons_exprs p allowxtarget (unat (buf ! 1)) (- 1)) (\<lambda>(depth, es).
     if depth \<noteq> 0 then rfail EFAIL
     else rbind (read_cons_helper p n allowxtarget) (\<lambda>cs. rret (\<lparr>cpermissions = buf ! 0, cexpr = es\<rparr> # cs)))))"

definition class_common :: "policydb \<Rightarrow> u32 \<Rightarrow> common_datum option rd" where
  "class_common p len2 =
     (if len2 = 0 then rret None
      else rbind (name_read len2) (\<lambda>comkey.
        case hashtab_search (table (p_commons p)) comkey of
          None \<Rightarrow> rfail EFAIL | Some com \<Rightarrow> rret (Some com)))"

definition class_validatetrans :: "policydb \<Rightarrow> class_datum \<Rightarrow> class_datum rd" where
  "class_validatetrans p d =
     (if policy_type p = POLICY_KERN \<and> policyvers p \<ge> POLICYDB_VERSION_VALIDATETRANS \<or>
         policy_type p = POLICY_BASE \<and> policyvers p \<ge> MOD_POLICYDB_VERSION_VALIDATETRANS
      then rbind next_u32 (\<lambda>ncons. rbind (read_cons_helper p (unat ncons) True) (\<lambda>vt. rret (d\<lparr>validatetrans := vt\<rparr>)))
      else rret d)"

definition class_defaults :: "policydb \<Rightarrow> class_datum \<Rightarrow> class_datum rd" where
  "class_defaults p d =
     rbind (if policy_type p = POLICY_KERN \<and> policyvers p \<ge> POLICYDB_VERSION_NEW_OBJECT_DEFAULTS \<or>
               policy_type p = POLICY_BASE \<and> policyvers p \<ge> MOD_POLICYDB_VERSION_NEW_OBJECT_DEFAULTS
            then rbind (next_words 3) (\<lambda>buf.
              rret (d\<lparr>default_user := ucast (buf ! 0), default_role := ucast (buf ! 1), default_range := ucast (buf ! 2)\<rparr>))
            else rret d) (\<lambda>d.
     if policy_type p = POLICY_KERN \<and> policyvers p \<ge> POLICYDB_VERSION_DEFAULT_TYPE \<or>
        policy_type p = POLICY_BASE \<and> policyvers p \<ge> MOD_POLICYDB_VERSION_DEFAULT_TYPE
     then rbind next_u32 (\<lambda>t. rret (d\<lparr>default_type := ucast t\<rparr>)) else rret d)"

definition class_read :: "policydb \<Rightarrow> (cstring, class_datum) hashtab \<Rightarrow> (cstring, class_datum) hashtab rd" where
  "class_read p h =
     rerr EFAIL
       (rbind (rmalloc EFAIL) (\<lambda>_. rbind (next_words 6) (\<lambda>buf.
        if zero_or_saturated (ucast (buf ! 0) :: u64) then rfail EFAIL
        else if (ucast (buf ! 1) :: u64) = - 1 then rfail EFAIL
        else rbind (perm_symtab (buf ! 3)) (\<lambda>perms0.
          rbind (name_read (buf ! 0)) (\<lambda>key.
          rbind (class_common p (buf ! 1)) (\<lambda>com.
          rbind (perms_read (buf ! 3) (unat (buf ! 4)) perms0) (\<lambda>perms1.
          rbind (read_cons_helper p (unat (buf ! 5)) False) (\<lambda>cons.
          rbind (class_validatetrans p \<lparr>class_value = buf ! 2, comdatum = com, permissions = perms1, constraints = cons,
              validatetrans = [], default_user = 0, default_role = 0, default_type = 0, default_range = 0\<rparr>) (\<lambda>d.
          rbind (class_defaults p d) (\<lambda>d.
          rinsert h key d))))))))))"

subsection \<open>Roles, types and users\<close>

definition role_read :: "policydb \<Rightarrow> (cstring, role_datum) hashtab \<Rightarrow> (cstring, role_datum) hashtab rd" where
  "role_read p h =
     rerr EFAIL
       (rbind (rmalloc EFAIL) (\<lambda>_.
        rbind (next_words (if policydb_has_boundary_feature p then 3 else 2)) (\<lambda>buf.
        if zero_or_saturated (ucast (buf ! 0) :: u64) then rfail EFAIL
        else rbind (name_read (buf ! 0)) (\<lambda>key.
          rbind ebitmap_read (\<lambda>dom.
          rbind (if policy_type p = POLICY_KERN then rbind ebitmap_read (\<lambda>t. rret (type_set_init\<lparr>ts_types := t\<rparr>)) else type_set_read) (\<lambda>ts.
          rbind (if policy_type p \<noteq> POLICY_KERN \<and> policyvers p \<ge> MOD_POLICYDB_VERSION_ROLEATTRIB
                 then rbind next_u32 (\<lambda>fl. rbind ebitmap_read (\<lambda>rs. rret (fl, rs))) else rret (0, ebitmap_init)) (\<lambda>(fl, rs).
          if strcmp key OBJECT_R = 0
          then (if buf ! 1 \<noteq> OBJECT_R_VAL then rfail EFAIL else rret h)
          else rinsert h key
            \<lparr>role_value = buf ! 1, dominates = dom, role_types = ts, role_cache = ebitmap_init,
             role_bounds = (if policydb_has_boundary_feature p then buf ! 2 else 0), role_flavor = fl, role_roles = rs\<rparr>)))))))"

text \<open>The numbers of words in the header of a type, and what the words say.\<close>

definition type_words :: "policydb \<Rightarrow> nat" where
  "type_words p =
     (if policydb_has_boundary_feature p
      then (if policy_type p \<noteq> POLICY_KERN \<and> policyvers p \<ge> MOD_POLICYDB_VERSION_BOUNDARY_ALIAS then 5 else 4)
      else if policy_type p = POLICY_KERN then 3
      else if policyvers p \<ge> MOD_POLICYDB_VERSION_PERMISSIVE then 5 else 4)"

definition type_header :: "policydb \<Rightarrow> u32 list \<Rightarrow> type_datum" where
  "type_header p buf =
     (let d = \<lparr>type_value = buf ! 1, primary = 0, flavor = 0, type_types = ebitmap_init, type_flags = 0, type_bounds = 0\<rparr> in
      if policydb_has_boundary_feature p then
        (let al = (policy_type p \<noteq> POLICY_KERN \<and> policyvers p \<ge> MOD_POLICYDB_VERSION_BOUNDARY_ALIAS);
             properties = (if al then buf ! 3 else buf ! 2);
             d = d\<lparr>primary := (if al then buf ! 2 else if properties AND TYPEDATUM_PROPERTY_PRIMARY \<noteq> 0 then 1 else 0)\<rparr>;
             d = (if properties AND TYPEDATUM_PROPERTY_ATTRIBUTE \<noteq> 0 then d\<lparr>flavor := TYPE_ATTRIB\<rparr> else d);
             d = (if properties AND TYPEDATUM_PROPERTY_ALIAS \<noteq> 0 \<and> policy_type p \<noteq> POLICY_KERN then d\<lparr>flavor := TYPE_ALIAS\<rparr> else d);
             d = (if properties AND TYPEDATUM_PROPERTY_PERMISSIVE \<noteq> 0 \<and> policy_type p \<noteq> POLICY_KERN
                  then d\<lparr>type_flags := type_flags d OR TYPE_FLAGS_PERMISSIVE\<rparr> else d)
         in d\<lparr>type_bounds := (if al then buf ! 4 else buf ! 3)\<rparr>)
      else
        (let d = d\<lparr>primary := buf ! 2\<rparr> in
         if policy_type p = POLICY_KERN then d
         else if policyvers p \<ge> MOD_POLICYDB_VERSION_PERMISSIVE then d\<lparr>flavor := buf ! 3, type_flags := buf ! 4\<rparr>
         else d\<lparr>flavor := buf ! 3\<rparr>))"

definition type_read :: "policydb \<Rightarrow> (cstring, type_datum) hashtab \<Rightarrow> (cstring, type_datum) hashtab rd" where
  "type_read p h =
     rerr EFAIL
       (rbind (rmalloc EFAIL) (\<lambda>_. rbind (next_words (type_words p)) (\<lambda>buf.
        if zero_or_saturated (ucast (buf ! 0) :: u64) then rfail EFAIL
        else rbind (if policy_type p \<noteq> POLICY_KERN then rbind ebitmap_read (\<lambda>t. rret ((type_header p buf)\<lparr>type_types := t\<rparr>))
                    else rret (type_header p buf)) (\<lambda>d.
          rbind (name_read (buf ! 0)) (\<lambda>key. rinsert h key d)))))"

definition mls_read_level :: "mls_level rd" where
  "mls_read_level = rerr EINVAL (rbind next_u32 (\<lambda>s. rbind ebitmap_read (\<lambda>c. rret \<lparr>sens = s, cat = c\<rparr>)))"

definition user_mls :: "policydb \<Rightarrow> user_datum \<Rightarrow> user_datum rd" where
  "user_mls p d =
     (let base = (policyvers p \<ge> MOD_POLICYDB_VERSION_MLS \<and> policyvers p < MOD_POLICYDB_VERSION_MLS_USERS) in
      if policy_type p = POLICY_KERN \<and> policyvers p \<ge> POLICYDB_VERSION_MLS \<or> policy_type p = POLICY_MOD \<and> base \<or>
         policy_type p = POLICY_BASE \<and> base
      then rbind mls_read_range_helper (\<lambda>r. rbind mls_read_level (\<lambda>l.
             let d = d\<lparr>exp_range := r, exp_dfltlevel := l\<rparr> in
             if policy_type p \<noteq> POLICY_KERN
             then rbind (rhp (mls_range_to_semantic r)) (\<lambda>sr. rbind (rhp (mls_level_to_semantic l)) (\<lambda>sl.
                    rret (d\<lparr>user_range := sr, user_dfltlevel := sl\<rparr>)))
             else rret d))
      else if (policy_type p = POLICY_MOD \<or> policy_type p = POLICY_BASE) \<and> policyvers p \<ge> MOD_POLICYDB_VERSION_MLS_USERS
      then rbind mls_read_semantic_range_helper (\<lambda>sr. rbind mls_read_semantic_level_helper (\<lambda>sl.
             rret (d\<lparr>user_range := sr, user_dfltlevel := sl\<rparr>)))
      else rret d)"

definition user_read :: "policydb \<Rightarrow> (cstring, user_datum) hashtab \<Rightarrow> (cstring, user_datum) hashtab rd" where
  "user_read p h =
     rerr EFAIL
       (rbind (rmalloc EFAIL) (\<lambda>_.
        rbind (next_words (if policydb_has_boundary_feature p then 3 else 2)) (\<lambda>buf.
        if zero_or_saturated (ucast (buf ! 0) :: u64) then rfail EFAIL
        else rbind (name_read (buf ! 0)) (\<lambda>key.
          rbind (if policy_type p = POLICY_KERN then rbind ebitmap_read (\<lambda>r. rret (role_set_init\<lparr>rs_roles := r\<rparr>)) else role_set_read) (\<lambda>rs.
          rbind (user_mls p
            \<lparr>user_value = buf ! 1, user_roles = rs, user_range = mls_semantic_range_init, user_dfltlevel = mls_semantic_level_init,
             user_cache = ebitmap_init, exp_range = c_range context_init, exp_dfltlevel = level0 (c_range context_init),
             user_bounds = (if policydb_has_boundary_feature p then buf ! 2 else 0)\<rparr>) (\<lambda>d.
          rinsert h key d))))))"

subsection \<open>Sensitivities and categories\<close>

definition sens_read :: "(cstring, level_datum) hashtab \<Rightarrow> (cstring, level_datum) hashtab rd" where
  "sens_read h =
     rerr EFAIL
       (rbind (rmalloc EFAIL) (\<lambda>_. rbind (next_words 2) (\<lambda>buf.
        if zero_or_saturated (buf ! 0) then rfail EFAIL
        else rbind (name_read (buf ! 0)) (\<lambda>key.
          rbind (rmalloc EFAIL) (\<lambda>_. rbind mls_read_level (\<lambda>l.
          rinsert h key \<lparr>level = l, lisalias = ucast (buf ! 1), defined = 0\<rparr>))))))"

definition cat_read :: "(cstring, cat_datum) hashtab \<Rightarrow> (cstring, cat_datum) hashtab rd" where
  "cat_read h =
     rerr EFAIL
       (rbind (rmalloc EFAIL) (\<lambda>_. rbind (next_words 3) (\<lambda>buf.
        if zero_or_saturated (buf ! 0) then rfail EFAIL
        else rbind (name_read (buf ! 0)) (\<lambda>key.
          rinsert h key \<lparr>cat_value = buf ! 1, cisalias = ucast (buf ! 2)\<rparr>))))"

end
