(* ===== verification/Policydb_Init.thy ===== *)
theory Policydb_Init
  imports Symbols_Read
begin

section \<open>Empty policies, scopes and blocks\<close>

text \<open>
  libsepol/src/policydb.c (\<open>policydb_init\<close>, \<open>roles_init\<close>, \<open>symtab_insert\<close>) and
  libsepol/src/avrule_block.c: the empty policy database, the declaration of symbols with their
  scopes, and the blocks of rules that a module consists of.
\<close>

abbreviation (input) SYM_COMMONS :: nat where "SYM_COMMONS \<equiv> 0"
abbreviation (input) SYM_CLASSES :: nat where "SYM_CLASSES \<equiv> 1"
abbreviation (input) SYM_ROLES :: nat where "SYM_ROLES \<equiv> 2"
abbreviation (input) SYM_TYPES :: nat where "SYM_TYPES \<equiv> 3"
abbreviation (input) SYM_USERS :: nat where "SYM_USERS \<equiv> 4"
abbreviation (input) SYM_BOOLS :: nat where "SYM_BOOLS \<equiv> 5"
abbreviation (input) SYM_LEVELS :: nat where "SYM_LEVELS \<equiv> 6"
abbreviation (input) SYM_CATS :: nat where "SYM_CATS \<equiv> 7"
abbreviation (input) SYM_NUM :: nat where "SYM_NUM \<equiv> 8"
abbreviation (input) SCOPE_REQ :: u32 where "SCOPE_REQ \<equiv> 1"
abbreviation (input) SCOPE_DECL :: u32 where "SCOPE_DECL \<equiv> 2"
abbreviation (input) ROLE_ROLE :: u32 where "ROLE_ROLE \<equiv> 0"
abbreviation (input) ROLE_ATTRIB :: u32 where "ROLE_ATTRIB \<equiv> 1"
abbreviation (input) AVRULE_OPTIONAL :: u32 where "AVRULE_OPTIONAL \<equiv> 1"

subsection \<open>Declaring symbols\<close>

datatype sym_rc = SYM_OK | SYM_EXISTS | SYM_CONFLICT | SYM_ERR errno

text \<open>\<open>add_i_to_a\<close>, and the exchange that keeps the declaration at the end of the list.\<close>

definition add_i_to_a :: "u32 \<Rightarrow> u32 list \<Rightarrow> u32 list hp" where
  "add_i_to_a i a = hbind (hmalloc EFAIL) (\<lambda>_. hret (a @ [i]))"

definition swap_last :: "u32 list \<Rightarrow> u32 list" where
  "swap_last xs = (let n = length xs in take (n - 2) xs @ [xs ! (n - 1), xs ! (n - 2)])"

text \<open>The second half of \<open>symtab_insert\<close>, for a scope datum that is in the table.\<close>

definition scope_add_decl :: "scope_datum symtab \<Rightarrow> cstring \<Rightarrow> scope_datum \<Rightarrow> u32 \<Rightarrow> u32 \<Rightarrow> sym_rc \<Rightarrow> heap
    \<Rightarrow> sym_rc \<times> scope_datum symtab \<times> heap" where
  "scope_add_decl sc key sd scope avrule_decl_id retval h =
     (let put = (\<lambda>sd. sc\<lparr>table := hashtab_update (table sc) key (\<lambda>_. sd)\<rparr>) in
      if avrule_decl_id \<in> set (sd_decl_ids sd) then (retval, put sd, h)
      else (case add_i_to_a avrule_decl_id (sd_decl_ids sd) h of
              (Inl _, h1) \<Rightarrow> (SYM_ERR ENOMEM, put sd, h1)
            | (Inr ids, h1) \<Rightarrow>
                if sd_scope sd = SCOPE_DECL \<and> scope = SCOPE_REQ
                then (if length ids < 2 then (SYM_ERR EFAIL, put (sd\<lparr>sd_decl_ids := ids\<rparr>), h1)
                      else (retval, put (sd\<lparr>sd_decl_ids := swap_last ids\<rparr>), h1))
                else (retval, put (sd\<lparr>sd_decl_ids := ids\<rparr>), h1)))"

definition scope_insert :: "nat \<Rightarrow> ('d \<Rightarrow> u32) \<Rightarrow> 'd symtab \<Rightarrow> scope_datum symtab \<Rightarrow> cstring \<Rightarrow> 'd \<Rightarrow> u32 \<Rightarrow> u32 \<Rightarrow> sym_rc \<Rightarrow> heap
    \<Rightarrow> sym_rc \<times> scope_datum symtab \<times> heap" where
  "scope_insert symnum flavor_of tab sc key datum scope avrule_decl_id retval h =
     (case hashtab_search (table sc) key of
        None \<Rightarrow>
          (case malloc h of
             (False, h1) \<Rightarrow> (SYM_ERR ENOMEM, sc, h1)
           | (True, h1) \<Rightarrow>
               (case malloc h1 of
                  (False, h2) \<Rightarrow> (SYM_ERR ENOMEM, sc, h2)
                | (True, h2) \<Rightarrow>
                    (let sd = \<lparr>sd_scope = scope, sd_decl_ids = []\<rparr> in
                     case hashtab_insert h2 (table sc) key sd of
                       (Inl e, t, h3) \<Rightarrow> (SYM_ERR e, sc\<lparr>table := t\<rparr>, h3)
                     | (Inr _, t, h3) \<Rightarrow> scope_add_decl (sc\<lparr>table := t\<rparr>) key sd scope avrule_decl_id retval h3)))
      | Some sd \<Rightarrow>
          if sd_scope sd = SCOPE_DECL \<and> scope = SCOPE_DECL then
            (if symnum \<noteq> SYM_ROLES \<and> symnum \<noteq> SYM_USERS then (SYM_CONFLICT, sc, h)
             else if symnum = SYM_ROLES \<and>
               (case hashtab_search (table tab) key of
                  Some base \<Rightarrow> \<not> (flavor_of base = ROLE_ROLE \<and> flavor_of datum = ROLE_ROLE) | None \<Rightarrow> True)
             then (SYM_CONFLICT, sc, h)
             else scope_add_decl sc key sd scope avrule_decl_id retval h)
          else if sd_scope sd = SCOPE_REQ \<and> scope = SCOPE_DECL
          then scope_add_decl sc key (sd\<lparr>sd_scope := SCOPE_DECL\<rparr>) scope avrule_decl_id retval h
          else scope_add_decl sc key sd scope avrule_decl_id retval h)"

text \<open>The table is the one of the symbols \<open>symnum\<close>, with its scopes. \<open>flavor_of\<close> reads a datum as the role
  that it is when \<open>symnum\<close> is \<open>SYM_ROLES\<close>; \<open>set_value\<close> stores the value that a primary symbol is given
  behind the pointer the caller passes.\<close>

definition symtab_insert :: "nat \<Rightarrow> ('d \<Rightarrow> u32) \<Rightarrow> (u32 \<Rightarrow> 'd \<Rightarrow> 'd) option \<Rightarrow> 'd symtab \<Rightarrow> scope_datum symtab \<Rightarrow> cstring \<Rightarrow> 'd
    \<Rightarrow> u32 \<Rightarrow> u32 \<Rightarrow> heap \<Rightarrow> sym_rc \<times> 'd symtab \<times> scope_datum symtab \<times> heap" where
  "symtab_insert symnum flavor_of set_value tab sc key datum scope avrule_decl_id h =
     (case hashtab_insert h (table tab) key datum of
        (Inl e, t, h1) \<Rightarrow>
          (let tab1 = tab\<lparr>table := t\<rparr> in
           if e = EEXIST
           then (case scope_insert symnum flavor_of tab1 sc key datum scope avrule_decl_id SYM_EXISTS h1 of
                   (rc, sc1, h2) \<Rightarrow> (rc, tab1, sc1, h2))
           else (SYM_ERR e, tab1, sc, h1))
      | (Inr _, t, h1) \<Rightarrow>
          (let tab1 = (case set_value of
                         None \<Rightarrow> tab\<lparr>table := t\<rparr>
                       | Some f \<Rightarrow> \<lparr>table = hashtab_update t key (f (nprim tab + 1)), nprim = nprim tab + 1\<rparr>) in
           case scope_insert symnum flavor_of tab1 sc key datum scope avrule_decl_id SYM_OK h1 of
             (rc, sc1, h2) \<Rightarrow> (rc, tab1, sc1, h2)))"

subsection \<open>Blocks\<close>

definition scope_index_zero :: scope_index where
  "scope_index_zero = \<lparr>si_scope = replicate SYM_NUM ebitmap_init, si_class_perms_map = [], si_class_perms_len = 0\<rparr>"

definition avrule_block_create :: "avrule_block hp" where
  "avrule_block_create = hbind (hmalloc ENOMEM) (\<lambda>_. hret \<lparr>branch_list = [], block_enabled = None, block_flags = 0\<rparr>)"

definition avrule_decl_create :: "u32 \<Rightarrow> avrule_decl hp" where
  "avrule_decl_create i =
     hbind (hmalloc ENOMEM) (\<lambda>_.
     hbind (\<lambda>h. symtab_init h 2) (\<lambda>t0. hbind (\<lambda>h. symtab_init h 4) (\<lambda>t1. hbind (\<lambda>h. symtab_init h 8) (\<lambda>t2.
     hbind (\<lambda>h. symtab_init h 32) (\<lambda>t3. hbind (\<lambda>h. symtab_init h 16) (\<lambda>t4. hbind (\<lambda>h. symtab_init h 4) (\<lambda>t5.
     hbind (\<lambda>h. symtab_init h 2) (\<lambda>t6. hbind (\<lambda>h. symtab_init h 2) (\<lambda>t7.
     hret \<lparr>decl_id = i, decl_enabled = 0, decl_cond_list = [], decl_avrules = [], decl_role_tr_rules = [], decl_role_allow_rules = [],
           decl_range_tr_rules = [], decl_required = scope_index_zero, decl_declared = scope_index_zero, decl_filename_trans_rules = [],
           d_commons = t0, d_classes = t1, d_roles = t2, d_types = t3, d_users = t4, d_bools = t5, d_levels = t6, d_cats = t7\<rparr>)))))))))"

definition get_decl_cond_list :: "policydb \<Rightarrow> avrule_decl \<Rightarrow> cond_node \<Rightarrow> (cond_node \<times> avrule_decl) hp" where
  "get_decl_cond_list p decl cond =
     hbind (cond_node_find p cond (decl_cond_list decl)) (\<lambda>(result, was_created).
     hret (result, if was_created then decl\<lparr>decl_cond_list := result # decl_cond_list decl\<rparr> else decl))"

text \<open>The declaration with a number, through the index of positions.\<close>

definition decl_at :: "policydb \<Rightarrow> u32 \<Rightarrow> avrule_decl option" where
  "decl_at p i =
     (case val_get (decl_val_to_struct p) i of
        None \<Rightarrow> None
      | Some (b, j) \<Rightarrow> Some (branch_list (global p ! b) ! j))"

definition decl_is_enabled :: "policydb \<Rightarrow> u32 \<Rightarrow> bool" where
  "decl_is_enabled p i \<longleftrightarrow> (case decl_at p i of None \<Rightarrow> False | Some d \<Rightarrow> decl_enabled d \<noteq> 0)"

definition is_id_enabled :: "cstring \<Rightarrow> policydb \<Rightarrow> nat \<Rightarrow> bool" where
  "is_id_enabled i p symbol_table =
     (case hashtab_search (table (p_scope p ! symbol_table)) i of
        None \<Rightarrow> False
      | Some sd \<Rightarrow>
          if sd_scope sd \<noteq> SCOPE_DECL then False
          else if length (sd_decl_ids sd) < 1 then False
          else if symbol_table = SYM_ROLES \<or> symbol_table = SYM_USERS then list_ex (decl_is_enabled p) (sd_decl_ids sd)
          else decl_is_enabled p (last (sd_decl_ids sd)))"

definition is_perm_enabled :: "cstring \<Rightarrow> cstring \<Rightarrow> policydb \<Rightarrow> bool" where
  "is_perm_enabled class_id perm_id p =
     (if \<not> is_id_enabled class_id p SYM_CLASSES then False
      else (case hashtab_search (table (p_classes p)) class_id of
              None \<Rightarrow> False
            | Some cladatum \<Rightarrow>
                (case hashtab_search (table (permissions cladatum)) perm_id of
                   Some _ \<Rightarrow> True
                 | None \<Rightarrow>
                     (case comdatum cladatum of
                        None \<Rightarrow> False
                      | Some com \<Rightarrow> hashtab_search (table (common_permissions com)) perm_id \<noteq> None))))"

subsection \<open>The empty policy\<close>

definition symtab_zero :: "'d symtab" where
  "symtab_zero = \<lparr>table = None, nprim = 0\<rparr>"

definition avtab_zero :: avtab where
  "avtab_zero = \<lparr>ahtable = None, anel = 0, nslot = 0, amask = 0, anext = 0\<rparr>"

definition policydb_zero :: policydb where
  "policydb_zero =
     \<lparr>policy_type = 0, pol_name = None, pol_version = None, target_platform = 0, mls = False, policyvers = 0, handle_unknown = 0,
      p_commons = symtab_zero, p_classes = symtab_zero, p_roles = symtab_zero, p_types = symtab_zero, p_users = symtab_zero,
      p_bools = symtab_zero, p_levels = symtab_zero, p_cats = symtab_zero,
      p_common_val_to_name = [], p_class_val_to_name = [], p_role_val_to_name = [], p_type_val_to_name = [], p_user_val_to_name = [],
      p_bool_val_to_name = [], p_sens_val_to_name = [], p_cat_val_to_name = [],
      class_val_to_struct = [], role_val_to_struct = [], user_val_to_struct = [], type_val_to_struct = [],
      p_scope = replicate SYM_NUM symtab_zero, global = [], decl_val_to_struct = [],
      bool_val_to_struct = [], te_avtab = avtab_zero, te_cond_avtab = avtab_zero, cond_list = [], role_tr = [], role_allows = [],
      ocontexts = replicate 9 [], genfs_list = [], range_tr = None, filename_trans = None, filename_trans_count = 0,
      type_attr_map = [], attr_type_map = [], policycaps = ebitmap_init, permissive_map = ebitmap_init,
      process_class = 0, dir_class = 0, process_trans = 0, process_trans_dyntrans = 0\<rparr>"

definition init_symtabs :: "policydb \<Rightarrow> policydb hp" where
  "init_symtabs p =
     hbind (\<lambda>h. symtab_init h 2) (\<lambda>t0. hbind (\<lambda>h. symtab_init h 32) (\<lambda>t1. hbind (\<lambda>h. symtab_init h 16) (\<lambda>t2.
     hbind (\<lambda>h. symtab_init h 512) (\<lambda>t3. hbind (\<lambda>h. symtab_init h 128) (\<lambda>t4. hbind (\<lambda>h. symtab_init h 16) (\<lambda>t5.
     hbind (\<lambda>h. symtab_init h 16) (\<lambda>t6. hbind (\<lambda>h. symtab_init h 16) (\<lambda>t7.
     hret (p\<lparr>p_commons := t0, p_classes := t1, p_roles := t2, p_types := t3, p_users := t4, p_bools := t5,
             p_levels := t6, p_cats := t7\<rparr>)))))))))"

fun hlist :: "'a hp list \<Rightarrow> 'a list hp" where
  "hlist [] = hret []"
| "hlist (m # ms) = hbind m (\<lambda>x. hbind (hlist ms) (\<lambda>xs. hret (x # xs)))"

definition init_module :: "policydb \<Rightarrow> policydb hp" where
  "init_module p =
     hbind (hlist (map (\<lambda>sz h. symtab_init h sz) [2, 32, 16, 512, 128, 16, 16, 16])) (\<lambda>sc.
     hbind avrule_block_create (\<lambda>b. hbind (avrule_decl_create 1) (\<lambda>d.
     hret (p\<lparr>p_scope := sc, global := [b\<lparr>branch_list := [d]\<rparr>]\<rparr>))))"

definition role_zero :: role_datum where
  "role_zero = \<lparr>role_value = 0, dominates = ebitmap_init, role_types = type_set_init, role_cache = ebitmap_init, role_bounds = 0,
     role_flavor = 0, role_roles = ebitmap_init\<rparr>"

definition roles_init :: "policydb \<Rightarrow> policydb hp" where
  "roles_init p =
     hbind (hmalloc ENOMEM) (\<lambda>_. hbind (hmalloc ENOMEM) (\<lambda>_ h.
     case symtab_insert SYM_ROLES role_flavor (Some (\<lambda>v r. r\<lparr>role_value := v\<rparr>)) (p_roles p) (p_scope p ! SYM_ROLES) OBJECT_R role_zero
            (if policy_type p = POLICY_MOD then SCOPE_REQ else SCOPE_DECL) 1 h of
       (rc, t, sc, h1) \<Rightarrow>
         (case rc of
            SYM_OK \<Rightarrow>
              if nprim t \<noteq> OBJECT_R_VAL then (Inl EINVAL, h1)
              else (Inr (p\<lparr>p_roles := t, p_scope := (p_scope p)[SYM_ROLES := sc]\<rparr>), h1)
          | SYM_ERR e \<Rightarrow> (Inl e, h1)
          | _ \<Rightarrow> (Inl EFAIL, h1))))"

definition init_tables :: "policydb \<Rightarrow> policydb hp" where
  "init_tables p h =
     (case hashtab_create h filenametr_hash filenametr_cmp 1024 of
        (None, h1) \<Rightarrow> (Inl ENOMEM, h1)
      | (ft, h1) \<Rightarrow>
          (case hashtab_create h1 rangetr_hash rangetr_cmp 256 of
             (None, h2) \<Rightarrow> (Inl ENOMEM, h2)
           | (rt, h2) \<Rightarrow> (Inr (p\<lparr>filename_trans := ft, range_tr := rt, policycaps := ebitmap_init, permissive_map := ebitmap_init\<rparr>), h2)))"

text \<open>The error path frees every table of \<open>p\<close>, which is then \<open>policydb_zero\<close>. It returns \<open>rc\<close>, which
  is 0 when one of the module parts could not be allocated.\<close>

definition policydb_init :: "policydb hp" where
  "policydb_init h =
     (case init_symtabs policydb_zero h of
        (Inl e, h1) \<Rightarrow> (Inl e, h1)
      | (Inr p1, h1) \<Rightarrow>
          (case init_module p1 h1 of
             (Inl _, h2) \<Rightarrow> (Inr policydb_zero, h2)
           | (Inr p2, h2) \<Rightarrow>
               hbind (roles_init (p2\<lparr>te_avtab := avtab_init (te_avtab p2)\<rparr>)) (\<lambda>p3. init_tables (cond_policydb_init p3)) h2))"

end
