(* ===== verification/Rules_Read.thy ===== *)
theory Rules_Read
  imports Symbols_Read Ocontexts
begin

section \<open>Reading the rules and the object contexts\<close>

text \<open>
  libsepol/src/policydb.c, the functions that read what follows the symbol tables in a policy file:
  role transitions and allows, filename transitions, object contexts of SELinux and Xen policies,
  the genfs entries and the range transitions. Words that stay in network order are read as the
  host holds them, which is little-endian in this model.
\<close>

abbreviation (input) POLICYDB_VERSION_RANGETRANS :: u32 where "POLICYDB_VERSION_RANGETRANS \<equiv> 21"
abbreviation (input) POLICYDB_VERSION_ROLETRANS :: u32 where "POLICYDB_VERSION_ROLETRANS \<equiv> 26"
abbreviation (input) POLICYDB_VERSION_XEN_DEVICETREE :: u32 where "POLICYDB_VERSION_XEN_DEVICETREE \<equiv> 30"
abbreviation (input) POLICYDB_VERSION_COMP_FTRANS :: u32 where "POLICYDB_VERSION_COMP_FTRANS \<equiv> 33"
abbreviation (input) IB_DEVICE_NAME_MAX :: nat where "IB_DEVICE_NAME_MAX \<equiv> 64"

subsection \<open>Roles\<close>

definition role_trans_read :: "policydb \<Rightarrow> role_trans list rd" where
  "role_trans_read p =
     rbind next_u32 (\<lambda>nel.
     rlist (unat nel)
       (rbind (rmalloc EFAIL) (\<lambda>_. rbind (next_words 3) (\<lambda>buf.
        rbind (if policy_type p = POLICY_KERN \<and> policyvers p \<ge> POLICYDB_VERSION_ROLETRANS
               then next_u32 else rret (ucast (process_class p))) (\<lambda>tc.
        rret \<lparr>rt_role = buf ! 0, rt_type = buf ! 1, rt_tclass = tc, rt_new_role = buf ! 2\<rparr>)))))"

definition role_allow_read :: "role_allow list rd" where
  "role_allow_read =
     rbind next_u32 (\<lambda>nel.
     rlist (unat nel)
       (rbind (rmalloc EFAIL) (\<lambda>_. rbind (next_words 2) (\<lambda>buf. rret \<lparr>ra_role = buf ! 0, ra_new_role = buf ! 1\<rparr>))))"

subsection \<open>Filename transitions\<close>

text \<open>The walk over the datums of a key: the new type that the source type already has, or the
  datums before and from the first one with the wanted type.\<close>

fun filetrans_scan :: "u32 \<Rightarrow> u32 \<Rightarrow> filename_trans_datum list
    \<Rightarrow> u32 + (filename_trans_datum list \<times> filename_trans_datum list)" where
  "filetrans_scan stype otype [] = Inr ([], [])"
| "filetrans_scan stype otype (d # ds) =
     (if ebitmap_get_bit (ft_stypes d) (stype - 1) then Inl (ft_otype d)
      else if ft_otype d = otype then Inr ([], d # ds)
      else (case filetrans_scan stype otype ds of Inl t \<Rightarrow> Inl t | Inr (bef, rest) \<Rightarrow> Inr (d # bef, rest)))"

text \<open>The end of the function: the count goes up before the bit is set in the datum between
  \<open>bef\<close> and \<open>rest\<close>.\<close>

definition filetrans_set_bit :: "policydb \<Rightarrow> filename_trans_key \<Rightarrow> u32 \<Rightarrow> filename_trans_datum list \<Rightarrow> filename_trans_datum
    \<Rightarrow> filename_trans_datum list \<Rightarrow> heap \<Rightarrow> (errno + unit) \<times> u32 option \<times> policydb \<times> heap" where
  "filetrans_set_bit p key stype bef d rest h =
     (let put = (\<lambda>d. p\<lparr>filename_trans := hashtab_update (filename_trans p) key (\<lambda>_. bef @ d # rest),
                      filename_trans_count := filename_trans_count p + 1\<rparr>) in
      case ebitmap_set_bit h (ft_stypes d) (stype - 1) 1 of
        (Inl e, h1) \<Rightarrow> (Inl e, None, put d, h1)
      | (Inr m, h1) \<Rightarrow> (Inr (), None, put (d\<lparr>ft_stypes := m\<rparr>), h1))"

text \<open>The result, \<open>present_otype\<close>, the database and the heap. \<open>name_alloc\<close> tells that the caller
  hands over its copy of the name.\<close>

definition policydb_filetrans_insert :: "policydb \<Rightarrow> u32 \<Rightarrow> u32 \<Rightarrow> u32 \<Rightarrow> cstring \<Rightarrow> bool \<Rightarrow> u32 \<Rightarrow> heap
    \<Rightarrow> (errno + unit) \<times> u32 option \<times> policydb \<times> heap" where
  "policydb_filetrans_insert p stype ttype tclass name name_alloc otype h =
     (let key = \<lparr>ft_ttype = ttype, ft_tclass = tclass, ft_name = name\<rparr>;
          ds = (case hashtab_search (filename_trans p) key of None \<Rightarrow> [] | Some ds \<Rightarrow> ds) in
      case filetrans_scan stype otype ds of
        Inl t \<Rightarrow> (Inl EEXIST, Some t, p, h)
      | Inr (bef, d # rest) \<Rightarrow> filetrans_set_bit p key stype bef d rest h
      | Inr (bef, []) \<Rightarrow>
          (case malloc h of
             (False, h1) \<Rightarrow> (Inl ENOMEM, None, p, h1)
           | (True, h1) \<Rightarrow>
               (let d = \<lparr>ft_stypes = ebitmap_init, ft_otype = otype\<rparr> in
                if bef \<noteq> [] then filetrans_set_bit p key stype bef d [] h1
                else
                  (case (if name_alloc then (True, h1) else malloc h1) of
                     (False, h2) \<Rightarrow> (Inl ENOMEM, None, p, h2)
                   | (True, h2) \<Rightarrow>
                       (case malloc h2 of
                          (False, h3) \<Rightarrow> (Inl ENOMEM, None, p, h3)
                        | (True, h3) \<Rightarrow>
                            (case hashtab_insert h3 (filename_trans p) key [d] of
                               (Inl _, t, h4) \<Rightarrow> (Inl ENOMEM, None, p\<lparr>filename_trans := t\<rparr>, h4)
                             | (Inr _, t, h4) \<Rightarrow> filetrans_set_bit (p\<lparr>filename_trans := t\<rparr>) key stype [] d [] h4))))))"

definition filename_trans_read_one_compat :: "policydb \<Rightarrow> policydb rd" where
  "filename_trans_read_one_compat p =
     rbind next_u32 (\<lambda>len.
     if zero_or_saturated len then rfail EFAIL
     else rbind (name_read len) (\<lambda>name. rbind (next_words 4) (\<lambda>buf.
       if buf ! 0 = 0 then rfail EFAIL
       else (\<lambda>s.
         case policydb_filetrans_insert p (buf ! 0) (buf ! 1) (buf ! 2) name True (buf ! 3) (fst s) of
           (Inr _, _, p1, h1) \<Rightarrow> (Inr p1, h1, snd s)
         | (Inl e, _, p1, h1) \<Rightarrow> if e \<noteq> EEXIST then (Inl EFAIL, h1, snd s) else (Inr p1, h1, snd s)))))"

fun check_datums :: "filename_trans_datum list \<Rightarrow> ebitmap \<Rightarrow> ebitmap \<Rightarrow> unit hp" where
  "check_datums [] stypes otypes = hret ()"
| "check_datums (d # ds) stypes otypes =
     (if ebitmap_get_bit otypes (ft_otype d) then hfail EFAIL
      else hbind (\<lambda>h. ebitmap_set_bit h otypes (ft_otype d) 1) (\<lambda>otypes1.
        if ebitmap_match_any stypes (ft_stypes d) then hfail EFAIL
        else hbind (\<lambda>h. ebitmap_union h stypes (ft_stypes d)) (\<lambda>stypes1. check_datums ds stypes1 otypes1)))"

definition filename_trans_check_datum :: "filename_trans_datum list \<Rightarrow> unit hp" where
  "filename_trans_check_datum ds = herr EFAIL (check_datums ds ebitmap_init ebitmap_init)"

definition filename_trans_read_one :: "policydb \<Rightarrow> policydb rd" where
  "filename_trans_read_one p =
     rerr EFAIL
       (rbind next_u32 (\<lambda>len.
        if zero_or_saturated len then rfail EFAIL
        else rbind (name_read len) (\<lambda>name. rbind (next_words 3) (\<lambda>buf.
          if buf ! 2 = 0 then rfail EFAIL
          else rbind (rlist (unat (buf ! 2))
                 (rbind (rmalloc EFAIL) (\<lambda>_. rbind ebitmap_read (\<lambda>st. rbind next_u32 (\<lambda>ot.
                  rret \<lparr>ft_stypes = st, ft_otype = ot\<rparr>))))) (\<lambda>ds.
            rbind (if buf ! 2 > 1 then rhp (filename_trans_check_datum ds) else rret ()) (\<lambda>_.
            rbind (rmalloc EFAIL) (\<lambda>_.
            rbind (rinsert (filename_trans p) \<lparr>ft_ttype = buf ! 0, ft_tclass = buf ! 1, ft_name = name\<rparr> ds) (\<lambda>t.
            rret (p\<lparr>filename_trans := t,
                    filename_trans_count := filename_trans_count p + sum_list (map (ebitmap_cardinality \<circ> ft_stypes) ds)\<rparr>)))))))))"

definition filename_trans_read :: "policydb \<Rightarrow> policydb rd" where
  "filename_trans_read p =
     rbind next_u32 (\<lambda>nel.
     rtimes (unat nel)
       (if policyvers p < POLICYDB_VERSION_COMP_FTRANS then filename_trans_read_one_compat else filename_trans_read_one) p)"

subsection \<open>Object contexts\<close>

definition ocontext_zero :: ocontext where
  "ocontext_zero = \<lparr>oc_u = U_zero, oc_v = 0, oc_context0 = context_init, oc_context1 = context_init, oc_sid0 = 0, oc_sid1 = 0\<rparr>"

definition u64_of :: "u32 \<Rightarrow> u32 \<Rightarrow> u64" where
  "u64_of low high = ucast low OR push_bit 32 (ucast high)"

definition with_context0 :: "policydb \<Rightarrow> ocontext \<Rightarrow> ocontext rd" where
  "with_context0 p c = rbind (context_read_and_validate p) (\<lambda>x. rret (c\<lparr>oc_context0 := x\<rparr>))"

definition read_isid :: "policydb \<Rightarrow> ocontext rd" where
  "read_isid p = rbind next_u32 (\<lambda>sid. if sid = - 1 then rfail EFAIL else with_context0 p (ocontext_zero\<lparr>oc_sid0 := sid\<rparr>))"

definition ocontext_xen_entry :: "policydb \<Rightarrow> nat \<Rightarrow> ocontext rd" where
  "ocontext_xen_entry p i =
     (if i = 0 then read_isid p
      else if i = 1 then rbind next_u32 (\<lambda>n. with_context0 p (ocontext_zero\<lparr>oc_u := U_pirq (ucast n)\<rparr>))
      else if i = 2 then rbind (next_words 2) (\<lambda>buf. with_context0 p (ocontext_zero\<lparr>oc_u := U_ioport (buf ! 0) (buf ! 1)\<rparr>))
      else if i = 3 then
        (if policyvers p \<ge> POLICYDB_VERSION_XEN_DEVICETREE
         then rbind (next_words 4) (\<lambda>b. with_context0 p
                (ocontext_zero\<lparr>oc_u := U_iomem (u64_of (b ! 0) (b ! 1)) (u64_of (b ! 2) (b ! 3))\<rparr>))
         else rbind (next_words 2) (\<lambda>b. with_context0 p (ocontext_zero\<lparr>oc_u := U_iomem (ucast (b ! 0)) (ucast (b ! 1))\<rparr>)))
      else if i = 4 then rbind next_u32 (\<lambda>d. with_context0 p (ocontext_zero\<lparr>oc_u := U_device d\<rparr>))
      else if i = 5 then
        rbind next_u32 (\<lambda>len.
          if zero_or_saturated (ucast len :: u64) then rfail EFAIL
          else rbind (name_read len) (\<lambda>name. with_context0 p (ocontext_zero\<lparr>oc_u := U_name name\<rparr>)))
      else rfail EFAIL)"

definition read_named :: "policydb \<Rightarrow> ocontext rd" where
  "read_named p =
     rbind next_u32 (\<lambda>len.
     if zero_or_saturated (ucast len :: u64) \<or> len > 63 then rfail EFAIL
     else rbind (name_read len) (\<lambda>name.
       rbind (with_context0 p (ocontext_zero\<lparr>oc_u := U_name name\<rparr>)) (\<lambda>c.
       rbind (context_read_and_validate p) (\<lambda>x. rret (c\<lparr>oc_context1 := x\<rparr>)))))"

definition read_ibpkey :: "policydb \<Rightarrow> ocontext rd" where
  "read_ibpkey p =
     rbind (next_words 4) (\<lambda>buf.
     if buf ! 2 > 0xFFFF \<or> buf ! 3 > 0xFFFF then rfail EFAIL
     else with_context0 p (ocontext_zero\<lparr>oc_u := U_ibpkey (u64_of (buf ! 0) (buf ! 1)) (ucast (buf ! 2)) (ucast (buf ! 3))\<rparr>))"

definition read_ibendport :: "policydb \<Rightarrow> ocontext rd" where
  "read_ibendport p =
     rbind (next_words 2) (\<lambda>buf.
     if buf ! 0 = 0 \<or> unat (buf ! 0) > IB_DEVICE_NAME_MAX - 1 then rfail EFAIL
     else if buf ! 1 > 0xFF \<or> buf ! 1 = 0 then rfail EFAIL
     else rbind (name_read (buf ! 0)) (\<lambda>name.
       with_context0 p (ocontext_zero\<lparr>oc_u := U_ibendport name (ucast (buf ! 1))\<rparr>)))"

definition read_fsuse :: "policydb \<Rightarrow> ocontext rd" where
  "read_fsuse p =
     rbind (next_words 2) (\<lambda>buf.
     if zero_or_saturated (ucast (buf ! 1) :: u64) then rfail EFAIL
     else rbind (name_read (buf ! 1)) (\<lambda>name. with_context0 p (ocontext_zero\<lparr>oc_u := U_name name, oc_v := buf ! 0\<rparr>)))"

definition ocontext_selinux_entry :: "policydb \<Rightarrow> nat \<Rightarrow> ocontext rd" where
  "ocontext_selinux_entry p i =
     (if i = OCON_ISID then read_isid p
      else if i = OCON_FS \<or> i = OCON_NETIF then read_named p
      else if i = OCON_IBPKEY then read_ibpkey p
      else if i = OCON_IBENDPORT then read_ibendport p
      else if i = OCON_PORT then
        rbind (next_words 3) (\<lambda>buf.
          with_context0 p (ocontext_zero\<lparr>oc_u := U_port (ucast (buf ! 0)) (ucast (buf ! 1)) (ucast (buf ! 2))\<rparr>))
      else if i = OCON_NODE then
        rbind (next_words 2) (\<lambda>buf. with_context0 p (ocontext_zero\<lparr>oc_u := U_node (buf ! 0) (buf ! 1)\<rparr>))
      else if i = OCON_FSUSE then read_fsuse p
      else if i = OCON_NODE6 then
        rbind (next_words 8) (\<lambda>buf. with_context0 p (ocontext_zero\<lparr>oc_u := U_node6 (take 4 buf) (drop 4 buf)\<rparr>))
      else rfail EFAIL)"

text \<open>The lists number \<open>i\<close>, \<open>i + 1\<close>, \ldots of the array, \<open>n\<close> of them. An empty list leaves the entry
  of the array as it is.\<close>

fun ocontext_lists :: "(policydb \<Rightarrow> nat \<Rightarrow> ocontext rd) \<Rightarrow> nat \<Rightarrow> nat \<Rightarrow> policydb \<Rightarrow> policydb rd" where
  "ocontext_lists entry 0 i p = rret p"
| "ocontext_lists entry (Suc n) i p =
     rbind next_u32 (\<lambda>nel.
     rbind (rlist (unat nel) (rbind (rmalloc EFAIL) (\<lambda>_. entry p i))) (\<lambda>l.
     ocontext_lists entry n (i + 1) (if l = [] then p else p\<lparr>ocontexts := (ocontexts p)[i := l]\<rparr>)))"

definition ocontext_read_xen :: "nat \<Rightarrow> policydb \<Rightarrow> policydb rd" where
  "ocontext_read_xen ocon_num p = rerr EFAIL (ocontext_lists ocontext_xen_entry ocon_num 0 p)"

definition ocontext_read_selinux :: "nat \<Rightarrow> policydb \<Rightarrow> policydb rd" where
  "ocontext_read_selinux ocon_num p = rerr EFAIL (ocontext_lists ocontext_selinux_entry ocon_num 0 p)"

definition ocontext_read :: "nat \<Rightarrow> policydb \<Rightarrow> policydb rd" where
  "ocontext_read ocon_num p =
     (if target_platform p = SEPOL_TARGET_SELINUX then ocontext_read_selinux ocon_num p
      else if target_platform p = SEPOL_TARGET_XEN then ocontext_read_xen ocon_num p
      else rfail EFAIL)"

subsection \<open>Contexts of generated file systems\<close>

text \<open>The place of a new file system type in the list, and of a new path among those of its type:
  the entries before and after it, or None when it is a duplicate.\<close>

fun genfs_place :: "cstring \<Rightarrow> genfs list \<Rightarrow> (genfs list \<times> genfs list) option" where
  "genfs_place fstype [] = Some ([], [])"
| "genfs_place fstype (g # gs) =
     (if strcmp fstype (genfs_fstype g) = 0 then None
      else if strcmp fstype (genfs_fstype g) < 0 then Some ([], g # gs)
      else map_option (\<lambda>(bef, aft). (g # bef, aft)) (genfs_place fstype gs))"

fun genfs_head_place :: "ocontext \<Rightarrow> ocontext list \<Rightarrow> (ocontext list \<times> ocontext list) option" where
  "genfs_head_place newc [] = Some ([], [])"
| "genfs_head_place newc (c # cs) =
     (if strcmp (oc_name newc) (oc_name c) = 0 \<and> (oc_v c = 0 \<or> oc_v newc = 0 \<or> oc_v newc = oc_v c) then None
      else if length (oc_name newc) > length (oc_name c) then Some ([], c # cs)
      else map_option (\<lambda>(bef, aft). (c # bef, aft)) (genfs_head_place newc cs))"

definition genfs_entry :: "policydb \<Rightarrow> ocontext rd" where
  "genfs_entry p =
     rbind (rmalloc EFAIL) (\<lambda>_. rbind next_u32 (\<lambda>len.
     if zero_or_saturated (ucast len :: u64) then rfail EFAIL
     else rbind (name_read len) (\<lambda>name. rbind next_u32 (\<lambda>sclass.
       with_context0 p (ocontext_zero\<lparr>oc_u := U_name name, oc_v := sclass\<rparr>)))))"

definition genfs_add_entry :: "policydb \<Rightarrow> ocontext list \<Rightarrow> ocontext list rd" where
  "genfs_add_entry p hds =
     rbind (genfs_entry p) (\<lambda>newc.
     case genfs_head_place newc hds of None \<Rightarrow> rfail EFAIL | Some (bef, aft) \<Rightarrow> rret (bef @ newc # aft))"

definition genfs_one :: "policydb \<Rightarrow> policydb rd" where
  "genfs_one p =
     rbind next_u32 (\<lambda>len.
     if zero_or_saturated (ucast len :: u64) then rfail EFAIL
     else rbind (rmalloc EFAIL) (\<lambda>_. rbind (name_read len) (\<lambda>fstype.
       case genfs_place fstype (genfs_list p) of
         None \<Rightarrow> rfail EFAIL
       | Some (bef, aft) \<Rightarrow>
           rbind next_u32 (\<lambda>nel2. rbind (rtimes (unat nel2) (genfs_add_entry p) []) (\<lambda>hds.
           rret (p\<lparr>genfs_list := bef @ \<lparr>genfs_fstype = fstype, genfs_head = hds\<rparr> # aft\<rparr>))))))"

definition genfs_read :: "policydb \<Rightarrow> policydb rd" where
  "genfs_read p = rerr EFAIL (rbind next_u32 (\<lambda>nel. rtimes (unat nel) genfs_one p))"

subsection \<open>Range transitions\<close>

text \<open>A transition as the file has it.\<close>

definition range_entry :: "policydb \<Rightarrow> (range_trans \<times> mls_range) rd" where
  "range_entry p =
     rbind (rmalloc EFAIL) (\<lambda>_. rbind (next_words 2) (\<lambda>buf.
     if \<not> value_isvalid (buf ! 0) (nprim (p_types p)) then rfail EFAIL
     else if \<not> value_isvalid (buf ! 1) (nprim (p_types p)) then rfail EFAIL
     else rbind (if policy_type p = POLICY_KERN \<and> policyvers p \<ge> POLICYDB_VERSION_RANGETRANS
                 then rbind next_u32 (\<lambda>tc. if \<not> value_isvalid tc (nprim (p_classes p)) then rfail EFAIL else rret tc)
                 else rret (ucast (process_class p))) (\<lambda>tc.
       rbind (rmalloc EFAIL) (\<lambda>_. rbind mls_read_range_helper (\<lambda>r.
       rret (\<lparr>rtr_source_type = buf ! 0, rtr_target_type = buf ! 1, rtr_target_class = tc\<rparr>, r))))))"

definition range_to_rule :: "range_trans \<Rightarrow> mls_range \<Rightarrow> range_trans_rule hp" where
  "range_to_rule rt r =
     hbind (hmalloc EFAIL) (\<lambda>_.
     hbind (\<lambda>h. ebitmap_set_bit h ebitmap_init (rtr_source_type rt - 1) 1) (\<lambda>st.
     hbind (\<lambda>h. ebitmap_set_bit h ebitmap_init (rtr_target_type rt - 1) 1) (\<lambda>tt.
     hbind (\<lambda>h. ebitmap_set_bit h ebitmap_init (rtr_target_class rt - 1) 1) (\<lambda>tc.
     hbind (mls_range_to_semantic r) (\<lambda>sr.
     hret \<lparr>rngl_stypes = type_set_init\<lparr>ts_types := st\<rparr>, rngl_ttypes = type_set_init\<lparr>ts_types := tt\<rparr>,
           rngl_tclasses = tc, rngl_trange = sr\<rparr>)))))"

text \<open>The rules of the enabled branch of the first block: a null pointer is followed when there is none.\<close>

definition set_global_ranges :: "range_trans_rule list \<Rightarrow> policydb \<Rightarrow> errno + policydb" where
  "set_global_ranges rs p =
     (case global p of
        b # bs \<Rightarrow>
          (case block_enabled b of
             Some i \<Rightarrow> Inr (p\<lparr>global := b\<lparr>branch_list := (branch_list b)[i := (branch_list b ! i)\<lparr>decl_range_tr_rules := rs\<rparr>]\<rparr> # bs\<rparr>)
           | None \<Rightarrow> Inl EFAULT)
      | [] \<Rightarrow> Inl EFAULT)"

definition range_one :: "policydb \<times> range_trans_rule list \<Rightarrow> (policydb \<times> range_trans_rule list) rd" where
  "range_one ps =
     (case ps of (p, rs) \<Rightarrow>
      rbind (rerr EFAIL (range_entry p)) (\<lambda>(rt, r).
      if policy_type p = POLICY_KERN
      then rbind (rerr EFAIL (rinsert (range_tr p) rt r)) (\<lambda>t. rret (p\<lparr>range_tr := t\<rparr>, rs))
      else rbind (rerr EFAIL (rhp (range_to_rule rt r))) (\<lambda>rule.
        case set_global_ranges (rs @ [rule]) p of Inl e \<Rightarrow> rfail e | Inr p1 \<Rightarrow> rret (p1, rs @ [rule]))))"

definition range_read :: "policydb \<Rightarrow> policydb rd" where
  "range_read p = rbind next_u32 (\<lambda>nel. rbind (rtimes (unat nel) range_one (p, [])) (\<lambda>(p1, _). rret p1))"

end
