(* ===== verification/Module_Read.thy ===== *)
theory Module_Read
  imports Policydb_Init Rules_Read
begin

section \<open>Reading modules\<close>

text \<open>
  libsepol/src/policydb.c, the readers of the module format: the rules of a declaration, the symbols
  in its scope and its own symbol tables, the blocks of declarations, and the scope tables.
\<close>

abbreviation (input) MOD_POLICYDB_VERSION_RANGETRANS :: u32 where "MOD_POLICYDB_VERSION_RANGETRANS \<equiv> 6"
abbreviation (input) MOD_POLICYDB_VERSION_FILENAME_TRANS :: u32 where "MOD_POLICYDB_VERSION_FILENAME_TRANS \<equiv> 11"
abbreviation (input) MOD_POLICYDB_VERSION_ROLETRANS :: u32 where "MOD_POLICYDB_VERSION_ROLETRANS \<equiv> 12"
abbreviation (input) MOD_POLICYDB_VERSION_SELF_TYPETRANS :: u32 where "MOD_POLICYDB_VERSION_SELF_TYPETRANS \<equiv> 21"

subsection \<open>Rules of a declaration\<close>

definition role_trans_rule_read :: "policydb \<Rightarrow> role_trans_rule list rd" where
  "role_trans_rule_read p =
     rerr EFAIL
       (rbind next_u32 (\<lambda>nel.
        rlist (unat nel)
          (rbind (rmalloc EFAIL) (\<lambda>_. rbind role_set_read (\<lambda>rs. rbind type_set_read (\<lambda>ts.
           rbind (if policyvers p \<ge> MOD_POLICYDB_VERSION_ROLETRANS then ebitmap_read
                  else if process_class p = 0 then rfail EFAIL
                  else rhp (\<lambda>h. ebitmap_set_bit h ebitmap_init (ucast (process_class p) - 1) 1)) (\<lambda>cl.
           rbind next_u32 (\<lambda>nr.
           rret \<lparr>rtrl_roles = rs, rtrl_types = ts, rtrl_classes = cl, rtrl_new_role = nr\<rparr>))))))))"

definition role_allow_rule_read :: "role_allow_rule list rd" where
  "role_allow_rule_read =
     rbind next_u32 (\<lambda>nel.
     rlist (unat nel)
       (rbind (rmalloc EFAIL) (\<lambda>_. rbind role_set_read (\<lambda>rs. rbind role_set_read (\<lambda>nr.
        rret \<lparr>rarl_roles = rs, rarl_new_roles = nr\<rparr>)))))"

definition filename_trans_rule_read :: "policydb \<Rightarrow> filename_trans_rule list rd" where
  "filename_trans_rule_read p =
     (let self = (policyvers p \<ge> MOD_POLICYDB_VERSION_SELF_TYPETRANS) in
      rbind next_u32 (\<lambda>nel.
      rlist (unat nel)
        (rbind (rmalloc EFAIL) (\<lambda>_. rbind next_u32 (\<lambda>len.
         if zero_or_saturated len then rfail EFAIL
         else rbind (name_read len) (\<lambda>name. rbind type_set_read (\<lambda>st. rbind type_set_read (\<lambda>tt.
           rbind (next_words (if self then 3 else 2)) (\<lambda>buf.
           rret \<lparr>ftrl_flags = (if self then buf ! 2 else 0), ftrl_stypes = st, ftrl_ttypes = tt, ftrl_tclass = buf ! 0,
                 ftrl_name = name, ftrl_otype = buf ! 1\<rparr>)))))))))"

definition range_trans_rule_read :: "range_trans_rule list rd" where
  "range_trans_rule_read =
     rerr EFAIL
       (rbind next_u32 (\<lambda>nel.
        rlist (unat nel)
          (rbind (rmalloc EFAIL) (\<lambda>_. rbind type_set_read (\<lambda>st. rbind type_set_read (\<lambda>tt.
           rbind ebitmap_read (\<lambda>tc. rbind mls_read_semantic_range_helper (\<lambda>r.
           rret \<lparr>rngl_stypes = st, rngl_ttypes = tt, rngl_tclasses = tc, rngl_trange = r\<rparr>))))))))"

text \<open>The bitmaps beyond the number of symbol tables of the version stay empty.\<close>

definition scope_index_read :: "nat \<Rightarrow> scope_index rd" where
  "scope_index_read num_scope_syms =
     rerr EFAIL
       (rbind (rlist num_scope_syms ebitmap_read) (\<lambda>sc. rbind next_u32 (\<lambda>len.
        let si = \<lparr>si_scope = sc @ replicate (SYM_NUM - num_scope_syms) ebitmap_init, si_class_perms_map = [], si_class_perms_len = len\<rparr> in
        if len = - 1 then rfail EFAIL
        else if len = 0 then rret si
        else rbind (rmalloc EFAIL) (\<lambda>_. rbind (rlist (unat len) ebitmap_read) (\<lambda>ms. rret (si\<lparr>si_class_perms_map := ms\<rparr>))))))"

subsection \<open>Symbol tables\<close>

text \<open>The symbols of one table, in the table \<open>st\<close>, with the number of primary names that the file gives.\<close>

definition table_read :: "((cstring, 'd) hashtab \<Rightarrow> (cstring, 'd) hashtab rd) \<Rightarrow> u32 \<Rightarrow> u32 \<Rightarrow> 'd symtab \<Rightarrow> 'd symtab rd" where
  "table_read f np nelem st = rbind (rtimes (unat nelem) f (table st)) (\<lambda>t. rret \<lparr>table = t, nprim = np\<rparr>)"

definition decl_table_read :: "policydb \<Rightarrow> nat \<Rightarrow> u32 \<Rightarrow> u32 \<Rightarrow> avrule_decl \<Rightarrow> avrule_decl rd" where
  "decl_table_read p i np nelem d =
     (if i = SYM_COMMONS then rbind (table_read (common_read p) np nelem (d_commons d)) (\<lambda>t. rret (d\<lparr>d_commons := t\<rparr>))
      else if i = SYM_CLASSES then rbind (table_read (class_read p) np nelem (d_classes d)) (\<lambda>t. rret (d\<lparr>d_classes := t\<rparr>))
      else if i = SYM_ROLES then rbind (table_read (role_read p) np nelem (d_roles d)) (\<lambda>t. rret (d\<lparr>d_roles := t\<rparr>))
      else if i = SYM_TYPES then rbind (table_read (type_read p) np nelem (d_types d)) (\<lambda>t. rret (d\<lparr>d_types := t\<rparr>))
      else if i = SYM_USERS then rbind (table_read (user_read p) np nelem (d_users d)) (\<lambda>t. rret (d\<lparr>d_users := t\<rparr>))
      else if i = SYM_BOOLS then rbind (table_read (cond_read_bool p) np nelem (d_bools d)) (\<lambda>t. rret (d\<lparr>d_bools := t\<rparr>))
      else if i = SYM_LEVELS then rbind (table_read sens_read np nelem (d_levels d)) (\<lambda>t. rret (d\<lparr>d_levels := t\<rparr>))
      else rbind (table_read cat_read np nelem (d_cats d)) (\<lambda>t. rret (d\<lparr>d_cats := t\<rparr>)))"

fun decl_tables_read :: "policydb \<Rightarrow> nat \<Rightarrow> nat \<Rightarrow> avrule_decl \<Rightarrow> avrule_decl rd" where
  "decl_tables_read p 0 i d = rret d"
| "decl_tables_read p (Suc n) i d =
     rbind (next_words 2) (\<lambda>buf.
     if buf ! 0 = - 1 then rfail EFAIL
     else rbind (decl_table_read p i (buf ! 0) (buf ! 1) d) (decl_tables_read p n (i + 1)))"

subsection \<open>Declarations and blocks\<close>

text \<open>\<open>cond_read_list\<close> allocates the conditional table of the policy anew, so the policy is returned too.\<close>

definition avrule_decl_read :: "policydb \<Rightarrow> avrule_decl \<Rightarrow> nat \<Rightarrow> (policydb \<times> avrule_decl) rd" where
  "avrule_decl_read p decl num_scope_syms =
     rerr EFAIL
       (rbind (next_words 2) (\<lambda>buf.
        rbind (cond_read_list p) (\<lambda>(p1, cl).
        rbind (avrule_read_list p1) (\<lambda>avs.
        rbind (role_trans_rule_read p1) (\<lambda>rts.
        rbind role_allow_rule_read (\<lambda>ras.
        rbind (if policyvers p1 \<ge> MOD_POLICYDB_VERSION_FILENAME_TRANS then filename_trans_rule_read p1 else rret []) (\<lambda>fts.
        rbind (if policyvers p1 \<ge> MOD_POLICYDB_VERSION_RANGETRANS then range_trans_rule_read else rret []) (\<lambda>rngs.
        rbind (scope_index_read num_scope_syms) (\<lambda>req.
        rbind (scope_index_read num_scope_syms) (\<lambda>dcl.
        rbind (decl_tables_read p1 num_scope_syms 0
          (decl\<lparr>decl_id := buf ! 0, decl_enabled := buf ! 1, decl_cond_list := cl, decl_avrules := avs, decl_role_tr_rules := rts,
                decl_role_allow_rules := ras, decl_filename_trans_rules := fts, decl_range_tr_rules := rngs,
                decl_required := req, decl_declared := dcl\<rparr>)) (\<lambda>d.
        rret (p1, d))))))))))))"

fun block_decls :: "nat \<Rightarrow> nat \<Rightarrow> policydb \<times> avrule_block \<Rightarrow> (policydb \<times> avrule_block) rd" where
  "block_decls num_scope_syms 0 pb = rret pb"
| "block_decls num_scope_syms (Suc n) pb =
     (case pb of (p, b) \<Rightarrow>
      rbind (rhp (avrule_decl_create 0)) (\<lambda>d0.
      rbind (avrule_decl_read p d0 num_scope_syms) (\<lambda>(p1, d).
      if decl_enabled d \<noteq> 0 \<and> block_enabled b \<noteq> None then rfail EFAIL
      else block_decls num_scope_syms n
        (p1, b\<lparr>block_enabled := (if decl_enabled d \<noteq> 0 then Some (length (branch_list b)) else block_enabled b),
               branch_list := branch_list b @ [d]\<rparr>))))"

text \<open>The first block is the mandatory one, every other one is optional.\<close>

fun read_blocks :: "nat \<Rightarrow> nat \<Rightarrow> bool \<Rightarrow> policydb \<Rightarrow> (policydb \<times> avrule_block list) rd" where
  "read_blocks num_scope_syms 0 first p = rret (p, [])"
| "read_blocks num_scope_syms (Suc n) first p =
     rbind (rmalloc EFAIL) (\<lambda>_. rbind next_u32 (\<lambda>num_decls.
     rbind (block_decls num_scope_syms (unat num_decls)
              (p, \<lparr>branch_list = [], block_enabled = None, block_flags = (if first then 0 else AVRULE_OPTIONAL)\<rparr>)) (\<lambda>(p1, b).
     rbind (read_blocks num_scope_syms n False p1) (\<lambda>(p2, bs). rret (p2, b # bs)))))"

definition avrule_block_read :: "policydb \<Rightarrow> nat \<Rightarrow> (policydb \<times> avrule_block list) rd" where
  "avrule_block_read p num_scope_syms =
     rerr EFAIL (rbind next_u32 (\<lambda>num_blocks. read_blocks num_scope_syms (unat num_blocks) True p))"

subsection \<open>Scopes\<close>

definition symbol_known :: "policydb \<Rightarrow> nat \<Rightarrow> cstring \<Rightarrow> bool" where
  "symbol_known p i key \<longleftrightarrow>
     (if i = SYM_COMMONS then hashtab_search (table (p_commons p)) key \<noteq> None
      else if i = SYM_CLASSES then hashtab_search (table (p_classes p)) key \<noteq> None
      else if i = SYM_ROLES then hashtab_search (table (p_roles p)) key \<noteq> None
      else if i = SYM_TYPES then hashtab_search (table (p_types p)) key \<noteq> None
      else if i = SYM_USERS then hashtab_search (table (p_users p)) key \<noteq> None
      else if i = SYM_BOOLS then hashtab_search (table (p_bools p)) key \<noteq> None
      else if i = SYM_LEVELS then hashtab_search (table (p_levels p)) key \<noteq> None
      else hashtab_search (table (p_cats p)) key \<noteq> None)"

definition scope_read :: "nat \<Rightarrow> policydb \<Rightarrow> policydb rd" where
  "scope_read symnum p =
     rerr EFAIL
       (rbind next_u32 (\<lambda>key_len.
        if zero_or_saturated (ucast key_len :: u64) then rfail EFAIL
        else rbind (name_read key_len) (\<lambda>key.
          if \<not> symbol_known p symnum key then rfail EFAIL
          else rbind (rmalloc EFAIL) (\<lambda>_. rbind (next_words 2) (\<lambda>buf.
            if zero_or_saturated (buf ! 1) then rfail EFAIL
            else rbind (rmalloc EFAIL) (\<lambda>_. rbind (next_words (unat (buf ! 1))) (\<lambda>ids.
              if strcmp key OBJECT_R = 0 \<and> symnum = SYM_ROLES then rret p
              else rbind (rinsert (table (p_scope p ! symnum)) key \<lparr>sd_scope = buf ! 0, sd_decl_ids = ids\<rparr>) (\<lambda>t.
                rret (p\<lparr>p_scope := (p_scope p)[symnum := (p_scope p ! symnum)\<lparr>table := t\<rparr>]\<rparr>)))))))))"

fun scopes_read :: "nat \<Rightarrow> nat \<Rightarrow> policydb \<Rightarrow> policydb rd" where
  "scopes_read 0 i p = rret p"
| "scopes_read (Suc n) i p =
     rbind next_u32 (\<lambda>nel. rbind (rtimes (unat nel) (scope_read i) p) (scopes_read n (i + 1)))"

end
