(* ===== verification/Policydb_Index.thy ===== *)
theory Policydb_Index
  imports Policydb_Init Sidtab Ocontexts
begin

section \<open>Indexing a policy\<close>

text \<open>
  libsepol/src/policydb.c, the functions that fill the arrays indexed by value from the symbol tables
  and compute the caches of roles and users, with the expansion of sets and semantic levels from
  libsepol/src/expand.c, and \<open>policydb_load_isids\<close>. A datum is shared by its table and by the array
  that is indexed by value: a change is made in both.
\<close>

abbreviation (input) TYPE_STAR :: u32 where "TYPE_STAR \<equiv> 1"
abbreviation (input) TYPE_COMP :: u32 where "TYPE_COMP \<equiv> 2"
abbreviation (input) ROLE_STAR :: u32 where "ROLE_STAR \<equiv> 1"
abbreviation (input) ROLE_COMP :: u32 where "ROLE_COMP \<equiv> 2"
abbreviation (input) TYPE_FLAGS_EXPAND_ATTR_TRUE :: u32 where "TYPE_FLAGS_EXPAND_ATTR_TRUE \<equiv> 2"

subsection \<open>Expanding sets\<close>

text \<open>The numbers below \<open>n\<close>, and the loop that inverts the bits in a list.\<close>

definition below :: "u32 \<Rightarrow> u32 list" where
  "below n = map word_of_nat [0..<unat n]"

fun flip_bits :: "u32 list \<Rightarrow> ebitmap \<Rightarrow> ebitmap hp" where
  "flip_bits [] r = hret r"
| "flip_bits (i # is) r =
     hbind (\<lambda>h. ebitmap_set_bit h r i (if ebitmap_get_bit r i then 0 else 1)) (flip_bits is)"

fun map_bits :: "u32 list \<Rightarrow> u32 list \<Rightarrow> ebitmap \<Rightarrow> ebitmap hp" where
  "map_bits m [] dst = hret dst"
| "map_bits m (i # is) dst =
     (if m ! unat i = 0 then map_bits m is dst
      else hbind (\<lambda>h. ebitmap_set_bit h dst (m ! unat i - 1) 1) (map_bits m is))"

definition map_ebitmap :: "ebitmap \<Rightarrow> u32 list \<Rightarrow> ebitmap hp" where
  "map_ebitmap src m = herr EFAIL (map_bits m (ebitmap_positive_bits src) ebitmap_init)"

text \<open>The roles and the roles of the attributes of a set, in the base module.\<close>

fun expand_roles :: "policydb \<Rightarrow> u32 list \<Rightarrow> ebitmap \<Rightarrow> ebitmap hp" where
  "expand_roles base [] roles = hret roles"
| "expand_roles base (i # is) roles =
     (case idx_get (role_val_to_struct base) i of
        None \<Rightarrow> hfail EFAULT
      | Some role \<Rightarrow>
          hbind (if role_flavor role = ROLE_ATTRIB then (\<lambda>h. ebitmap_union h roles (role_roles role))
                 else (\<lambda>h. ebitmap_set_bit h roles i 1)) (expand_roles base is))"

text \<open>\<open>base\<close> comes with \<open>rolemap\<close>, or both are null.\<close>

definition role_set_expand :: "role_set \<Rightarrow> policydb \<Rightarrow> (policydb \<times> u32 list) option \<Rightarrow> ebitmap hp" where
  "role_set_expand x p rolemap =
     (if rs_flags x AND ROLE_STAR \<noteq> 0 then herr EFAIL (set_bits (below (nprim (p_roles p))) ebitmap_init)
      else hbind (case rolemap of
                    Some (base, m) \<Rightarrow>
                      hbind (expand_roles base (ebitmap_positive_bits (rs_roles x)) ebitmap_init) (\<lambda>roles. map_ebitmap roles m)
                  | None \<Rightarrow> herr EFAIL (\<lambda>h. ebitmap_cpy h (rs_roles x))) (\<lambda>mapped.
           hbind (herr EFAIL (set_bits (ebitmap_positive_bits mapped) ebitmap_init)) (\<lambda>r.
           if rs_flags x AND ROLE_COMP \<noteq> 0 then herr EFAIL (flip_bits (below (nprim (p_roles p))) r) else hret r)))"

definition type_at :: "policydb \<Rightarrow> u32 \<Rightarrow> type_datum option" where
  "type_at p i = idx_get (type_val_to_struct p) i"

definition is_attribute :: "policydb \<Rightarrow> u32 \<Rightarrow> bool" where
  "is_attribute p i \<longleftrightarrow> (case type_at p i of Some t \<Rightarrow> flavor t = TYPE_ATTRIB | None \<Rightarrow> False)"

fun expand_types :: "policydb \<Rightarrow> bool \<Rightarrow> u32 list \<Rightarrow> ebitmap \<Rightarrow> ebitmap hp" where
  "expand_types p ex [] types = hret types"
| "expand_types p ex (i # is) types =
     (if i \<ge> nprim (p_types p) then hfail EFAIL
      else (case type_at p i of
              None \<Rightarrow> hfail EFAIL
            | Some t \<Rightarrow>
                hbind (if flavor t = TYPE_ATTRIB \<and> (ex \<or> type_flags t AND TYPE_FLAGS_EXPAND_ATTR_TRUE \<noteq> 0)
                       then (\<lambda>h. ebitmap_union h types (type_types t)) else (\<lambda>h. ebitmap_set_bit h types i 1)) (expand_types p ex is)))"

text \<open>The negative set: the array is read at \<open>i\<close> before \<open>i\<close> is compared with its length.\<close>

fun expand_neg :: "policydb \<Rightarrow> u32 list \<Rightarrow> ebitmap \<Rightarrow> ebitmap hp" where
  "expand_neg p [] neg = hret neg"
| "expand_neg p (i # is) neg =
     (if unat i \<ge> length (type_val_to_struct p) then hfail EFAULT
      else hbind (case type_at p i of
                    Some t \<Rightarrow> if flavor t = TYPE_ATTRIB then (\<lambda>h. ebitmap_union h neg (type_types t)) else (\<lambda>h. ebitmap_set_bit h neg i 1)
                  | None \<Rightarrow> (\<lambda>h. ebitmap_set_bit h neg i 1)) (expand_neg p is))"

text \<open>The complement; an attribute that is in the set ends the program by an assertion.\<close>

fun comp_types :: "policydb \<Rightarrow> u32 list \<Rightarrow> ebitmap \<Rightarrow> ebitmap hp" where
  "comp_types p [] t = hret t"
| "comp_types p (i # is) t =
     (if is_attribute p i then (if ebitmap_get_bit t i then hfail EFAULT else comp_types p is t)
      else hbind (\<lambda>h. ebitmap_set_bit h t i (if ebitmap_get_bit t i then 0 else 1)) (comp_types p is))"

definition type_set_expand :: "type_set \<Rightarrow> policydb \<Rightarrow> bool \<Rightarrow> ebitmap hp" where
  "type_set_expand s p alwaysexpand =
     (let ex = (alwaysexpand \<or> \<not> ebitmap_is_empty (ts_negset s) \<or> ts_flags s \<noteq> 0); all = below (nprim (p_types p)) in
      hbind (expand_types p ex (ebitmap_positive_bits (ts_types s)) ebitmap_init) (\<lambda>types.
      hbind (expand_neg p (ebitmap_positive_bits (ts_negset s)) ebitmap_init) (\<lambda>neg.
      if ts_flags s AND TYPE_STAR \<noteq> 0
      then set_bits (filter (\<lambda>i. \<not> ebitmap_get_bit neg i \<and> \<not> is_attribute p i) all) ebitmap_init
      else hbind (set_bits (filter (\<lambda>i. \<not> ebitmap_get_bit neg i) (ebitmap_positive_bits types)) ebitmap_init) (\<lambda>t.
        if ts_flags s AND TYPE_COMP \<noteq> 0 then comp_types p all t else hret t))))"

subsection \<open>Expanding semantic levels\<close>

fun expand_cat :: "mls_level \<Rightarrow> u32 list \<Rightarrow> ebitmap \<Rightarrow> ebitmap hp" where
  "expand_cat lev [] c = hret c"
| "expand_cat lev (i # is) c =
     (if \<not> ebitmap_get_bit (cat lev) i then hfail EFAIL
      else hbind (\<lambda>h. ebitmap_set_bit h c i 1) (expand_cat lev is))"

text \<open>The positions \<open>cat->low - 1\<close> up to \<open>cat->high - 1\<close>; none when \<open>low\<close> is 0, where the first one wraps.\<close>

definition cat_positions :: "mls_semantic_cat \<Rightarrow> u32 list" where
  "cat_positions c = (if cat_low c = 0 then [] else map word_of_nat [unat (cat_low c) - 1..<unat (cat_high c)])"

fun expand_cats :: "mls_level \<Rightarrow> mls_semantic_cat list \<Rightarrow> ebitmap \<Rightarrow> ebitmap hp" where
  "expand_cats lev [] c = hret c"
| "expand_cats lev (sc # scs) c =
     (if cat_low sc > cat_high sc then hfail EFAIL
      else hbind (expand_cat lev (cat_positions sc) c) (expand_cats lev scs))"

definition mls_semantic_level_expand :: "mls_semantic_level \<Rightarrow> policydb \<Rightarrow> mls_level hp" where
  "mls_semantic_level_expand sl p =
     (let l0 = \<lparr>sens = 0, cat = ebitmap_init\<rparr> in
      if \<not> mls p then hret l0
      else if ssens sl = 0 then hret l0
      else if ssens sl > nprim (p_levels p) then hfail EFAIL
      else (case val_get (p_sens_val_to_name p) (ssens sl) of
              None \<Rightarrow> hfail EFAIL
            | Some name \<Rightarrow>
                (case hashtab_search (table (p_levels p)) name of
                   None \<Rightarrow> hfail EFAIL
                 | Some lev \<Rightarrow>
                     hbind (herr EFAIL (expand_cats (level lev) (scat sl) ebitmap_init)) (\<lambda>c. hret \<lparr>sens = ssens sl, cat = c\<rparr>))))"

definition mls_semantic_range_expand :: "mls_semantic_range \<Rightarrow> policydb \<Rightarrow> mls_range hp" where
  "mls_semantic_range_expand sr p =
     hbind (mls_semantic_level_expand (slevel0 sr) p) (\<lambda>l0.
     hbind (mls_semantic_level_expand (slevel1 sr) p) (\<lambda>l1.
     if \<not> mls_level_dom l1 l0 then hfail EFAIL else hret \<lparr>level0 = l0, level1 = l1\<rparr>))"

subsection \<open>Caches\<close>

definition put_role :: "cstring \<Rightarrow> role_datum \<Rightarrow> policydb \<Rightarrow> policydb" where
  "put_role key r p =
     p\<lparr>p_roles := (p_roles p)\<lparr>table := hashtab_update (table (p_roles p)) key (\<lambda>_. r)\<rparr>,
       role_val_to_struct := (role_val_to_struct p)[unat (role_value r - 1) := Some r]\<rparr>"

definition put_user :: "cstring \<Rightarrow> user_datum \<Rightarrow> policydb \<Rightarrow> policydb" where
  "put_user key u p =
     p\<lparr>p_users := (p_users p)\<lparr>table := hashtab_update (table (p_users p)) key (\<lambda>_. u)\<rparr>,
       user_val_to_struct := (user_val_to_struct p)[unat (user_value u - 1) := Some u]\<rparr>"

definition policydb_role_cache :: "cstring \<Rightarrow> role_datum \<Rightarrow> policydb \<Rightarrow> policydb hp" where
  "policydb_role_cache key role p =
     hbind (type_set_expand (role_types role) p True) (\<lambda>c. hret (put_role key (role\<lparr>role_cache := c\<rparr>) p))"

definition policydb_user_cache :: "cstring \<Rightarrow> user_datum \<Rightarrow> policydb \<Rightarrow> policydb hp" where
  "policydb_user_cache key user p =
     hbind (role_set_expand (user_roles user) p None) (\<lambda>c.
     let user = user\<lparr>user_cache := c\<rparr> in
     if policy_type p \<noteq> POLICY_KERN \<and> policy_type p \<noteq> POLICY_MOD
     then hbind (mls_semantic_range_expand (user_range user) p) (\<lambda>r.
          hbind (mls_semantic_level_expand (user_dfltlevel user) p) (\<lambda>l.
          hret (put_user key (user\<lparr>exp_range := r, exp_dfltlevel := l\<rparr>) p)))
     else hret (put_user key user p))"

text \<open>\<open>hashtab_map\<close> with a callback that changes the policy, without and with allocations. An access
  outside an array is not turned into an error code.\<close>

definition map_symbols :: "('k, 'd) hashtab \<Rightarrow> ('k \<Rightarrow> 'd \<Rightarrow> 's \<Rightarrow> errno + 's) \<Rightarrow> 's \<Rightarrow> errno + 's" where
  "map_symbols t f p =
     (case hashtab_map t (\<lambda>k d s. case f k d s of Inl _ \<Rightarrow> (- 1, s) | Inr s' \<Rightarrow> (0, s')) p of
        (ret, s) \<Rightarrow> if ret \<noteq> 0 then Inl EFAIL else Inr s)"

definition map_symbols_hp :: "('k, 'd) hashtab \<Rightarrow> ('k \<Rightarrow> 'd \<Rightarrow> 's \<Rightarrow> 's hp) \<Rightarrow> 's \<Rightarrow> 's hp" where
  "map_symbols_hp t f p h =
     (case hashtab_map t (\<lambda>k d (s, h). case f k d s h of
                             (Inl e, h') \<Rightarrow> (if e = EFAULT then - 2 else - 1, s, h') | (Inr s', h') \<Rightarrow> (0, s', h')) (p, h) of
        (ret, s, h') \<Rightarrow> (if ret = 0 then Inr s else Inl (if ret = - 2 then EFAULT else EFAIL), h'))"

definition hlift :: "errno + 'a \<Rightarrow> 'a hp" where
  "hlift r = (case r of Inl e \<Rightarrow> hfail e | Inr x \<Rightarrow> hret x)"

subsection \<open>Indexing one symbol\<close>

text \<open>The check every callback makes, and the two arrays it fills.\<close>

definition index_free :: "'d symtab \<Rightarrow> cstring option list \<Rightarrow> u32 \<Rightarrow> bool" where
  "index_free t val_to_name v \<longleftrightarrow> value_isvalid v (nprim t) \<and> val_get val_to_name v = None"

definition val_put :: "'a option list \<Rightarrow> u32 \<Rightarrow> 'a \<Rightarrow> 'a option list" where
  "val_put arr v x = arr[unat (v - 1) := Some x]"

definition common_index :: "cstring \<Rightarrow> common_datum \<Rightarrow> policydb \<Rightarrow> errno + policydb" where
  "common_index key d p =
     (if \<not> index_free (p_commons p) (p_common_val_to_name p) (common_value d) then Inl EINVAL
      else Inr (p\<lparr>p_common_val_to_name := val_put (p_common_val_to_name p) (common_value d) key\<rparr>))"

definition class_index :: "cstring \<Rightarrow> class_datum \<Rightarrow> policydb \<Rightarrow> errno + policydb" where
  "class_index key d p =
     (if \<not> index_free (p_classes p) (p_class_val_to_name p) (class_value d) then Inl EINVAL
      else Inr (p\<lparr>p_class_val_to_name := val_put (p_class_val_to_name p) (class_value d) key,
                  class_val_to_struct := val_put (class_val_to_struct p) (class_value d) d\<rparr>))"

definition role_index :: "cstring \<Rightarrow> role_datum \<Rightarrow> policydb \<Rightarrow> errno + policydb" where
  "role_index key d p =
     (if \<not> index_free (p_roles p) (p_role_val_to_name p) (role_value d) then Inl EINVAL
      else Inr (p\<lparr>p_role_val_to_name := val_put (p_role_val_to_name p) (role_value d) key,
                  role_val_to_struct := val_put (role_val_to_struct p) (role_value d) d\<rparr>))"

definition type_index :: "cstring \<Rightarrow> type_datum \<Rightarrow> policydb \<Rightarrow> errno + policydb" where
  "type_index key d p =
     (if primary d = 0 then Inr p
      else if \<not> index_free (p_types p) (p_type_val_to_name p) (type_value d) then Inl EINVAL
      else Inr (p\<lparr>p_type_val_to_name := val_put (p_type_val_to_name p) (type_value d) key,
                  type_val_to_struct := val_put (type_val_to_struct p) (type_value d) d\<rparr>))"

definition user_index :: "cstring \<Rightarrow> user_datum \<Rightarrow> policydb \<Rightarrow> errno + policydb" where
  "user_index key d p =
     (if \<not> index_free (p_users p) (p_user_val_to_name p) (user_value d) then Inl EINVAL
      else Inr (p\<lparr>p_user_val_to_name := val_put (p_user_val_to_name p) (user_value d) key,
                  user_val_to_struct := val_put (user_val_to_struct p) (user_value d) d\<rparr>))"

definition sens_index :: "cstring \<Rightarrow> level_datum \<Rightarrow> policydb \<Rightarrow> errno + policydb" where
  "sens_index key d p =
     (if lisalias d \<noteq> 0 then Inr p
      else if \<not> index_free (p_levels p) (p_sens_val_to_name p) (sens (level d)) then Inl EINVAL
      else Inr (p\<lparr>p_sens_val_to_name := val_put (p_sens_val_to_name p) (sens (level d)) key\<rparr>))"

definition cat_index :: "cstring \<Rightarrow> cat_datum \<Rightarrow> policydb \<Rightarrow> errno + policydb" where
  "cat_index key d p =
     (if cisalias d \<noteq> 0 then Inr p
      else if \<not> index_free (p_cats p) (p_cat_val_to_name p) (cat_value d) then Inl EINVAL
      else Inr (p\<lparr>p_cat_val_to_name := val_put (p_cat_val_to_name p) (cat_value d) key\<rparr>))"

subsection \<open>Indexing a policy\<close>

definition nulls :: "'d symtab \<Rightarrow> 'a option list" where
  "nulls t = replicate (unat (nprim t)) None"

definition policydb_index_classes :: "policydb \<Rightarrow> policydb hp" where
  "policydb_index_classes p =
     hbind (hmalloc EFAIL) (\<lambda>_. let p = p\<lparr>p_common_val_to_name := nulls (p_commons p)\<rparr> in
     hbind (hlift (map_symbols (table (p_commons p)) common_index p)) (\<lambda>p.
     hbind (hmalloc EFAIL) (\<lambda>_. hbind (hmalloc EFAIL) (\<lambda>_.
     let p = p\<lparr>class_val_to_struct := nulls (p_classes p), p_class_val_to_name := nulls (p_classes p)\<rparr> in
     hlift (map_symbols (table (p_classes p)) class_index p)))))"

definition policydb_index_bools :: "policydb \<Rightarrow> policydb hp" where
  "policydb_index_bools p =
     hbind (cond_init_bool_indexes p) (\<lambda>p. hbind (hmalloc EFAIL) (\<lambda>_.
     let p = p\<lparr>p_bool_val_to_name := nulls (p_bools p)\<rparr> in
     hlift (map_symbols (table (p_bools p)) cond_index_bool p)))"

text \<open>The declarations of all blocks with their positions.\<close>

definition decl_positions :: "policydb \<Rightarrow> (nat \<times> nat) list" where
  "decl_positions p = concat (map (\<lambda>b. map (Pair b) [0..<length (branch_list (global p ! b))]) [0..<length (global p)])"

definition index_decl :: "policydb \<Rightarrow> u32 \<Rightarrow> nat \<times> nat \<Rightarrow> (nat \<times> nat) option list \<Rightarrow> errno + (nat \<times> nat) option list" where
  "index_decl p num_decls pos arr =
     (let i = decl_id (branch_list (global p ! fst pos) ! snd pos) in
      if \<not> value_isvalid i num_decls then Inl EFAIL
      else if val_get arr i \<noteq> None then Inl EFAIL
      else Inr (val_put arr i pos))"

fun index_decl_list :: "policydb \<Rightarrow> u32 \<Rightarrow> (nat \<times> nat) list \<Rightarrow> (nat \<times> nat) option list \<Rightarrow> errno + (nat \<times> nat) option list" where
  "index_decl_list p num_decls [] arr = Inr arr"
| "index_decl_list p num_decls (pos # rest) arr =
     (case index_decl p num_decls pos arr of Inl e \<Rightarrow> Inl e | Inr arr' \<Rightarrow> index_decl_list p num_decls rest arr')"

definition policydb_index_decls :: "policydb \<Rightarrow> policydb hp" where
  "policydb_index_decls p =
     (let ds = decl_positions p in
      hbind (hmalloc EFAIL) (\<lambda>_.
      hbind (hlift (index_decl_list p (word_of_nat (length ds)) ds (replicate (length ds) None))) (\<lambda>arr.
      hret (p\<lparr>decl_val_to_struct := arr\<rparr>))))"

text \<open>One round of the loop over the tables: the array of names of a table without names is null.\<close>

definition index_table :: "(policydb \<Rightarrow> 'd symtab) \<Rightarrow> (cstring option list \<Rightarrow> policydb \<Rightarrow> policydb)
    \<Rightarrow> (cstring \<Rightarrow> 'd \<Rightarrow> policydb \<Rightarrow> errno + policydb) \<Rightarrow> policydb \<Rightarrow> policydb hp" where
  "index_table tab set_names f p =
     (if nprim (tab p) = 0 then hret (set_names [] p)
      else hbind (hmalloc EFAIL) (\<lambda>_. hlift (map_symbols (table (tab p)) f (set_names (nulls (tab p)) p))))"

definition index_tables :: "policydb \<Rightarrow> policydb hp" where
  "index_tables p =
     hbind (index_table p_roles (\<lambda>a. p_role_val_to_name_update (\<lambda>_. a)) role_index p) (\<lambda>p.
     hbind (index_table p_types (\<lambda>a. p_type_val_to_name_update (\<lambda>_. a)) type_index p) (\<lambda>p.
     hbind (index_table p_users (\<lambda>a. p_user_val_to_name_update (\<lambda>_. a)) user_index p) (\<lambda>p.
     hbind (index_table p_bools (\<lambda>a. p_bool_val_to_name_update (\<lambda>_. a)) cond_index_bool p) (\<lambda>p.
     hbind (index_table p_levels (\<lambda>a. p_sens_val_to_name_update (\<lambda>_. a)) sens_index p) (\<lambda>p.
     index_table p_cats (\<lambda>a. p_cat_val_to_name_update (\<lambda>_. a)) cat_index p)))))"

definition policydb_index_others :: "policydb \<Rightarrow> policydb hp" where
  "policydb_index_others p =
     hbind (hmalloc EFAIL) (\<lambda>_. hbind (hmalloc EFAIL) (\<lambda>_. hbind (hmalloc EFAIL) (\<lambda>_.
     hbind (cond_init_bool_indexes
       (p\<lparr>role_val_to_struct := nulls (p_roles p), user_val_to_struct := nulls (p_users p), type_val_to_struct := nulls (p_types p)\<rparr>)) (\<lambda>p.
     hbind (index_tables p) (\<lambda>p.
     hbind (map_symbols_hp (table (p_roles p)) policydb_role_cache p) (\<lambda>p.
     map_symbols_hp (table (p_users p)) policydb_user_cache p))))))"

definition policydb_reindex_users :: "policydb \<Rightarrow> policydb hp" where
  "policydb_reindex_users p =
     hbind (hmalloc EFAIL) (\<lambda>_. hbind (hmalloc EFAIL) (\<lambda>_.
     let p = p\<lparr>user_val_to_struct := nulls (p_users p), p_user_val_to_name := nulls (p_users p)\<rparr> in
     hbind (hlift (map_symbols (table (p_users p)) user_index p)) (\<lambda>p.
     map_symbols_hp (table (p_users p)) policydb_user_cache p)))"

subsection \<open>Initial identifiers\<close>

fun load_isids :: "ocontext list \<Rightarrow> sidtab \<Rightarrow> sidtab hp" where
  "load_isids [] s = hret s"
| "load_isids (c # cs) s = hbind (sepol_sidtab_insert s (oc_sid0 c) (oc_context0 c)) (load_isids cs)"

definition policydb_load_isids :: "policydb \<Rightarrow> sidtab hp" where
  "policydb_load_isids p = herr EFAIL (hbind sepol_sidtab_init (load_isids (ocontexts p ! OCON_ISID)))"

end
