(* ===== verification/Policydb_Validate.thy ===== *)
theory Policydb_Validate
  imports Policydb_Index
begin

section \<open>Validating a policy\<close>

text \<open>
  libsepol/src/policydb_validate.c: the checks that a policy passes before it is used. A validator
  that returns 0 or -1 is a predicate. The flavors are the numbers of primary symbols of each kind
  and the gaps in their values.
\<close>

abbreviation (input) POLICYDB_VERSION_BOOL :: u32 where "POLICYDB_VERSION_BOOL \<equiv> 16"
abbreviation (input) POLICYDB_VERSION_PERMISSIVE :: u32 where "POLICYDB_VERSION_PERMISSIVE \<equiv> 23"
abbreviation (input) POLICYDB_VERSION_FILENAME_TRANS :: u32 where "POLICYDB_VERSION_FILENAME_TRANS \<equiv> 25"
abbreviation (input) POLICYDB_VERSION_MIN :: u32 where "POLICYDB_VERSION_MIN \<equiv> 15"
abbreviation (input) POLICYDB_VERSION_MAX :: u32 where "POLICYDB_VERSION_MAX \<equiv> 33"
abbreviation (input) MOD_POLICYDB_VERSION_MIN :: u32 where "MOD_POLICYDB_VERSION_MIN \<equiv> 4"
abbreviation (input) MOD_POLICYDB_VERSION_MAX :: u32 where "MOD_POLICYDB_VERSION_MAX \<equiv> 21"
abbreviation (input) TYPE_TYPE :: u32 where "TYPE_TYPE \<equiv> 0"
abbreviation (input) TYPE_FLAGS_EXPAND_ATTR_FALSE :: u32 where "TYPE_FLAGS_EXPAND_ATTR_FALSE \<equiv> 4"
abbreviation (input) TYPE_FLAGS_EXPAND_ATTR :: u32 where "TYPE_FLAGS_EXPAND_ATTR \<equiv> 6"
abbreviation (input) COND_BOOL_FLAGS_TUNABLE :: u32 where "COND_BOOL_FLAGS_TUNABLE \<equiv> 1"
abbreviation (input) COND_NODE_FLAGS_TUNABLE :: u32 where "COND_NODE_FLAGS_TUNABLE \<equiv> 1"
abbreviation (input) RULE_SELF :: u32 where "RULE_SELF \<equiv> 1"

subsection \<open>Flavors\<close>

record validate =
  v_nprim :: u32
  v_gaps :: ebitmap

definition create_gap_ebitmap :: "cstring option list \<Rightarrow> u32 \<Rightarrow> ebitmap hp" where
  "create_gap_ebitmap val_to_name n = set_bits (filter (\<lambda>i. idx_get val_to_name i = None) (below n)) ebitmap_init"

definition validate_init :: "cstring option list \<Rightarrow> u32 \<Rightarrow> validate hp" where
  "validate_init val_to_name n = hbind (herr EFAIL (create_gap_ebitmap val_to_name n)) (\<lambda>g. hret \<lparr>v_nprim = n, v_gaps = g\<rparr>)"

definition gaps_checked :: "policydb \<Rightarrow> bool" where
  "gaps_checked p \<longleftrightarrow> policyvers p < POLICYDB_VERSION_AVTAB \<or> policyvers p > POLICYDB_VERSION_PERMISSIVE"

definition validate_array_init :: "policydb \<Rightarrow> validate list hp" where
  "validate_array_init p =
     hlist
       [validate_init (p_common_val_to_name p) (nprim (p_commons p)),
        validate_init (p_class_val_to_name p) (nprim (p_classes p)),
        validate_init (p_role_val_to_name p) (nprim (p_roles p)),
        if gaps_checked p then validate_init (p_type_val_to_name p) (nprim (p_types p))
        else hret \<lparr>v_nprim = nprim (p_types p), v_gaps = ebitmap_init\<rparr>,
        validate_init (p_user_val_to_name p) (nprim (p_users p)),
        validate_init (p_bool_val_to_name p) (nprim (p_bools p)),
        validate_init (p_sens_val_to_name p) (nprim (p_levels p)),
        validate_init (p_cat_val_to_name p) (nprim (p_cats p))]"

subsection \<open>Values and sets\<close>

definition validate_value :: "u32 \<Rightarrow> validate \<Rightarrow> bool" where
  "validate_value v flav \<longleftrightarrow> \<not> (v = 0 \<or> v > v_nprim flav) \<and> \<not> ebitmap_get_bit (v_gaps flav) (v - 1)"

definition validate_ebitmap :: "ebitmap \<Rightarrow> validate \<Rightarrow> bool" where
  "validate_ebitmap m flav \<longleftrightarrow>
     \<not> (ebitmap_length m > 0 \<and> ebitmap_highest_set_bit m \<ge> v_nprim flav) \<and> \<not> ebitmap_match_any m (v_gaps flav)"

definition validate_type_set :: "type_set \<Rightarrow> validate \<Rightarrow> bool" where
  "validate_type_set s flav \<longleftrightarrow>
     validate_ebitmap (ts_types s) flav \<and> validate_ebitmap (ts_negset s) flav \<and>
     (ts_flags s = 0 \<or> ts_flags s = TYPE_STAR \<or> ts_flags s = TYPE_COMP)"

definition validate_empty_type_set :: "type_set \<Rightarrow> bool" where
  "validate_empty_type_set s \<longleftrightarrow> ebitmap_is_empty (ts_types s) \<and> ebitmap_is_empty (ts_negset s) \<and> ts_flags s = 0"

definition validate_role_set :: "role_set \<Rightarrow> validate \<Rightarrow> bool" where
  "validate_role_set s flav \<longleftrightarrow>
     validate_ebitmap (rs_roles s) flav \<and> (rs_flags s = 0 \<or> rs_flags s = ROLE_STAR \<or> rs_flags s = ROLE_COMP)"

text \<open>\<open>hashtab_map\<close> and \<open>avtab_map\<close> with a validator.\<close>

definition hashtab_all :: "('k, 'd) hashtab \<Rightarrow> ('k \<Rightarrow> 'd \<Rightarrow> bool) \<Rightarrow> bool" where
  "hashtab_all t P \<longleftrightarrow> fst (hashtab_map t (\<lambda>k d s. (if P k d then 0 else - 1, s)) ()) = 0"

definition avtab_all :: "avtab \<Rightarrow> (avtab_key \<Rightarrow> avtab_datum \<Rightarrow> bool) \<Rightarrow> bool" where
  "avtab_all t P \<longleftrightarrow> fst (avtab_map t (\<lambda>k d s. (if P k d then 0 else - 1, s)) ()) = 0"

subsection \<open>Scopes\<close>

definition validate_scope :: "u32 \<Rightarrow> scope_datum \<Rightarrow> bool" where
  "validate_scope n sd \<longleftrightarrow>
     (sd_scope sd = SCOPE_REQ \<or> sd_scope sd = SCOPE_DECL) \<and> list_all (\<lambda>i. value_isvalid i n) (sd_decl_ids sd)"

definition validate_scopes :: "policydb \<Rightarrow> bool" where
  "validate_scopes p \<longleftrightarrow>
     (let num_decls = word_of_nat (length (decl_positions p)) in
      list_all (\<lambda>sc. hashtab_all (table sc) (\<lambda>_. validate_scope num_decls)) (p_scope p))"

subsection \<open>Symbols\<close>

definition validate_constraint_names :: "u32 \<Rightarrow> constraint_expr \<Rightarrow> validate list \<Rightarrow> bool" where
  "validate_constraint_names nperms e fl \<longleftrightarrow>
     \<not> (attr e AND CEXPR_XTARGET \<noteq> 0 \<and> nperms \<noteq> 0) \<and>
     (attr e AND CEXPR_TYPE = 0 \<longrightarrow> validate_empty_type_set (type_names e)) \<and>
     (cop e = CEXPR_EQ \<or> cop e = CEXPR_NEQ) \<and>
     (if attr e = CEXPR_USER \<or> attr e = CEXPR_USER OR CEXPR_TARGET \<or> attr e = CEXPR_USER OR CEXPR_XTARGET
      then validate_ebitmap (names e) (fl ! SYM_USERS)
      else if attr e = CEXPR_ROLE \<or> attr e = CEXPR_ROLE OR CEXPR_TARGET \<or> attr e = CEXPR_ROLE OR CEXPR_XTARGET
      then validate_ebitmap (names e) (fl ! SYM_ROLES)
      else if attr e = CEXPR_TYPE \<or> attr e = CEXPR_TYPE OR CEXPR_TARGET \<or> attr e = CEXPR_TYPE OR CEXPR_XTARGET
      then validate_ebitmap (names e) (fl ! SYM_TYPES) \<and> validate_type_set (type_names e) (fl ! SYM_TYPES)
      else False)"

definition validate_constraint_attr :: "constraint_expr \<Rightarrow> bool" where
  "validate_constraint_attr e \<longleftrightarrow>
     ebitmap_is_empty (names e) \<and> validate_empty_type_set (type_names e) \<and>
     (if cop e = CEXPR_EQ \<or> cop e = CEXPR_NEQ then True
      else if cop e = CEXPR_DOM \<or> cop e = CEXPR_DOMBY \<or> cop e = CEXPR_INCOMP
      then \<not> (attr e AND CEXPR_USER \<noteq> 0 \<or> attr e AND CEXPR_TYPE \<noteq> 0)
      else False) \<and>
     attr e \<in> {CEXPR_USER, CEXPR_ROLE, CEXPR_TYPE, CEXPR_L1L2, CEXPR_L1H2, CEXPR_H1L2, CEXPR_H1H2, CEXPR_L1H1, CEXPR_L2H2}"

definition validate_constraint_expr :: "u32 \<Rightarrow> constraint_expr \<Rightarrow> validate list \<Rightarrow> bool" where
  "validate_constraint_expr nperms e fl \<longleftrightarrow>
     (if expr_type e = CEXPR_NAMES then validate_constraint_names nperms e fl
      else if expr_type e = CEXPR_ATTR then validate_constraint_attr e
      else (expr_type e = CEXPR_NOT \<or> expr_type e = CEXPR_AND \<or> expr_type e = CEXPR_OR) \<and>
           cop e = 0 \<and> attr e = 0 \<and> ebitmap_is_empty (names e) \<and> validate_empty_type_set (type_names e))"

definition validate_constraint_nodes :: "u32 \<Rightarrow> constraint_node list \<Rightarrow> validate list \<Rightarrow> bool" where
  "validate_constraint_nodes nperms cons fl \<longleftrightarrow>
     list_all (\<lambda>c.
       \<not> (nperms = 0 \<and> cpermissions c \<noteq> 0) \<and> \<not> (nperms > 0 \<and> cpermissions c = 0) \<and>
       \<not> (nperms > 0 \<and> nperms \<noteq> PERM_SYMTAB_SIZE \<and> cpermissions c \<ge> push_bit (unat nperms) 1) \<and>
       cexpr c \<noteq> [] \<and> list_all (\<lambda>e. validate_constraint_expr nperms e fl) (cexpr c)) cons"

definition validate_common_datum :: "common_datum \<Rightarrow> validate list \<Rightarrow> bool" where
  "validate_common_datum c fl \<longleftrightarrow>
     validate_value (common_value c) (fl ! SYM_COMMONS) \<and> \<not> nprim (common_permissions c) > PERM_SYMTAB_SIZE"

definition validate_class_datum :: "class_datum \<Rightarrow> validate list \<Rightarrow> bool" where
  "validate_class_datum c fl \<longleftrightarrow>
     validate_value (class_value c) (fl ! SYM_CLASSES) \<and>
     (case comdatum c of None \<Rightarrow> True | Some com \<Rightarrow> validate_common_datum com fl) \<and>
     \<not> nprim (permissions c) > PERM_SYMTAB_SIZE \<and>
     validate_constraint_nodes (nprim (permissions c)) (constraints c) fl \<and>
     validate_constraint_nodes 0 (validatetrans c) fl \<and>
     default_user c \<in> {0, DEFAULT_SOURCE, DEFAULT_TARGET} \<and>
     default_role c \<in> {0, DEFAULT_SOURCE, DEFAULT_TARGET} \<and>
     default_type c \<in> {0, DEFAULT_SOURCE, DEFAULT_TARGET} \<and>
     default_range c \<in> {0, DEFAULT_SOURCE_LOW, DEFAULT_SOURCE_HIGH, DEFAULT_SOURCE_LOW_HIGH, DEFAULT_TARGET_LOW,
       DEFAULT_TARGET_HIGH, DEFAULT_TARGET_LOW_HIGH, DEFAULT_GLBLUB}"

definition validate_role_datum :: "role_datum \<Rightarrow> validate list \<Rightarrow> bool" where
  "validate_role_datum r fl \<longleftrightarrow>
     validate_value (role_value r) (fl ! SYM_ROLES) \<and> validate_ebitmap (dominates r) (fl ! SYM_ROLES) \<and>
     validate_type_set (role_types r) (fl ! SYM_TYPES) \<and>
     (role_bounds r \<noteq> 0 \<longrightarrow> validate_value (role_bounds r) (fl ! SYM_ROLES)) \<and>
     validate_ebitmap (role_roles r) (fl ! SYM_ROLES) \<and> (role_flavor r = ROLE_ROLE \<or> role_flavor r = ROLE_ATTRIB)"

definition validate_simpletype :: "u32 \<Rightarrow> policydb \<Rightarrow> validate list \<Rightarrow> bool" where
  "validate_simpletype v p fl \<longleftrightarrow>
     validate_value v (fl ! SYM_TYPES) \<and>
     (case val_get (type_val_to_struct p) v of None \<Rightarrow> False | Some t \<Rightarrow> flavor t \<noteq> TYPE_ATTRIB)"

definition validate_type_datum :: "type_datum \<Rightarrow> policydb \<Rightarrow> validate list \<Rightarrow> bool" where
  "validate_type_datum t p fl \<longleftrightarrow>
     validate_value (type_value t) (fl ! SYM_TYPES) \<and>
     (primary t \<noteq> 0 \<longrightarrow> validate_value (primary t) (fl ! SYM_TYPES)) \<and>
     (if flavor t = TYPE_TYPE \<or> flavor t = TYPE_ALIAS
      then ebitmap_is_empty (type_types t) \<and> (type_bounds t \<noteq> 0 \<longrightarrow> validate_simpletype (type_bounds t) p fl)
      else if flavor t = TYPE_ATTRIB then validate_ebitmap (type_types t) (fl ! SYM_TYPES) \<and> type_bounds t = 0
      else False) \<and>
     type_flags t \<in> {0, TYPE_FLAGS_PERMISSIVE, TYPE_FLAGS_EXPAND_ATTR_TRUE, TYPE_FLAGS_EXPAND_ATTR_FALSE, TYPE_FLAGS_EXPAND_ATTR}"

definition validate_mls_semantic_cat :: "mls_semantic_cat list \<Rightarrow> validate \<Rightarrow> bool" where
  "validate_mls_semantic_cat cs cats \<longleftrightarrow> list_all (\<lambda>c. validate_value (cat_low c) cats \<and> validate_value (cat_high c) cats) cs"

definition validate_mls_semantic_level :: "mls_semantic_level \<Rightarrow> validate \<Rightarrow> validate \<Rightarrow> bool" where
  "validate_mls_semantic_level l lv cats \<longleftrightarrow>
     ssens l = 0 \<or> validate_value (ssens l) lv \<and> validate_mls_semantic_cat (scat l) cats"

definition validate_mls_semantic_range :: "mls_semantic_range \<Rightarrow> validate \<Rightarrow> validate \<Rightarrow> bool" where
  "validate_mls_semantic_range r lv cats \<longleftrightarrow>
     validate_mls_semantic_level (slevel0 r) lv cats \<and> validate_mls_semantic_level (slevel1 r) lv cats"

definition validate_mls_level :: "mls_level \<Rightarrow> validate \<Rightarrow> validate \<Rightarrow> bool" where
  "validate_mls_level l lv cats \<longleftrightarrow> validate_value (sens l) lv \<and> validate_ebitmap (cat l) cats"

definition validate_level_datum :: "level_datum \<Rightarrow> validate list \<Rightarrow> bool" where
  "validate_level_datum d fl \<longleftrightarrow> validate_mls_level (level d) (fl ! SYM_LEVELS) (fl ! SYM_CATS)"

definition validate_mls_range :: "mls_range \<Rightarrow> validate \<Rightarrow> validate \<Rightarrow> bool" where
  "validate_mls_range r lv cats \<longleftrightarrow> validate_mls_level (level0 r) lv cats \<and> validate_mls_level (level1 r) lv cats"

definition validate_user_datum :: "user_datum \<Rightarrow> validate list \<Rightarrow> policydb \<Rightarrow> bool" where
  "validate_user_datum u fl p \<longleftrightarrow>
     validate_value (user_value u) (fl ! SYM_USERS) \<and> validate_role_set (user_roles u) (fl ! SYM_ROLES) \<and>
     validate_mls_semantic_range (user_range u) (fl ! SYM_LEVELS) (fl ! SYM_CATS) \<and>
     validate_mls_semantic_level (user_dfltlevel u) (fl ! SYM_LEVELS) (fl ! SYM_CATS) \<and>
     (mls p \<and> policy_type p \<noteq> POLICY_MOD \<longrightarrow> validate_mls_range (exp_range u) (fl ! SYM_LEVELS) (fl ! SYM_CATS)) \<and>
     (mls p \<and> policy_type p \<noteq> POLICY_MOD \<longrightarrow> validate_mls_level (exp_dfltlevel u) (fl ! SYM_LEVELS) (fl ! SYM_CATS)) \<and>
     (user_bounds u \<noteq> 0 \<longrightarrow> validate_value (user_bounds u) (fl ! SYM_USERS))"

definition validate_bool_datum :: "cond_bool_datum \<Rightarrow> validate list \<Rightarrow> bool" where
  "validate_bool_datum b fl \<longleftrightarrow>
     validate_value (bool_value b) (fl ! SYM_BOOLS) \<and> (state b = 0 \<or> state b = 1) \<and>
     (bool_flags b = 0 \<or> bool_flags b = COND_BOOL_FLAGS_TUNABLE)"

text \<open>Every value has a datum exactly when it is not a gap.\<close>

definition array_gaps :: "'d symtab \<Rightarrow> 'a option list \<Rightarrow> validate \<Rightarrow> bool" where
  "array_gaps t arr flav \<longleftrightarrow>
     list_all (\<lambda>i. (idx_get arr i \<noteq> None) \<noteq> ebitmap_get_bit (v_gaps flav) i) (below (nprim t))"

definition validate_datum_array_gaps :: "policydb \<Rightarrow> validate list \<Rightarrow> bool" where
  "validate_datum_array_gaps p fl \<longleftrightarrow>
     array_gaps (p_classes p) (class_val_to_struct p) (fl ! SYM_CLASSES) \<and>
     array_gaps (p_roles p) (role_val_to_struct p) (fl ! SYM_ROLES) \<and>
     (gaps_checked p \<longrightarrow> array_gaps (p_types p) (type_val_to_struct p) (fl ! SYM_TYPES)) \<and>
     array_gaps (p_users p) (user_val_to_struct p) (fl ! SYM_USERS) \<and>
     array_gaps (p_bools p) (bool_val_to_struct p) (fl ! SYM_BOOLS)"

definition validate_datum_array_entries :: "policydb \<Rightarrow> validate list \<Rightarrow> bool" where
  "validate_datum_array_entries p fl \<longleftrightarrow>
     hashtab_all (table (p_commons p)) (\<lambda>_ d. validate_common_datum d fl) \<and>
     hashtab_all (table (p_classes p)) (\<lambda>_ d. validate_class_datum d fl) \<and>
     hashtab_all (table (p_roles p)) (\<lambda>_ d. validate_role_datum d fl) \<and>
     hashtab_all (table (p_types p)) (\<lambda>_ d. validate_type_datum d p fl) \<and>
     hashtab_all (table (p_users p)) (\<lambda>_ d. validate_user_datum d fl p) \<and>
     (mls p \<longrightarrow> hashtab_all (table (p_levels p)) (\<lambda>_ d. validate_level_datum d fl)) \<and>
     hashtab_all (table (p_cats p)) (\<lambda>_ d. value_isvalid (cat_value d) (v_nprim (fl ! SYM_CATS))) \<and>
     hashtab_all (table (p_bools p)) (\<lambda>_ d. validate_bool_datum d fl)"

subsection \<open>Kernel policies\<close>

definition validate_avtab_key :: "avtab_key \<Rightarrow> bool \<Rightarrow> policydb \<Rightarrow> validate list \<Rightarrow> bool" where
  "validate_avtab_key k conditional p fl \<longleftrightarrow>
     (if policy_type p = POLICY_KERN \<and> specified k AND AVTAB_TYPE \<noteq> 0
      then validate_simpletype (ucast (source_type k)) p fl \<and> validate_simpletype (ucast (target_type k)) p fl
      else validate_value (ucast (source_type k)) (fl ! SYM_TYPES) \<and> validate_value (ucast (target_type k)) (fl ! SYM_TYPES)) \<and>
     validate_value (ucast (target_class k)) (fl ! SYM_CLASSES) \<and>
     (let s = 0xFFF AND specified k in
      if s \<in> {AVTAB_ALLOWED, AVTAB_AUDITALLOW, AVTAB_AUDITDENY, AVTAB_TRANSITION, AVTAB_MEMBER, AVTAB_CHANGE} then True
      else if s \<in> {AVTAB_XPERMS_ALLOWED, AVTAB_XPERMS_AUDITALLOW, AVTAB_XPERMS_DONTAUDIT} then \<not> conditional
      else False)"

definition validate_xperms :: "avtab_extended_perms \<Rightarrow> bool" where
  "validate_xperms x \<longleftrightarrow> xspecified x = 2 \<or> xspecified x = 1"

definition validate_avtab_key_and_datum :: "policydb \<Rightarrow> validate list \<Rightarrow> avtab_key \<Rightarrow> avtab_datum \<Rightarrow> bool" where
  "validate_avtab_key_and_datum p fl k d \<longleftrightarrow>
     validate_avtab_key k False p fl \<and>
     (specified k AND AVTAB_TYPE \<noteq> 0 \<longrightarrow> validate_simpletype (data d) p fl) \<and>
     (specified k AND AVTAB_XPERMS \<noteq> 0 \<longrightarrow> (case xperms d of Some x \<Rightarrow> validate_xperms x | None \<Rightarrow> False))"

definition validate_avtab :: "avtab \<Rightarrow> policydb \<Rightarrow> validate list \<Rightarrow> bool" where
  "validate_avtab t p fl \<longleftrightarrow> avtab_all t (validate_avtab_key_and_datum p fl)"

text \<open>The rules from the one at an address to the end of its chain in the table: the loop follows the
  links of the table, not only those of the list.\<close>

definition chain_at :: "avtab \<Rightarrow> nat \<Rightarrow> avtab_node list" where
  "chain_at t a = (case ahtable t of None \<Rightarrow> [] | Some tbl \<Rightarrow> concat (map (dropWhile (\<lambda>n. naddr n \<noteq> a)) tbl))"

definition validate_cond_av_list :: "nat list \<Rightarrow> policydb \<Rightarrow> validate list \<Rightarrow> bool" where
  "validate_cond_av_list l p fl \<longleftrightarrow>
     list_all (\<lambda>a. list_all (\<lambda>n. validate_avtab_key (akey n) True p fl) (chain_at (te_cond_avtab p) a)) l"

definition validate_avrule :: "bool \<Rightarrow> policydb \<Rightarrow> validate list \<Rightarrow> avrule \<Rightarrow> bool" where
  "validate_avrule conditional p fl r \<longleftrightarrow>
     validate_type_set (ar_stypes r) (fl ! SYM_TYPES) \<and> validate_type_set (ar_ttypes r) (fl ! SYM_TYPES) \<and>
     (if ar_specified r \<in> {0x1, 0x2, 0x4, 0x8, 0x10, 0x20, 0x40} then True
      else if ar_specified r \<in> {0x80, 0x100, 0x200, 0x400, 0x800} then \<not> conditional else False) \<and>
     list_all (\<lambda>c. validate_value (cp_tclass c) (fl ! SYM_CLASSES) \<and>
       (ar_specified r AND 0x70 \<noteq> 0 \<longrightarrow> validate_simpletype (cp_data c) p fl)) (ar_perms r) \<and>
     (if ar_specified r AND AVRULE_XPERMS \<noteq> 0
      then (case ar_xperms r of None \<Rightarrow> False | Some x \<Rightarrow> xp_specified x = 1 \<or> xp_specified x = 2)
      else ar_xperms r = None) \<and>
     (ar_flags r = 0 \<or> ar_flags r = RULE_SELF)"

definition validate_avrules :: "avrule list \<Rightarrow> bool \<Rightarrow> policydb \<Rightarrow> validate list \<Rightarrow> bool" where
  "validate_avrules rs conditional p fl \<longleftrightarrow> list_all (validate_avrule conditional p fl) rs"

definition validate_bool_id_array :: "u32 list \<Rightarrow> u32 \<Rightarrow> validate \<Rightarrow> bool" where
  "validate_bool_id_array ids n bools \<longleftrightarrow>
     \<not> n \<ge> COND_MAX_BOOLS \<and> list_all (\<lambda>b. validate_value b bools) (take (unat n) ids)"

text \<open>The index of the top of the stack after the expression, or None when it is not accepted.\<close>

fun cond_expr_depth :: "cond_expr list \<Rightarrow> validate \<Rightarrow> int \<Rightarrow> int option" where
  "cond_expr_depth [] bools depth = Some depth"
| "cond_expr_depth (e # es) bools depth =
     (if cond_expr_type e = COND_BOOL then
        (if \<not> validate_value (cond_bool e) bools then None
         else if depth = int COND_EXPR_MAXDEPTH - 1 then None else cond_expr_depth es bools (depth + 1))
      else if cond_expr_type e = COND_NOT then (if depth < 0 then None else cond_expr_depth es bools depth)
      else if cond_expr_type e \<in> {COND_OR, COND_AND, COND_XOR, COND_EQ, COND_NEQ}
      then (if depth < 1 then None else cond_expr_depth es bools (depth - 1))
      else None)"

definition validate_cond_expr :: "cond_expr list \<Rightarrow> validate \<Rightarrow> bool" where
  "validate_cond_expr es bools \<longleftrightarrow> es \<noteq> [] \<and> cond_expr_depth es bools (- 1) = Some 0"

definition validate_cond_node :: "policydb \<Rightarrow> validate list \<Rightarrow> cond_node \<Rightarrow> bool" where
  "validate_cond_node p fl c \<longleftrightarrow>
     validate_cond_expr (expr c) (fl ! SYM_BOOLS) \<and>
     validate_cond_av_list (true_list c) p fl \<and> validate_cond_av_list (false_list c) p fl \<and>
     validate_avrules (avtrue_list c) True p fl \<and> validate_avrules (avfalse_list c) True p fl \<and>
     validate_bool_id_array (bool_ids c) (nbools c) (fl ! SYM_BOOLS) \<and>
     (cur_state c = 0 \<or> cur_state c = 1) \<and> (cn_flags c = 0 \<or> cn_flags c = COND_NODE_FLAGS_TUNABLE)"

definition validate_cond_list :: "cond_node list \<Rightarrow> policydb \<Rightarrow> validate list \<Rightarrow> bool" where
  "validate_cond_list cs p fl \<longleftrightarrow> list_all (validate_cond_node p fl) cs"

definition validate_role_transes :: "role_trans list \<Rightarrow> validate list \<Rightarrow> bool" where
  "validate_role_transes ts fl \<longleftrightarrow>
     list_all (\<lambda>t. validate_value (rt_role t) (fl ! SYM_ROLES) \<and> validate_value (rt_type t) (fl ! SYM_TYPES) \<and>
       validate_value (rt_tclass t) (fl ! SYM_CLASSES) \<and> validate_value (rt_new_role t) (fl ! SYM_ROLES)) ts"

definition validate_role_allows :: "role_allow list \<Rightarrow> validate list \<Rightarrow> bool" where
  "validate_role_allows rs fl \<longleftrightarrow>
     list_all (\<lambda>r. validate_value (ra_role r) (fl ! SYM_ROLES) \<and> validate_value (ra_new_role r) (fl ! SYM_ROLES)) rs"

definition validate_filename_trans :: "validate list \<Rightarrow> filename_trans_key \<Rightarrow> filename_trans_datum list \<Rightarrow> bool" where
  "validate_filename_trans fl k ds \<longleftrightarrow>
     validate_value (ft_ttype k) (fl ! SYM_TYPES) \<and> validate_value (ft_tclass k) (fl ! SYM_CLASSES) \<and> ds \<noteq> [] \<and>
     list_all (\<lambda>d. validate_ebitmap (ft_stypes d) (fl ! SYM_TYPES) \<and> validate_value (ft_otype d) (fl ! SYM_TYPES)) ds"

definition validate_filename_trans_hashtab :: "(filename_trans_key, filename_trans_datum list) hashtab \<Rightarrow> validate list \<Rightarrow> bool" where
  "validate_filename_trans_hashtab t fl \<longleftrightarrow> hashtab_all t (validate_filename_trans fl)"

definition validate_context :: "context_struct \<Rightarrow> validate list \<Rightarrow> bool \<Rightarrow> bool" where
  "validate_context c fl ml \<longleftrightarrow>
     validate_value (c_user c) (fl ! SYM_USERS) \<and> validate_value (c_role c) (fl ! SYM_ROLES) \<and>
     validate_value (c_type c) (fl ! SYM_TYPES) \<and>
     (ml \<longrightarrow> validate_mls_range (c_range c) (fl ! SYM_LEVELS) (fl ! SYM_CATS))"

definition validate_ocontext :: "policydb \<Rightarrow> validate list \<Rightarrow> nat \<Rightarrow> ocontext \<Rightarrow> bool" where
  "validate_ocontext p fl i c \<longleftrightarrow>
     validate_context (oc_context0 c) fl (mls p) \<and>
     (target_platform p = SEPOL_TARGET_SELINUX \<longrightarrow>
       (if i = OCON_FS \<or> i = OCON_NETIF then validate_context (oc_context1 c) fl (mls p)
        else if i = OCON_PORT then (case oc_u c of U_port _ low high \<Rightarrow> \<not> low > high | _ \<Rightarrow> True)
        else if i = OCON_FSUSE then oc_v c \<in> {1, 2, 3}
        else True))"

definition validate_ocontexts :: "policydb \<Rightarrow> validate list \<Rightarrow> bool" where
  "validate_ocontexts p fl \<longleftrightarrow> list_all (\<lambda>i. list_all (validate_ocontext p fl i) (ocontexts p ! i)) [0..<OCON_NUM]"

definition validate_genfs :: "policydb \<Rightarrow> validate list \<Rightarrow> bool" where
  "validate_genfs p fl \<longleftrightarrow>
     list_all (\<lambda>g. list_all (\<lambda>c. validate_context (oc_context0 c) fl (mls p) \<and>
       (oc_v c \<noteq> 0 \<longrightarrow> validate_value (oc_v c) (fl ! SYM_CLASSES))) (genfs_head g)) (genfs_list p)"

subsection \<open>Modules\<close>

definition validate_role_trans_rules :: "role_trans_rule list \<Rightarrow> validate list \<Rightarrow> bool" where
  "validate_role_trans_rules rs fl \<longleftrightarrow>
     list_all (\<lambda>r. validate_role_set (rtrl_roles r) (fl ! SYM_ROLES) \<and> validate_type_set (rtrl_types r) (fl ! SYM_TYPES) \<and>
       validate_ebitmap (rtrl_classes r) (fl ! SYM_CLASSES) \<and> validate_value (rtrl_new_role r) (fl ! SYM_ROLES)) rs"

definition validate_role_allow_rules :: "role_allow_rule list \<Rightarrow> validate list \<Rightarrow> bool" where
  "validate_role_allow_rules rs fl \<longleftrightarrow>
     list_all (\<lambda>r. validate_role_set (rarl_roles r) (fl ! SYM_ROLES) \<and> validate_role_set (rarl_new_roles r) (fl ! SYM_ROLES)) rs"

definition validate_range_trans_rules :: "range_trans_rule list \<Rightarrow> validate list \<Rightarrow> bool" where
  "validate_range_trans_rules rs fl \<longleftrightarrow>
     list_all (\<lambda>r. validate_type_set (rngl_stypes r) (fl ! SYM_TYPES) \<and> validate_type_set (rngl_ttypes r) (fl ! SYM_TYPES) \<and>
       validate_ebitmap (rngl_tclasses r) (fl ! SYM_CLASSES) \<and>
       validate_mls_semantic_range (rngl_trange r) (fl ! SYM_LEVELS) (fl ! SYM_CATS)) rs"

definition validate_scope_index :: "scope_index \<Rightarrow> validate list \<Rightarrow> bool" where
  "validate_scope_index si fl \<longleftrightarrow>
     list_all (\<lambda>i. validate_ebitmap (si_scope si ! i) (fl ! i))
       [SYM_CLASSES, SYM_ROLES, SYM_TYPES, SYM_USERS, SYM_BOOLS, SYM_LEVELS, SYM_CATS] \<and>
     \<not> si_class_perms_len si > v_nprim (fl ! SYM_CLASSES)"

definition validate_filename_trans_rules :: "filename_trans_rule list \<Rightarrow> policydb \<Rightarrow> validate list \<Rightarrow> bool" where
  "validate_filename_trans_rules rs p fl \<longleftrightarrow>
     list_all (\<lambda>r. validate_type_set (ftrl_stypes r) (fl ! SYM_TYPES) \<and> validate_type_set (ftrl_ttypes r) (fl ! SYM_TYPES) \<and>
       validate_value (ftrl_tclass r) (fl ! SYM_CLASSES) \<and> validate_simpletype (ftrl_otype r) p fl \<and>
       ftrl_flags r AND NOT RULE_SELF = 0) rs"

text \<open>The callback reads the first 32 bits of every datum as its value. A level datum starts with a
  pointer: \<open>level_addr\<close> are the low bits of its address.\<close>

definition validate_symtabs :: "(level_datum \<Rightarrow> u32) \<Rightarrow> avrule_decl \<Rightarrow> validate list \<Rightarrow> bool" where
  "validate_symtabs level_addr d fl \<longleftrightarrow>
     hashtab_all (table (d_commons d)) (\<lambda>_ x. value_isvalid (common_value x) (v_nprim (fl ! SYM_COMMONS))) \<and>
     hashtab_all (table (d_classes d)) (\<lambda>_ x. value_isvalid (class_value x) (v_nprim (fl ! SYM_CLASSES))) \<and>
     hashtab_all (table (d_roles d)) (\<lambda>_ x. value_isvalid (role_value x) (v_nprim (fl ! SYM_ROLES))) \<and>
     hashtab_all (table (d_types d)) (\<lambda>_ x. value_isvalid (type_value x) (v_nprim (fl ! SYM_TYPES))) \<and>
     hashtab_all (table (d_users d)) (\<lambda>_ x. value_isvalid (user_value x) (v_nprim (fl ! SYM_USERS))) \<and>
     hashtab_all (table (d_bools d)) (\<lambda>_ x. value_isvalid (bool_value x) (v_nprim (fl ! SYM_BOOLS))) \<and>
     hashtab_all (table (d_levels d)) (\<lambda>_ x. value_isvalid (level_addr x) (v_nprim (fl ! SYM_LEVELS))) \<and>
     hashtab_all (table (d_cats d)) (\<lambda>_ x. value_isvalid (cat_value x) (v_nprim (fl ! SYM_CATS)))"

definition validate_decl :: "(level_datum \<Rightarrow> u32) \<Rightarrow> policydb \<Rightarrow> validate list \<Rightarrow> avrule_decl \<Rightarrow> bool" where
  "validate_decl level_addr p fl d \<longleftrightarrow>
     validate_cond_list (decl_cond_list d) p fl \<and> validate_avrules (decl_avrules d) False p fl \<and>
     validate_role_trans_rules (decl_role_tr_rules d) fl \<and> validate_role_allow_rules (decl_role_allow_rules d) fl \<and>
     validate_range_trans_rules (decl_range_tr_rules d) fl \<and> validate_scope_index (decl_required d) fl \<and>
     validate_scope_index (decl_declared d) fl \<and> validate_filename_trans_rules (decl_filename_trans_rules d) p fl \<and>
     validate_symtabs level_addr d fl"

definition validate_avrule_blocks :: "(level_datum \<Rightarrow> u32) \<Rightarrow> policydb \<Rightarrow> validate list \<Rightarrow> bool" where
  "validate_avrule_blocks level_addr p fl \<longleftrightarrow>
     list_all (\<lambda>b. list_all (validate_decl level_addr p fl) (branch_list b) \<and>
       (block_flags b = 0 \<or> block_flags b = AVRULE_OPTIONAL)) (global p)"

subsection \<open>The policy\<close>

definition validate_permissives :: "policydb \<Rightarrow> validate list \<Rightarrow> bool" where
  "validate_permissives p fl \<longleftrightarrow> list_all (\<lambda>i. validate_simpletype i p fl) (ebitmap_positive_bits (permissive_map p))"

definition validate_range_transition :: "validate list \<Rightarrow> range_trans \<Rightarrow> mls_range \<Rightarrow> bool" where
  "validate_range_transition fl rt r \<longleftrightarrow>
     validate_value (rtr_source_type rt) (fl ! SYM_TYPES) \<and> validate_value (rtr_target_type rt) (fl ! SYM_TYPES) \<and>
     validate_value (rtr_target_class rt) (fl ! SYM_CLASSES) \<and> validate_mls_range r (fl ! SYM_LEVELS) (fl ! SYM_CATS)"

definition validate_range_transitions :: "policydb \<Rightarrow> validate list \<Rightarrow> bool" where
  "validate_range_transitions p fl \<longleftrightarrow> hashtab_all (range_tr p) (validate_range_transition fl)"

definition validate_typeattr_map :: "policydb \<Rightarrow> validate list \<Rightarrow> bool" where
  "validate_typeattr_map p fl \<longleftrightarrow>
     (if policy_type p = POLICY_KERN
      then list_all (\<lambda>i. validate_ebitmap (type_attr_map p ! i) (fl ! SYM_TYPES)) [0..<unat (nprim (p_types p))]
      else type_attr_map p = [])"

definition validate_properties :: "policydb \<Rightarrow> bool" where
  "validate_properties p \<longleftrightarrow>
     (if policy_type p = POLICY_KERN then \<not> (policyvers p < POLICYDB_VERSION_MIN \<or> policyvers p > POLICYDB_VERSION_MAX)
      else if policy_type p = POLICY_BASE \<or> policy_type p = POLICY_MOD
      then \<not> (policyvers p < MOD_POLICYDB_VERSION_MIN \<or> policyvers p > MOD_POLICYDB_VERSION_MAX)
      else False) \<and>
     (target_platform p = SEPOL_TARGET_SELINUX \<or> target_platform p = SEPOL_TARGET_XEN) \<and>
     handle_unknown p \<in> {0, 2, 4}"

definition policydb_valid :: "(level_datum \<Rightarrow> u32) \<Rightarrow> policydb \<Rightarrow> validate list \<Rightarrow> bool" where
  "policydb_valid level_addr p fl \<longleftrightarrow>
     validate_properties p \<and>
     (if policy_type p = POLICY_KERN
      then validate_avtab (te_avtab p) p fl \<and>
           (policyvers p \<ge> POLICYDB_VERSION_BOOL \<longrightarrow> validate_cond_list (cond_list p) p fl) \<and>
           validate_role_transes (role_tr p) fl \<and> validate_role_allows (role_allows p) fl \<and>
           (policyvers p \<ge> POLICYDB_VERSION_FILENAME_TRANS \<longrightarrow> validate_filename_trans_hashtab (filename_trans p) fl)
      else validate_avrule_blocks level_addr p fl) \<and>
     validate_ocontexts p fl \<and> validate_genfs p fl \<and> validate_scopes p \<and>
     validate_datum_array_gaps p fl \<and> validate_datum_array_entries p fl \<and>
     validate_permissives p fl \<and> validate_range_transitions p fl \<and>
     (policyvers p \<ge> POLICYDB_VERSION_AVTAB \<longrightarrow> validate_typeattr_map p fl)"

definition policydb_validate :: "(level_datum \<Rightarrow> u32) \<Rightarrow> policydb \<Rightarrow> unit hp" where
  "policydb_validate level_addr p =
     hbind (herr EFAIL (validate_array_init p)) (\<lambda>fl. if policydb_valid level_addr p fl then hret () else hfail EFAIL)"

end
