(* ===== verification/Policydb_Read.thy ===== *)
theory Policydb_Read
  imports Module_Read Policydb_Validate
begin

section \<open>Reading a policy\<close>

text \<open>
  libsepol/src/policydb.c, \<open>policydb_read\<close>: the header of a policy file and the table of the versions
  that are understood, the symbol tables, the rules, the indexing, the object contexts, and the
  validation of the result. Of the errors of the functions it calls, an access through a null
  pointer or outside an array is kept apart; every other one is \<open>POLICYDB_ERROR\<close>.
\<close>

abbreviation (input) POLICYDB_MAGIC :: u32 where "POLICYDB_MAGIC \<equiv> 0xF97CFF8C"
abbreviation (input) POLICYDB_MOD_MAGIC :: u32 where "POLICYDB_MOD_MAGIC \<equiv> 0xF97CFF8D"
abbreviation (input) POLICYDB_STRING_MAX_LENGTH :: u32 where "POLICYDB_STRING_MAX_LENGTH \<equiv> 32"
abbreviation (input) POLICYDB_VERSION_POLCAP :: u32 where "POLICYDB_VERSION_POLCAP \<equiv> 22"
abbreviation (input) MOD_POLICYDB_VERSION_POLCAP :: u32 where "MOD_POLICYDB_VERSION_POLCAP \<equiv> 7"
abbreviation (input) POLICYDB_CONFIG_MLS :: u32 where "POLICYDB_CONFIG_MLS \<equiv> 1"
abbreviation (input) POLICYDB_CONFIG_UNKNOWN_MASK :: u32 where "POLICYDB_CONFIG_UNKNOWN_MASK \<equiv> 6"

text \<open>"SE Linux", "XenFlask" and "SE Linux Module", and the names of the classes and permissions that
  are looked up.\<close>

abbreviation (input) POLICYDB_STRING :: cstring where "POLICYDB_STRING \<equiv> [0x53, 0x45, 0x20, 0x4C, 0x69, 0x6E, 0x75, 0x78]"
abbreviation (input) POLICYDB_XEN_STRING :: cstring where "POLICYDB_XEN_STRING \<equiv> [0x58, 0x65, 0x6E, 0x46, 0x6C, 0x61, 0x73, 0x6B]"
abbreviation (input) POLICYDB_MOD_STRING :: cstring where
  "POLICYDB_MOD_STRING \<equiv> POLICYDB_STRING @ [0x20, 0x4D, 0x6F, 0x64, 0x75, 0x6C, 0x65]"
abbreviation (input) PROCESS_NAME :: cstring where "PROCESS_NAME \<equiv> [0x70, 0x72, 0x6F, 0x63, 0x65, 0x73, 0x73]"
abbreviation (input) DIR_NAME :: cstring where "DIR_NAME \<equiv> [0x64, 0x69, 0x72]"
abbreviation (input) DOMAIN_NAME :: cstring where "DOMAIN_NAME \<equiv> [0x64, 0x6F, 0x6D, 0x61, 0x69, 0x6E]"
abbreviation (input) TRANSITION_NAME :: cstring where "TRANSITION_NAME \<equiv> [0x74, 0x72, 0x61, 0x6E, 0x73, 0x69, 0x74, 0x69, 0x6F, 0x6E]"
abbreviation (input) DYNTRANSITION_NAME :: cstring where "DYNTRANSITION_NAME \<equiv> [0x64, 0x79, 0x6E] @ TRANSITION_NAME"

subsection \<open>Versions\<close>

record policydb_compat_info =
  ci_type :: u32
  ci_version :: u32
  ci_sym_num :: u32
  ci_ocon_num :: u32
  ci_target_platform :: u32

definition compat :: "u32 \<Rightarrow> u32 \<Rightarrow> u32 \<Rightarrow> u32 \<Rightarrow> u32 \<Rightarrow> policydb_compat_info" where
  "compat t v sn on tp = \<lparr>ci_type = t, ci_version = v, ci_sym_num = sn, ci_ocon_num = on, ci_target_platform = tp\<rparr>"

definition policydb_compat :: "policydb_compat_info list" where
  "policydb_compat =
     [compat POLICY_KERN 24 8 5 SEPOL_TARGET_XEN, compat POLICY_KERN 30 8 6 SEPOL_TARGET_XEN,
      compat POLICY_KERN 15 5 6 SEPOL_TARGET_SELINUX, compat POLICY_KERN 16 6 6 SEPOL_TARGET_SELINUX,
      compat POLICY_KERN 17 6 7 SEPOL_TARGET_SELINUX, compat POLICY_KERN 18 6 7 SEPOL_TARGET_SELINUX,
      compat POLICY_KERN 19 8 7 SEPOL_TARGET_SELINUX, compat POLICY_KERN 20 8 7 SEPOL_TARGET_SELINUX,
      compat POLICY_KERN 21 8 7 SEPOL_TARGET_SELINUX, compat POLICY_KERN 22 8 7 SEPOL_TARGET_SELINUX,
      compat POLICY_KERN 23 8 7 SEPOL_TARGET_SELINUX, compat POLICY_KERN 24 8 7 SEPOL_TARGET_SELINUX,
      compat POLICY_KERN 25 8 7 SEPOL_TARGET_SELINUX, compat POLICY_KERN 26 8 7 SEPOL_TARGET_SELINUX,
      compat POLICY_KERN 27 8 7 SEPOL_TARGET_SELINUX, compat POLICY_KERN 28 8 7 SEPOL_TARGET_SELINUX,
      compat POLICY_KERN 29 8 7 SEPOL_TARGET_SELINUX, compat POLICY_KERN 30 8 7 SEPOL_TARGET_SELINUX,
      compat POLICY_KERN 31 8 9 SEPOL_TARGET_SELINUX, compat POLICY_KERN 32 8 9 SEPOL_TARGET_SELINUX,
      compat POLICY_KERN 33 8 9 SEPOL_TARGET_SELINUX, compat POLICY_BASE 4 8 7 SEPOL_TARGET_SELINUX,
      compat POLICY_BASE 5 8 7 SEPOL_TARGET_SELINUX, compat POLICY_BASE 6 8 7 SEPOL_TARGET_SELINUX,
      compat POLICY_BASE 7 8 7 SEPOL_TARGET_SELINUX, compat POLICY_BASE 8 8 7 SEPOL_TARGET_SELINUX,
      compat POLICY_BASE 9 8 7 SEPOL_TARGET_SELINUX, compat POLICY_BASE 10 8 7 SEPOL_TARGET_SELINUX,
      compat POLICY_BASE 11 8 7 SEPOL_TARGET_SELINUX, compat POLICY_BASE 12 8 7 SEPOL_TARGET_SELINUX,
      compat POLICY_BASE 13 8 7 SEPOL_TARGET_SELINUX, compat POLICY_BASE 14 8 7 SEPOL_TARGET_SELINUX,
      compat POLICY_BASE 15 8 7 SEPOL_TARGET_SELINUX, compat POLICY_BASE 16 8 7 SEPOL_TARGET_SELINUX,
      compat POLICY_BASE 17 8 7 SEPOL_TARGET_SELINUX, compat POLICY_BASE 18 8 7 SEPOL_TARGET_SELINUX,
      compat POLICY_BASE 19 8 9 SEPOL_TARGET_SELINUX, compat POLICY_BASE 20 8 9 SEPOL_TARGET_SELINUX,
      compat POLICY_BASE 21 8 9 SEPOL_TARGET_SELINUX, compat POLICY_MOD 4 8 0 SEPOL_TARGET_SELINUX,
      compat POLICY_MOD 5 8 0 SEPOL_TARGET_SELINUX, compat POLICY_MOD 6 8 0 SEPOL_TARGET_SELINUX,
      compat POLICY_MOD 7 8 0 SEPOL_TARGET_SELINUX, compat POLICY_MOD 8 8 0 SEPOL_TARGET_SELINUX,
      compat POLICY_MOD 9 8 0 SEPOL_TARGET_SELINUX, compat POLICY_MOD 10 8 0 SEPOL_TARGET_SELINUX,
      compat POLICY_MOD 11 8 0 SEPOL_TARGET_SELINUX, compat POLICY_MOD 12 8 0 SEPOL_TARGET_SELINUX,
      compat POLICY_MOD 13 8 0 SEPOL_TARGET_SELINUX, compat POLICY_MOD 14 8 0 SEPOL_TARGET_SELINUX,
      compat POLICY_MOD 15 8 0 SEPOL_TARGET_SELINUX, compat POLICY_MOD 16 8 0 SEPOL_TARGET_SELINUX,
      compat POLICY_MOD 17 8 0 SEPOL_TARGET_SELINUX, compat POLICY_MOD 18 8 0 SEPOL_TARGET_SELINUX,
      compat POLICY_MOD 19 8 0 SEPOL_TARGET_SELINUX, compat POLICY_MOD 20 8 0 SEPOL_TARGET_SELINUX,
      compat POLICY_MOD 21 8 0 SEPOL_TARGET_SELINUX]"

definition policydb_lookup_compat :: "u32 \<Rightarrow> u32 \<Rightarrow> u32 \<Rightarrow> policydb_compat_info option" where
  "policydb_lookup_compat version ptype target =
     find (\<lambda>i. ci_version i = version \<and> ci_type i = ptype \<and> ci_target_platform i = target) policydb_compat"

definition policydb_set_target_platform :: "policydb \<Rightarrow> u32 \<Rightarrow> errno + policydb" where
  "policydb_set_target_platform p platform =
     (if platform = SEPOL_TARGET_SELINUX then Inr (p\<lparr>target_platform := SEPOL_TARGET_SELINUX\<rparr>)
      else if platform = SEPOL_TARGET_XEN then Inr (p\<lparr>target_platform := SEPOL_TARGET_XEN\<rparr>)
      else Inl EFAIL)"

subsection \<open>The header\<close>

text \<open>The kind of file by its magic number and identifying string; for a kernel policy the string
  gives the target platform.\<close>

definition read_ident :: "policydb \<Rightarrow> (u32 \<times> policydb) rd" where
  "read_ident p =
     rbind (next_words 2) (\<lambda>buf.
     if buf ! 0 \<noteq> POLICYDB_MAGIC \<and> buf ! 0 \<noteq> POLICYDB_MOD_MAGIC then rfail EFAIL
     else if buf ! 1 = 0 \<or> buf ! 1 > POLICYDB_STRING_MAX_LENGTH then rfail EFAIL
     else rbind (name_read (buf ! 1)) (\<lambda>str.
       if buf ! 0 = POLICYDB_MAGIC
       then (if strcmp str POLICYDB_STRING = 0 then rret (POLICY_KERN, p\<lparr>target_platform := SEPOL_TARGET_SELINUX\<rparr>)
             else if strcmp str POLICYDB_XEN_STRING = 0 then rret (POLICY_KERN, p\<lparr>target_platform := SEPOL_TARGET_XEN\<rparr>)
             else rfail EFAIL)
       else if strcmp str POLICYDB_MOD_STRING = 0 then rret (POLICY_MOD, p) else rfail EFAIL))"

definition version_ok :: "u32 \<Rightarrow> u32 \<Rightarrow> bool" where
  "version_ok ptype vers \<longleftrightarrow>
     (if ptype = POLICY_KERN then \<not> (vers < POLICYDB_VERSION_MIN \<or> vers > POLICYDB_VERSION_MAX)
      else \<not> (vers < MOD_POLICYDB_VERSION_MIN \<or> vers > MOD_POLICYDB_VERSION_MAX))"

definition read_sizes :: "u32 \<Rightarrow> policydb \<Rightarrow> (policydb_compat_info \<times> policydb) rd" where
  "read_sizes kind p =
     rbind (next_words (if kind = POLICY_KERN then 4 else 5)) (\<lambda>buf.
     let ptype = (if kind = POLICY_MOD then buf ! 0 else kind); b = (if kind = POLICY_MOD then 1 else 0) in
     if kind = POLICY_MOD \<and> ptype \<noteq> POLICY_MOD \<and> ptype \<noteq> POLICY_BASE then rfail EFAIL
     else if \<not> version_ok ptype (buf ! b) then rfail EFAIL
     else
       (let p = p\<lparr>policy_type := ptype, policyvers := buf ! b, mls := (buf ! (b + 1) AND POLICYDB_CONFIG_MLS \<noteq> 0),
                   handle_unknown := buf ! (b + 1) AND POLICYDB_CONFIG_UNKNOWN_MASK\<rparr> in
        case policydb_lookup_compat (buf ! b) ptype (target_platform p) of
          None \<Rightarrow> rfail EFAIL
        | Some info \<Rightarrow>
            if buf ! (b + 2) \<noteq> ci_sym_num info \<or> buf ! (b + 3) \<noteq> ci_ocon_num info then rfail EFAIL else rret (info, p)))"

definition read_string :: "cstring rd" where
  "read_string = rbind next_u32 (\<lambda>len. if zero_or_saturated (ucast len :: u64) then rfail EFAIL else name_read len)"

definition read_options :: "policydb \<Rightarrow> policydb rd" where
  "read_options p =
     rbind (if policy_type p = POLICY_MOD
            then rbind read_string (\<lambda>n. rbind read_string (\<lambda>v. rret (p\<lparr>pol_name := Some n, pol_version := Some v\<rparr>)))
            else rret p) (\<lambda>p.
     rbind (if policyvers p \<ge> POLICYDB_VERSION_POLCAP \<and> policy_type p = POLICY_KERN \<or>
               policyvers p \<ge> MOD_POLICYDB_VERSION_POLCAP \<and> policy_type p = POLICY_BASE \<or>
               policyvers p \<ge> MOD_POLICYDB_VERSION_POLCAP \<and> policy_type p = POLICY_MOD
            then rbind ebitmap_read (\<lambda>m. rret (p\<lparr>policycaps := m\<rparr>)) else rret p) (\<lambda>p.
     if policyvers p \<ge> POLICYDB_VERSION_PERMISSIVE \<and> policy_type p = POLICY_KERN
     then rbind ebitmap_read (\<lambda>m. rret (p\<lparr>permissive_map := m\<rparr>)) else rret p))"

subsection \<open>The symbol tables\<close>

definition policy_table_read :: "nat \<Rightarrow> u32 \<Rightarrow> u32 \<Rightarrow> policydb \<Rightarrow> policydb rd" where
  "policy_table_read i np nelem p =
     (if i = SYM_COMMONS then rbind (table_read (common_read p) np nelem (p_commons p)) (\<lambda>t. rret (p\<lparr>p_commons := t\<rparr>))
      else if i = SYM_CLASSES then rbind (table_read (class_read p) np nelem (p_classes p)) (\<lambda>t. rret (p\<lparr>p_classes := t\<rparr>))
      else if i = SYM_ROLES then rbind (table_read (role_read p) np nelem (p_roles p)) (\<lambda>t. rret (p\<lparr>p_roles := t\<rparr>))
      else if i = SYM_TYPES then rbind (table_read (type_read p) np nelem (p_types p)) (\<lambda>t. rret (p\<lparr>p_types := t\<rparr>))
      else if i = SYM_USERS then rbind (table_read (user_read p) np nelem (p_users p)) (\<lambda>t. rret (p\<lparr>p_users := t\<rparr>))
      else if i = SYM_BOOLS then rbind (table_read (cond_read_bool p) np nelem (p_bools p)) (\<lambda>t. rret (p\<lparr>p_bools := t\<rparr>))
      else if i = SYM_LEVELS then rbind (table_read sens_read np nelem (p_levels p)) (\<lambda>t. rret (p\<lparr>p_levels := t\<rparr>))
      else rbind (table_read cat_read np nelem (p_cats p)) (\<lambda>t. rret (p\<lparr>p_cats := t\<rparr>)))"

fun symtabs_read :: "nat \<Rightarrow> nat \<Rightarrow> policydb \<Rightarrow> policydb rd" where
  "symtabs_read 0 i p = rret p"
| "symtabs_read (Suc n) i p =
     rbind (next_words 2) (\<lambda>buf.
     if (ucast (buf ! 0) :: u64) = - 1 then rfail EFAIL
     else if buf ! 1 \<noteq> 0 \<and> buf ! 0 = 0 then rfail EFAIL
     else rbind (policy_table_read i (buf ! 0) (buf ! 1) p) (symtabs_read n (i + 1)))"

definition policydb_string_to_security_class :: "policydb \<Rightarrow> cstring \<Rightarrow> u16" where
  "policydb_string_to_security_class p class_name =
     (case hashtab_search (table (p_classes p)) class_name of None \<Rightarrow> 0 | Some d \<Rightarrow> ucast (class_value d))"

definition policydb_string_to_av_perm :: "policydb \<Rightarrow> u16 \<Rightarrow> cstring \<Rightarrow> errno + u32" where
  "policydb_string_to_av_perm p tclass perm_name =
     (if tclass = 0 \<or> (ucast tclass :: u32) > nprim (p_classes p) then Inr 0
      else (case val_get (class_val_to_struct p) (ucast tclass) of
              None \<Rightarrow> Inl EFAULT
            | Some c \<Rightarrow>
                (case hashtab_search (table (permissions c)) perm_name of
                   Some d \<Rightarrow> Inr (push_bit (unat (perm_value d - 1)) 1)
                 | None \<Rightarrow>
                     (case comdatum c of
                        None \<Rightarrow> Inr 0
                      | Some com \<Rightarrow>
                          (case hashtab_search (table (common_permissions com)) perm_name of
                             Some d \<Rightarrow> Inr (push_bit (unat (perm_value d - 1)) 1)
                           | None \<Rightarrow> Inr 0)))))"

definition set_classes :: "policydb \<Rightarrow> policydb" where
  "set_classes p =
     (if target_platform p = SEPOL_TARGET_SELINUX
      then p\<lparr>process_class := policydb_string_to_security_class p PROCESS_NAME, dir_class := policydb_string_to_security_class p DIR_NAME\<rparr>
      else if target_platform p = SEPOL_TARGET_XEN
      then p\<lparr>process_class := policydb_string_to_security_class p DOMAIN_NAME\<rparr>
      else p)"

definition set_transitions :: "policydb \<Rightarrow> errno + policydb" where
  "set_transitions p =
     (if target_platform p = SEPOL_TARGET_SELINUX \<or> target_platform p = SEPOL_TARGET_XEN
      then (case policydb_string_to_av_perm p (process_class p) TRANSITION_NAME of
              Inl e \<Rightarrow> Inl e
            | Inr t \<Rightarrow>
                (case policydb_string_to_av_perm p (process_class p) DYNTRANSITION_NAME of
                   Inl e \<Rightarrow> Inl e
                 | Inr d \<Rightarrow> Inr (p\<lparr>process_trans := t, process_trans_dyntrans := t OR d\<rparr>)))
      else Inr p)"

subsection \<open>The rules\<close>

definition read_kernel_rules :: "policydb \<Rightarrow> policydb rd" where
  "read_kernel_rules p =
     rbind (avtab_read (te_avtab p) (policyvers p)) (\<lambda>a. let p = p\<lparr>te_avtab := a\<rparr> in
     rbind (if policyvers p \<ge> POLICYDB_VERSION_BOOL
            then rbind (cond_read_list p) (\<lambda>(p1, cl). rret (p1\<lparr>cond_list := cl\<rparr>)) else rret p) (\<lambda>p.
     rbind (role_trans_read p) (\<lambda>rt. rbind role_allow_read (\<lambda>ra. let p = p\<lparr>role_tr := rt, role_allows := ra\<rparr> in
     if policyvers p \<ge> POLICYDB_VERSION_FILENAME_TRANS then filename_trans_read p else rret p))))"

definition read_module_rules :: "nat \<Rightarrow> policydb \<Rightarrow> policydb rd" where
  "read_module_rules sym_num p =
     rbind (avrule_block_read (p\<lparr>global := []\<rparr>) sym_num) (\<lambda>(p1, bs).
     if bs = [] then rfail EFAIL else scopes_read sym_num 0 (p1\<lparr>global := bs\<rparr>))"

subsection \<open>Types and attributes\<close>

text \<open>The attributes of type \<open>i\<close> (from 0): every other bit of its map enters \<open>i\<close> in the inverse map.\<close>

fun attr_type_bits :: "u32 \<Rightarrow> u32 \<Rightarrow> u32 list \<Rightarrow> ebitmap list \<Rightarrow> ebitmap list hp" where
  "attr_type_bits n i [] at = hret at"
| "attr_type_bits n i (j # js) at =
     (if i = j then attr_type_bits n i js at
      else if j \<ge> n then hfail EFAIL
      else hbind (\<lambda>h. ebitmap_set_bit h (at ! unat j) i 1) (\<lambda>m. attr_type_bits n i js (at[unat j := m])))"

definition type_attr_one :: "policydb \<Rightarrow> u32 \<Rightarrow> ebitmap list \<Rightarrow> (ebitmap \<times> ebitmap list) rd" where
  "type_attr_one p i at =
     rbind (if policyvers p \<ge> POLICYDB_VERSION_AVTAB
            then rbind ebitmap_read (\<lambda>m. rbind (rhp (attr_type_bits (nprim (p_types p)) i (ebitmap_positive_bits m) at)) (\<lambda>at1. rret (m, at1)))
            else rret (ebitmap_init, at)) (\<lambda>(m, at1).
     rbind (rhp (\<lambda>h. ebitmap_set_bit h m i 1)) (\<lambda>m1.
     case type_at p i of
       Some t \<Rightarrow>
         if flavor t \<noteq> TYPE_ATTRIB
         then rbind (rhp (\<lambda>h. ebitmap_set_bit h (at1 ! unat i) i 1)) (\<lambda>m2. rret (m1, at1[unat i := m2]))
         else rret (m1, at1)
     | None \<Rightarrow> rret (m1, at1)))"

fun type_attr_loop :: "policydb \<Rightarrow> u32 list \<Rightarrow> ebitmap list \<Rightarrow> (ebitmap list \<times> ebitmap list) rd" where
  "type_attr_loop p [] at = rret ([], at)"
| "type_attr_loop p (i # is) at =
     rbind (type_attr_one p i at) (\<lambda>(m, at1). rbind (type_attr_loop p is at1) (\<lambda>(ms, at2). rret (m # ms, at2)))"

definition read_type_attrs :: "policydb \<Rightarrow> policydb rd" where
  "read_type_attrs p =
     (if policy_type p \<noteq> POLICY_KERN then rret p
      else rbind (rmalloc EFAIL) (\<lambda>_. rbind (rmalloc EFAIL) (\<lambda>_.
        rbind (type_attr_loop p (below (nprim (p_types p))) (replicate (unat (nprim (p_types p))) ebitmap_init)) (\<lambda>(ta, at).
        rret (p\<lparr>type_attr_map := ta, attr_type_map := at\<rparr>)))))"

subsection \<open>The policy\<close>

definition rbad :: "'a rd \<Rightarrow> 'a rd" where
  "rbad m s = (case m s of (Inl e, s') \<Rightarrow> (Inl (if e = EFAULT then EFAULT else EFAIL), s') | (Inr x, s') \<Rightarrow> (Inr x, s'))"

definition rlift :: "errno + 'a \<Rightarrow> 'a rd" where
  "rlift r = (case r of Inl e \<Rightarrow> rfail e | Inr x \<Rightarrow> rret x)"

definition read_ranges :: "policydb \<Rightarrow> policydb rd" where
  "read_ranges p =
     (if policy_type p = POLICY_KERN \<and> policyvers p \<ge> POLICYDB_VERSION_MLS \<or>
         policy_type p = POLICY_BASE \<and> policyvers p \<ge> MOD_POLICYDB_VERSION_MLS \<and> policyvers p < MOD_POLICYDB_VERSION_RANGETRANS
      then range_read p else rret p)"

text \<open>Everything up to the validation.\<close>

definition policydb_read_parts :: "policydb \<Rightarrow> policydb rd" where
  "policydb_read_parts p =
     rbind (read_ident p) (\<lambda>(kind, p). rbind (read_sizes kind p) (\<lambda>(info, p).
     rbind (read_options p) (\<lambda>p.
     rbind (symtabs_read (unat (ci_sym_num info)) 0 p) (\<lambda>p.
     let p = set_classes p in
     rbind (if policy_type p = POLICY_KERN then read_kernel_rules p else read_module_rules (unat (ci_sym_num info)) p) (\<lambda>p.
     rbind (rhp (policydb_index_decls p)) (\<lambda>p. rbind (rhp (policydb_index_classes p)) (\<lambda>p.
     rbind (rlift (set_transitions p)) (\<lambda>p.
     rbind (rhp (policydb_index_others p)) (\<lambda>p.
     rbind (ocontext_read (unat (ci_ocon_num info)) p) (\<lambda>p.
     rbind (genfs_read p) (\<lambda>p. rbind (read_ranges p) read_type_attrs)))))))))))"

definition policydb_read :: "(level_datum \<Rightarrow> u32) \<Rightarrow> policydb \<Rightarrow> policydb rd" where
  "policydb_read level_addr p =
     rbad (rbind (policydb_read_parts p) (\<lambda>p. rbind (rhp (policydb_validate level_addr p)) (\<lambda>_. rret p)))"

end
