(* ===== verification/Reader_Laws.thy ===== *)
theory Reader_Laws
  imports Policydb_Read Conditional_Laws Services_Laws Reload_Laws
begin

section \<open>What the readers accept\<close>

text \<open>
  Rules for the successes of functions that read or allocate, and what they give for the parts of
  a policy: well-formed symbol tables, constraints that are expression trees, and which parts of
  the policy each stage of policydb_read leaves alone.
\<close>

subsection \<open>Successes\<close>

text \<open>\<open>yields m P\<close>: every success of \<open>m\<close> satisfies \<open>P\<close>. The readers and the functions that allocate have
  the same shape, over different states.\<close>

definition yields :: "('s \<Rightarrow> (errno + 'a) \<times> 's) \<Rightarrow> ('a \<Rightarrow> bool) \<Rightarrow> bool" where
  "yields m P \<longleftrightarrow> (\<forall>s x s'. m s = (Inr x, s') \<longrightarrow> P x)"

named_theorems yields_intros

lemma yieldsI: "(\<And>s x s'. m s = (Inr x, s') \<Longrightarrow> P x) \<Longrightarrow> yields m P"
  by (simp add: yields_def)

lemma yieldsD: "\<lbrakk>yields m P; m s = (Inr x, s')\<rbrakk> \<Longrightarrow> P x"
  by (auto simp: yields_def)

lemma yields_any: "yields m (\<lambda>_. True)"
  by (simp add: yields_def)

lemma yields_weaken: "\<lbrakk>yields m P; \<And>x. P x \<Longrightarrow> Q x\<rbrakk> \<Longrightarrow> yields m Q"
  by (auto simp: yields_def)

lemma yields_conj: "\<lbrakk>yields m P; yields m Q\<rbrakk> \<Longrightarrow> yields m (\<lambda>x. P x \<and> Q x)"
  by (auto simp: yields_def)

lemma yields_hgives: "hgives m P E \<Longrightarrow> yields m P"
  by (auto simp: yields_def dest: hgives_Inr)

lemma yields_rret [yields_intros]: "P x \<Longrightarrow> yields (rret x) P"
  by (auto simp: yields_def rret_def)

lemma yields_hret [yields_intros]: "P x \<Longrightarrow> yields (hret x) P"
  by (auto simp: yields_def hret_def)

lemma yields_rfail [yields_intros]: "yields (rfail e) P"
  by (simp add: yields_def rfail_def)

lemma yields_hfail [yields_intros]: "yields (hfail e) P"
  by (simp add: yields_def hfail_def)

lemma yields_rbind: "\<lbrakk>yields m Q; \<And>x. Q x \<Longrightarrow> yields (f x) P\<rbrakk> \<Longrightarrow> yields (rbind m f) P"
  by (fastforce simp: yields_def rbind_Inr)

lemma yields_hbind: "\<lbrakk>yields m Q; \<And>x. Q x \<Longrightarrow> yields (f x) P\<rbrakk> \<Longrightarrow> yields (hbind m f) P"
  by (fastforce simp: yields_def hbind_def split: prod.splits sum.splits)

lemma yields_rskip: "(\<And>x. yields (f x) P) \<Longrightarrow> yields (rbind m f) P"
  by (rule yields_rbind [OF yields_any])

lemma yields_hskip: "(\<And>x. yields (f x) P) \<Longrightarrow> yields (hbind m f) P"
  by (rule yields_hbind [OF yields_any])

lemma yields_rerr [yields_intros]: "yields m P \<Longrightarrow> yields (rerr e m) P"
  by (auto simp: yields_def rerr_Inr)

lemma yields_herr [yields_intros]: "yields m P \<Longrightarrow> yields (herr e m) P"
  by (auto simp: yields_def herr_def split: prod.splits sum.splits)

lemma yields_rbad [yields_intros]: "yields m P \<Longrightarrow> yields (rbad m) P"
  by (fastforce simp: yields_def rbad_def split: prod.splits sum.splits)

lemma yields_rhp [yields_intros]: "yields m P \<Longrightarrow> yields (rhp m) P"
  by (auto simp: yields_def rhp_def split: prod.splits)

lemma yields_rlift [yields_intros]: "(\<And>x. r = Inr x \<Longrightarrow> P x) \<Longrightarrow> yields (rlift r) P"
  by (auto simp: yields_def rlift_def rret_def rfail_def split: sum.splits)

lemma yields_hlift [yields_intros]: "(\<And>x. r = Inr x \<Longrightarrow> P x) \<Longrightarrow> yields (hlift r) P"
  by (auto simp: yields_def hlift_def hret_def hfail_def split: sum.splits)

lemma yields_if [yields_intros]: "\<lbrakk>b \<Longrightarrow> yields m P; \<not> b \<Longrightarrow> yields n P\<rbrakk> \<Longrightarrow> yields (if b then m else n) P"
  by simp

lemma yields_let [yields_intros]: "yields (f x) P \<Longrightarrow> yields (let y = x in f y) P"
  by simp

lemma yields_option [yields_intros]:
  "\<lbrakk>r = None \<Longrightarrow> yields m P; \<And>x. r = Some x \<Longrightarrow> yields (f x) P\<rbrakk> \<Longrightarrow> yields (case r of None \<Rightarrow> m | Some x \<Rightarrow> f x) P"
  by (cases r) auto

lemma yields_prod [yields_intros]: "(\<And>x y. r = (x, y) \<Longrightarrow> yields (f x y) P) \<Longrightarrow> yields (case r of (x, y) \<Rightarrow> f x y) P"
  by (cases r) auto

lemma yields_rlist:
  assumes "yields m P" shows "yields (rlist n m) (list_all P)"
proof (induction n)
  case (Suc n)
  show ?case unfolding rlist.simps by (rule yields_rbind [OF assms], rule yields_rbind [OF Suc]) (simp add: yields_rret)
qed (simp add: yields_rret)

lemma yields_rtimes:
  assumes "P x" "\<And>x. P x \<Longrightarrow> yields (f x) P" shows "yields (rtimes n f x) P"
  using assms(1)
proof (induction n arbitrary: x)
  case (Suc n)
  show ?case unfolding rtimes.simps by (rule yields_rbind [OF assms(2)]) (use Suc in blast)+
qed (simp add: yields_rret)

lemma yields_ebitmap_read: "yields ebitmap_read ebitmap_wf"
  by (rule yieldsI) (rule ebitmap_read_wf)

lemmas yields_steps = yields_intros yields_rskip yields_hskip

subsection \<open>Symbol tables\<close>

text \<open>A well-formed table of symbols whose data all satisfy \<open>Q\<close>.\<close>

definition tab_all :: "('d \<Rightarrow> bool) \<Rightarrow> (cstring, 'd) hashtab \<Rightarrow> bool" where
  "tab_all Q t \<longleftrightarrow> (\<exists>v. t = Some v \<and> table_ok symhash symcmp v \<and> (\<forall>k d. hashtab_abs v k = Some d \<longrightarrow> Q d))"

lemma tab_all_search: "\<lbrakk>tab_all Q t; hashtab_search t k = Some d\<rbrakk> \<Longrightarrow> Q d"
  by (auto simp: tab_all_def sym.search_abs)

lemma tab_all_symbols: "tab_all Q (table s) \<Longrightarrow> symbols_ok s"
  by (auto simp: tab_all_def symbols_ok_def)

lemma tab_all_weaken: "\<lbrakk>tab_all Q t; \<And>d. Q d \<Longrightarrow> R d\<rbrakk> \<Longrightarrow> tab_all R t"
  by (auto simp: tab_all_def)

lemma yields_rinsert:
  assumes "tab_all Q t" "Q d" shows "yields (rinsert t k d) (tab_all Q)"
proof (rule yieldsI)
  fix s t' s' assume r: "rinsert t k d s = (Inr t', s')"
  obtain v where v: "t = Some v" "table_ok symhash symcmp v" "\<And>k d. hashtab_abs v k = Some d \<Longrightarrow> Q d"
    using assms(1) by (auto simp: tab_all_def)
  obtain hp where i: "hashtab_insert (fst s) (Some v) k d = (Inr (), t', hp)"
    using r v(1) by (auto simp: rinsert_def split: prod.splits sum.splits)
  obtain v' where v': "t' = Some v'" "table_ok symhash symcmp v'" "\<And>x. hashtab_search (Some v') x = (if x = k then Some d else hashtab_search (Some v) x)"
    using symt.insert_Inr [OF v(2) i] by blast
  then show "tab_all Q t'"
    using assms(2) v(3) by (auto simp: tab_all_def sym.search_abs [OF v(2)] sym.search_abs [OF v'(2)] split: if_splits)
qed

lemma yields_table_read:
  assumes "tab_all Q (table st)" "\<And>t. tab_all Q t \<Longrightarrow> yields (f t) (tab_all Q)"
  shows "yields (table_read f np n st) (\<lambda>s. tab_all Q (table s) \<and> nprim s = np)"
  unfolding table_read_def
  by (rule yields_rbind [OF yields_rtimes [where P = "tab_all Q"]]) (auto simp: assms intro: yields_intros)

lemma yields_symtab_init:
  assumes "pow2_size sz" shows "yields (\<lambda>h. symtab_init h sz) (\<lambda>s. tab_all Q (table s) \<and> nprim s = 0)"
  using symtab_init_ok [OF assms] by (fastforce simp: yields_def tab_all_def)

lemma pow2_sizes: "pow2_size 2" "pow2_size 4" "pow2_size 8" "pow2_size 16" "pow2_size 32" "pow2_size 128" "pow2_size 256" "pow2_size 512" "pow2_size 1024"
  unfolding pow2_size_def
  by (rule exI [of _ 1], simp, rule exI [of _ 2], simp, rule exI [of _ 3], simp, rule exI [of _ 4], simp, rule exI [of _ 5], simp,
      rule exI [of _ 7], simp, rule exI [of _ 8], simp, rule exI [of _ 9], simp, rule exI [of _ 10], simp)

subsection \<open>Constraints\<close>

text \<open>An operator without its operands' fields, which the evaluator does not look at.\<close>

definition cnorm :: "constraint_expr \<Rightarrow> constraint_expr" where
  "cnorm e = (if expr_type e = CEXPR_ATTR \<or> expr_type e = CEXPR_NAMES then e else cexpr_op (expr_type e))"

definition atom_type :: "constraint_expr \<Rightarrow> bool" where
  "atom_type e \<longleftrightarrow> expr_type e = CEXPR_ATTR \<or> expr_type e = CEXPR_NAMES"

text \<open>The expressions of a constraint form a tree that fits the stack, and an operator has no names.\<close>

definition cons_tree :: "constraint_expr list \<Rightarrow> bool" where
  "cons_tree es \<longleftrightarrow> (\<exists>ct. map cnorm es = crpn ct \<and> cdepth ct \<le> CEXPR_MAXDEPTH \<and> (\<forall>e\<in>catoms ct. atom_type e)) \<and>
     (\<forall>e\<in>set es. atom_type e \<or> names e = ebitmap_init \<and> type_names e = type_set_init)"

fun stack_fits :: "ctree list \<Rightarrow> bool" where
  "stack_fits [] \<longleftrightarrow> True"
| "stack_fits (t # ts) \<longleftrightarrow> length ts + cdepth t \<le> CEXPR_MAXDEPTH \<and> (\<forall>e\<in>catoms t. atom_type e) \<and> stack_fits ts"

definition stack_rpn :: "ctree list \<Rightarrow> constraint_expr list" where
  "stack_rpn ts = concat (map crpn (rev ts))"

lemma stack_fits_length: "stack_fits ts \<Longrightarrow> length ts \<le> CEXPR_MAXDEPTH"
  using cdepth_pos [of "hd ts"] by (cases ts) simp_all

text \<open>One expression read on top of a stack of trees.\<close>

definition reads_onto :: "ctree list \<Rightarrow> int \<times> constraint_expr list \<Rightarrow> bool" where
  "reads_onto ts r \<longleftrightarrow> (\<exists>ts'. fst r = int (length ts') - 1 \<and> stack_fits ts' \<and> stack_rpn ts @ map cnorm (snd r) = stack_rpn ts') \<and>
     (\<forall>e\<in>set (snd r). atom_type e \<or> names e = ebitmap_init \<and> type_names e = type_set_init)"

lemma reads_onto_Cons:
  assumes "reads_onto ts' (d, es)" "stack_rpn ts' = stack_rpn ts @ [cnorm e]"
    and "atom_type e \<or> names e = ebitmap_init \<and> type_names e = type_set_init"
  shows "reads_onto ts (d, e # es)"
  using assms by (auto simp: reads_onto_def)

lemma stack_atom:
  assumes "stack_fits ts" "int (length ts) - 1 \<noteq> int CEXPR_MAXDEPTH - 1" "atom_type e"
  shows "stack_fits (CAtom e # ts)" "stack_rpn (CAtom e # ts) = stack_rpn ts @ [cnorm e]"
  using assms stack_fits_length [OF assms(1)] by (auto simp: stack_rpn_def cnorm_def atom_type_def)

lemma stack_not:
  assumes "stack_fits ts" "\<not> int (length ts) - 1 < 0" "expr_type e = CEXPR_NOT"
  obtains ts' where "stack_fits ts'" "length ts' = length ts" "stack_rpn ts' = stack_rpn ts @ [cnorm e]"
proof (cases ts)
  case (Cons t r)
  then show ?thesis using assms that [of "CNot t # r"] by (auto simp: stack_rpn_def cnorm_def cexpr_consts)
qed (use assms in simp)

lemma stack_bin:
  assumes "stack_fits ts" "\<not> int (length ts) - 1 < 1" "expr_type e = CEXPR_AND \<or> expr_type e = CEXPR_OR"
  obtains ts' where "stack_fits ts'" "Suc (length ts') = length ts" "stack_rpn ts' = stack_rpn ts @ [cnorm e]"
proof -
  obtain u t r where ts: "ts = u # t # r" using assms(2) by (cases ts; cases "tl ts") auto
  show ?thesis
  proof (rule that [of "CBin (expr_type e = CEXPR_AND) t u # r"])
    show "stack_fits (CBin (expr_type e = CEXPR_AND) t u # r)" using assms(1) by (auto simp: ts nat_add_max_right)
    show "stack_rpn (CBin (expr_type e = CEXPR_AND) t u # r) = stack_rpn ts @ [cnorm e]"
      using assms(3) by (auto simp: ts stack_rpn_def cnorm_def cexpr_consts)
  qed (simp add: ts)
qed

lemma yields_cons_exprs:
  "\<lbrakk>stack_fits ts; dep = int (length ts) - 1\<rbrakk> \<Longrightarrow> yields (cons_exprs p x n dep) (reads_onto ts)"
proof (induction n arbitrary: ts dep)
  case 0
  then show ?case by (auto intro!: yields_rret simp: reads_onto_def)
next
  case (Suc n)
  have rest: "yields (rbind (cons_exprs p x n d') (\<lambda>(d, es). rret (d, e # es))) (reads_onto ts)"
    if "stack_fits ts'" "d' = int (length ts') - 1" "stack_rpn ts' = stack_rpn ts @ [cnorm e]"
      "atom_type e \<or> names e = ebitmap_init \<and> type_names e = type_set_init" for d' e ts'
    by (rule yields_rbind [OF Suc.IH [OF that(1,2)]]) (auto intro!: yields_rret reads_onto_Cons [OF _ that(3,4)])
  have atom: "yields (rbind (cons_exprs p x n (dep + 1)) (\<lambda>(d, es). rret (d, e # es))) (reads_onto ts)"
    if "dep \<noteq> int CEXPR_MAXDEPTH - 1" "atom_type e" for e
    using stack_atom [of ts e] Suc.prems that by (intro rest [of "CAtom e # ts"]) auto
  have neg: "yields (rbind (cons_exprs p x n dep) (\<lambda>(d, es). rret (d, e # es))) (reads_onto ts)"
    if "\<not> dep < 0" "expr_type e = CEXPR_NOT" "names e = ebitmap_init \<and> type_names e = type_set_init" for e
    using stack_not [of ts e] Suc.prems that rest by (metis (no_types, lifting))
  have bin: "yields (rbind (cons_exprs p x n (dep - 1)) (\<lambda>(d, es). rret (d, e # es))) (reads_onto ts)"
    if "\<not> dep < 1" "expr_type e = CEXPR_AND \<or> expr_type e = CEXPR_OR" "names e = ebitmap_init \<and> type_names e = type_set_init" for e
  proof -
    note b = that
    obtain ts' where "stack_fits ts'" "Suc (length ts') = length ts" "stack_rpn ts' = stack_rpn ts @ [cnorm e]"
      using stack_bin [OF Suc.prems(1) b(1) [unfolded Suc.prems(2)] b(2)] by blast
    then show ?thesis using Suc.prems b(3) by (intro rest [of ts']) auto
  qed
  show ?case
    unfolding cons_exprs.simps Let_def
    by (intro atom neg bin yields_steps) (auto simp: atom_type_def)
qed

lemma yields_cons_helper: "yields (read_cons_helper p n x) (list_all (\<lambda>c. cons_tree (cexpr c)))"
proof (induction n)
  case (Suc n)
  have tree: "cons_tree es" if "reads_onto [] (0, es)" for es
  proof -
    note r = that
    obtain ts' where ts': "0 = int (length ts') - 1" "stack_fits ts'" "stack_rpn [] @ map cnorm es = stack_rpn ts'" and e: "\<forall>e\<in>set es. atom_type e \<or> names e = ebitmap_init \<and> type_names e = type_set_init"
      using r unfolding reads_onto_def fst_conv snd_conv by blast
    then obtain ct where "ts' = [ct]" by (cases ts') auto
    then show ?thesis using ts' e unfolding cons_tree_def stack_rpn_def by (intro conjI exI [of _ ct]) auto
  qed
  show ?case
    unfolding read_cons_helper.simps
    by (rule yields_rskip yields_rbind [OF yields_cons_exprs [of "[]"]] yields_rbind [OF Suc] | simp)+
      (auto intro!: yields_intros yields_rbind [OF Suc] dest: tree)
qed (simp add: yields_rret)

subsection \<open>Symbols\<close>

definition perms_ok :: "perm_datum symtab \<Rightarrow> bool" where
  "perms_ok s \<longleftrightarrow> tab_all (\<lambda>d. value_isvalid (perm_value d) (nprim s)) (table s) \<and> nprim s \<le> 32"

definition common_ok :: "common_datum \<Rightarrow> bool" where
  "common_ok d \<longleftrightarrow> perms_ok (common_permissions d)"

definition class_ok :: "class_datum \<Rightarrow> bool" where
  "class_ok d \<longleftrightarrow> perms_ok (permissions d) \<and> (\<forall>com. comdatum d = Some com \<longrightarrow> common_ok com) \<and>
     list_all (\<lambda>c. cons_tree (cexpr c)) (constraints d) \<and> list_all (\<lambda>c. cons_tree (cexpr c)) (validatetrans d)"

definition type_set_wf :: "type_set \<Rightarrow> bool" where
  "type_set_wf t \<longleftrightarrow> ebitmap_wf (ts_types t) \<and> ebitmap_wf (ts_negset t)"

definition role_ok :: "role_datum \<Rightarrow> bool" where
  "role_ok d \<longleftrightarrow> ebitmap_wf (dominates d) \<and> type_set_wf (role_types d) \<and> ebitmap_wf (role_cache d) \<and> ebitmap_wf (role_roles d)"

definition type_ok :: "type_datum \<Rightarrow> bool" where
  "type_ok d \<longleftrightarrow> ebitmap_wf (type_types d)"

definition user_ok :: "user_datum \<Rightarrow> bool" where
  "user_ok d \<longleftrightarrow> ebitmap_wf (rs_roles (user_roles d)) \<and> ebitmap_wf (user_cache d) \<and> range_wf (exp_range d) \<and> level_wf (exp_dfltlevel d)"

definition sens_ok :: "level_datum \<Rightarrow> bool" where
  "sens_ok d \<longleftrightarrow> level_wf (level d)"

lemma yields_perm_symtab: "yields (perm_symtab np) (\<lambda>s. perms_ok s \<and> nprim s = np)"
  unfolding perm_symtab_def
  by (rule yields_rbind [OF yields_rhp [OF yields_symtab_init [where Q = "\<lambda>d. value_isvalid (perm_value d) np"]]])
    (auto intro!: yields_intros pow2_sizes simp: perms_ok_def)

lemma yields_perm_read:
  assumes "tab_all (\<lambda>d. value_isvalid (perm_value d) np) h"
  shows "yields (perm_read np h) (tab_all (\<lambda>d. value_isvalid (perm_value d) np))"
  unfolding perm_read_def by (intro yields_rinsert assms yields_steps) simp

lemma yields_perms_read:
  assumes "perms_ok s" "nprim s = np" shows "yields (perms_read np n s) perms_ok"
  unfolding perms_read_def
  by (rule yields_rbind [OF yields_rtimes [where P = "tab_all (\<lambda>d. value_isvalid (perm_value d) np)"]])
    (use assms in \<open>auto intro!: yields_intros yields_perm_read simp: perms_ok_def\<close>)

text \<open>Sequences whose first part has a known result.\<close>

lemmas yields_binds = yields_rbind [OF yields_perm_symtab] yields_rbind [OF yields_perms_read]
  yields_rbind [OF yields_cons_helper] yields_rbind [OF yields_ebitmap_read]

lemma yields_common_read: assumes "tab_all common_ok h" shows "yields (common_read p h) (tab_all common_ok)"
  unfolding common_read_def
  by (intro yields_rinsert assms yields_binds yields_steps) (auto simp: common_ok_def)

lemma yields_class_common:
  assumes "tab_all common_ok (table (p_commons p))"
  shows "yields (class_common p len) (\<lambda>c. \<forall>com. c = Some com \<longrightarrow> common_ok com)"
  unfolding class_common_def by (intro yields_steps) (auto dest: tab_all_search [OF assms])

lemma yields_class_validatetrans: "class_ok d \<Longrightarrow> yields (class_validatetrans p d) class_ok"
  unfolding class_validatetrans_def by (intro yields_binds yields_steps) (auto simp: class_ok_def)

lemma yields_class_defaults: "class_ok d \<Longrightarrow> yields (class_defaults p d) class_ok"
  unfolding class_defaults_def
  by (rule yields_rbind [where Q = class_ok]) (intro yields_steps, simp_all add: class_ok_def yields_steps)

lemma yields_class_read:
  assumes "tab_all common_ok (table (p_commons p))" "tab_all class_ok h"
  shows "yields (class_read p h) (tab_all class_ok)"
  unfolding class_read_def
  by (intro yields_rinsert assms yields_rbind [OF yields_class_common] yields_rbind [OF yields_class_validatetrans]
      yields_rbind [OF yields_class_defaults] yields_binds yields_steps) (auto simp: class_ok_def)

lemma yields_type_set_read: "yields type_set_read type_set_wf"
  unfolding type_set_read_def by (intro yields_binds yields_steps) (simp add: type_set_wf_def)

lemma yields_role_set_read: "yields role_set_read (\<lambda>r. ebitmap_wf (rs_roles r))"
  unfolding role_set_read_def by (intro yields_binds yields_steps) simp

lemma yields_range_helper: "yields mls_read_range_helper range_wf"
proof -
  have c1: "yields (if items > 1 then ebitmap_read else rhp (\<lambda>h. ebitmap_cpy h c0)) ebitmap_wf" if "ebitmap_wf c0" for items :: u32 and c0
    by (intro yields_intros yields_ebitmap_read yields_hgives [OF hgives_cpy] that)
  show ?thesis
    unfolding mls_read_range_helper_def Let_def
    by (intro yields_rbind [OF c1] yields_binds yields_steps) (auto simp: wf_defs)
qed

lemma yields_read_level: "yields mls_read_level level_wf"
  unfolding mls_read_level_def by (intro yields_binds yields_steps) (simp add: wf_defs)

lemma yields_role_read:
  assumes "tab_all role_ok h" shows "yields (role_read p h) (tab_all role_ok)"
proof -
  have types: "yields (if policy_type p = POLICY_KERN then rbind ebitmap_read (\<lambda>t. rret (type_set_init\<lparr>ts_types := t\<rparr>)) else type_set_read) type_set_wf"
    by (intro yields_type_set_read yields_binds yields_steps) (simp add: type_set_wf_def type_set_init_def)
  have roles: "yields (if b then rbind next_u32 (\<lambda>fl. rbind ebitmap_read (\<lambda>rs. rret (fl, rs))) else rret (0, ebitmap_init)) (\<lambda>r. ebitmap_wf (snd r))" for b
    by (intro yields_binds yields_steps) simp_all
  show ?thesis
    unfolding role_read_def
    by (intro yields_rinsert assms yields_rbind [OF types] yields_rbind [OF roles] yields_binds yields_steps)
      (auto simp: role_ok_def assms)
qed

lemma type_header_ok [simp]: "type_types (type_header p buf) = ebitmap_init"
  by (simp add: type_header_def Let_def)

lemma yields_type_read:
  assumes "tab_all type_ok h" shows "yields (type_read p h) (tab_all type_ok)"
proof -
  have d: "yields (if b then rbind ebitmap_read (\<lambda>t. rret ((type_header p buf)\<lparr>type_types := t\<rparr>)) else rret (type_header p buf)) type_ok" for b buf
    by (intro yields_binds yields_steps) (simp_all add: type_ok_def)
  show ?thesis unfolding type_read_def by (intro yields_rinsert assms yields_rbind [OF d] yields_steps)
qed

lemma yields_user_mls: "user_ok d \<Longrightarrow> yields (user_mls p d) user_ok"
  unfolding user_mls_def Let_def
  by (intro yields_rbind [OF yields_range_helper] yields_rbind [OF yields_read_level] yields_steps) (auto simp: user_ok_def)

lemma yields_user_read:
  assumes "tab_all user_ok h" shows "yields (user_read p h) (tab_all user_ok)"
proof -
  have rs: "yields (if policy_type p = POLICY_KERN then rbind ebitmap_read (\<lambda>r. rret (role_set_init\<lparr>rs_roles := r\<rparr>)) else role_set_read) (\<lambda>r. ebitmap_wf (rs_roles r))"
    by (intro yields_role_set_read yields_binds yields_steps) simp
  have wf: "context_wf context_init" by (simp add: wf_defs context_init_def mls_context_init_def mls_range_init_def mls_level_init_def)
  show ?thesis
    unfolding user_read_def
    by (intro yields_rinsert assms yields_rbind [OF rs] yields_rbind [OF yields_user_mls] yields_steps)
      (use wf in \<open>auto simp: user_ok_def wf_defs\<close>)
qed

lemma yields_sens_read:
  assumes "tab_all sens_ok h" shows "yields (sens_read h) (tab_all sens_ok)"
  unfolding sens_read_def
  by (intro yields_rinsert assms yields_rbind [OF yields_read_level] yields_steps) (simp add: sens_ok_def)

lemma yields_cat_read:
  assumes "tab_all (\<lambda>_. True) h" shows "yields (cat_read h) (tab_all (\<lambda>_. True))"
  unfolding cat_read_def by (intro yields_rinsert assms yields_steps TrueI)

lemma cond_read_bool_rinsert:
  "cond_read_bool p t =
     rerr EFAIL
       (rbind (rmalloc EFAIL) (\<lambda>_.
        rbind (next_entry 12) (\<lambda>b.
        let d = \<lparr>bool_value = le32 (take 4 b), state = sint (le32 (take 4 (drop 4 b))), bool_flags = 0\<rparr> in
        if \<not> bool_isvalid d then rfail EFAIL
        else rbind (str_read (ucast (le32 (drop 8 b)))) (\<lambda>key.
          rbind (if policy_type p \<noteq> POLICY_KERN \<and> policyvers p \<ge> MOD_POLICYDB_VERSION_TUNABLE_SEP
                 then rbind next_u32 (\<lambda>f. rret (d\<lparr>bool_flags := f\<rparr>)) else rret d)
            (rinsert t (takeWhile (\<lambda>c. c \<noteq> 0) key))))))"
  unfolding cond_read_bool_def rinsert_def ..

lemma yields_cond_read_bool:
  assumes "tab_all bool_isvalid h" shows "yields (cond_read_bool p h) (tab_all bool_isvalid)"
proof -
  have d: "yields (if b then rbind next_u32 (\<lambda>f. rret (d\<lparr>bool_flags := f\<rparr>)) else rret d) bool_isvalid" if "bool_isvalid d" for b and d :: cond_bool_datum
    using that by (intro yields_steps) (simp_all add: bool_isvalid_def)
  show ?thesis
    unfolding cond_read_bool_rinsert Let_def
    by (intro yields_rinsert assms yields_rbind [OF d] yields_steps) auto
qed

subsection \<open>All symbol tables\<close>

text \<open>The tables that the readers of symbols fill are well-formed and hold well-formed data.\<close>

definition tables_wf :: "policydb \<Rightarrow> bool" where
  "tables_wf p \<longleftrightarrow> tab_all common_ok (table (p_commons p)) \<and> tab_all class_ok (table (p_classes p)) \<and>
     tab_all role_ok (table (p_roles p)) \<and> tab_all type_ok (table (p_types p)) \<and> tab_all user_ok (table (p_users p)) \<and>
     tab_all bool_isvalid (table (p_bools p)) \<and> tab_all sens_ok (table (p_levels p)) \<and> tab_all (\<lambda>_. True) (table (p_cats p))"

lemmas yields_tables = yields_table_read [OF _ yields_common_read] yields_table_read [OF _ yields_class_read]
  yields_table_read [OF _ yields_role_read] yields_table_read [OF _ yields_type_read] yields_table_read [OF _ yields_user_read]
  yields_table_read [OF _ yields_cond_read_bool] yields_table_read [OF _ yields_sens_read] yields_table_read [OF _ yields_cat_read]

lemma yields_policy_table:
  assumes "tables_wf p" shows "yields (policy_table_read i np n p) tables_wf"
  unfolding policy_table_read_def
  by (intro yields_intros yields_tables [THEN yields_rbind]) (use assms in \<open>auto simp: tables_wf_def\<close>)

lemma yields_symtabs_read: "tables_wf p \<Longrightarrow> yields (symtabs_read n i p) tables_wf"
proof (induction n arbitrary: i p)
  case (Suc n)
  then show ?case
    unfolding symtabs_read.simps
    by (intro yields_rbind [OF yields_policy_table] Suc.IH yields_intros yields_rskip)
qed (simp add: yields_rret)

end
