(* ===== verification/Index_Laws.thy ===== *)
theory Index_Laws
  imports Reader_Laws
begin

section \<open>The indexes of a policy\<close>

text \<open>
  The arrays that policydb_index_classes and policydb_index_others build are the inverses of the
  symbol tables: the locale \<open>name_index\<close> says what the callback of one table does, and has the law
  for the whole table.
\<close>

subsection \<open>Changing a datum in place\<close>

definition set_datum :: "'k \<Rightarrow> ('d \<Rightarrow> 'd) \<Rightarrow> ('k, 'd) hashtab_node \<Rightarrow> ('k, 'd) hashtab_node" where
  "set_datum k f n = (if hkey n = k then n\<lparr>hdatum := f (hdatum n)\<rparr> else n)"

lemma set_datum_key [simp]: "hkey (set_datum k f n) = hkey n"
  by (simp add: set_datum_def)

lemma map_of_set_datum:
  "map_of (map ((\<lambda>n. (hkey n, hdatum n)) \<circ> set_datum k f) ns) x =
     (if x = k then map_option f (map_of (map (\<lambda>n. (hkey n, hdatum n)) ns) k) else map_of (map (\<lambda>n. (hkey n, hdatum n)) ns) x)"
  by (induction ns) (auto simp: set_datum_def)

context hash_keys
begin

lemma set_datum_ok:
  assumes "table_ok hash cmp h"
  shows "table_ok hash cmp (h\<lparr>htable := map (map (set_datum k f)) (htable h)\<rparr>)"
    and "hashtab_abs (h\<lparr>htable := map (map (set_datum k f)) (htable h)\<rparr>) = (hashtab_abs h)(k := map_option f (hashtab_abs h k))"
proof -
  have "chain_sorted cmp (map (set_datum k f) ch) = chain_sorted cmp ch" for ch
    by (simp add: chain_sorted_def sorted_wrt_map)
  then show "table_ok hash cmp (h\<lparr>htable := map (map (set_datum k f)) (htable h)\<rparr>)"
    using assms by (auto simp: table_ok_def hashtab_ok_def slots_ok_def length_concat comp_def)
  show "hashtab_abs (h\<lparr>htable := map (map (set_datum k f)) (htable h)\<rparr>) = (hashtab_abs h)(k := map_option f (hashtab_abs h k))"
    by (rule ext) (simp add: hashtab_abs_def map_concat [symmetric] map_of_set_datum)
qed

lemma update_map:
  assumes ok: "table_ok hash cmp h" and d: "hashtab_abs h k = Some d"
  shows "hashtab_update (Some h) k f = Some (h\<lparr>htable := map (map (set_datum k f)) (htable h)\<rparr>)"
proof -
  let ?i = "unat (hash (hsize h) k)" and ?n = "\<lparr>hkey = k, hdatum = d\<rparr>"
  let ?ch = "htable h ! ?i"
  note sok = table_okD(2) [OF ok] and len = table_okD(6) [OF ok, of k] and w = walk_found [OF ok d]
  define a where "a = chain_before cmp k ?ch"
  define b where "b = tl (chain_from cmp k ?ch)"
  have eq: "?ch = a @ ?n # b"
    using chain_cat [of k ?ch] w by (metis a_def b_def list.collapse)
  have "chain_sorted cmp ?ch" using sok len by (simp add: slots_ok_def)
  then have "distinct (map hkey ?ch)" by (rule chain_sorted_distinct)
  then have ab: "map (set_datum k f) a = a" "map (set_datum k f) b = b"
    by (auto simp: eq set_datum_def intro!: map_idI)
  have other: "map (set_datum k f) (htable h ! j) = htable h ! j" if "j < length (htable h)" "j \<noteq> ?i" for j
    using sok that by (auto simp: slots_ok_def set_datum_def intro!: map_idI)
  have "(htable h)[?i := a @ \<lparr>hkey = k, hdatum = f d\<rparr> # b] = map (map (set_datum k f)) (htable h)"
  proof (rule nth_equalityI)
    fix j assume "j < length ((htable h)[?i := a @ \<lparr>hkey = k, hdatum = f d\<rparr> # b])"
    then show "(htable h)[?i := a @ \<lparr>hkey = k, hdatum = f d\<rparr> # b] ! j = map (map (set_datum k f)) (htable h) ! j"
      using other [of j] ab by (cases "j = ?i") (simp_all add: eq set_datum_def)
  qed simp
  then show ?thesis
    using w table_okD(4,5) [OF ok] by (simp add: hashtab_update_def Let_def cmp_refl a_def b_def)
qed

lemma update_spec:
  assumes "table_ok hash cmp h"
  obtains h' where "hashtab_update (Some h) k f = Some h'" "table_ok hash cmp h'"
    "hashtab_abs h' = (hashtab_abs h)(k := map_option f (hashtab_abs h k))"
proof (cases "hashtab_abs h k")
  case None
  then have "hashtab_update (Some h) k f = Some h"
    using walk_missing [OF assms None] table_okD(4,5) [OF assms] by (auto simp: hashtab_update_def Let_def)
  moreover have "(hashtab_abs h)(k := map_option f (hashtab_abs h k)) = hashtab_abs h" using None by auto
  ultimately show ?thesis using that assms by simp
next
  case (Some d)
  then show ?thesis using that update_map [OF assms Some] set_datum_ok [OF assms] by blast
qed

end

subsection \<open>Walks over a table\<close>

fun sym_fold :: "('k \<Rightarrow> 'd \<Rightarrow> 's \<Rightarrow> errno + 's) \<Rightarrow> ('k, 'd) hashtab_node list \<Rightarrow> 's \<Rightarrow> 's option" where
  "sym_fold f [] s = Some s"
| "sym_fold f (n # ns) s = (case f (hkey n) (hdatum n) s of Inl _ \<Rightarrow> None | Inr s' \<Rightarrow> sym_fold f ns s')"

lemma map_nodes_fold:
  "hashtab_map_nodes (\<lambda>k d s. case f k d s of Inl _ \<Rightarrow> (- 1, s) | Inr s' \<Rightarrow> (0, s')) ns p = (ret, p') \<Longrightarrow>
     (ret = 0 \<longrightarrow> sym_fold f ns p = Some p')"
  by (induction ns arbitrary: p) (auto split: sum.splits)

lemma map_symbols_Some:
  assumes "map_symbols (Some t) f p = Inr p'" shows "sym_fold f (concat (htable t)) p = Some p'"
  using assms map_nodes_fold [of f "concat (htable t)" p 0 p']
  by (auto simp: map_symbols_def hashtab_map_def split: prod.splits if_splits)

lemma sym_fold_keeps:
  assumes "sym_fold f ns p = Some p'" "I p" "\<And>k d s s'. \<lbrakk>f k d s = Inr s'; I s\<rbrakk> \<Longrightarrow> I s'"
  shows "I p'"
  using assms(1,2) by (induction ns arbitrary: p) (auto split: sum.splits intro: assms(3))

lemma map_symbols_keeps:
  assumes "map_symbols t f p = Inr p'" "I p" "\<And>k d s s'. \<lbrakk>f k d s = Inr s'; I s\<rbrakk> \<Longrightarrow> I s'"
  shows "I p'"
proof (cases t)
  case None
  then show ?thesis using assms(1,2) by (simp add: map_symbols_def hashtab_map_def)
next
  case (Some v)
  from assms(2) show ?thesis
    by (rule sym_fold_keeps [OF map_symbols_Some [OF assms(1) [unfolded Some]]]) (rule assms(3))
qed

lemma put_get:
  assumes "value_isvalid v n" "length a = unat n"
  shows "val_get (val_put a v x) w = (if w = v then Some x else val_get a w)"
proof -
  have "v \<noteq> 0" "unat v \<le> unat n" using assms(1) by (auto simp: value_isvalid_def word_le_nat_alt not_less)
  moreover from this have "0 < unat v" by (simp add: unat_gt_0)
  ultimately have "unat (v - 1) < length a" using assms(2) by (simp add: unat_minus_one)
  moreover have "unat (w - 1) = unat (v - 1) \<longleftrightarrow> w = v" by simp
  ultimately show ?thesis by (auto simp: val_get_def val_put_def nth_list_update)
qed

lemma val_put_length [simp]: "length (val_put a v x) = length a"
  by (simp add: val_put_def)

lemma val_get_nulls: "val_get (replicate n None) v = None"
  by (simp add: val_get_def)

subsection \<open>The interface of a callback\<close>

text \<open>The callback \<open>idx\<close> enters the name of a symbol at its value, unless the symbol is skipped; the
  value must be in range and free.\<close>

locale name_index =
  fixes idx :: "cstring \<Rightarrow> 'd \<Rightarrow> policydb \<Rightarrow> errno + policydb" and val :: "'d \<Rightarrow> u32" and skip :: "'d \<Rightarrow> bool"
    and arr :: "policydb \<Rightarrow> cstring option list" and np :: "policydb \<Rightarrow> u32"
  assumes idx_np: "idx k d p = Inr p' \<Longrightarrow> np p' = np p"
    and idx_names: "idx k d p = Inr p' \<Longrightarrow> arr p' = (if skip d then arr p else val_put (arr p) (val d) k)"
    and idx_free: "\<lbrakk>idx k d p = Inr p'; \<not> skip d\<rbrakk> \<Longrightarrow> value_isvalid (val d) (np p) \<and> val_get (arr p) (val d) = None"
begin

lemma fold_names:
  assumes "sym_fold idx ns p = Some p'" "length (arr p) = unat (np p)"
  shows "np p' = np p \<and> length (arr p') = length (arr p) \<and>
    (\<forall>n\<in>set ns. \<not> skip (hdatum n) \<longrightarrow> value_isvalid (val (hdatum n)) (np p)) \<and>
    (\<forall>v k. val_get (arr p') v = Some k \<longleftrightarrow>
       val_get (arr p) v = Some k \<or> (\<exists>n\<in>set ns. hkey n = k \<and> \<not> skip (hdatum n) \<and> val (hdatum n) = v))"
  using assms
proof (induction ns arbitrary: p)
  case (Cons n ns)
  then obtain p1 where p1: "idx (hkey n) (hdatum n) p = Inr p1" "sym_fold idx ns p1 = Some p'"
    by (auto split: sum.splits)
  show ?case
  proof (cases "skip (hdatum n)")
    case True
    then show ?thesis using Cons.IH [OF p1(2)] idx_np [OF p1(1)] idx_names [OF p1(1)] Cons.prems(2) by auto
  next
    case False
    have f: "value_isvalid (val (hdatum n)) (np p)" "val_get (arr p) (val (hdatum n)) = None"
      using idx_free [OF p1(1) False] by auto
    have a: "val_get (arr p1) v = (if v = val (hdatum n) then Some (hkey n) else val_get (arr p) v)" for v
      using idx_names [OF p1(1)] False put_get [OF f(1) Cons.prems(2)] by simp
    have l: "length (arr p1) = unat (np p)" "np p1 = np p" using idx_names [OF p1(1)] False Cons.prems(2) idx_np [OF p1(1)] by simp_all
    from Cons.IH [OF p1(2)] show ?thesis
      using f l Cons.prems(2) False by (auto simp: a)
  qed
qed auto

lemma index_names:
  assumes "map_symbols (Some t) idx p = Inr p'" "table_ok symhash symcmp t" "arr p = replicate (unat (np p)) None"
  shows "val_get (arr p') v = Some k \<longleftrightarrow> (\<exists>d. hashtab_abs t k = Some d \<and> \<not> skip d \<and> val d = v)"
    and "length (arr p') = unat (np p)" and "np p' = np p"
    and "\<lbrakk>hashtab_abs t k = Some d; \<not> skip d\<rbrakk> \<Longrightarrow> value_isvalid (val d) (np p)"
proof -
  note r = fold_names [OF map_symbols_Some [OF assms(1)]]
  show "length (arr p') = unat (np p)" "np p' = np p" using r assms(3) by simp_all
  have e: "(\<exists>n\<in>set (concat (htable t)). hkey n = k \<and> Q (hdatum n)) \<longleftrightarrow> (\<exists>d. hashtab_abs t k = Some d \<and> Q d)" for Q k
    unfolding sym.abs_iff [OF assms(2)] by (metis hashtab_node.select_convs hashtab_node.surjective old.unit.exhaust)
  show "val_get (arr p') v = Some k \<longleftrightarrow> (\<exists>d. hashtab_abs t k = Some d \<and> \<not> skip d \<and> val d = v)"
    using r assms(3) e [of k "\<lambda>d. \<not> skip d \<and> val d = v"] by (simp add: val_get_nulls del: set_concat)
  show "\<lbrakk>hashtab_abs t k = Some d; \<not> skip d\<rbrakk> \<Longrightarrow> value_isvalid (val d) (np p)"
    using r assms(3) unfolding sym.abs_iff [OF assms(2)] by (fastforce simp del: set_concat)
qed

end

text \<open>A callback that also enters the datum.\<close>

locale struct_index = name_index +
  fixes str :: "policydb \<Rightarrow> 'd option list"
  assumes idx_structs: "idx k d p = Inr p' \<Longrightarrow> str p' = (if skip d then str p else val_put (str p) (val d) d)"
begin

lemma fold_structs:
  assumes "sym_fold idx ns p = Some p'" "length (arr p) = unat (np p)" "length (str p) = unat (np p)"
    and "\<forall>v. val_get (arr p) v = None \<longrightarrow> val_get (str p) v = None"
  shows "length (str p') = length (str p) \<and>
    (\<forall>v d. val_get (str p') v = Some d \<longleftrightarrow>
       val_get (str p) v = Some d \<or> (\<exists>n\<in>set ns. hdatum n = d \<and> \<not> skip d \<and> val d = v))"
  using assms
proof (induction ns arbitrary: p)
  case (Cons n ns)
  then obtain p1 where p1: "idx (hkey n) (hdatum n) p = Inr p1" "sym_fold idx ns p1 = Some p'"
    by (auto split: sum.splits)
  show ?case
  proof (cases "skip (hdatum n)")
    case True
    then show ?thesis
      using Cons.IH [OF p1(2)] idx_np [OF p1(1)] idx_names [OF p1(1)] idx_structs [OF p1(1)] Cons.prems by auto
  next
    case False
    have f: "value_isvalid (val (hdatum n)) (np p)" "val_get (arr p) (val (hdatum n)) = None"
      using idx_free [OF p1(1) False] by auto
    have a: "val_get (arr p1) v = (if v = val (hdatum n) then Some (hkey n) else val_get (arr p) v)"
        "val_get (str p1) v = (if v = val (hdatum n) then Some (hdatum n) else val_get (str p) v)" for v
      using idx_names [OF p1(1)] idx_structs [OF p1(1)] False put_get [OF f(1) Cons.prems(2)] put_get [OF f(1) Cons.prems(3)] by simp_all
    have l: "length (arr p1) = unat (np p)" "length (str p1) = unat (np p)" "np p1 = np p"
      using idx_names [OF p1(1)] idx_structs [OF p1(1)] False Cons.prems(2,3) idx_np [OF p1(1)] by simp_all
    from Cons.IH [OF p1(2)] show ?thesis
      using f l False Cons.prems(3,4) by (auto simp: a)
  qed
qed auto

lemma index_structs:
  assumes "map_symbols (Some t) idx p = Inr p'" "table_ok symhash symcmp t"
    and "arr p = replicate (unat (np p)) None" "str p = replicate (unat (np p)) None"
  shows "val_get (str p') v = Some d \<longleftrightarrow> (\<exists>k. hashtab_abs t k = Some d \<and> \<not> skip d \<and> val d = v)"
    and "length (str p') = unat (np p)"
proof -
  have r: "length (str p') = unat (np p) \<and> (\<forall>v d. val_get (str p') v = Some d \<longleftrightarrow>
       (\<exists>n\<in>set (concat (htable t)). hdatum n = d \<and> \<not> skip d \<and> val d = v))"
    using fold_structs [OF map_symbols_Some [OF assms(1)]] assms(3,4) by (simp add: val_get_nulls del: set_concat)
  show "length (str p') = unat (np p)" using r by simp
  have "(\<exists>n\<in>set (concat (htable t)). hdatum n = d) \<longleftrightarrow> (\<exists>k. hashtab_abs t k = Some d)"
    unfolding sym.abs_iff [OF assms(2)] by (metis hashtab_node.select_convs hashtab_node.surjective old.unit.exhaust)
  then show "val_get (str p') v = Some d \<longleftrightarrow> (\<exists>k. hashtab_abs t k = Some d \<and> \<not> skip d \<and> val d = v)"
    using r by blast
qed

end

interpretation commons: name_index common_index common_value "\<lambda>_. False" p_common_val_to_name "\<lambda>p. nprim (p_commons p)"
  by unfold_locales (auto simp: common_index_def index_free_def split: if_splits)

interpretation classes: struct_index class_index class_value "\<lambda>_. False" p_class_val_to_name "\<lambda>p. nprim (p_classes p)" class_val_to_struct
  by unfold_locales (auto simp: class_index_def index_free_def split: if_splits)

interpretation roles: struct_index role_index role_value "\<lambda>_. False" p_role_val_to_name "\<lambda>p. nprim (p_roles p)" role_val_to_struct
  by unfold_locales (auto simp: role_index_def index_free_def split: if_splits)

interpretation types: struct_index type_index type_value "\<lambda>d. primary d = 0" p_type_val_to_name "\<lambda>p. nprim (p_types p)" type_val_to_struct
  by unfold_locales (auto simp: type_index_def index_free_def split: if_splits)

interpretation users: struct_index user_index user_value "\<lambda>_. False" p_user_val_to_name "\<lambda>p. nprim (p_users p)" user_val_to_struct
  by unfold_locales (auto simp: user_index_def index_free_def split: if_splits)

interpretation bools: struct_index cond_index_bool bool_value "\<lambda>_. False" p_bool_val_to_name "\<lambda>p. nprim (p_bools p)" bool_val_to_struct
  by unfold_locales (auto simp: cond_index_bool_def value_ok_def value_isvalid_def val_put_def split: if_splits)

interpretation sens: name_index sens_index "\<lambda>d. sens (level d)" "\<lambda>d. lisalias d \<noteq> 0" p_sens_val_to_name "\<lambda>p. nprim (p_levels p)"
  by unfold_locales (auto simp: sens_index_def index_free_def split: if_splits)

interpretation cats: name_index cat_index cat_value "\<lambda>d. cisalias d \<noteq> 0" p_cat_val_to_name "\<lambda>p. nprim (p_cats p)"
  by unfold_locales (auto simp: cat_index_def index_free_def split: if_splits)

subsection \<open>Sets of types\<close>

lemma get_bit_bits: "ebitmap_wf e \<Longrightarrow> ebitmap_get_bit e i \<longleftrightarrow> unat i \<in> ebitmap_bits e"
  by (rule ebm.get_bit_iff)

lemma yields_set_bit:
  assumes "ebitmap_wf e"
  shows "yields (\<lambda>h. ebitmap_set_bit h e b v) (\<lambda>e'. ebitmap_wf e' \<and> b < 0xFFFFFFC0 \<and> (\<forall>i. ebitmap_get_bit e' i \<longleftrightarrow> (if i = b then v \<noteq> 0 else ebitmap_get_bit e i)))"
proof (rule yieldsI)
  fix h e' h' assume r: "ebitmap_set_bit h e b v = (Inr e', h')"
  have "b < 0xFFFFFFC0" "ebitmap_wf e'" "ebitmap_bits e' = bit_update v (unat b) (ebitmap_bits e)"
    using ebitmap_set_bit_spec [OF assms, where h = h and b = b and v = v] r by simp_all
  then show "ebitmap_wf e' \<and> b < 0xFFFFFFC0 \<and> (\<forall>i. ebitmap_get_bit e' i \<longleftrightarrow> (if i = b then v \<noteq> 0 else ebitmap_get_bit e i))"
    using assms by (simp add: get_bit_bits bit_update_def word_unat_eq_iff)
qed

lemma yields_union:
  assumes "ebitmap_wf a" "ebitmap_wf b"
  shows "yields (\<lambda>h. ebitmap_union h a b) (\<lambda>e. ebitmap_wf e \<and> (\<forall>i. ebitmap_get_bit e i \<longleftrightarrow> ebitmap_get_bit a i \<or> ebitmap_get_bit b i))"
proof (rule yieldsI)
  fix h e h' assume r: "ebitmap_union h a b = (Inr e, h')"
  have "ebitmap_wf e" "ebitmap_bits e = ebitmap_bits a \<union> ebitmap_bits b"
    using ebitmap_union_spec [OF assms, of h] r by simp_all
  then show "ebitmap_wf e \<and> (\<forall>i. ebitmap_get_bit e i \<longleftrightarrow> ebitmap_get_bit a i \<or> ebitmap_get_bit b i)"
    using assms by (simp add: get_bit_bits)
qed

lemma set_bits_Cons: "set_bits (i # is) e = hbind (\<lambda>h. ebitmap_set_bit h e i 1) (set_bits is)"
proof (induction "is" arbitrary: i rule: rev_induct)
  case Nil
  show ?case by (rule ext) (simp add: set_bits_def hbind_def hret_def split: prod.splits sum.splits)
next
  case (snoc j "is")
  have e: "set_bits (is @ [j]) = (\<lambda>e. hbind (set_bits is e) (\<lambda>e h. ebitmap_set_bit h e j 1))" for "is"
    by (rule ext) (simp add: set_bits_def)
  have "set_bits ((i # is) @ [j]) e = hbind (hbind (\<lambda>h. ebitmap_set_bit h e i 1) (set_bits is)) (\<lambda>e h. ebitmap_set_bit h e j 1)"
    using snoc unfolding e by simp
  also have "\<dots> = hbind (\<lambda>h. ebitmap_set_bit h e i 1) (set_bits (is @ [j]))"
    unfolding e by (rule ext) (simp add: hbind_def split: prod.splits sum.splits)
  finally show ?case by simp
qed

lemma yields_set_bits:
  "ebitmap_wf e \<Longrightarrow> yields (set_bits is e) (\<lambda>r. ebitmap_wf r \<and> (\<forall>i. ebitmap_get_bit r i \<longleftrightarrow> ebitmap_get_bit e i \<or> i \<in> set is))"
proof (induction "is" arbitrary: e)
  case Nil
  then show ?case by (simp add: set_bits_def yields_hret)
next
  case (Cons j "is")
  show ?case
    unfolding set_bits_Cons by (rule yields_hbind [OF yields_set_bit [OF Cons.prems]], rule yields_weaken [OF Cons.IH]) auto
qed

lemma positive_bits_iff: "ebitmap_wf e \<Longrightarrow> i \<in> set (ebitmap_positive_bits e) \<longleftrightarrow> ebitmap_get_bit e i"
proof -
  assume wf: "ebitmap_wf e"
  have "unat ` set (ebitmap_positive_bits e) = ebitmap_bits e"
    using arg_cong [OF ebitmap_positive_bits_spec [OF wf], of set] by simp
  then show ?thesis using get_bit_bits [OF wf] by (metis image_iff word_unat_eq_iff)
qed

lemma set_below: "i \<in> set (below n) \<longleftrightarrow> i < n"
proof
  assume "i \<in> set (below n)"
  then obtain k where "k < unat n" "i = word_of_nat k" by (auto simp: below_def)
  moreover from this have "unat i = k" using unat_u32_less [of n] by (simp add: unsigned_of_nat take_bit_nat_eq_self)
  ultimately show "i < n" by (simp add: word_less_nat_alt)
next
  assume "i < n"
  then have "unat i < unat n" by (simp add: word_less_nat_alt)
  then show "i \<in> set (below n)" by (auto simp: below_def intro!: image_eqI [of _ _ "unat i"])
qed

text \<open>What the element \<open>j\<close> of a set stands for: the types of an attribute that is expanded, or itself.\<close>

definition stands_for :: "policydb \<Rightarrow> (type_datum \<Rightarrow> bool) \<Rightarrow> u32 \<Rightarrow> u32 \<Rightarrow> bool" where
  "stands_for p ex j i \<longleftrightarrow>
     (case type_at p j of
        Some t \<Rightarrow> if flavor t = TYPE_ATTRIB \<and> ex t then ebitmap_get_bit (type_types t) i else i = j
      | None \<Rightarrow> i = j)"

text \<open>The types of all attributes are well-formed sets.\<close>

definition types_wf :: "policydb \<Rightarrow> bool" where
  "types_wf p \<longleftrightarrow> (\<forall>j t. type_at p j = Some t \<longrightarrow> type_ok t)"

lemma yields_expand_types:
  assumes "types_wf p"
  shows "ebitmap_wf acc \<Longrightarrow> yields (expand_types p ex js acc) (\<lambda>r. ebitmap_wf r \<and>
    (\<forall>j\<in>set js. j < nprim (p_types p) \<and> type_at p j \<noteq> None) \<and>
    (\<forall>i. ebitmap_get_bit r i \<longleftrightarrow> ebitmap_get_bit acc i \<or>
       (\<exists>j\<in>set js. stands_for p (\<lambda>t. ex \<or> type_flags t AND TYPE_FLAGS_EXPAND_ATTR_TRUE \<noteq> 0) j i)))"
proof (induction js arbitrary: acc)
  case Nil
  then show ?case by (simp add: yields_hret)
next
  case (Cons j js)
  let ?ex = "\<lambda>t. ex \<or> type_flags t AND TYPE_FLAGS_EXPAND_ATTR_TRUE \<noteq> 0"
  have one: "yields (if flavor t = TYPE_ATTRIB \<and> ?ex t then (\<lambda>h. ebitmap_union h acc (type_types t)) else (\<lambda>h. ebitmap_set_bit h acc j 1))
      (\<lambda>e. ebitmap_wf e \<and> (\<forall>i. ebitmap_get_bit e i \<longleftrightarrow> ebitmap_get_bit acc i \<or> stands_for p ?ex j i))" if t: "type_at p j = Some t" for t
  proof (rule yields_if)
    have "ebitmap_wf (type_types t)" using assms t by (auto simp: types_wf_def type_ok_def)
    then show "yields (\<lambda>h. ebitmap_union h acc (type_types t)) (\<lambda>e. ebitmap_wf e \<and> (\<forall>i. ebitmap_get_bit e i \<longleftrightarrow> ebitmap_get_bit acc i \<or> stands_for p ?ex j i))"
      if "flavor t = TYPE_ATTRIB \<and> ?ex t" using yields_union [OF Cons.prems, of "type_types t"] that by (simp add: stands_for_def t)
    show "yields (\<lambda>h. ebitmap_set_bit h acc j 1) (\<lambda>e. ebitmap_wf e \<and> (\<forall>i. ebitmap_get_bit e i \<longleftrightarrow> ebitmap_get_bit acc i \<or> stands_for p ?ex j i))"
      if "\<not> (flavor t = TYPE_ATTRIB \<and> ?ex t)"
      by (rule yields_weaken [OF yields_set_bit [OF Cons.prems]]) (use that in \<open>auto simp: stands_for_def t\<close>)
  qed
  show ?case
    unfolding expand_types.simps
    by (intro yields_intros yields_hbind [OF one], assumption, rule yields_weaken [OF Cons.IH]) (auto simp: not_le)
qed

lemma yields_expand_neg:
  assumes "types_wf p"
  shows "ebitmap_wf acc \<Longrightarrow> yields (expand_neg p js acc) (\<lambda>r. ebitmap_wf r \<and>
    (\<forall>i. ebitmap_get_bit r i \<longleftrightarrow> ebitmap_get_bit acc i \<or> (\<exists>j\<in>set js. stands_for p (\<lambda>_. True) j i)))"
proof (induction js arbitrary: acc)
  case Nil
  then show ?case by (simp add: yields_hret)
next
  case (Cons j js)
  have one: "yields (case type_at p j of
        Some t \<Rightarrow> if flavor t = TYPE_ATTRIB then (\<lambda>h. ebitmap_union h acc (type_types t)) else (\<lambda>h. ebitmap_set_bit h acc j 1)
      | None \<Rightarrow> (\<lambda>h. ebitmap_set_bit h acc j 1))
      (\<lambda>e. ebitmap_wf e \<and> (\<forall>i. ebitmap_get_bit e i \<longleftrightarrow> ebitmap_get_bit acc i \<or> stands_for p (\<lambda>_. True) j i))"
  proof (cases "\<exists>t. type_at p j = Some t \<and> flavor t = TYPE_ATTRIB")
    case True
    then obtain t where t: "type_at p j = Some t" "flavor t = TYPE_ATTRIB" by blast
    then have "ebitmap_wf (type_types t)" using assms by (auto simp: types_wf_def type_ok_def)
    then show ?thesis using yields_union [OF Cons.prems, of "type_types t"] by (simp add: stands_for_def t)
  next
    case False
    then have e: "(case type_at p j of
        Some t \<Rightarrow> if flavor t = TYPE_ATTRIB then (\<lambda>h. ebitmap_union h acc (type_types t)) else (\<lambda>h. ebitmap_set_bit h acc j 1)
      | None \<Rightarrow> (\<lambda>h. ebitmap_set_bit h acc j 1)) = (\<lambda>h. ebitmap_set_bit h acc j 1)" by (auto split: option.splits)
    show ?thesis
      unfolding e by (rule yields_weaken [OF yields_set_bit [OF Cons.prems]]) (use False in \<open>auto simp: stands_for_def split: option.splits\<close>)
  qed
  show ?case
    unfolding expand_neg.simps
    by (intro yields_intros yields_hbind [OF one], rule yields_weaken [OF Cons.IH]) auto
qed

lemma yields_comp_types:
  "\<lbrakk>ebitmap_wf t; distinct js\<rbrakk> \<Longrightarrow> yields (comp_types p js t) (\<lambda>r. ebitmap_wf r \<and>
    (\<forall>i. ebitmap_get_bit r i \<longleftrightarrow> (if i \<in> set js then \<not> is_attribute p i \<and> \<not> ebitmap_get_bit t i else ebitmap_get_bit t i)))"
proof (induction js arbitrary: t)
  case Nil
  then show ?case by (simp add: yields_hret)
next
  case (Cons j js)
  have flip: "yields (\<lambda>h. ebitmap_set_bit h t j (if ebitmap_get_bit t j then 0 else 1))
      (\<lambda>e. ebitmap_wf e \<and> (\<forall>i. ebitmap_get_bit e i \<longleftrightarrow> (if i = j then \<not> ebitmap_get_bit t j else ebitmap_get_bit t i)))"
    by (rule yields_weaken [OF yields_set_bit [OF Cons.prems(1)]]) auto
  show ?case
    unfolding comp_types.simps
    by (intro yields_intros yields_hbind [OF flip], rule yields_weaken [OF Cons.IH], use Cons.prems in auto)
      (rule yields_weaken [OF Cons.IH], use Cons.prems in auto)
qed

lemma below_distinct: "distinct (below n)"
  unfolding below_def distinct_map
  using unat_u32_less [of n] by (auto simp: inj_on_def unsigned_of_nat take_bit_nat_eq_self dest!: arg_cong [where f = unat])

text \<open>The types a set stands for.\<close>

definition type_set_denotes :: "policydb \<Rightarrow> type_set \<Rightarrow> bool \<Rightarrow> u32 \<Rightarrow> bool" where
  "type_set_denotes p s alwaysexpand i \<longleftrightarrow>
     (let ex = (alwaysexpand \<or> \<not> ebitmap_is_empty (ts_negset s) \<or> ts_flags s \<noteq> 0);
          pos = (\<exists>j. ebitmap_get_bit (ts_types s) j \<and> stands_for p (\<lambda>t. ex \<or> type_flags t AND TYPE_FLAGS_EXPAND_ATTR_TRUE \<noteq> 0) j i);
          neg = (\<exists>j. ebitmap_get_bit (ts_negset s) j \<and> stands_for p (\<lambda>_. True) j i)
      in if ts_flags s AND TYPE_STAR \<noteq> 0 then i < nprim (p_types p) \<and> \<not> neg \<and> \<not> is_attribute p i
         else if ts_flags s AND TYPE_COMP \<noteq> 0 \<and> i < nprim (p_types p) then \<not> is_attribute p i \<and> \<not> (pos \<and> \<not> neg)
         else pos \<and> \<not> neg)"

lemma yields_type_set_expand:
  assumes "types_wf p" "type_set_wf s"
  shows "yields (type_set_expand s p alwaysexpand) (\<lambda>r. ebitmap_wf r \<and> (\<forall>i. ebitmap_get_bit r i \<longleftrightarrow> type_set_denotes p s alwaysexpand i))"
proof -
  have wf: "ebitmap_wf (ts_types s)" "ebitmap_wf (ts_negset s)" using assms(2) by (auto simp: type_set_wf_def)
  define ex where "ex = (alwaysexpand \<or> \<not> ebitmap_is_empty (ts_negset s) \<or> ts_flags s \<noteq> 0)"
  define pos where "pos = (\<lambda>i. \<exists>j. ebitmap_get_bit (ts_types s) j \<and> stands_for p (\<lambda>t. ex \<or> type_flags t AND TYPE_FLAGS_EXPAND_ATTR_TRUE \<noteq> 0) j i)"
  define neg where "neg = (\<lambda>i. \<exists>j. ebitmap_get_bit (ts_negset s) j \<and> stands_for p (\<lambda>_. True) j i)"
  have e: "ebitmap_get_bit ebitmap_init i = False" for i by (simp add: get_bit_bits)
  have y: "yields (expand_types p ex (ebitmap_positive_bits (ts_types s)) ebitmap_init) (\<lambda>r. ebitmap_wf r \<and> (\<forall>i. ebitmap_get_bit r i \<longleftrightarrow> pos i))"
      "yields (expand_neg p (ebitmap_positive_bits (ts_negset s)) ebitmap_init) (\<lambda>r. ebitmap_wf r \<and> (\<forall>i. ebitmap_get_bit r i \<longleftrightarrow> neg i))"
    by (rule yields_weaken [OF yields_expand_types [OF assms(1) ebitmap_init_spec(1)]], simp add: e pos_def positive_bits_iff [OF wf(1)] Bex_def)
      (rule yields_weaken [OF yields_expand_neg [OF assms(1) ebitmap_init_spec(1)]], simp add: e neg_def positive_bits_iff [OF wf(2)] Bex_def)
  have d: "type_set_denotes p s alwaysexpand i \<longleftrightarrow>
      (if ts_flags s AND TYPE_STAR \<noteq> 0 then i < nprim (p_types p) \<and> \<not> neg i \<and> \<not> is_attribute p i
       else if ts_flags s AND TYPE_COMP \<noteq> 0 \<and> i < nprim (p_types p) then \<not> is_attribute p i \<and> \<not> (pos i \<and> \<not> neg i)
       else pos i \<and> \<not> neg i)" for i
    unfolding type_set_denotes_def Let_def pos_def neg_def ex_def ..
  have c: "yields (hbind (set_bits (filter (\<lambda>i. \<not> ebitmap_get_bit n i) (ebitmap_positive_bits t)) ebitmap_init) (\<lambda>t.
        if ts_flags s AND TYPE_COMP \<noteq> 0 then comp_types p (below (nprim (p_types p))) t else hret t))
      (\<lambda>r. ebitmap_wf r \<and> (\<forall>i. ebitmap_get_bit r i \<longleftrightarrow> type_set_denotes p s alwaysexpand i))"
    if "ts_flags s AND TYPE_STAR = 0" "ebitmap_wf t \<and> (\<forall>i. ebitmap_get_bit t i \<longleftrightarrow> pos i)" "ebitmap_wf n \<and> (\<forall>i. ebitmap_get_bit n i \<longleftrightarrow> neg i)" for t n
    by (rule yields_hbind [OF yields_set_bits [OF ebitmap_init_spec(1)]], rule yields_if,
        rule yields_weaken [OF yields_comp_types [OF _ below_distinct]], simp,
        use that in \<open>simp_all add: d e positive_bits_iff set_below yields_hret conj_commute\<close>)
  show ?thesis
    unfolding type_set_expand_def Let_def ex_def [symmetric]
    by (rule yields_hbind [OF y(1)], rule yields_hbind [OF y(2)], rule yields_if,
        rule yields_weaken [OF yields_set_bits [OF ebitmap_init_spec(1)]])
      (simp add: d e set_below, rule c, simp_all)
qed

subsection \<open>Sets of roles\<close>

definition role_set_denotes :: "policydb \<Rightarrow> role_set \<Rightarrow> u32 \<Rightarrow> bool" where
  "role_set_denotes p s i \<longleftrightarrow>
     (if rs_flags s AND ROLE_STAR \<noteq> 0 then i < nprim (p_roles p)
      else if rs_flags s AND ROLE_COMP \<noteq> 0 \<and> i < nprim (p_roles p) then \<not> ebitmap_get_bit (rs_roles s) i
      else ebitmap_get_bit (rs_roles s) i)"

lemma yields_flip_bits:
  "\<lbrakk>ebitmap_wf t; distinct js\<rbrakk> \<Longrightarrow> yields (flip_bits js t) (\<lambda>r. ebitmap_wf r \<and>
    (\<forall>i. ebitmap_get_bit r i \<longleftrightarrow> (if i \<in> set js then \<not> ebitmap_get_bit t i else ebitmap_get_bit t i)))"
proof (induction js arbitrary: t)
  case Nil
  then show ?case by (simp add: yields_hret)
next
  case (Cons j js)
  show ?case
    unfolding flip_bits.simps
    by (rule yields_hbind [OF yields_set_bit [OF Cons.prems(1)]], rule yields_weaken [OF Cons.IH]) (use Cons.prems in auto)
qed

lemma yields_role_set_expand:
  assumes "ebitmap_wf (rs_roles s)"
  shows "yields (role_set_expand s p None) (\<lambda>r. ebitmap_wf r \<and> (\<forall>i. ebitmap_get_bit r i \<longleftrightarrow> role_set_denotes p s i))"
proof -
  have e: "ebitmap_get_bit ebitmap_init i = False" for i by (simp add: get_bit_bits)
  have mapped: "yields (herr EFAIL (\<lambda>h. ebitmap_cpy h (rs_roles s))) (\<lambda>m. m = rs_roles s)"
    by (intro yields_intros yields_hgives [OF hgives_cpy]) simp
  show ?thesis
    unfolding role_set_expand_def
    apply (rule yields_if)
     apply (intro yields_herr, rule yields_weaken [OF yields_set_bits [OF ebitmap_init_spec(1)]], simp add: role_set_denotes_def e set_below)
    apply (simp only: option.case)
    apply (rule yields_hbind [OF mapped], rule yields_hbind [OF yields_herr [OF yields_set_bits [OF ebitmap_init_spec(1)]]], rule yields_if)
     apply (intro yields_herr, rule yields_weaken [OF yields_flip_bits [OF _ below_distinct]])
    using assms by (simp_all add: role_set_denotes_def e set_below positive_bits_iff yields_hret)
qed

subsection \<open>The inverse of a table\<close>

text \<open>The arrays \<open>arr\<close> and \<open>str\<close> are the inverse of the table \<open>t\<close>, for the symbols that are not skipped.\<close>

definition indexes :: "(cstring, 'd) hashtab \<Rightarrow> u32 \<Rightarrow> ('d \<Rightarrow> u32) \<Rightarrow> ('d \<Rightarrow> bool) \<Rightarrow> cstring option list \<Rightarrow> 'd option list \<Rightarrow> bool" where
  "indexes t n val skip arr str \<longleftrightarrow> length arr = unat n \<and> length str = unat n \<and>
     (\<forall>v k. val_get arr v = Some k \<longleftrightarrow> (\<exists>d. hashtab_search t k = Some d \<and> \<not> skip d \<and> val d = v)) \<and>
     (\<forall>v d. val_get str v = Some d \<longleftrightarrow> (\<exists>k. hashtab_search t k = Some d \<and> \<not> skip d \<and> val d = v)) \<and>
     (\<forall>k d. hashtab_search t k = Some d \<and> \<not> skip d \<longrightarrow> value_isvalid (val d) n)"

context struct_index
begin

lemma index_inverse:
  assumes "map_symbols (Some t) idx p = Inr p'" "table_ok symhash symcmp t"
    and "arr p = replicate (unat (np p)) None" "str p = replicate (unat (np p)) None"
  shows "indexes (Some t) (np p) val skip (arr p') (str p')"
  unfolding indexes_def sym.search_abs [OF assms(2)]
  using index_names [OF assms(1-3)] index_structs [OF assms] by blast

end

lemma indexes_name_unique:
  assumes "indexes t n val skip arr str" "hashtab_search t k = Some d" "\<not> skip d" "hashtab_search t k' = Some d'" "\<not> skip d'" "val d = val d'"
  shows "k = k'"
proof -
  have "val_get arr (val d) = Some k" "val_get arr (val d') = Some k'" using assms unfolding indexes_def by blast+
  then show ?thesis using assms(6) by simp
qed

lemma indexes_update:
  assumes ix: "indexes (Some t) n val skip arr str" and t: "table_ok symhash symcmp t" "hashtab_abs t k = Some d"
    and d: "val d' = val d" "\<not> skip d" "\<not> skip d'"
  shows "indexes (hashtab_update (Some t) k (\<lambda>_. d')) n val skip arr (val_put str (val d) d')"
proof -
  obtain t' where t': "hashtab_update (Some t) k (\<lambda>_. d') = Some t'" "table_ok symhash symcmp t'"
      "hashtab_abs t' = (hashtab_abs t)(k := map_option (\<lambda>_. d') (hashtab_abs t k))"
    using sym.update_spec [OF t(1)] by metis
  have s: "hashtab_search (Some t') x = (if x = k then Some d' else hashtab_search (Some t) x)" for x
    by (simp add: sym.search_abs [OF t(1)] sym.search_abs [OF t'(2)] t'(3) t(2))
  have k: "hashtab_search (Some t) k = Some d" by (simp add: sym.search_abs [OF t(1)] t(2))
  have v: "value_isvalid (val d) n" "length str = unat n" using ix k d(2) unfolding indexes_def by blast+
  have u: "x = k" if "hashtab_search (Some t) x = Some e" "\<not> skip e" "val e = val d" for x e
    using indexes_name_unique [OF ix that(1,2) k d(2)] that(3) by simp
  have ixs: "val_get str w = Some e \<longleftrightarrow> (\<exists>x. hashtab_search (Some t) x = Some e \<and> \<not> skip e \<and> val e = w)"
      "val_get arr w = Some x \<longleftrightarrow> (\<exists>e. hashtab_search (Some t) x = Some e \<and> \<not> skip e \<and> val e = w)" for w e x
    using ix unfolding indexes_def by blast+
  have "val_get (val_put str (val d) d') w = Some e \<longleftrightarrow> (\<exists>x. hashtab_search (Some t') x = Some e \<and> \<not> skip e \<and> val e = w)" for w e
  proof (cases "w = val d")
    case True
    have "(\<exists>x. hashtab_search (Some t') x = Some e \<and> \<not> skip e \<and> val e = val d) \<longleftrightarrow> e = d'" using u d unfolding s by (auto split: if_splits)
    then show ?thesis using True by (auto simp: put_get [OF v])
  next
    case False
    then have "(\<exists>x. hashtab_search (Some t') x = Some e \<and> \<not> skip e \<and> val e = w) \<longleftrightarrow> (\<exists>x. hashtab_search (Some t) x = Some e \<and> \<not> skip e \<and> val e = w)"
      unfolding s using k d(1) by (metis option.inject)
    then show ?thesis using False by (simp add: put_get [OF v] ixs(1))
  qed
  moreover have "val_get arr w = Some x \<longleftrightarrow> (\<exists>e. hashtab_search (Some t') x = Some e \<and> \<not> skip e \<and> val e = w)" for w x
    using k d unfolding ixs(2) s by auto
  moreover have "value_isvalid (val e) n" if "hashtab_search (Some t') x = Some e" "\<not> skip e" for x e
    using that ix v(1) d(1) unfolding s indexes_def by (metis option.inject)
  moreover have "length arr = unat n" using ix by (simp add: indexes_def)
  ultimately show ?thesis using v(2) unfolding t'(1) indexes_def val_put_length by blast
qed

subsection \<open>Caches\<close>

fun hp_fold :: "('k \<Rightarrow> 'd \<Rightarrow> 's \<Rightarrow> 's hp) \<Rightarrow> ('k, 'd) hashtab_node list \<Rightarrow> 's \<Rightarrow> 's hp" where
  "hp_fold f [] s = hret s"
| "hp_fold f (n # ns) s = hbind (f (hkey n) (hdatum n) s) (hp_fold f ns)"

lemma map_nodes_hp_fold:
  "hashtab_map_nodes (\<lambda>k d (s, h). case f k d s h of
       (Inl e, h') \<Rightarrow> (if e = EFAULT then - 2 else - 1, s, h') | (Inr s', h') \<Rightarrow> (0, s', h')) ns (p, h) = (0, p', h') \<Longrightarrow>
     hp_fold f ns p h = (Inr p', h')"
  by (induction ns arbitrary: p h) (auto simp: hret_def hbind_def split: prod.splits sum.splits if_splits)

lemma map_symbols_hp_Some:
  assumes "map_symbols_hp (Some t) f p h = (Inr p', h')" shows "hp_fold f (concat (htable t)) p h = (Inr p', h')"
  by (rule map_nodes_hp_fold) (use assms in \<open>auto simp: map_symbols_hp_def hashtab_map_def split: prod.splits if_splits\<close>)

lemma yields_hp_fold:
  assumes "I ns p" "\<And>n ns p. I (n # ns) p \<Longrightarrow> yields (f (hkey n) (hdatum n) p) (I ns)"
  shows "yields (hp_fold f ns p) (I [])"
  using assms(1)
proof (induction ns arbitrary: p)
  case (Cons n ns)
  show ?case unfolding hp_fold.simps by (rule yields_hbind [OF assms(2) [OF Cons.prems] Cons.IH])
qed (simp add: yields_hret)

text \<open>A callback \<open>f\<close> that computes a part of each datum: it replaces the datum in the table and in the
  array by one that agrees with it up to \<open>strip\<close> and is \<open>good\<close>, and leaves the rest of the policy.\<close>

locale cache_walk =
  fixes f :: "cstring \<Rightarrow> 'd \<Rightarrow> policydb \<Rightarrow> policydb hp" and tab :: "policydb \<Rightarrow> 'd symtab" and str :: "policydb \<Rightarrow> 'd option list"
    and val :: "'d \<Rightarrow> u32" and strip :: "'d \<Rightarrow> 'd" and rest :: "policydb \<Rightarrow> policydb"
    and pre :: "policydb \<Rightarrow> bool" and dok :: "'d \<Rightarrow> bool" and good :: "policydb \<Rightarrow> 'd \<Rightarrow> bool"
  assumes step: "\<lbrakk>pre p; dok d\<rbrakk> \<Longrightarrow> yields (f k d p) (\<lambda>p'. \<exists>d'. strip d' = strip d \<and> good p d' \<and> rest p' = rest p \<and>
      tab p' = (tab p)\<lparr>table := hashtab_update (table (tab p)) k (\<lambda>_. d')\<rparr> \<and> str p' = val_put (str p) (val d) d')"
    and strip_val: "strip a = strip b \<Longrightarrow> val a = val b"
    and pre_rest: "rest p' = rest p \<Longrightarrow> pre p' = pre p"
    and good_rest: "\<lbrakk>rest p' = rest p; nprim (tab p') = nprim (tab p)\<rbrakk> \<Longrightarrow> good p' d = good p d"
begin

definition walked :: "policydb \<Rightarrow> (cstring, 'd) hashtab_val \<Rightarrow> (cstring, 'd) hashtab_node list \<Rightarrow> policydb \<Rightarrow> bool" where
  "walked p0 t0 ns p \<longleftrightarrow> set ns \<subseteq> set (concat (htable t0)) \<and> rest p = rest p0 \<and> nprim (tab p) = nprim (tab p0) \<and> length (str p) = length (str p0) \<and>
     (\<exists>t. table (tab p) = Some t \<and> table_ok symhash symcmp t \<and>
        (\<forall>k. map_option strip (hashtab_abs t k) = map_option strip (hashtab_abs t0 k)) \<and>
        (\<forall>k d. hashtab_abs t k = Some d \<longrightarrow> k \<in> hkey ` set ns \<or> good p0 d) \<and>
        (\<forall>n a. indexes (Some t0) n val (\<lambda>_. False) a (str p0) \<longrightarrow> indexes (Some t) n val (\<lambda>_. False) a (str p)))"

lemma walk_step:
  assumes w: "walked p0 t0 (n # ns) p" and t0: "table_ok symhash symcmp t0" "\<And>k d. hashtab_abs t0 k = Some d \<Longrightarrow> dok d" and "pre p0"
  shows "yields (f (hkey n) (hdatum n) p) (walked p0 t0 ns)"
proof -
  obtain t where t: "table (tab p) = Some t" "table_ok symhash symcmp t" "\<And>k. map_option strip (hashtab_abs t k) = map_option strip (hashtab_abs t0 k)"
      "\<And>k d. hashtab_abs t k = Some d \<Longrightarrow> k \<in> hkey ` set (n # ns) \<or> good p0 d"
      "\<And>n a. indexes (Some t0) n val (\<lambda>_. False) a (str p0) \<Longrightarrow> indexes (Some t) n val (\<lambda>_. False) a (str p)"
    and r: "rest p = rest p0" "nprim (tab p) = nprim (tab p0)" "set (n # ns) \<subseteq> set (concat (htable t0))" "length (str p) = length (str p0)"
    using w unfolding walked_def by blast
  have n: "hashtab_abs t0 (hkey n) = Some (hdatum n)" using r(3) unfolding sym.abs_iff [OF t0(1)] by (cases n) simp
  then obtain dc where dc: "hashtab_abs t (hkey n) = Some dc" "strip dc = strip (hdatum n)" using t(3) [of "hkey n"] by auto
  have p: "pre p" using pre_rest [OF r(1)] \<open>pre p0\<close> by simp
  show ?thesis
  proof (rule yields_weaken [OF step [OF p t0(2) [OF n], of "hkey n"]])
    fix p' assume "\<exists>d'. strip d' = strip (hdatum n) \<and> good p d' \<and> rest p' = rest p \<and>
      tab p' = (tab p)\<lparr>table := hashtab_update (table (tab p)) (hkey n) (\<lambda>_. d')\<rparr> \<and> str p' = val_put (str p) (val (hdatum n)) d'"
    then obtain d' where d': "strip d' = strip (hdatum n)" "good p d'" "rest p' = rest p"
      "tab p' = (tab p)\<lparr>table := hashtab_update (table (tab p)) (hkey n) (\<lambda>_. d')\<rparr>" "str p' = val_put (str p) (val (hdatum n)) d'" by blast
    obtain t' where t': "hashtab_update (Some t) (hkey n) (\<lambda>_. d') = Some t'" "table_ok symhash symcmp t'"
        "hashtab_abs t' = (hashtab_abs t)(hkey n := map_option (\<lambda>_. d') (hashtab_abs t (hkey n)))"
      using sym.update_spec [OF t(2)] by metis
    have v: "val d' = val dc" "val (hdatum n) = val dc" using strip_val dc(2) d'(1) by metis+
    have good: "good p0 d'" using d'(2) good_rest [OF r(1,2)] by simp
    have "indexes (Some t') m val (\<lambda>_. False) a (str p')" if "indexes (Some t0) m val (\<lambda>_. False) a (str p0)" for m a
      using indexes_update [OF t(5) [OF that] t(2) dc(1) v(1)] by (simp add: t'(1) d'(5) v(2))
    moreover have "map_option strip (hashtab_abs t' k) = map_option strip (hashtab_abs t0 k)" for k
      using t(3) [of k] dc d'(1) n by (auto simp: t'(3))
    moreover have "k \<in> hkey ` set ns \<or> good p0 d" if "hashtab_abs t' k = Some d" for k d
      using that t(4) [of k d] good dc(1) by (auto simp: t'(3) split: if_splits)
    ultimately show "walked p0 t0 ns p'"
      unfolding walked_def using r d'(3,4,5) t(1) t'(1,2) by auto
  qed
qed

lemma walk_table:
  assumes "pre p0" "table (tab p0) = Some t0" "table_ok symhash symcmp t0" "\<And>k d. hashtab_abs t0 k = Some d \<Longrightarrow> dok d"
  shows "yields (map_symbols_hp (table (tab p0)) f p0) (walked p0 t0 [])"
proof (rule yieldsI)
  fix h p' h' assume "map_symbols_hp (table (tab p0)) f p0 h = (Inr p', h')"
  then have r: "hp_fold f (concat (htable t0)) p0 h = (Inr p', h')" unfolding assms(2) by (rule map_symbols_hp_Some)
  have k: "k \<in> hkey ` set (concat (htable t0))" if "hashtab_abs t0 k = Some d" for k d
    using that unfolding sym.abs_iff [OF assms(3)] by (force simp del: set_concat)
  have "walked p0 t0 (concat (htable t0)) p0" unfolding walked_def using assms(2,3) k by blast
  then have "yields (hp_fold f (concat (htable t0)) p0) (walked p0 t0 [])"
    by (rule yields_hp_fold) (rule walk_step [OF _ assms(3) _ assms(1)], assumption, rule assms(4))
  then show "walked p0 t0 [] p'" using r by (rule yieldsD)
qed

end

subsection \<open>The caches of roles and users\<close>

definition role_cached :: "policydb \<Rightarrow> role_datum \<Rightarrow> bool" where
  "role_cached p d \<longleftrightarrow> role_ok d \<and> (\<forall>i. ebitmap_get_bit (role_cache d) i \<longleftrightarrow> type_set_denotes p (role_types d) True i)"

definition user_cached :: "policydb \<Rightarrow> user_datum \<Rightarrow> bool" where
  "user_cached p d \<longleftrightarrow> user_ok d \<and> (\<forall>i. ebitmap_get_bit (user_cache d) i \<longleftrightarrow> role_set_denotes p (user_roles d) i)"

lemma type_denotes_cong:
  assumes "type_val_to_struct p' = type_val_to_struct p" "p_types p' = p_types p"
  shows "type_set_denotes p' = type_set_denotes p"
  by (intro ext) (simp add: type_set_denotes_def stands_for_def is_attribute_def type_at_def assms)

lemma types_wf_cong: "type_val_to_struct p' = type_val_to_struct p \<Longrightarrow> types_wf p' = types_wf p"
  by (simp add: types_wf_def type_at_def)

definition role_rest :: "policydb \<Rightarrow> policydb" where
  "role_rest p = p\<lparr>p_roles := symtab_zero, role_val_to_struct := []\<rparr>"

definition user_rest :: "policydb \<Rightarrow> policydb" where
  "user_rest p = p\<lparr>p_users := symtab_zero, user_val_to_struct := []\<rparr>"

lemma role_rest_frame:
  assumes "role_rest q = role_rest p" "\<And>s a b. f (s\<lparr>p_roles := a, role_val_to_struct := b\<rparr>) = f s" shows "f q = f p"
  using arg_cong [OF assms(1), of f] by (simp add: role_rest_def assms(2))

lemma user_rest_frame:
  assumes "user_rest q = user_rest p" "\<And>s a b. f (s\<lparr>p_users := a, user_val_to_struct := b\<rparr>) = f s" shows "f q = f p"
  using arg_cong [OF assms(1), of f] by (simp add: user_rest_def assms(2))

lemma yields_expand_cat: "ebitmap_wf c \<Longrightarrow> yields (expand_cat lev is c) ebitmap_wf"
proof (induction "is" arbitrary: c)
  case (Cons i "is")
  show ?case unfolding expand_cat.simps by (intro yields_intros yields_hbind [OF yields_set_bit [OF Cons.prems]] Cons.IH) simp
qed (simp add: yields_hret)

lemma yields_expand_cats: "ebitmap_wf c \<Longrightarrow> yields (expand_cats lev scs c) ebitmap_wf"
proof (induction scs arbitrary: c)
  case (Cons sc scs)
  show ?case unfolding expand_cats.simps by (intro yields_intros yields_hbind [OF yields_expand_cat [OF Cons.prems]] Cons.IH)
qed (simp add: yields_hret)

lemma yields_level_expand: "yields (mls_semantic_level_expand sl p) level_wf"
  unfolding mls_semantic_level_expand_def Let_def
  by (intro yields_intros yields_hbind [OF yields_herr [OF yields_expand_cats]]) (simp_all add: wf_defs)

lemma yields_range_expand: "yields (mls_semantic_range_expand sr p) range_wf"
  unfolding mls_semantic_range_expand_def
  by (intro yields_hbind [OF yields_level_expand] yields_intros) (simp add: wf_defs)

interpretation role_walk: cache_walk policydb_role_cache p_roles role_val_to_struct role_value "\<lambda>d. d\<lparr>role_cache := ebitmap_init\<rparr>"
    role_rest types_wf role_ok role_cached
proof unfold_locales
  fix p d k assume "types_wf p" "role_ok d"
  then have "yields (type_set_expand (role_types d) p True) (\<lambda>r. ebitmap_wf r \<and> (\<forall>i. ebitmap_get_bit r i \<longleftrightarrow> type_set_denotes p (role_types d) True i))"
    by (intro yields_type_set_expand) (simp_all add: role_ok_def)
  then show "yields (policydb_role_cache k d p) (\<lambda>p'. \<exists>d'. d'\<lparr>role_cache := ebitmap_init\<rparr> = d\<lparr>role_cache := ebitmap_init\<rparr> \<and> role_cached p d' \<and>
      role_rest p' = role_rest p \<and> p_roles p' = (p_roles p)\<lparr>table := hashtab_update (table (p_roles p)) k (\<lambda>_. d')\<rparr> \<and>
      role_val_to_struct p' = val_put (role_val_to_struct p) (role_value d) d')"
    unfolding policydb_role_cache_def
  proof (rule yields_hbind, intro yields_hret)
    fix c assume "ebitmap_wf c \<and> (\<forall>i. ebitmap_get_bit c i \<longleftrightarrow> type_set_denotes p (role_types d) True i)"
    then show "\<exists>d'. d'\<lparr>role_cache := ebitmap_init\<rparr> = d\<lparr>role_cache := ebitmap_init\<rparr> \<and> role_cached p d' \<and>
      role_rest (put_role k (d\<lparr>role_cache := c\<rparr>) p) = role_rest p \<and>
      p_roles (put_role k (d\<lparr>role_cache := c\<rparr>) p) = (p_roles p)\<lparr>table := hashtab_update (table (p_roles p)) k (\<lambda>_. d')\<rparr> \<and>
      role_val_to_struct (put_role k (d\<lparr>role_cache := c\<rparr>) p) = val_put (role_val_to_struct p) (role_value d) d'"
      using \<open>role_ok d\<close> by (intro exI [of _ "d\<lparr>role_cache := c\<rparr>"]) (simp add: put_role_def role_rest_def val_put_def role_cached_def role_ok_def)
  qed
next
  show "role_value a = role_value b" if "a\<lparr>role_cache := ebitmap_init\<rparr> = b\<lparr>role_cache := ebitmap_init\<rparr>" for a b :: role_datum
    using that by (cases a; cases b) simp
next
  fix p' p assume r: "role_rest p' = role_rest p"
  have e: "type_val_to_struct p' = type_val_to_struct p" "p_types p' = p_types p"
    by (rule role_rest_frame [OF r], simp)+
  show "types_wf p' = types_wf p" using e(1) by (rule types_wf_cong)
  show "role_cached p' d = role_cached p d" for d using type_denotes_cong [OF e] by (simp add: role_cached_def)
qed

definition user_strip :: "user_datum \<Rightarrow> user_datum" where
  "user_strip d = d\<lparr>user_cache := ebitmap_init, exp_range := c_range context_init, exp_dfltlevel := level0 (c_range context_init)\<rparr>"

text \<open>The effect of the callback for users.\<close>

definition user_put :: "cstring \<Rightarrow> user_datum \<Rightarrow> policydb \<Rightarrow> policydb \<Rightarrow> bool" where
  "user_put k d p p' \<longleftrightarrow> (\<exists>d'. user_strip d' = user_strip d \<and> user_cached p d' \<and> user_rest p' = user_rest p \<and>
     p_users p' = (p_users p)\<lparr>table := hashtab_update (table (p_users p)) k (\<lambda>_. d')\<rparr> \<and>
     user_val_to_struct p' = val_put (user_val_to_struct p) (user_value d) d')"

lemma user_put_intro:
  assumes "user_strip d' = user_strip d" "user_cached p d'"
  shows "user_put k d p (put_user k d' p)"
proof -
  have "user_value d' = user_value d" using arg_cong [OF assms(1), of user_value] by (simp add: user_strip_def)
  then show ?thesis using assms unfolding user_put_def by (intro exI [of _ d']) (simp add: put_user_def user_rest_def val_put_def)
qed

lemma yields_user_cache:
  assumes "user_ok d" shows "yields (policydb_user_cache k d p) (user_put k d p)"
proof -
  have roles: "yields (role_set_expand (user_roles d) p None) (\<lambda>r. ebitmap_wf r \<and> (\<forall>i. ebitmap_get_bit r i \<longleftrightarrow> role_set_denotes p (user_roles d) i))"
    using assms by (intro yields_role_set_expand) (simp add: user_ok_def)
  show ?thesis
    unfolding policydb_user_cache_def Let_def
    by (intro yields_hbind [OF roles] yields_intros yields_hbind [OF yields_range_expand] yields_hbind [OF yields_level_expand] user_put_intro)
      (use assms in \<open>auto simp: user_strip_def user_cached_def user_ok_def\<close>)
qed

interpretation user_walk: cache_walk policydb_user_cache p_users user_val_to_struct user_value user_strip
    user_rest "\<lambda>_. True" user_ok user_cached
proof unfold_locales
  show "yields (policydb_user_cache k d p) (\<lambda>p'. \<exists>d'. user_strip d' = user_strip d \<and> user_cached p d' \<and> user_rest p' = user_rest p \<and>
      p_users p' = (p_users p)\<lparr>table := hashtab_update (table (p_users p)) k (\<lambda>_. d')\<rparr> \<and>
      user_val_to_struct p' = val_put (user_val_to_struct p) (user_value d) d')" if "user_ok d" for p d k
    using yields_user_cache [OF that] by (simp add: user_put_def [abs_def])
  show "user_value a = user_value b" if "user_strip a = user_strip b" for a b
    using arg_cong [OF that, of user_value] by (simp add: user_strip_def)
  fix p' p assume r: "user_rest p' = user_rest p"
  have "p_roles p' = p_roles p" by (rule user_rest_frame [OF r]) simp
  then show "user_cached p' d = user_cached p d" for d by (simp add: user_cached_def role_set_denotes_def)
qed simp_all

subsection \<open>All tables\<close>

text \<open>A well-formed table whose array of data is still empty, and one that is indexed. The array of
  names of a table without primary symbols stays null.\<close>

definition names_inverse :: "(cstring, 'd) hashtab \<Rightarrow> u32 \<Rightarrow> ('d \<Rightarrow> u32) \<Rightarrow> ('d \<Rightarrow> bool) \<Rightarrow> cstring option list \<Rightarrow> bool" where
  "names_inverse t n val skip arr \<longleftrightarrow> length arr = unat n \<and>
     (\<forall>v k. val_get arr v = Some k \<longleftrightarrow> (\<exists>d. hashtab_search t k = Some d \<and> \<not> skip d \<and> val d = v))"

definition sym_ready :: "'d symtab \<Rightarrow> 'd option list \<Rightarrow> bool" where
  "sym_ready s str \<longleftrightarrow> symbols_ok s \<and> str = nulls s"

definition sym_indexed :: "('d \<Rightarrow> u32) \<Rightarrow> ('d \<Rightarrow> bool) \<Rightarrow> 'd symtab \<Rightarrow> cstring option list \<Rightarrow> 'd option list \<Rightarrow> bool" where
  "sym_indexed val skip s arr str \<longleftrightarrow>
     (if nprim s = 0 then arr = [] \<and> str = [] else indexes (table s) (nprim s) val skip arr str)"

context name_index
begin

lemma table_names:
  assumes "\<And>a. arr (set_arr a p) = a" "\<And>a. np (set_arr a p) = np p" "np p = nprim (tab p)" "symbols_ok (tab p)" "nprim (tab p) \<noteq> 0"
  shows "yields (index_table tab set_arr idx p) (\<lambda>p'. names_inverse (table (tab p)) (nprim (tab p)) val skip (arr p'))"
proof -
  obtain t where t: "table (tab p) = Some t" "table_ok symhash symcmp t" using assms(4) by (auto simp: symbols_ok_def)
  have "names_inverse (table (tab p)) (nprim (tab p)) val skip (arr p')" if "map_symbols (Some t) idx (set_arr (nulls (tab p)) p) = Inr p'" for p'
    using index_names [OF that t(2)] assms(1-3) unfolding names_inverse_def t(1) sym.search_abs [OF t(2)] by (simp add: nulls_def)
  then show ?thesis unfolding index_table_def using assms(5) by (auto simp: t(1) intro!: yields_intros yields_hskip)
qed

end

context struct_index
begin

lemma table_indexed:
  assumes "\<And>a. arr (set_arr a p) = a" "\<And>a. np (set_arr a p) = np p" "\<And>a. str (set_arr a p) = str p"
    and "np p = nprim (tab p)" "sym_ready (tab p) (str p)"
  shows "yields (index_table tab set_arr idx p) (\<lambda>p'. sym_indexed val skip (tab p) (arr p') (str p'))"
proof -
  obtain t where t: "table (tab p) = Some t" "table_ok symhash symcmp t" using assms(5) by (auto simp: sym_ready_def symbols_ok_def)
  have "indexes (table (tab p)) (nprim (tab p)) val skip (arr p') (str p')" if "map_symbols (Some t) idx (set_arr (nulls (tab p)) p) = Inr p'" for p'
    using index_inverse [OF that t(2)] assms by (simp add: nulls_def t(1) sym_ready_def)
  then show ?thesis
    unfolding index_table_def sym_indexed_def
    using assms(1,3,5) by (auto simp: t(1) sym_ready_def nulls_def intro!: yields_intros yields_hskip)
qed

end

lemma table_frame:
  assumes "\<And>a s. f (set_arr a s) = f s" "\<And>k d s s'. idx k d s = Inr s' \<Longrightarrow> f s' = f s"
  shows "yields (index_table tab set_arr idx p) (\<lambda>p'. f p' = f p)"
proof -
  have "f p' = f p" if "map_symbols t idx (set_arr a p) = Inr p'" for t a p'
    using map_symbols_keeps [OF that, of "\<lambda>s. f s = f p"] assms by simp
  then show ?thesis unfolding index_table_def by (auto intro!: yields_intros yields_hskip simp: assms(1))
qed

lemma frame_roles:
  assumes "\<And>s a. f (s\<lparr>p_role_val_to_name := a\<rparr>) = f s" "\<And>s a b. f (s\<lparr>p_role_val_to_name := a, role_val_to_struct := b\<rparr>) = f s"
  shows "yields (index_table p_roles (\<lambda>a. p_role_val_to_name_update (\<lambda>_. a)) role_index p) (\<lambda>p'. f p' = f p)"
  by (rule table_frame) (auto simp: role_index_def assms split: if_splits)

lemma frame_types:
  assumes "\<And>s a. f (s\<lparr>p_type_val_to_name := a\<rparr>) = f s" "\<And>s a b. f (s\<lparr>p_type_val_to_name := a, type_val_to_struct := b\<rparr>) = f s"
  shows "yields (index_table p_types (\<lambda>a. p_type_val_to_name_update (\<lambda>_. a)) type_index p) (\<lambda>p'. f p' = f p)"
  by (rule table_frame) (auto simp: type_index_def assms split: if_splits)

lemma frame_users:
  assumes "\<And>s a. f (s\<lparr>p_user_val_to_name := a\<rparr>) = f s" "\<And>s a b. f (s\<lparr>p_user_val_to_name := a, user_val_to_struct := b\<rparr>) = f s"
  shows "yields (index_table p_users (\<lambda>a. p_user_val_to_name_update (\<lambda>_. a)) user_index p) (\<lambda>p'. f p' = f p)"
  by (rule table_frame) (auto simp: user_index_def assms split: if_splits)

lemma frame_bools:
  assumes "\<And>s a. f (s\<lparr>p_bool_val_to_name := a\<rparr>) = f s" "\<And>s a b. f (s\<lparr>p_bool_val_to_name := a, bool_val_to_struct := b\<rparr>) = f s"
  shows "yields (index_table p_bools (\<lambda>a. p_bool_val_to_name_update (\<lambda>_. a)) cond_index_bool p) (\<lambda>p'. f p' = f p)"
  by (rule table_frame) (auto simp: cond_index_bool_def assms split: if_splits)

lemma frame_sens:
  assumes "\<And>s a. f (s\<lparr>p_sens_val_to_name := a\<rparr>) = f s"
  shows "yields (index_table p_levels (\<lambda>a. p_sens_val_to_name_update (\<lambda>_. a)) sens_index p) (\<lambda>p'. f p' = f p)"
  by (rule table_frame) (auto simp: sens_index_def assms split: if_splits)

lemma frame_cats:
  assumes "\<And>s a. f (s\<lparr>p_cat_val_to_name := a\<rparr>) = f s"
  shows "yields (index_table p_cats (\<lambda>a. p_cat_val_to_name_update (\<lambda>_. a)) cat_index p) (\<lambda>p'. f p' = f p)"
  by (rule table_frame) (auto simp: cat_index_def assms split: if_splits)

definition roles_ix :: "policydb \<Rightarrow> bool" where
  "roles_ix p \<longleftrightarrow> sym_indexed role_value (\<lambda>_. False) (p_roles p) (p_role_val_to_name p) (role_val_to_struct p)"

definition types_ix :: "policydb \<Rightarrow> bool" where
  "types_ix p \<longleftrightarrow> sym_indexed type_value (\<lambda>d. primary d = 0) (p_types p) (p_type_val_to_name p) (type_val_to_struct p)"

definition users_ix :: "policydb \<Rightarrow> bool" where
  "users_ix p \<longleftrightarrow> sym_indexed user_value (\<lambda>_. False) (p_users p) (p_user_val_to_name p) (user_val_to_struct p)"

definition bools_ix :: "policydb \<Rightarrow> bool" where
  "bools_ix p \<longleftrightarrow> sym_indexed bool_value (\<lambda>_. False) (p_bools p) (p_bool_val_to_name p) (bool_val_to_struct p)"

definition sens_ix :: "policydb \<Rightarrow> bool" where
  "sens_ix p \<longleftrightarrow> (nprim (p_levels p) \<noteq> 0 \<longrightarrow>
     names_inverse (table (p_levels p)) (nprim (p_levels p)) (\<lambda>d. sens (level d)) (\<lambda>d. lisalias d \<noteq> 0) (p_sens_val_to_name p))"

definition cats_ix :: "policydb \<Rightarrow> bool" where
  "cats_ix p \<longleftrightarrow> (nprim (p_cats p) \<noteq> 0 \<longrightarrow>
     names_inverse (table (p_cats p)) (nprim (p_cats p)) cat_value (\<lambda>d. cisalias d \<noteq> 0) (p_cat_val_to_name p))"

lemmas ix_defs = roles_ix_def types_ix_def users_ix_def bools_ix_def sens_ix_def cats_ix_def

lemma step_roles:
  assumes "sym_ready (p_roles p) (role_val_to_struct p)"
  shows "yields (index_table p_roles (\<lambda>a. p_role_val_to_name_update (\<lambda>_. a)) role_index p) roles_ix"
  by (rule yields_weaken [OF yields_conj [OF roles.table_indexed frame_roles [where f = p_roles]]])
    (use assms in \<open>auto simp: roles_ix_def\<close>)

lemma step_types:
  assumes "sym_ready (p_types p) (type_val_to_struct p)"
  shows "yields (index_table p_types (\<lambda>a. p_type_val_to_name_update (\<lambda>_. a)) type_index p) types_ix"
  by (rule yields_weaken [OF yields_conj [OF types.table_indexed frame_types [where f = p_types]]])
    (use assms in \<open>auto simp: types_ix_def\<close>)

lemma step_users:
  assumes "sym_ready (p_users p) (user_val_to_struct p)"
  shows "yields (index_table p_users (\<lambda>a. p_user_val_to_name_update (\<lambda>_. a)) user_index p) users_ix"
  by (rule yields_weaken [OF yields_conj [OF users.table_indexed frame_users [where f = p_users]]])
    (use assms in \<open>auto simp: users_ix_def\<close>)

lemma step_bools:
  assumes "sym_ready (p_bools p) (bool_val_to_struct p)"
  shows "yields (index_table p_bools (\<lambda>a. p_bool_val_to_name_update (\<lambda>_. a)) cond_index_bool p) bools_ix"
  by (rule yields_weaken [OF yields_conj [OF bools.table_indexed frame_bools [where f = p_bools]]])
    (use assms in \<open>auto simp: bools_ix_def\<close>)

lemma step_sens:
  assumes "symbols_ok (p_levels p)"
  shows "yields (index_table p_levels (\<lambda>a. p_sens_val_to_name_update (\<lambda>_. a)) sens_index p) sens_ix"
proof (cases "nprim (p_levels p) = 0")
  case True
  then show ?thesis by (auto simp: index_table_def sens_ix_def intro: yields_hret)
next
  case False
  then show ?thesis
    by (intro yields_weaken [OF yields_conj [OF sens.table_names frame_sens [where f = p_levels]]])
      (use assms in \<open>auto simp: sens_ix_def\<close>)
qed

lemma step_cats:
  assumes "symbols_ok (p_cats p)"
  shows "yields (index_table p_cats (\<lambda>a. p_cat_val_to_name_update (\<lambda>_. a)) cat_index p) cats_ix"
proof (cases "nprim (p_cats p) = 0")
  case True
  then show ?thesis by (auto simp: index_table_def cats_ix_def intro: yields_hret)
next
  case False
  then show ?thesis
    by (intro yields_weaken [OF yields_conj [OF cats.table_names frame_cats [where f = p_cats]]])
      (use assms in \<open>auto simp: cats_ix_def\<close>)
qed

subsection \<open>Indexing the policy\<close>

definition all_ready :: "policydb \<Rightarrow> bool" where
  "all_ready p \<longleftrightarrow> sym_ready (p_roles p) (role_val_to_struct p) \<and> sym_ready (p_types p) (type_val_to_struct p) \<and>
     sym_ready (p_users p) (user_val_to_struct p) \<and> sym_ready (p_bools p) (bool_val_to_struct p) \<and>
     symbols_ok (p_levels p) \<and> symbols_ok (p_cats p)"

definition all_ix :: "policydb \<Rightarrow> bool" where
  "all_ix p \<longleftrightarrow> roles_ix p \<and> types_ix p \<and> users_ix p \<and> bools_ix p \<and> sens_ix p \<and> cats_ix p"

text \<open>What is indexed stays indexed, and what is ready stays ready, while the next table is indexed.\<close>

lemma index_tables_ix:
  assumes "all_ready p" shows "yields (index_tables p) all_ix"
proof -
  note r = assms [unfolded all_ready_def]
  have s1: "yields (index_table p_roles (\<lambda>a. p_role_val_to_name_update (\<lambda>_. a)) role_index p) (\<lambda>q. roles_ix q \<and>
      sym_ready (p_types q) (type_val_to_struct q) \<and> sym_ready (p_users q) (user_val_to_struct q) \<and> sym_ready (p_bools q) (bool_val_to_struct q) \<and>
      symbols_ok (p_levels q) \<and> symbols_ok (p_cats q))"
    by (rule yields_weaken [OF yields_conj [OF step_roles frame_roles [where f = "\<lambda>q. (p_types q, type_val_to_struct q, p_users q, user_val_to_struct q,
          p_bools q, bool_val_to_struct q, p_levels q, p_cats q)"]]]) (use r in auto)
  have s2: "yields (index_table p_types (\<lambda>a. p_type_val_to_name_update (\<lambda>_. a)) type_index q) (\<lambda>q. roles_ix q \<and> types_ix q \<and>
      sym_ready (p_users q) (user_val_to_struct q) \<and> sym_ready (p_bools q) (bool_val_to_struct q) \<and> symbols_ok (p_levels q) \<and> symbols_ok (p_cats q))"
    if "roles_ix q \<and> sym_ready (p_types q) (type_val_to_struct q) \<and> sym_ready (p_users q) (user_val_to_struct q) \<and>
      sym_ready (p_bools q) (bool_val_to_struct q) \<and> symbols_ok (p_levels q) \<and> symbols_ok (p_cats q)" for q
    by (rule yields_weaken [OF yields_conj [OF step_types frame_types [where f = "\<lambda>q. (roles_ix q, p_users q, user_val_to_struct q,
          p_bools q, bool_val_to_struct q, p_levels q, p_cats q)"]]]) (use that in \<open>auto simp: roles_ix_def\<close>)
  have s3: "yields (index_table p_users (\<lambda>a. p_user_val_to_name_update (\<lambda>_. a)) user_index q) (\<lambda>q. roles_ix q \<and> types_ix q \<and> users_ix q \<and>
      sym_ready (p_bools q) (bool_val_to_struct q) \<and> symbols_ok (p_levels q) \<and> symbols_ok (p_cats q))"
    if "roles_ix q \<and> types_ix q \<and> sym_ready (p_users q) (user_val_to_struct q) \<and>
      sym_ready (p_bools q) (bool_val_to_struct q) \<and> symbols_ok (p_levels q) \<and> symbols_ok (p_cats q)" for q
    by (rule yields_weaken [OF yields_conj [OF step_users frame_users [where f = "\<lambda>q. (roles_ix q, types_ix q,
          p_bools q, bool_val_to_struct q, p_levels q, p_cats q)"]]]) (use that in \<open>auto simp: ix_defs\<close>)
  have s4: "yields (index_table p_bools (\<lambda>a. p_bool_val_to_name_update (\<lambda>_. a)) cond_index_bool q) (\<lambda>q. roles_ix q \<and> types_ix q \<and> users_ix q \<and>
      bools_ix q \<and> symbols_ok (p_levels q) \<and> symbols_ok (p_cats q))"
    if "roles_ix q \<and> types_ix q \<and> users_ix q \<and> sym_ready (p_bools q) (bool_val_to_struct q) \<and> symbols_ok (p_levels q) \<and> symbols_ok (p_cats q)" for q
    by (rule yields_weaken [OF yields_conj [OF step_bools frame_bools [where f = "\<lambda>q. (roles_ix q, types_ix q, users_ix q, p_levels q, p_cats q)"]]])
      (use that in \<open>auto simp: ix_defs\<close>)
  have s5: "yields (index_table p_levels (\<lambda>a. p_sens_val_to_name_update (\<lambda>_. a)) sens_index q) (\<lambda>q. roles_ix q \<and> types_ix q \<and> users_ix q \<and>
      bools_ix q \<and> sens_ix q \<and> symbols_ok (p_cats q))"
    if "roles_ix q \<and> types_ix q \<and> users_ix q \<and> bools_ix q \<and> symbols_ok (p_levels q) \<and> symbols_ok (p_cats q)" for q
    by (rule yields_weaken [OF yields_conj [OF step_sens frame_sens [where f = "\<lambda>q. (roles_ix q, types_ix q, users_ix q, bools_ix q, p_cats q)"]]])
      (use that in \<open>auto simp: ix_defs\<close>)
  have s6: "yields (index_table p_cats (\<lambda>a. p_cat_val_to_name_update (\<lambda>_. a)) cat_index q) all_ix"
    if "roles_ix q \<and> types_ix q \<and> users_ix q \<and> bools_ix q \<and> sens_ix q \<and> symbols_ok (p_cats q)" for q
    by (rule yields_weaken [OF yields_conj [OF step_cats frame_cats [where f = "\<lambda>q. (roles_ix q, types_ix q, users_ix q, bools_ix q, sens_ix q)"]]])
      (use that in \<open>auto simp: ix_defs all_ix_def\<close>)
  show ?thesis
    unfolding index_tables_def
    by (rule yields_hbind [OF s1], rule yields_hbind [OF s2], assumption, rule yields_hbind [OF s3], assumption,
        rule yields_hbind [OF s4], assumption, rule yields_hbind [OF s5], assumption, rule s6)
qed

text \<open>The fields that indexing does not touch.\<close>

definition index_frame :: "(policydb \<Rightarrow> 'a) \<Rightarrow> bool" where
  "index_frame f \<longleftrightarrow>
     (\<forall>s a. f (s\<lparr>p_role_val_to_name := a\<rparr>) = f s) \<and> (\<forall>s a. f (s\<lparr>role_val_to_struct := a\<rparr>) = f s) \<and>
     (\<forall>s a. f (s\<lparr>p_type_val_to_name := a\<rparr>) = f s) \<and> (\<forall>s a. f (s\<lparr>type_val_to_struct := a\<rparr>) = f s) \<and>
     (\<forall>s a. f (s\<lparr>p_user_val_to_name := a\<rparr>) = f s) \<and> (\<forall>s a. f (s\<lparr>user_val_to_struct := a\<rparr>) = f s) \<and>
     (\<forall>s a. f (s\<lparr>p_bool_val_to_name := a\<rparr>) = f s) \<and> (\<forall>s a. f (s\<lparr>bool_val_to_struct := a\<rparr>) = f s) \<and>
     (\<forall>s a. f (s\<lparr>p_sens_val_to_name := a\<rparr>) = f s) \<and> (\<forall>s a. f (s\<lparr>p_cat_val_to_name := a\<rparr>) = f s)"

lemma index_tables_frame:
  assumes "index_frame f" shows "yields (index_tables p) (\<lambda>p'. f p' = f p)"
proof -
  note a = assms [unfolded index_frame_def]
  have "yields (index_tables p) (\<lambda>p'. f p' = c)" if "f p = c" for p c
    unfolding index_tables_def
    by (rule yields_hbind [OF frame_roles [where f = f]], use a in simp, use a in simp,
        rule yields_hbind [OF frame_types [where f = f]], use a in simp, use a in simp,
        rule yields_hbind [OF frame_users [where f = f]], use a in simp, use a in simp,
        rule yields_hbind [OF frame_bools [where f = f]], use a in simp, use a in simp,
        rule yields_hbind [OF frame_sens [where f = f]], use a in simp,
        rule yields_weaken [OF frame_cats [where f = f]], use a that in simp_all)
  then show ?thesis by blast
qed

lemma idx_val_get: "idx_get a j = val_get a (j + 1)"
  by (simp add: idx_get_def val_get_def)

lemma types_ix_wf:
  assumes "types_ix p" "tab_all type_ok (table (p_types p))" shows "types_wf p"
  unfolding types_wf_def
proof (intro allI impI)
  fix j t assume t: "type_at p j = Some t"
  have "nprim (p_types p) \<noteq> 0" using assms(1) t by (auto simp: types_ix_def sym_indexed_def type_at_def idx_get_def split: if_splits)
  then have "\<exists>k. hashtab_search (table (p_types p)) k = Some t"
    using assms(1) t unfolding types_ix_def sym_indexed_def indexes_def type_at_def idx_val_get by auto
  then show "type_ok t" using tab_all_search [OF assms(2)] by blast
qed

lemma indexed_after:
  assumes "sym_indexed val (\<lambda>_. False) s arr str" "nprim s' = nprim s" "length str' = length str"
    and "\<And>n a. indexes (table s) n val (\<lambda>_. False) a str \<Longrightarrow> indexes (table s') n val (\<lambda>_. False) a str'"
  shows "sym_indexed val (\<lambda>_. False) s' arr str'"
  using assms unfolding sym_indexed_def by (auto split: if_splits)

text \<open>The state after indexing: the arrays are the inverses of the tables, and the caches hold the
  expanded sets.\<close>

definition indexed_policy :: "policydb \<Rightarrow> bool" where
  "indexed_policy p \<longleftrightarrow> all_ix p \<and> tables_wf p \<and>
     tab_all (role_cached p) (table (p_roles p)) \<and> tab_all (user_cached p) (table (p_users p))"

lemma role_cache_walk:
  assumes "all_ix p" "tables_wf p"
  shows "yields (map_symbols_hp (table (p_roles p)) policydb_role_cache p) (\<lambda>q. all_ix q \<and> tables_wf q \<and>
    tab_all (role_cached q) (table (p_roles q)) \<and> role_rest q = role_rest p \<and> nprim (p_roles q) = nprim (p_roles p))"
proof -
  obtain t0 where t0: "table (p_roles p) = Some t0" "table_ok symhash symcmp t0" "\<And>k d. hashtab_abs t0 k = Some d \<Longrightarrow> role_ok d"
    using assms(2) by (auto simp: tables_wf_def tab_all_def)
  have wf: "types_wf p" using assms by (intro types_ix_wf) (auto simp: all_ix_def tables_wf_def)
  show ?thesis
  proof (rule yields_weaken [OF role_walk.walk_table [OF wf t0]])
    fix q assume w: "role_walk.walked p t0 [] q"
    then have r: "role_rest q = role_rest p" "nprim (p_roles q) = nprim (p_roles p)" "length (role_val_to_struct q) = length (role_val_to_struct p)"
      by (auto simp: role_walk.walked_def)
    obtain t where t: "table (p_roles q) = Some t" "table_ok symhash symcmp t" "\<And>k d. hashtab_abs t k = Some d \<Longrightarrow> role_cached p d"
        "\<And>n a. indexes (Some t0) n role_value (\<lambda>_. False) a (role_val_to_struct p) \<Longrightarrow> indexes (Some t) n role_value (\<lambda>_. False) a (role_val_to_struct q)"
      using w unfolding role_walk.walked_def by auto
    have c: "tab_all (role_cached q) (table (p_roles q))"
      using t role_walk.good_rest [OF r(1,2)] by (auto simp: tab_all_def)
    have "p_role_val_to_name q = p_role_val_to_name p" by (rule role_rest_frame [OF r(1)]) simp
    then have "roles_ix q"
      using assms(1) indexed_after [OF _ r(2,3), of role_value "p_role_val_to_name p"] t(4) by (simp add: all_ix_def roles_ix_def t0(1) t(1))
    moreover have "(types_ix q, users_ix q, bools_ix q, sens_ix q, cats_ix q) = (types_ix p, users_ix p, bools_ix p, sens_ix p, cats_ix p)"
      by (rule role_rest_frame [OF r(1)]) (simp add: ix_defs)
    moreover have "tables_wf q"
    proof -
      have "tables_wf (q\<lparr>p_roles := p_roles p\<rparr>) = tables_wf (p\<lparr>p_roles := p_roles p\<rparr>)"
        by (rule role_rest_frame [OF r(1), of "\<lambda>s. tables_wf (s\<lparr>p_roles := p_roles p\<rparr>)"]) (simp add: tables_wf_def)
      then show ?thesis using assms(2) tab_all_weaken [OF c] by (auto simp: tables_wf_def role_cached_def)
    qed
    ultimately show "all_ix q \<and> tables_wf q \<and> tab_all (role_cached q) (table (p_roles q)) \<and> role_rest q = role_rest p \<and> nprim (p_roles q) = nprim (p_roles p)"
      using assms(1) c r by (simp add: all_ix_def)
  qed
qed

lemma user_cache_walk:
  assumes "all_ix p" "tables_wf p" "tab_all (role_cached p) (table (p_roles p))"
  shows "yields (map_symbols_hp (table (p_users p)) policydb_user_cache p) (\<lambda>q. indexed_policy q \<and>
    user_rest q = user_rest p \<and> nprim (p_users q) = nprim (p_users p))"
proof -
  obtain t0 where t0: "table (p_users p) = Some t0" "table_ok symhash symcmp t0" "\<And>k d. hashtab_abs t0 k = Some d \<Longrightarrow> user_ok d"
    using assms(2) by (auto simp: tables_wf_def tab_all_def)
  show ?thesis
  proof (rule yields_weaken [OF user_walk.walk_table [OF TrueI t0]])
    fix q assume w: "user_walk.walked p t0 [] q"
    then have r: "user_rest q = user_rest p" "nprim (p_users q) = nprim (p_users p)" "length (user_val_to_struct q) = length (user_val_to_struct p)"
      by (auto simp: user_walk.walked_def)
    obtain t where t: "table (p_users q) = Some t" "table_ok symhash symcmp t" "\<And>k d. hashtab_abs t k = Some d \<Longrightarrow> user_cached p d"
        "\<And>n a. indexes (Some t0) n user_value (\<lambda>_. False) a (user_val_to_struct p) \<Longrightarrow> indexes (Some t) n user_value (\<lambda>_. False) a (user_val_to_struct q)"
      using w unfolding user_walk.walked_def by auto
    have c: "tab_all (user_cached q) (table (p_users q))"
      using t user_walk.good_rest [OF r(1,2)] by (auto simp: tab_all_def)
    have "p_user_val_to_name q = p_user_val_to_name p" by (rule user_rest_frame [OF r(1)]) simp
    then have "users_ix q"
      using assms(1) indexed_after [OF _ r(2,3), of user_value "p_user_val_to_name p"] t(4) by (simp add: all_ix_def users_ix_def t0(1) t(1))
    moreover have "(roles_ix q, types_ix q, bools_ix q, sens_ix q, cats_ix q, tab_all (role_cached q) (table (p_roles q))) =
        (roles_ix p, types_ix p, bools_ix p, sens_ix p, cats_ix p, tab_all (role_cached p) (table (p_roles p)))"
      by (rule user_rest_frame [OF r(1)]) (simp add: ix_defs role_cached_def type_set_denotes_def stands_for_def is_attribute_def type_at_def)
    moreover have "tables_wf q"
    proof -
      have "tables_wf (q\<lparr>p_users := p_users p\<rparr>) = tables_wf (p\<lparr>p_users := p_users p\<rparr>)"
        by (rule user_rest_frame [OF r(1), of "\<lambda>s. tables_wf (s\<lparr>p_users := p_users p\<rparr>)"]) (simp add: tables_wf_def)
      then show ?thesis using assms(2) tab_all_weaken [OF c] by (auto simp: tables_wf_def user_cached_def)
    qed
    ultimately show "indexed_policy q \<and> user_rest q = user_rest p \<and> nprim (p_users q) = nprim (p_users p)"
      using assms c r by (simp add: all_ix_def indexed_policy_def)
  qed
qed

text \<open>The policy with the empty arrays of data, as \<open>policydb_index_others\<close> starts from.\<close>

definition clear_structs :: "policydb \<Rightarrow> policydb" where
  "clear_structs p = p\<lparr>role_val_to_struct := nulls (p_roles p), user_val_to_struct := nulls (p_users p), type_val_to_struct := nulls (p_types p),
     bool_val_to_struct := nulls (p_bools p)\<rparr>"

lemma index_others_unfold:
  "policydb_index_others p =
     hbind (hmalloc EFAIL) (\<lambda>_. hbind (hmalloc EFAIL) (\<lambda>_. hbind (hmalloc EFAIL) (\<lambda>_. hbind (hbind (hmalloc EFAIL) (\<lambda>_. hret (clear_structs p))) (\<lambda>p.
     hbind (index_tables p) (\<lambda>p.
     hbind (map_symbols_hp (table (p_roles p)) policydb_role_cache p) (\<lambda>p.
     map_symbols_hp (table (p_users p)) policydb_user_cache p))))))"
  by (simp add: policydb_index_others_def cond_init_bool_indexes_def clear_structs_def nulls_def)

lemma yields_clear: "P (clear_structs p) \<Longrightarrow> yields (hbind (hmalloc EFAIL) (\<lambda>_. hret (clear_structs p))) P"
  by (intro yields_hskip yields_hret)

lemma index_others_ix:
  assumes "tables_wf p" shows "yields (policydb_index_others p) indexed_policy"
proof -
  have r: "all_ready (clear_structs p)" "tables_wf (clear_structs p)"
    using assms by (auto simp: all_ready_def clear_structs_def sym_ready_def nulls_def tables_wf_def intro: tab_all_symbols)
  have "index_frame tables_wf" by (simp add: index_frame_def tables_wf_def)
  note ix = yields_conj [OF index_tables_ix [OF r(1)] index_tables_frame [OF this, of "clear_structs p"]]
  have "yields (policydb_index_others p) (\<lambda>q. indexed_policy q \<and> True)"
    unfolding index_others_unfold
    by (rule yields_hskip, rule yields_hskip, rule yields_hskip, rule yields_hbind [OF yields_clear [where P = "\<lambda>q. q = clear_structs p"]], rule refl,
        rule yields_hbind, simp only:, rule ix, rule yields_hbind [OF role_cache_walk], simp, use r(2) in simp,
        rule yields_weaken [OF user_cache_walk], simp_all)
  then show ?thesis by simp
qed

lemma index_others_frame:
  assumes "index_frame f" "\<And>s a. f (s\<lparr>p_roles := a\<rparr>) = f s" "\<And>s a. f (s\<lparr>p_users := a\<rparr>) = f s" "tables_wf p"
  shows "yields (policydb_index_others p) (\<lambda>q. f q = f p \<and> nprim (p_roles q) = nprim (p_roles p) \<and> nprim (p_users q) = nprim (p_users p))"
proof -
  have r: "all_ready (clear_structs p)" "tables_wf (clear_structs p)"
    using assms(4) by (auto simp: all_ready_def clear_structs_def sym_ready_def nulls_def tables_wf_def intro: tab_all_symbols)
  have c: "f (clear_structs p) = f p" using assms(1) by (simp add: clear_structs_def index_frame_def)
  define K where "K = (\<lambda>q. f q = f p \<and> nprim (p_roles q) = nprim (p_roles p) \<and> nprim (p_users q) = nprim (p_users p))"
  have kr: "K q" if "K s" "role_rest q = role_rest s" "nprim (p_roles q) = nprim (p_roles s)" for q s
  proof -
    have "(f q, p_users q) = (f s, p_users s)"
      by (rule role_rest_frame [OF that(2)]) (use assms(1,2) in \<open>simp add: index_frame_def\<close>)
    then show ?thesis using that(1,3) by (simp add: K_def)
  qed
  have ku: "K q" if "K s" "user_rest q = user_rest s" "nprim (p_users q) = nprim (p_users s)" for q s
  proof -
    have "(f q, p_roles q) = (f s, p_roles s)"
      by (rule user_rest_frame [OF that(2)]) (use assms(1,3) in \<open>simp add: index_frame_def\<close>)
    then show ?thesis using that(1,3) by (simp add: K_def)
  qed
  have "index_frame (\<lambda>s. (f s, tables_wf s, p_roles s, p_users s))" using assms(1) by (simp add: index_frame_def tables_wf_def)
  note ix = yields_conj [OF index_tables_ix [OF r(1)] index_tables_frame [OF this, of "clear_structs p"]]
  have s1: "yields (index_tables (clear_structs p)) (\<lambda>q. all_ix q \<and> tables_wf q \<and> K q)"
    by (rule yields_weaken [OF ix]) (use r(2) c in \<open>simp add: K_def clear_structs_def\<close>)
  have s2: "yields (map_symbols_hp (table (p_roles q)) policydb_role_cache q) (\<lambda>q'. all_ix q' \<and> tables_wf q' \<and> tab_all (role_cached q') (table (p_roles q')) \<and> K q')"
    if "all_ix q \<and> tables_wf q \<and> K q" for q
    by (rule yields_weaken [OF role_cache_walk [of q]]) (use that kr in blast)+
  have s3: "yields (map_symbols_hp (table (p_users q)) policydb_user_cache q) K"
    if "all_ix q \<and> tables_wf q \<and> tab_all (role_cached q) (table (p_roles q)) \<and> K q" for q
    by (rule yields_weaken [OF user_cache_walk [of q]]) (use that ku in blast)+
  have "yields (policydb_index_others p) K"
    unfolding index_others_unfold
    by (rule yields_hskip, rule yields_hskip, rule yields_hskip, rule yields_hbind [OF yields_clear [where P = "\<lambda>q. q = clear_structs p"]], rule refl,
        rule yields_hbind, simp only:, rule s1, rule yields_hbind [OF s2], assumption, rule s3)
  then show ?thesis by (simp add: K_def)
qed

end
