(* ===== verification/Stage_Laws.thy ===== *)
theory Stage_Laws
  imports Index_Laws
begin

section \<open>The stages of the reader\<close>

text \<open>
  What the stages of policydb_read after the symbol tables change and establish: valid object
  contexts, ordered entries of generated file systems, maps between types and attributes that are
  inverse to each other, and well-formed rule tables.
\<close>

subsection \<open>Object contexts\<close>

text \<open>The contexts of entry \<open>c\<close> in list \<open>i\<close>: the second one is in use for file systems and network interfaces.\<close>

definition ocon_ok :: "policydb \<Rightarrow> nat \<Rightarrow> ocontext \<Rightarrow> bool" where
  "ocon_ok p i c \<longleftrightarrow> policydb_context_isvalid p (oc_context0 c) \<and>
     (target_platform p = SEPOL_TARGET_SELINUX \<and> (i = OCON_FS \<or> i = OCON_NETIF) \<longrightarrow> policydb_context_isvalid p (oc_context1 c))"

definition ocons_ok :: "policydb \<Rightarrow> ocontext list list \<Rightarrow> bool" where
  "ocons_ok p ls \<longleftrightarrow> (\<forall>i<length ls. \<forall>c\<in>set (ls ! i). ocon_ok p i c)"

lemma valid_frame:
  "policydb_context_isvalid (p\<lparr>ocontexts := a\<rparr>) = policydb_context_isvalid p"
  "policydb_context_isvalid (p\<lparr>genfs_list := b\<rparr>) = policydb_context_isvalid p"
  "policydb_context_isvalid (p\<lparr>range_tr := c\<rparr>) = policydb_context_isvalid p"
  "policydb_context_isvalid (p\<lparr>global := d\<rparr>) = policydb_context_isvalid p"
  "policydb_context_isvalid (p\<lparr>type_attr_map := e, attr_type_map := f\<rparr>) = policydb_context_isvalid p"
  by (simp_all add: fun_eq_iff policydb_context_isvalid_def context_is_valid_def mls_context_isvalid_def level_isvalid_def cong: option.case_cong)

lemma yields_read_context: "yields (context_read_and_validate p) (policydb_context_isvalid p)"
  unfolding context_read_and_validate_def by (intro yields_steps) simp

lemma yields_context0:
  "yields (with_context0 p c) (\<lambda>d. policydb_context_isvalid p (oc_context0 d) \<and> oc_sid0 d = oc_sid0 c)"
  unfolding with_context0_def by (rule yields_rbind [OF yields_read_context]) (simp add: yields_rret)

lemma yields_context0_ok:
  "\<not> (target_platform p = SEPOL_TARGET_SELINUX \<and> (i = OCON_FS \<or> i = OCON_NETIF)) \<Longrightarrow> yields (with_context0 p c) (ocon_ok p i)"
  by (rule yields_weaken [OF yields_context0]) (auto simp: ocon_ok_def)

lemma yields_selinux_entry: "yields (ocontext_selinux_entry p i) (ocon_ok p i)"
proof -
  have n: "yields (read_named p) (ocon_ok p i)" for i
    unfolding read_named_def
    by (intro yields_intros yields_rskip yields_rbind [OF yields_context0] yields_rbind [OF yields_read_context])
      (simp add: yields_rret ocon_ok_def)
  show ?thesis
    unfolding ocontext_selinux_entry_def read_isid_def read_ibpkey_def read_ibendport_def read_fsuse_def
    by (intro n yields_context0_ok yields_steps) (auto simp: OCON_ISID_def OCON_FS_def OCON_NETIF_def)
qed

lemma yields_xen_entry: "target_platform p = SEPOL_TARGET_XEN \<Longrightarrow> yields (ocontext_xen_entry p i) (ocon_ok p i)"
  unfolding ocontext_xen_entry_def read_isid_def
  by (intro yields_context0_ok yields_steps) auto

lemma ocons_frame: "ocons_ok (p\<lparr>ocontexts := a\<rparr>) = ocons_ok p"
  by (simp add: fun_eq_iff ocons_ok_def ocon_ok_def valid_frame)

lemma ocons_put: "\<lbrakk>ocons_ok p ls; list_all (ocon_ok p i) l\<rbrakk> \<Longrightarrow> ocons_ok p (ls[i := l])"
  unfolding ocons_ok_def list_all_iff by (metis length_list_update nth_list_update_eq nth_list_update_neq)

lemma yields_ocontext_lists:
  assumes "\<And>p i. R p \<Longrightarrow> yields (entry p i) (ocon_ok p i)" "\<And>p a. R (p\<lparr>ocontexts := a\<rparr>) = R p"
  shows "\<lbrakk>R p; ocons_ok p (ocontexts p)\<rbrakk> \<Longrightarrow>
    yields (ocontext_lists entry n i p) (\<lambda>q. \<exists>a. q = p\<lparr>ocontexts := a\<rparr> \<and> ocons_ok p a \<and> length a = length (ocontexts p))"
proof (induction n arbitrary: i p)
  case 0
  then show ?case by (auto intro!: yields_rret exI [of _ "ocontexts p"])
next
  case (Suc n)
  let ?put = "\<lambda>l. if l = [] then p else p\<lparr>ocontexts := (ocontexts p)[i := l]\<rparr>"
  have c: "yields (rbind (rmalloc EFAIL) (\<lambda>_. entry p i)) (ocon_ok p i)" by (rule yields_rskip) (rule assms(1) [OF Suc.prems(1)])
  have "yields (ocontext_lists entry n (i + 1) (?put l)) (\<lambda>q. \<exists>a. q = p\<lparr>ocontexts := a\<rparr> \<and> ocons_ok p a \<and> length a = length (ocontexts p))"
    if "list_all (ocon_ok p i) l" for l
  proof -
    have "R (?put l)" "ocons_ok (?put l) (ocontexts (?put l))"
      using Suc.prems that assms(2) ocons_put by (simp_all add: ocons_frame)
    from Suc.IH [OF this] show ?thesis
      by (rule yields_weaken) (auto simp: ocons_frame split: if_splits)
  qed
  then show ?case unfolding ocontext_lists.simps by (rule yields_rskip [OF yields_rbind [OF yields_rlist [OF c]]])
qed

lemma yields_ocontext_read:
  assumes "ocons_ok p (ocontexts p)"
  shows "yields (ocontext_read n p) (\<lambda>q. \<exists>a. q = p\<lparr>ocontexts := a\<rparr> \<and> ocons_ok p a \<and> length a = length (ocontexts p))"
  unfolding ocontext_read_def ocontext_read_selinux_def ocontext_read_xen_def
  by (intro yields_intros yields_ocontext_lists [where R = "\<lambda>_. True"]
      yields_ocontext_lists [where R = "\<lambda>p. target_platform p = SEPOL_TARGET_XEN"])
    (use assms yields_selinux_entry yields_xen_entry in auto)

subsection \<open>Generated file systems\<close>

text \<open>The file system types are in increasing order. The paths of each are in decreasing order of
  length, no two of them are for the same files, and their contexts are valid and have no
  identifier yet.\<close>

definition head_clash :: "ocontext \<Rightarrow> ocontext \<Rightarrow> bool" where
  "head_clash c d \<longleftrightarrow> oc_name c = oc_name d \<and> (oc_v c = 0 \<or> oc_v d = 0 \<or> oc_v c = oc_v d)"

definition heads_ok :: "policydb \<Rightarrow> ocontext list \<Rightarrow> bool" where
  "heads_ok p cs \<longleftrightarrow> sorted_wrt (\<lambda>c d. length (oc_name c) \<ge> length (oc_name d) \<and> \<not> head_clash c d) cs \<and>
     (\<forall>c\<in>set cs. policydb_context_isvalid p (oc_context0 c) \<and> oc_sid0 c = 0)"

definition genfs_ok :: "policydb \<Rightarrow> genfs list \<Rightarrow> bool" where
  "genfs_ok p gs \<longleftrightarrow> sorted_wrt (\<lambda>g h. strcmp (genfs_fstype g) (genfs_fstype h) < 0) gs \<and>
     (\<forall>g\<in>set gs. heads_ok p (genfs_head g))"

lemma head_place:
  "genfs_head_place newc cs = Some (bef, aft) \<Longrightarrow> cs = bef @ aft \<and>
     (\<forall>c\<in>set bef. length (oc_name newc) \<le> length (oc_name c) \<and> \<not> head_clash newc c) \<and>
     (case aft of [] \<Rightarrow> True | c # _ \<Rightarrow> length (oc_name c) < length (oc_name newc))"
  by (induction cs arbitrary: bef) (auto simp: strcmp_eq head_clash_def split: if_splits)

lemma head_clash_sym: "head_clash c d = head_clash d c"
  by (auto simp: head_clash_def)

lemma heads_insert:
  assumes "genfs_head_place newc cs = Some (bef, aft)" "heads_ok p cs" "policydb_context_isvalid p (oc_context0 newc) \<and> oc_sid0 newc = 0"
  shows "heads_ok p (bef @ newc # aft)"
proof -
  note pl = head_place [OF assms(1)]
  have s: "sorted_wrt (\<lambda>c d. length (oc_name c) \<ge> length (oc_name d) \<and> \<not> head_clash c d) (bef @ aft)"
    using assms(2) pl by (simp add: heads_ok_def)
  have "length (oc_name c) < length (oc_name newc)" if "c \<in> set aft" for c
    using that s pl by (cases aft) (fastforce simp: sorted_wrt_append)+
  moreover from this have "\<not> head_clash newc c" if "c \<in> set aft" for c
    using that by (fastforce simp: head_clash_def)
  ultimately show ?thesis
    using s pl assms(2,3) head_clash_sym by (auto simp: heads_ok_def sorted_wrt_append less_imp_le)
qed

lemma strcmp_total: "\<lbrakk>a \<noteq> b; \<not> strcmp a b < 0\<rbrakk> \<Longrightarrow> strcmp b a < 0"
  using strcmp_eq [of a b] strcmp_anti [of a b] by linarith

lemma genfs_place_ok:
  "genfs_place fstype gs = Some (bef, aft) \<Longrightarrow> gs = bef @ aft \<and>
     (\<forall>g\<in>set bef. strcmp (genfs_fstype g) fstype < 0) \<and>
     (case aft of [] \<Rightarrow> True | g # _ \<Rightarrow> strcmp fstype (genfs_fstype g) < 0)"
  by (induction gs arbitrary: bef) (auto simp: strcmp_eq strcmp_total split: if_splits)

lemma genfs_insert:
  assumes "genfs_place fstype gs = Some (bef, aft)" "genfs_ok p gs" "heads_ok p hds"
  shows "genfs_ok p (bef @ \<lparr>genfs_fstype = fstype, genfs_head = hds\<rparr> # aft)"
proof -
  note pl = genfs_place_ok [OF assms(1)]
  have s: "sorted_wrt (\<lambda>g h. strcmp (genfs_fstype g) (genfs_fstype h) < 0) (bef @ aft)"
    using assms(2) pl by (simp add: genfs_ok_def)
  have "strcmp fstype (genfs_fstype g) < 0" if "g \<in> set aft" for g
    using that s pl by (cases aft) (auto simp: sorted_wrt_append dest: strcmp_trans)
  then show ?thesis using s pl assms(2,3) by (auto simp: genfs_ok_def sorted_wrt_append)
qed

lemma yields_genfs_heads:
  "yields (rtimes n (genfs_add_entry p) []) (heads_ok p)"
proof (rule yields_rtimes)
  show "heads_ok p []" by (simp add: heads_ok_def)
  have e: "yields (genfs_entry p) (\<lambda>c. policydb_context_isvalid p (oc_context0 c) \<and> oc_sid0 c = 0)"
    unfolding genfs_entry_def by (intro yields_intros yields_rskip yields_weaken [OF yields_context0]) (simp add: ocontext_zero_def)
  show "yields (genfs_add_entry p hds) (heads_ok p)" if "heads_ok p hds" for hds
    unfolding genfs_add_entry_def
    by (rule yields_rbind [OF e]) (intro yields_intros yields_option yields_prod; auto intro: heads_insert that)
qed

lemma yields_genfs_one:
  assumes "genfs_ok p (genfs_list p)"
  shows "yields (genfs_one p) (\<lambda>q. \<exists>a. q = p\<lparr>genfs_list := a\<rparr> \<and> genfs_ok p a)"
  unfolding genfs_one_def
  by (intro yields_rbind [OF yields_genfs_heads] yields_steps) (auto intro!: genfs_insert assms)

lemma yields_genfs_read:
  assumes "genfs_ok p (genfs_list p)"
  shows "yields (genfs_read p) (\<lambda>q. \<exists>a. q = p\<lparr>genfs_list := a\<rparr> \<and> genfs_ok p a)"
  unfolding genfs_read_def
proof (intro yields_rerr yields_rskip yields_rtimes)
  show "\<exists>a. p = p\<lparr>genfs_list := a\<rparr> \<and> genfs_ok p a" using assms by (intro exI [of _ "genfs_list p"]) simp
next
  fix q assume "\<exists>a. q = p\<lparr>genfs_list := a\<rparr> \<and> genfs_ok p a"
  then obtain a where q: "q = p\<lparr>genfs_list := a\<rparr>" "genfs_ok p a" by blast
  have g: "genfs_ok q = genfs_ok p" by (simp add: q(1) fun_eq_iff genfs_ok_def heads_ok_def valid_frame)
  show "yields (genfs_one q) (\<lambda>q. \<exists>a. q = p\<lparr>genfs_list := a\<rparr> \<and> genfs_ok p a)"
    by (rule yields_weaken [OF yields_genfs_one]) (use q g in auto)
qed

subsection \<open>Range transitions\<close>

lemma yields_range_read:
  "yields (range_read p) (\<lambda>q. \<exists>t g. q = p\<lparr>range_tr := t, global := g\<rparr>)"
proof -
  define K where "K q \<longleftrightarrow> q\<lparr>range_tr := range_tr p, global := global p\<rparr> = p" for q
  have one: "yields (range_one ps) (\<lambda>qs. K (fst qs))" if "K (fst ps)" for ps
    unfolding range_one_def
    by (intro yields_steps)
      (use that in \<open>auto simp: K_def set_global_ranges_def split: sum.splits list.splits option.splits intro!: yields_intros\<close>)
  have "yields (range_read p) K"
    unfolding range_read_def
    by (rule yields_rskip, rule yields_rbind [OF yields_rtimes [where P = "\<lambda>ps. K (fst ps)"]])
      (simp add: K_def, rule one, assumption, auto intro!: yields_rret)
  then show ?thesis
  proof (rule yields_weaken)
    fix q assume "K q"
    have "q = (q\<lparr>range_tr := range_tr p, global := global p\<rparr>)\<lparr>range_tr := range_tr q, global := global q\<rparr>" by simp
    also have "\<dots> = p\<lparr>range_tr := range_tr q, global := global q\<rparr>" using \<open>K q\<close> by (simp only: K_def)
    finally show "\<exists>t g. q = p\<lparr>range_tr := t, global := g\<rparr>" by blast
  qed
qed

subsection \<open>Types and attributes\<close>

definition maps_wf :: "u32 \<Rightarrow> ebitmap list \<Rightarrow> bool" where
  "maps_wf n ms \<longleftrightarrow> length ms = unat n \<and> (\<forall>m\<in>set ms. ebitmap_wf m)"

lemma maps_wf_put: "\<lbrakk>maps_wf n ms; ebitmap_wf m\<rbrakk> \<Longrightarrow> maps_wf n (ms[i := m])"
  by (auto simp: maps_wf_def dest: set_update_subset_insert [THEN subsetD])

lemma maps_wf_nth: "\<lbrakk>maps_wf n ms; j < n\<rbrakk> \<Longrightarrow> ebitmap_wf (ms ! unat j)"
  by (simp add: maps_wf_def word_less_nat_alt)

lemma put_nth: "\<lbrakk>maps_wf n ms; i < n; j < n\<rbrakk> \<Longrightarrow> ms[unat i := m] ! unat j = (if j = i then m else ms ! unat j)"
  by (auto simp: maps_wf_def word_less_nat_alt nth_list_update word_unat_eq_iff)

lemma yields_attr_type_bits:
  "\<lbrakk>maps_wf n at; i < n\<rbrakk> \<Longrightarrow> yields (attr_type_bits n i js at) (\<lambda>at'. maps_wf n at' \<and> (\<forall>j\<in>set js. j < n) \<and>
     (\<forall>j k. j < n \<longrightarrow> (ebitmap_get_bit (at' ! unat j) k \<longleftrightarrow> ebitmap_get_bit (at ! unat j) k \<or> k = i \<and> j \<noteq> i \<and> j \<in> set js)))"
proof (induction js arbitrary: at)
  case Nil
  then show ?case by (simp add: yields_hret)
next
  case (Cons x js)
  show ?case
  proof (cases "i = x \<or> x \<ge> n")
    case True
    note c = True
    show ?thesis
    proof (cases "i = x")
      case True
      then show ?thesis using Cons.prems(2) by (simp, intro yields_weaken [OF Cons.IH [OF Cons.prems, unfolded True]]) auto
    qed (use c in \<open>simp add: yields_hfail\<close>)
  next
    case False
    then have x: "x < n" "x \<noteq> i" by auto
    have "yields (attr_type_bits n i js (at[unat x := m])) (\<lambda>at'. maps_wf n at' \<and> (\<forall>j\<in>set (x # js). j < n) \<and>
       (\<forall>j k. j < n \<longrightarrow> (ebitmap_get_bit (at' ! unat j) k \<longleftrightarrow> ebitmap_get_bit (at ! unat j) k \<or> k = i \<and> j \<noteq> i \<and> j \<in> set (x # js))))"
      if m: "ebitmap_wf m \<and> i < 0xFFFFFFC0 \<and> (\<forall>k. ebitmap_get_bit m k \<longleftrightarrow> (if k = i then (1::u32) \<noteq> 0 else ebitmap_get_bit (at ! unat x) k))" for m
      by (rule yields_weaken [OF Cons.IH [OF maps_wf_put [OF Cons.prems(1)] Cons.prems(2)]])
        (use m x in \<open>auto simp: put_nth [OF Cons.prems(1) x(1)] split: if_splits\<close>)
    then show ?thesis using False x by (auto intro: yields_hbind [OF yields_set_bit [OF maps_wf_nth [OF Cons.prems(1) x(1)]]])
  qed
qed

text \<open>A type that is not an attribute, and the row of a type in the map of attributes.\<close>

definition own_type :: "policydb \<Rightarrow> u32 \<Rightarrow> bool" where
  "own_type p i \<longleftrightarrow> (case type_at p i of None \<Rightarrow> False | Some t \<Rightarrow> flavor t \<noteq> TYPE_ATTRIB)"

definition attr_row :: "policydb \<Rightarrow> u32 \<Rightarrow> ebitmap \<Rightarrow> bool" where
  "attr_row p i m \<longleftrightarrow> ebitmap_wf m \<and> ebitmap_get_bit m i \<and> (\<forall>j. ebitmap_get_bit m j \<longrightarrow> j < nprim (p_types p)) \<and>
     (policyvers p < POLICYDB_VERSION_AVTAB \<longrightarrow> (\<forall>j. ebitmap_get_bit m j \<longrightarrow> j = i))"

definition belongs :: "policydb \<Rightarrow> u32 \<Rightarrow> ebitmap \<Rightarrow> u32 \<Rightarrow> bool" where
  "belongs p i m j \<longleftrightarrow> (if j = i then own_type p i else ebitmap_get_bit m j)"

lemma yields_type_attr_one:
  assumes "maps_wf (nprim (p_types p)) at" "i < nprim (p_types p)"
  shows "yields (type_attr_one p i at) (\<lambda>(m, at'). attr_row p i m \<and> maps_wf (nprim (p_types p)) at' \<and>
    (\<forall>j k. j < nprim (p_types p) \<longrightarrow> (ebitmap_get_bit (at' ! unat j) k \<longleftrightarrow> ebitmap_get_bit (at ! unat j) k \<or> k = i \<and> belongs p i m j)))"
proof -
  let ?n = "nprim (p_types p)"
  define read where "read = (\<lambda>(m, at'). ebitmap_wf m \<and> maps_wf ?n at' \<and> (\<forall>j. ebitmap_get_bit m j \<longrightarrow> j < ?n) \<and>
      (policyvers p < POLICYDB_VERSION_AVTAB \<longrightarrow> (\<forall>j. \<not> ebitmap_get_bit m j)) \<and>
      (\<forall>j k. j < ?n \<longrightarrow> (ebitmap_get_bit (at' ! unat j) k \<longleftrightarrow> ebitmap_get_bit (at ! unat j) k \<or> k = i \<and> j \<noteq> i \<and> ebitmap_get_bit m j)))"
  have r: "yields (rbind ebitmap_read (\<lambda>m. rbind (rhp (attr_type_bits ?n i (ebitmap_positive_bits m) at)) (\<lambda>at1. rret (m, at1)))) read"
    if "\<not> policyvers p < POLICYDB_VERSION_AVTAB"
    by (rule yields_rbind [OF yields_ebitmap_read], rule yields_rbind [OF yields_rhp [OF yields_attr_type_bits [OF assms]]])
      (use that in \<open>intro yields_rret, simp add: read_def positive_bits_iff Ball_def\<close>)
  have z: "read (ebitmap_init, at)"
    using assms(1) by (simp add: read_def ebitmap_init_spec get_bit_bits)
  have m: "yields (\<lambda>h. ebitmap_set_bit h m i 1) (\<lambda>m'. attr_row p i m' \<and> (\<forall>j. j \<noteq> i \<longrightarrow> ebitmap_get_bit m' j = ebitmap_get_bit m j))"
    if "read (m, at')" for m at'
    using that assms(2) by (auto simp: read_def attr_row_def split: if_splits intro!: yields_weaken [OF yields_set_bit])
  have o: "yields (\<lambda>h. ebitmap_set_bit h (at' ! unat i) i 1)
      (\<lambda>x. maps_wf ?n (at'[unat i := x]) \<and> (\<forall>j k. j < ?n \<longrightarrow> ebitmap_get_bit (at'[unat i := x] ! unat j) k = (ebitmap_get_bit (at' ! unat j) k \<or> k = i \<and> j = i)))"
    if "maps_wf ?n at'" for at'
    using that by (intro yields_weaken [OF yields_set_bit [OF maps_wf_nth [OF that assms(2)]]])
      (auto simp: put_nth [OF that assms(2)] maps_wf_put)
  have start: "yields (rbind (if policyvers p \<ge> POLICYDB_VERSION_AVTAB
            then rbind ebitmap_read (\<lambda>m. rbind (rhp (attr_type_bits ?n i (ebitmap_positive_bits m) at)) (\<lambda>at1. rret (m, at1)))
            else rret (ebitmap_init, at)) f) P" if "\<And>x. read x \<Longrightarrow> yields (f x) P" for f P
    by (rule yields_rbind [OF _ that]) (use r z in \<open>auto intro!: yields_intros simp: not_less\<close>)
  show ?thesis
    unfolding type_attr_one_def
    by (rule start, intro yields_prod yields_rbind [OF yields_rhp [OF m]] yields_option yields_if yields_rbind [OF yields_rhp [OF o]] yields_rret)
      (auto simp: read_def belongs_def own_type_def)
qed

lemma yields_type_attr_loop:
  "\<lbrakk>maps_wf (nprim (p_types p)) at; \<forall>i\<in>set is. i < nprim (p_types p)\<rbrakk> \<Longrightarrow>
   yields (type_attr_loop p is at) (\<lambda>(ms, at'). list_all2 (attr_row p) is ms \<and> maps_wf (nprim (p_types p)) at' \<and>
     (\<forall>j k. j < nprim (p_types p) \<longrightarrow> (ebitmap_get_bit (at' ! unat j) k \<longleftrightarrow>
        ebitmap_get_bit (at ! unat j) k \<or> (\<exists>(i, m)\<in>set (zip is ms). k = i \<and> belongs p i m j))))"
proof (induction "is" arbitrary: at)
  case Nil
  then show ?case by (simp add: yields_rret)
next
  case (Cons i "is")
  have i: "i < nprim (p_types p)" "\<forall>i\<in>set is. i < nprim (p_types p)" using Cons.prems(2) by simp_all
  show ?case
    unfolding type_attr_loop.simps
    by (rule yields_rbind [OF yields_type_attr_one [OF Cons.prems(1) i(1)]], rule yields_prod, rule yields_rbind [OF Cons.IH [OF _ i(2)]], simp,
        rule yields_prod, rule yields_rret) auto
qed

text \<open>The two maps of a policy are inverse to each other, apart from the entry of a type for itself.\<close>

definition attr_maps_ok :: "policydb \<Rightarrow> bool" where
  "attr_maps_ok p \<longleftrightarrow> maps_wf (nprim (p_types p)) (type_attr_map p) \<and> maps_wf (nprim (p_types p)) (attr_type_map p) \<and>
     (\<forall>i<nprim (p_types p). attr_row p i (type_attr_map p ! unat i)) \<and>
     (\<forall>j<nprim (p_types p). \<forall>i. ebitmap_get_bit (attr_type_map p ! unat j) i \<longleftrightarrow>
        i < nprim (p_types p) \<and> belongs p i (type_attr_map p ! unat i) j)"

lemma below_nth: "i < n \<Longrightarrow> below n ! unat i = i" "length (below n) = unat n"
  by (simp_all add: below_def word_less_nat_alt)

lemma zip_below:
  assumes "length ms = unat n" shows "(i, m) \<in> set (zip (below n) ms) \<longleftrightarrow> i < n \<and> m = ms ! unat i"
proof
  assume "(i, m) \<in> set (zip (below n) ms)"
  then obtain k where k: "k < unat n" "below n ! k = i" "ms ! k = m" using assms by (auto simp: in_set_zip below_nth)
  then have "i = word_of_nat k" by (simp add: below_def)
  moreover from this have "unat i = k" using k(1) unat_u32_less [of n] by (simp add: unsigned_of_nat take_bit_nat_eq_self)
  ultimately show "i < n \<and> m = ms ! unat i" using k by (simp add: word_less_nat_alt)
next
  assume "i < n \<and> m = ms ! unat i"
  then show "(i, m) \<in> set (zip (below n) ms)"
    using assms by (auto simp: in_set_zip below_nth word_less_nat_alt intro!: exI [of _ "unat i"])
qed

lemma yields_read_type_attrs:
  "yields (read_type_attrs p) (\<lambda>q. (\<exists>ta at. q = p\<lparr>type_attr_map := ta, attr_type_map := at\<rparr>) \<and> (policy_type p = POLICY_KERN \<longrightarrow> attr_maps_ok q))"
proof (cases "policy_type p = POLICY_KERN")
  case False
  have "\<exists>ta at. p = p\<lparr>type_attr_map := ta, attr_type_map := at\<rparr>"
    by (rule exI [of _ "type_attr_map p"], rule exI [of _ "attr_type_map p"]) simp
  then show ?thesis using False by (simp add: read_type_attrs_def yields_rret)
next
  case True
  let ?n = "nprim (p_types p)" and ?at = "replicate (unat (nprim (p_types p))) ebitmap_init"
  have b: "maps_wf ?n ?at" "\<forall>i\<in>set (below ?n). i < ?n" by (auto simp: maps_wf_def ebitmap_init_spec set_below)
  have ok: "attr_maps_ok (p\<lparr>type_attr_map := ms, attr_type_map := at'\<rparr>)"
    if r: "list_all2 (attr_row p) (below ?n) ms" "maps_wf ?n at'"
      "\<forall>j k. j < ?n \<longrightarrow> (ebitmap_get_bit (at' ! unat j) k \<longleftrightarrow>
         ebitmap_get_bit (?at ! unat j) k \<or> (\<exists>(i, m)\<in>set (zip (below ?n) ms). k = i \<and> belongs p i m j))"
    for ms at'
  proof -
    have l: "length ms = unat ?n" using list_all2_lengthD [OF r(1)] by (simp add: below_nth)
    have a: "attr_row p i (ms ! unat i)" if "i < ?n" for i
      using list_all2_nthD [OF r(1), of "unat i"] that by (simp add: below_nth word_less_nat_alt)
    have "ebitmap_wf m" if "m \<in> set ms" for m
      using r(1) that by (auto simp: attr_row_def list_all2_conv_all_nth in_set_conv_nth)
    moreover have "\<not> ebitmap_get_bit (?at ! unat j) k" if "j < ?n" for j k
      using that by (simp add: word_less_nat_alt get_bit_bits ebitmap_init_spec)
    moreover have "(\<exists>(i, m)\<in>set (zip (below ?n) ms). k = i \<and> belongs p i m j) \<longleftrightarrow> k < ?n \<and> belongs p k (ms ! unat k) j" for j k
      using zip_below [OF l] by fastforce
    moreover have "belongs (p\<lparr>type_attr_map := ms, attr_type_map := at'\<rparr>) = belongs p" "attr_row (p\<lparr>type_attr_map := ms, attr_type_map := at'\<rparr>) = attr_row p"
      by (simp_all add: fun_eq_iff belongs_def own_type_def type_at_def attr_row_def)
    ultimately show ?thesis using r(2,3) a l unfolding attr_maps_ok_def maps_wf_def by simp
  qed
  have l: "yields (type_attr_loop p (below ?n) ?at) (\<lambda>(ta, at). attr_maps_ok (p\<lparr>type_attr_map := ta, attr_type_map := at\<rparr>))"
    by (rule yields_weaken [OF yields_type_attr_loop [OF b]], clarify, rule ok)
  have "yields (read_type_attrs p) (\<lambda>q. (\<exists>ta at. q = p\<lparr>type_attr_map := ta, attr_type_map := at\<rparr>) \<and> attr_maps_ok q)"
    unfolding read_type_attrs_def if_not_P [OF not_not [THEN iffD2, OF True]]
    by (rule yields_rskip, rule yields_rskip, rule yields_rbind [OF l], rule yields_prod, rule yields_rret) auto
  then show ?thesis by (rule yields_weaken) simp
qed

subsection \<open>Rules\<close>

text \<open>Observers of a policy that the rules do not change.\<close>

definition rules_frame :: "(policydb \<Rightarrow> 'a) \<Rightarrow> bool" where
  "rules_frame f \<longleftrightarrow>
     (\<forall>s a. f (s\<lparr>te_avtab := a\<rparr>) = f s) \<and> (\<forall>s a. f (s\<lparr>te_cond_avtab := a\<rparr>) = f s) \<and> (\<forall>s a. f (s\<lparr>cond_list := a\<rparr>) = f s) \<and>
     (\<forall>s a. f (s\<lparr>role_tr := a\<rparr>) = f s) \<and> (\<forall>s a. f (s\<lparr>role_allows := a\<rparr>) = f s) \<and>
     (\<forall>s a. f (s\<lparr>filename_trans := a\<rparr>) = f s) \<and> (\<forall>s a. f (s\<lparr>filename_trans_count := a\<rparr>) = f s) \<and>
     (\<forall>s a. f (s\<lparr>p_scope := a\<rparr>) = f s) \<and> (\<forall>s a. f (s\<lparr>global := a\<rparr>) = f s)"

lemma yields_cond_items:
  assumes "\<And>s a. f (s\<lparr>te_cond_avtab := a\<rparr>) = f s"
  shows "yields (cond_read_items other n ps) (\<lambda>qs. f (fst qs) = f (fst ps))"
proof (induction n arbitrary: ps)
  case (Suc n)
  have i: "f (fst ps') = f (fst ps)" if r: "cond_insertf other k d ps s = (Inr ps', s')" for k d ps s ps' s'
  proof -
    obtain p acc where ps: "ps = (p, acc)" by fastforce
    obtain a t' where "ps' = (p\<lparr>te_cond_avtab := t'\<rparr>, acc @ [a])"
      using r unfolding ps cond_insertf_def
      by (auto split: if_splits option.splits prod.splits bool.splits list.splits)
    then show ?thesis using ps assms by simp
  qed
  have "yields (avtab_read_item v (cond_insertf other) ps) (\<lambda>qs. f (fst qs) = f (fst ps))" for v ps
  proof (rule yieldsI)
    fix s x s' assume r: "avtab_read_item v (cond_insertf other) ps s = (Inr x, s')"
    show "f (fst x) = f (fst ps)"
      by (rule read_item_keeps [OF _ r, where I = "\<lambda>qs. f (fst qs) = f (fst ps)"]) (auto dest: i)
  qed
  note item = this
  show ?case unfolding cond_read_items.simps by (rule yields_rbind [OF item], rule yields_weaken [OF Suc]) simp
qed (simp add: yields_rret)

lemma yields_cond_rules:
  assumes "\<And>s a. f (s\<lparr>te_cond_avtab := a\<rparr>) = f s"
  shows "yields (cond_read_rules p n) (\<lambda>qs. f (fst qs) = f p)"
proof -
  have l: "yields (cond_read_av_list p other) (\<lambda>qs. f (fst qs) = f p)" for p other
    unfolding cond_read_av_list_def
    by (intro yields_rskip yields_if yields_rret) (use yields_cond_items [OF assms, where ps = "(p, [])"] in simp_all)
  show ?thesis
    unfolding cond_read_rules_def
    by (rule yields_if, rule yields_rbind [OF l], rule yields_prod, rule yields_rbind [OF l], intro yields_intros, simp,
        intro yields_steps) simp_all
qed

lemma yields_cond_list:
  assumes "\<And>s a. f (s\<lparr>te_cond_avtab := a\<rparr>) = f s"
  shows "yields (cond_read_list p) (\<lambda>qs. f (fst qs) = f p)"
proof -
  have node: "yields (cond_read_node p) (\<lambda>qs. f (fst qs) = f p)" for p
    unfolding cond_read_node_def by (intro yields_rerr yields_rskip yields_cond_rules assms)
  have "yields (cond_read_nodes n p) (\<lambda>qs. f (fst qs) = f p)" for n p
  proof (induction n arbitrary: p)
    case (Suc n)
    show ?case
      unfolding cond_read_nodes.simps
      by (rule yields_rskip, rule yields_rbind [OF node], rule yields_prod, rule yields_rbind [OF Suc], rule yields_prod, rule yields_rret) simp
  qed (simp add: yields_rret)
  then show ?thesis unfolding cond_read_list_def using assms by (intro yields_rerr yields_rskip) metis
qed

lemma filetrans_insert_frame:
  assumes "\<And>s a. f (s\<lparr>filename_trans := a\<rparr>) = f s" "\<And>s a. f (s\<lparr>filename_trans_count := a\<rparr>) = f s"
    and "policydb_filetrans_insert p st tt tc name al ot h = (r, o', q, h')"
  shows "f q = f p"
  using assms(3)
  by (auto simp: policydb_filetrans_insert_def filetrans_set_bit_def Let_def assms(1,2)
      split: sum.splits prod.splits bool.splits list.splits if_splits)

lemma yields_filename_trans:
  assumes "\<And>s a. f (s\<lparr>filename_trans := a\<rparr>) = f s" "\<And>s a. f (s\<lparr>filename_trans_count := a\<rparr>) = f s"
  shows "yields (filename_trans_read p) (\<lambda>q. f q = f p)"
proof -
  have "yields (filename_trans_read_one_compat q) (\<lambda>q'. f q' = f p)" if "f q = f p" for q
    unfolding filename_trans_read_one_compat_def
    by (intro yields_steps yieldsI) (use that in \<open>auto split: sum.splits prod.splits if_splits dest: filetrans_insert_frame [OF assms]\<close>)
  moreover have "yields (filename_trans_read_one q) (\<lambda>q'. f q' = f p)" if "f q = f p" for q
    unfolding filename_trans_read_one_def by (intro yields_steps) (simp add: assms that)
  ultimately show ?thesis
    unfolding filename_trans_read_def by (intro yields_rskip yields_rtimes) auto
qed

lemma yields_kernel_rules:
  assumes "ahtable (te_cond_avtab p) = None" "avtab_ok (te_cond_avtab p)" "rules_frame f"
  shows "yields (read_kernel_rules p) (\<lambda>q. f q = f p \<and> tables_ok q)"
proof -
  have a: "yields (avtab_read (te_avtab p) v) avtab_ok" for v
    by (rule yieldsI) (auto dest: avtab_read_wf simp: avtab_wf_def)
  define K where "K = (\<lambda>q. f q = f p \<and> tables_ok q)"
  have c: "yields (cond_read_list q) (\<lambda>(q', cl). K q')" if "f q = f p" "te_cond_avtab q = te_cond_avtab p" "avtab_ok (te_avtab q)" for q
  proof (rule yieldsI)
    fix s x s' assume r: "cond_read_list q s = (Inr x, s')"
    obtain q' cl where x: "x = (q', cl)" by fastforce
    have "q' = q\<lparr>te_cond_avtab := te_cond_avtab q'\<rparr>" "avtab_ok (te_cond_avtab q')"
      using cond_read_list_spec [OF r [unfolded x]] that(2) assms(1) by simp_all
    note e = this
    have "f q' = f (q\<lparr>te_cond_avtab := te_cond_avtab q'\<rparr>)" "te_avtab q' = te_avtab (q\<lparr>te_cond_avtab := te_cond_avtab q'\<rparr>)"
      using e(1) by (rule arg_cong)+
    then have "K q'" using that(1,3) assms(3) e(2) unfolding rules_frame_def K_def tables_ok_def by simp
    then show "case x of (q', cl) \<Rightarrow> K q'" by (simp add: x)
  qed
  have t: "yields (filename_trans_read q) K" if "K q" for q
    by (rule yields_weaken [OF yields_filename_trans [where f = "\<lambda>q. (f q, te_avtab q, te_cond_avtab q)"]])
      (use assms(3) that in \<open>auto simp: rules_frame_def K_def tables_ok_def\<close>)
  have k: "K (q\<lparr>cond_list := cl\<rparr>) = K q" "K (q\<lparr>role_tr := rt, role_allows := ra\<rparr>) = K q" for q cl rt ra
    using assms(3) by (simp_all add: K_def rules_frame_def tables_ok_def)
  have cl: "yields (if b then rbind (cond_read_list q) (\<lambda>(p1, cl). rret (p1\<lparr>cond_list := cl\<rparr>)) else rret q) K"
    if "f q = f p" "te_cond_avtab q = te_cond_avtab p" "avtab_ok (te_avtab q)" for q b
    by (rule yields_if, rule yields_rbind [OF c [OF that]], rule yields_prod, rule yields_rret)
      (use that assms(2) in \<open>simp_all add: k, intro yields_rret, simp add: K_def tables_ok_def\<close>)
  have rest: "yields (rbind (role_trans_read q) (\<lambda>rt. rbind role_allow_read (\<lambda>ra. let q = q\<lparr>role_tr := rt, role_allows := ra\<rparr> in
     if policyvers q \<ge> POLICYDB_VERSION_FILENAME_TRANS then filename_trans_read q else rret q))) K" if "K q" for q
    by (rule yields_rskip, rule yields_rskip, rule yields_let, rule yields_if, rule t) (simp_all add: k that yields_rret)
  have "f (p\<lparr>te_avtab := a\<rparr>) = f p" for a using assms(3) by (simp add: rules_frame_def)
  then have "yields (read_kernel_rules p) K"
    unfolding read_kernel_rules_def
    by (intro yields_rbind [OF a] yields_let yields_rbind [OF cl] rest) simp_all
  then show ?thesis by (simp add: K_def)
qed

end
