(* ===== verification/Policy_Laws.thy ===== *)
theory Policy_Laws
  imports Stage_Laws
begin

section \<open>What an accepted policy satisfies\<close>

text \<open>
  The stages of policydb_read put together: every policy that the reader accepts has well-formed
  tables, complete indexes and caches, valid object contexts and ordered generated file systems; a
  kernel policy also has well-formed rule tables and maps of attributes. The second half adds what
  the validation at the end of the reader rules out.
\<close>

subsection \<open>Start and header\<close>

text \<open>The policy that the caller prepares: empty lists and rule tables, well-formed symbol tables.\<close>

definition no_contexts :: "policydb \<Rightarrow> bool" where
  "no_contexts p \<longleftrightarrow> genfs_list p = [] \<and> ocontexts p = replicate OCON_NUM []"

definition fresh_policy :: "policydb \<Rightarrow> bool" where
  "fresh_policy p \<longleftrightarrow> tables_wf p \<and> ahtable (te_cond_avtab p) = None \<and> avtab_ok (te_cond_avtab p) \<and> no_contexts p"

lemmas fresh_defs = fresh_policy_def tables_wf_def no_contexts_def

lemma yields_read_ident: "fresh_policy p \<Longrightarrow> yields (read_ident p) (\<lambda>(k, q). fresh_policy q)"
  unfolding read_ident_def by (intro yields_steps) (simp_all add: fresh_defs)

lemma yields_read_sizes: "fresh_policy p \<Longrightarrow> yields (read_sizes k p) (\<lambda>(i, q). fresh_policy q)"
  unfolding read_sizes_def by (intro yields_steps) (simp_all add: fresh_defs)

lemma yields_read_options:
  assumes "fresh_policy p" shows "yields (read_options p) fresh_policy"
  unfolding read_options_def
  by (intro yields_rbind [where Q = fresh_policy] yields_steps) (use assms in \<open>simp_all add: fresh_defs\<close>)

subsection \<open>Symbol tables\<close>

lemma yields_symtabs_fresh: "fresh_policy p \<Longrightarrow> yields (symtabs_read n i p) fresh_policy"
proof (induction n arbitrary: i p)
  case (Suc n)
  have f: "yields (policy_table_read i np m p) (\<lambda>q. te_cond_avtab q = te_cond_avtab p \<and> no_contexts q = no_contexts p)" for i np m
    unfolding policy_table_read_def by (intro yields_steps) (simp_all add: no_contexts_def)
  have "tables_wf p" using Suc.prems by (simp add: fresh_policy_def)
  note t = yields_conj [OF yields_policy_table [OF this] f]
  have "yields (policy_table_read i np m p) fresh_policy" for i np m
    by (rule yields_weaken [OF t]) (use Suc.prems in \<open>simp add: fresh_policy_def\<close>)
  then show ?case
    unfolding symtabs_read.simps by (intro yields_rbind [where Q = fresh_policy] Suc.IH yields_intros yields_rskip)
qed (simp add: yields_rret)

lemma set_classes_fresh: "fresh_policy (set_classes p) = fresh_policy p"
  by (simp add: set_classes_def fresh_defs)

subsection \<open>Rules of modules\<close>

lemma yields_module_rules:
  assumes "rules_frame f" shows "yields (read_module_rules n p) (\<lambda>q. f q = f p)"
proof -
  have c: "yields (cond_read_list p) (\<lambda>qs. f (fst qs) = f p)" for p
    using assms by (intro yields_cond_list) (simp add: rules_frame_def)
  have d: "yields (avrule_decl_read p decl n) (\<lambda>qs. f (fst qs) = f p)" for p decl
    unfolding avrule_decl_read_def by (rule yields_rerr, rule yields_rskip, rule yields_rbind [OF c], intro yields_steps) auto
  have b: "yields (block_decls n m pb) (\<lambda>qb. f (fst qb) = f (fst pb))" for m pb
  proof (induction m arbitrary: pb)
    case (Suc m)
    show ?case
      unfolding block_decls.simps
      by (intro yields_prod yields_rskip [of _ _ "rhp (avrule_decl_create 0)"] yields_rbind [OF d] yields_intros)
        (rule yields_weaken [OF Suc], auto)
  qed (simp add: yields_rret)
  have r: "yields (read_blocks n m first p) (\<lambda>qb. f (fst qb) = f p)" for m first p
  proof (induction m arbitrary: first p)
    case (Suc m)
    show ?case
      unfolding read_blocks.simps
      by (rule yields_rskip, rule yields_rskip, rule yields_rbind [OF b], rule yields_prod, rule yields_rbind [OF Suc], rule yields_prod, rule yields_rret)
        auto
  qed (simp add: yields_rret)
  have s: "yields (scopes_read m i p) (\<lambda>q. f q = f p)" for m i p
  proof (induction m arbitrary: i p)
    case (Suc m)
    have "yields (scope_read i q) (\<lambda>q'. f q' = f p)" if "f q = f p" for q
      unfolding scope_read_def by (intro yields_steps) (use that assms in \<open>simp_all add: rules_frame_def\<close>)
    then have "yields (rtimes k (scope_read i) p) (\<lambda>q. f q = f p)" for k by (intro yields_rtimes) auto
    then show ?case
      unfolding scopes_read.simps by (rule yields_rskip [OF yields_rbind], intro yields_weaken [OF Suc]) auto
  qed (simp add: yields_rret)
  show ?thesis
    unfolding read_module_rules_def avrule_block_read_def
    by (rule yields_rbind [OF yields_rerr [OF yields_rskip [OF r]]], intro yields_prod yields_if yields_rfail yields_weaken [OF s])
      (use assms in \<open>auto simp: rules_frame_def\<close>)
qed

subsection \<open>Classes\<close>

definition classes_ix :: "policydb \<Rightarrow> bool" where
  "classes_ix p \<longleftrightarrow>
     names_inverse (table (p_commons p)) (nprim (p_commons p)) common_value (\<lambda>_. False) (p_common_val_to_name p) \<and>
     indexes (table (p_classes p)) (nprim (p_classes p)) class_value (\<lambda>_. False) (p_class_val_to_name p) (class_val_to_struct p)"

definition class_frame :: "(policydb \<Rightarrow> 'a) \<Rightarrow> bool" where
  "class_frame f \<longleftrightarrow> (\<forall>s a. f (s\<lparr>p_common_val_to_name := a\<rparr>) = f s) \<and> (\<forall>s a. f (s\<lparr>p_class_val_to_name := a\<rparr>) = f s) \<and>
     (\<forall>s a. f (s\<lparr>class_val_to_struct := a\<rparr>) = f s)"

lemma common_walk:
  assumes "map_symbols (table (p_commons p)) common_index (p\<lparr>p_common_val_to_name := nulls (p_commons p)\<rparr>) = Inr q" "symbols_ok (p_commons p)"
  shows "names_inverse (table (p_commons p)) (nprim (p_commons p)) common_value (\<lambda>_. False) (p_common_val_to_name q) \<and>
    q = p\<lparr>p_common_val_to_name := p_common_val_to_name q\<rparr>"
proof -
  obtain t where t: "table (p_commons p) = Some t" "table_ok symhash symcmp t" using assms(2) by (auto simp: symbols_ok_def)
  define K where "K s \<longleftrightarrow> s\<lparr>p_common_val_to_name := []\<rparr> = p\<lparr>p_common_val_to_name := []\<rparr>" for s
  have k: "K (s\<lparr>p_common_val_to_name := a\<rparr>) = K s" "K p" for s a by (simp_all add: K_def)
  have "K q" by (rule map_symbols_keeps [OF assms(1)]) (auto simp: common_index_def k split: if_splits)
  then have e: "q\<lparr>p_common_val_to_name := []\<rparr> = p\<lparr>p_common_val_to_name := []\<rparr>" by (simp only: K_def)
  have "q = (q\<lparr>p_common_val_to_name := []\<rparr>)\<lparr>p_common_val_to_name := p_common_val_to_name q\<rparr>" by simp
  also have "\<dots> = (p\<lparr>p_common_val_to_name := []\<rparr>)\<lparr>p_common_val_to_name := p_common_val_to_name q\<rparr>" by (simp only: e)
  also have "\<dots> = p\<lparr>p_common_val_to_name := p_common_val_to_name q\<rparr>" by simp
  finally have "q = p\<lparr>p_common_val_to_name := p_common_val_to_name q\<rparr>" .
  moreover have "names_inverse (table (p_commons p)) (nprim (p_commons p)) common_value (\<lambda>_. False) (p_common_val_to_name q)"
    using commons.index_names [OF assms(1) [unfolded t(1)] t(2)] unfolding names_inverse_def t(1) sym.search_abs [OF t(2)] by (simp add: nulls_def)
  ultimately show ?thesis by blast
qed

lemma class_walk:
  assumes "map_symbols (table (p_classes p)) class_index (p\<lparr>class_val_to_struct := nulls (p_classes p), p_class_val_to_name := nulls (p_classes p)\<rparr>) = Inr q"
    and "symbols_ok (p_classes p)"
  shows "indexes (table (p_classes p)) (nprim (p_classes p)) class_value (\<lambda>_. False) (p_class_val_to_name q) (class_val_to_struct q) \<and>
    q\<lparr>p_class_val_to_name := [], class_val_to_struct := []\<rparr> = p\<lparr>p_class_val_to_name := [], class_val_to_struct := []\<rparr>"
proof -
  obtain t where t: "table (p_classes p) = Some t" "table_ok symhash symcmp t" using assms(2) by (auto simp: symbols_ok_def)
  define K where "K s \<longleftrightarrow> s\<lparr>p_class_val_to_name := [], class_val_to_struct := []\<rparr> = p\<lparr>p_class_val_to_name := [], class_val_to_struct := []\<rparr>" for s
  have k: "K (s\<lparr>class_val_to_struct := a, p_class_val_to_name := b\<rparr>) = K s" "K (s\<lparr>p_class_val_to_name := b, class_val_to_struct := a\<rparr>) = K s" "K p"
    for s a b by (simp_all add: K_def)
  have "K q" by (rule map_symbols_keeps [OF assms(1)]) (auto simp: class_index_def k split: if_splits)
  then show ?thesis unfolding K_def using classes.index_inverse [OF assms(1) [unfolded t(1)] t(2)] by (simp add: nulls_def t(1))
qed

lemma yields_index_classes:
  assumes "tables_wf p" "class_frame f"
  shows "yields (policydb_index_classes p) (\<lambda>q. classes_ix q \<and> f q = f p)"
proof -
  have s: "symbols_ok (p_commons p)" "symbols_ok (p_classes p)" using assms(1) by (auto simp: tables_wf_def intro: tab_all_symbols)
  have two: "classes_ix q \<and> f q = f p"
    if c: "map_symbols (table (p_commons p)) common_index (p\<lparr>p_common_val_to_name := nulls (p_commons p)\<rparr>) = Inr p1"
      and d: "map_symbols (table (p_classes p1)) class_index (p1\<lparr>class_val_to_struct := nulls (p_classes p1), p_class_val_to_name := nulls (p_classes p1)\<rparr>) = Inr q"
    for p1 q
  proof -
    obtain a where p1: "p1 = p\<lparr>p_common_val_to_name := a\<rparr>"
      "names_inverse (table (p_commons p)) (nprim (p_commons p)) common_value (\<lambda>_. False) a"
      using common_walk [OF c s(1)] by blast
    have "symbols_ok (p_classes p1)" using s(2) p1(1) by simp
    note w = class_walk [OF d this]
    note e = w [THEN conjunct2]
    have p: "g q = g p1" if "\<And>s a. g (s\<lparr>p_class_val_to_name := a\<rparr>) = g s" "\<And>s a. g (s\<lparr>class_val_to_struct := a\<rparr>) = g s"
      for g :: "policydb \<Rightarrow> 'a \<times> class_datum symtab \<times> common_datum symtab \<times> cstring option list"
      using arg_cong [OF e, of g] by (simp only: that)
    have "(f q, p_classes q, p_commons q, p_common_val_to_name q) = (f p1, p_classes p1, p_commons p1, p_common_val_to_name p1)"
      by (rule p) (use assms(2) in \<open>simp_all add: class_frame_def\<close>)
    moreover have "f p1 = f p" using assms(2) by (simp add: class_frame_def p1(1))
    ultimately show ?thesis using w [THEN conjunct1] p1 by (simp add: classes_ix_def)
  qed
  show ?thesis
    unfolding policydb_index_classes_def Let_def
    by (rule yields_hskip, rule yields_hbind [OF yields_hlift [where P = "\<lambda>p1. map_symbols (table (p_commons p)) common_index (p\<lparr>p_common_val_to_name := nulls (p_commons p)\<rparr>) = Inr p1"]],
        simp, intro yields_hskip yields_hlift two) auto
qed

subsection \<open>The whole reader\<close>

definition core_ok :: "policydb \<Rightarrow> bool" where
  "core_ok p \<longleftrightarrow> indexed_policy p \<and> classes_ix p \<and> (policy_type p = POLICY_KERN \<longrightarrow> tables_ok p)"

definition accepted :: "policydb \<Rightarrow> bool" where
  "accepted p \<longleftrightarrow> core_ok p \<and> length (ocontexts p) = OCON_NUM \<and> ocons_ok p (ocontexts p) \<and> genfs_ok p (genfs_list p) \<and>
     (policy_type p = POLICY_KERN \<longrightarrow> attr_maps_ok p)"

lemma cached_frame:
  assumes "type_val_to_struct q = type_val_to_struct p" "nprim (p_types q) = nprim (p_types p)" "nprim (p_roles q) = nprim (p_roles p)"
  shows "role_cached q = role_cached p" "user_cached q = user_cached p"
proof -
  have "type_set_denotes q = type_set_denotes p"
    by (intro ext) (simp add: type_set_denotes_def stands_for_def is_attribute_def type_at_def assms)
  then show "role_cached q = role_cached p" by (intro ext) (simp add: role_cached_def)
  show "user_cached q = user_cached p" by (intro ext) (simp add: user_cached_def role_set_denotes_def assms(3))
qed

lemmas core_defs = core_ok_def indexed_policy_def all_ix_def ix_defs tables_wf_def classes_ix_def tables_ok_def

lemma core_frame:
  "core_ok (p\<lparr>ocontexts := a\<rparr>) = core_ok p" "core_ok (p\<lparr>genfs_list := b\<rparr>) = core_ok p"
  "core_ok (p\<lparr>range_tr := c, global := d\<rparr>) = core_ok p" "core_ok (p\<lparr>type_attr_map := e, attr_type_map := f\<rparr>) = core_ok p"
proof -
  have r: "role_cached (p\<lparr>ocontexts := a\<rparr>) = role_cached p" "role_cached (p\<lparr>genfs_list := b\<rparr>) = role_cached p"
      "role_cached (p\<lparr>range_tr := c, global := d\<rparr>) = role_cached p" "role_cached (p\<lparr>type_attr_map := e, attr_type_map := f\<rparr>) = role_cached p"
    by (rule cached_frame; simp)+
  have u: "user_cached (p\<lparr>ocontexts := a\<rparr>) = user_cached p" "user_cached (p\<lparr>genfs_list := b\<rparr>) = user_cached p"
      "user_cached (p\<lparr>range_tr := c, global := d\<rparr>) = user_cached p" "user_cached (p\<lparr>type_attr_map := e, attr_type_map := f\<rparr>) = user_cached p"
    by (rule cached_frame; simp)+
  show "core_ok (p\<lparr>ocontexts := a\<rparr>) = core_ok p" "core_ok (p\<lparr>genfs_list := b\<rparr>) = core_ok p"
    "core_ok (p\<lparr>range_tr := c, global := d\<rparr>) = core_ok p" "core_ok (p\<lparr>type_attr_map := e, attr_type_map := f\<rparr>) = core_ok p"
    unfolding core_defs r u by simp_all
qed

lemma yields_last_stages:
  assumes "core_ok p" "no_contexts p"
  shows "yields (rbind (ocontext_read n p) (\<lambda>p. rbind (genfs_read p) (\<lambda>p. rbind (read_ranges p) read_type_attrs))) accepted"
proof -
  define K where "K p \<longleftrightarrow> core_ok p \<and> length (ocontexts p) = OCON_NUM \<and> ocons_ok p (ocontexts p)" for p
  define L where "L p \<longleftrightarrow> K p \<and> genfs_ok p (genfs_list p)" for p
  have f: "ocons_ok (p\<lparr>genfs_list := b\<rparr>) = ocons_ok p" "ocons_ok (p\<lparr>range_tr := c, global := d\<rparr>) = ocons_ok p"
      "ocons_ok (p\<lparr>type_attr_map := e, attr_type_map := f\<rparr>) = ocons_ok p"
      "genfs_ok (p\<lparr>genfs_list := b\<rparr>) = genfs_ok p" "genfs_ok (p\<lparr>range_tr := c, global := d\<rparr>) = genfs_ok p"
      "genfs_ok (p\<lparr>type_attr_map := e, attr_type_map := f\<rparr>) = genfs_ok p" for p b c d e f
    using valid_frame(3,4) by (auto simp: fun_eq_iff ocons_ok_def ocon_ok_def genfs_ok_def heads_ok_def valid_frame)
  have 1: "yields (ocontext_read n p) (\<lambda>q. K q \<and> genfs_list q = [])"
    by (rule yields_weaken [OF yields_ocontext_read])
      (use assms in \<open>auto simp: K_def no_contexts_def core_frame ocons_frame, simp add: ocons_ok_def\<close>)
  have 2: "yields (genfs_read q) L" if "K q \<and> genfs_list q = []" for q
    by (rule yields_weaken [OF yields_genfs_read]) (use that in \<open>auto simp: L_def K_def core_frame f\<close>, simp add: genfs_ok_def)
  have 3: "yields (read_ranges q) L" if "L q" for q
    unfolding read_ranges_def
    by (intro yields_if yields_rret that, rule yields_weaken [OF yields_range_read]) (use that in \<open>auto simp: L_def K_def core_frame f\<close>)
  have 4: "yields (read_type_attrs q) accepted" if "L q" for q
    by (rule yields_weaken [OF yields_read_type_attrs]) (use that in \<open>auto simp: accepted_def L_def K_def core_frame f\<close>)
  show ?thesis by (rule yields_rbind [OF 1], rule yields_rbind [OF 2], assumption, rule yields_rbind [OF 3], assumption, rule 4)
qed

text \<open>What holds after the rules, and what each of the following stages keeps of it.\<close>

definition rules_ok :: "policydb \<Rightarrow> bool" where
  "rules_ok p \<longleftrightarrow> tables_wf p \<and> no_contexts p \<and> (policy_type p = POLICY_KERN \<longrightarrow> tables_ok p)"

lemma yields_rules:
  assumes "fresh_policy p"
  shows "yields (if policy_type p = POLICY_KERN then read_kernel_rules p else read_module_rules n p) rules_ok"
proof -
  let ?f = "\<lambda>q. (tables_wf q, no_contexts q, policy_type q)"
  have f: "rules_frame ?f" by (simp add: rules_frame_def tables_wf_def no_contexts_def)
  show ?thesis
    by (rule yields_if, rule yields_weaken [OF yields_kernel_rules [OF _ _ f]], use assms in \<open>simp add: fresh_policy_def\<close>,
        use assms in \<open>simp add: fresh_policy_def\<close>, use assms in \<open>simp add: rules_ok_def fresh_policy_def\<close>,
        rule yields_weaken [OF yields_module_rules [OF f]], use assms in \<open>simp add: rules_ok_def fresh_policy_def\<close>)
qed

lemma yields_index_decls: "rules_ok p \<Longrightarrow> yields (policydb_index_decls p) rules_ok"
  unfolding policydb_index_decls_def
  by (intro yields_intros yields_hskip) (simp add: rules_ok_def tables_wf_def no_contexts_def tables_ok_def)

lemma yields_index_rules:
  assumes "rules_ok p" shows "yields (policydb_index_classes p) (\<lambda>q. classes_ix q \<and> rules_ok q)"
proof -
  have "class_frame rules_ok" by (simp add: class_frame_def rules_ok_def tables_wf_def no_contexts_def tables_ok_def)
  moreover have "tables_wf p" using assms by (simp add: rules_ok_def)
  ultimately show ?thesis using yields_index_classes [of p rules_ok] assms by simp
qed

lemma set_transitions_keeps: "set_transitions p = Inr q \<Longrightarrow> classes_ix q = classes_ix p \<and> rules_ok q = rules_ok p"
  by (auto simp: set_transitions_def classes_ix_def rules_ok_def tables_wf_def no_contexts_def tables_ok_def split: if_splits sum.splits)

lemma yields_index_core:
  assumes "classes_ix p" "rules_ok p" shows "yields (policydb_index_others p) (\<lambda>q. core_ok q \<and> no_contexts q)"
proof -
  let ?f = "\<lambda>q. (classes_ix q, no_contexts q, policy_type q = POLICY_KERN \<longrightarrow> tables_ok q)"
  have t: "tables_wf p" using assms(2) by (simp add: rules_ok_def)
  have "yields (policydb_index_others p) (\<lambda>q. ?f q = ?f p \<and> nprim (p_roles q) = nprim (p_roles p) \<and> nprim (p_users q) = nprim (p_users p))"
    by (rule index_others_frame [OF _ _ _ t]) (simp_all add: index_frame_def classes_ix_def no_contexts_def tables_ok_def)
  from yields_conj [OF index_others_ix [OF t] this] show ?thesis
    by (rule yields_weaken) (use assms in \<open>simp add: core_ok_def rules_ok_def\<close>)
qed

lemma read_parts_accepted:
  assumes "fresh_policy p" shows "yields (policydb_read_parts p) accepted"
proof -
  have m: "yields (rbind (rhp (policydb_index_decls q)) (\<lambda>q. rbind (rhp (policydb_index_classes q)) (\<lambda>q. rbind (rlift (set_transitions q)) (\<lambda>q.
      rbind (rhp (policydb_index_others q)) (\<lambda>q. rbind (ocontext_read n q) (\<lambda>q. rbind (genfs_read q) (\<lambda>q. rbind (read_ranges q) read_type_attrs))))))) accepted"
    if "rules_ok q" for q n
    by (rule yields_rbind [OF yields_rhp [OF yields_index_decls [OF that]]], rule yields_rbind [OF yields_rhp [OF yields_index_rules]], assumption,
        rule yields_rbind [OF yields_rlift [where P = "\<lambda>q. classes_ix q \<and> rules_ok q"]], simp add: set_transitions_keeps,
        rule yields_rbind [OF yields_rhp [OF yields_index_core]], simp, simp, rule yields_last_stages) simp_all
  show ?thesis
    unfolding policydb_read_parts_def Let_def
    by (rule yields_rbind [OF yields_read_ident [OF assms]], rule yields_prod, rule yields_rbind [OF yields_read_sizes], simp, rule yields_prod,
        rule yields_rbind [OF yields_read_options], simp, rule yields_rbind [OF yields_symtabs_fresh], assumption,
        rule yields_rbind [OF yields_rules], simp add: set_classes_fresh, rule m)
qed

end
