(* ===== verification/Spec2Isabelle.thy ===== *)
theory Spec2Isabelle
  imports Ebitmap_Props Table_Props Policy_Props Access_Props Policy_Laws
begin

section \<open>The policy engine of libsepol\<close>

text \<open>
  The repository is the user space of SELinux. At its centre is libsepol, which holds a security
  policy in memory, reads its binary form, and decides requests against it; the other parts
  (libselinux, libsemanage, the compilers and the tools) manage files, processes and text around
  it. This development models the decision path of libsepol, from sets of bits up to the
  functions of the security server, for kernel policies.

  \<^bold>\<open>Parts and theories.\<close> The order is that of the code, each part over the ones before it.

  \<^item> Sepol_Prelude: machine words, error numbers, memory as a list of the outcomes of the coming
    allocations (the empty list: every allocation succeeds), collections of simplification rules.
  \<^item> Ebitmap, Ebitmap_Laws, Ebitmap_IO (ebitmap.c): extensible bitmaps as lists of 64-bit blocks.
    Policy_File (services.c, private.h): reading and writing a policy image, in the reader type
    rd and the writer type wr that the binary formats use.
  \<^item> Hashtab, Hashtab_Laws, Symtab (hashtab.c, symtab.c): chained hash tables and symbol tables. A
    chain is a list, a null table is None, the callbacks of a table are fields of its record.
  \<^item> Avtab, Avtab_Laws, Avtab_IO (avtab.c): access vector tables with their binary format, for all
    policy versions.
  \<^item> Mls_Types, Mls, Mls_Laws (mls_types.h, context.h, mls.c): levels, ranges, their order, their
    text, the computation of the range of a new context. Mls_Types also has the type hp of
    functions that allocate.
  \<^item> Policydb (policydb.h, conditional.h, constraint.h): the record of the policy database, with
    the fields that the modelled functions read.
  \<^item> Security_Context (context.c, context_record.c): validity and text of contexts. Sidtab
    (sidtab.c): the numbering of contexts; its use over time is the step relation sid_step.
  \<^item> Conditional, Conditional_Laws (conditional.c): conditional rules.
  \<^item> Constraint (services.c, constraint_expr_eval_reason): the stack evaluator of constraints.
  \<^item> Services, Services_Laws (services.c): access decisions, validation of transitions, contexts of
    new objects. Ocontexts: the labels of ports, nodes, file systems and devices. Reload,
    Reload_Laws: the change of policy, and the contexts a user can reach.
  \<^item> Ebitmap_Props, Table_Props, Mls_Props, Policy_Props, Access_Props: the properties, each with a
    concrete instance.

  \<^bold>\<open>How the code appears.\<close> A C structure is a record with the same fields; the pointers between
  entries of a list become a HOL list; a negative return is Inl of an error number, where EFAIL
  stands for a plain -1 and EFAULT for the access through a null pointer that the C program
  would make. Unsigned integers keep their width and wrap around. A function that allocates takes
  the memory and returns the rest of it, so that every failure of an allocation is a branch.
  The global variables policydb and sidtab of services.c are the record services. A function that
  may recurse without end is a partial function whose value None is not returning.

  \<^bold>\<open>Interfaces.\<close> The locales state what a part promises to its clients, and each is interpreted on
  the model: codec and bitset for bitmaps, hash_keys and assoc_table for hash tables (symbols,
  range transitions, filename transitions), dominance for levels, label_lookup for the functions
  that label an object.

  \<^bold>\<open>What is shown.\<close> Bitmaps implement sets, hash tables finite maps, and access vector tables
  sorted multisets of rules; what the readers accept is well-formed, and what is written is read
  back. Dominance is a partial order, computed ranges are valid, and texts of ranges and contexts
  are read back. An accepted context is one the policy authorises; the numbering of contexts is
  one to one and stable. Conditional expressions have the value of their tree, and exactly the
  rules they select are enabled. A permission is granted exactly if rules, constraints, role
  changes and type bounds permit it; the decision is reached if the bounds have no cycle. The
  identifiers of new objects and of ports stand for accepted contexts. A change of policy keeps
  the meaning of class values, permission values and surviving identifiers. The properties of
  the kind error and liveness exhibit inputs on which the code does not do what it means to do.

  \<^bold>\<open>Bounds and fuel.\<close> hashtab_grow has fuel 32 because a 32-bit size can be doubled at most 31
  times before it wraps, and the lemma grow_done shows that the loop has ended by then. The
  number of slots of an access vector table, the depth of the two stacks and the number of
  booleans of a truth table are the constants of the source.

  \<^bold>\<open>Not modelled.\<close> The reader and writer of whole policies and of modules (policydb.c, write.c,
  module.c) beyond the parts named above, validation (policydb_validate.c), linking and expansion
  of modules, the decompilers, the record interface for management tools, the compiler for the
  intermediate language under cil, and the explanation texts of decisions. Everything outside
  libsepol: libselinux talks to the kernel through files and extended attributes and matches paths
  with an external library for regular expressions; libsemanage, the tools, the Python programs
  and the graphical interfaces work on files, processes and toolkits. Memory that is released,
  and what a null or dangling pointer holds, is not represented.
\<close>

end
